(* ===== verification/Prelude.thy ===== *)
theory Prelude
  imports Main "HOL-Library.AList" "HOL-Library.Char_ord" "HOL-Library.List_Lexorder"
begin

text \<open>
  Shared vocabulary of the development.

  \<^item> \<open>result\<close>: a computation that either raises (\<open>Inl\<close>) or returns (\<open>Inr\<close>), with its
    sequencing operator \<open>rbind\<close> and the loop \<open>rfold\<close> that stops at the first raise, as a Python
    \<^verbatim>\<open>for\<close> loop does.
  \<^item> \<open>dict\<close>: a Python dictionary as an association list in insertion order. Storing under an
    existing key keeps its position (\<open>AList.update\<close>), storing a new key appends it.
  \<^item> \<open>sorted_set\<close>: Python's \<^verbatim>\<open>sorted(set(...))\<close>.
  \<^item> \<open>add_new\<close>: the idiom \<^verbatim>\<open>if x not in xs: xs.append(x)\<close> run over a list.

  The collections \<open>dict_simps\<close>, \<open>result_simps\<close> and \<open>compile_simps\<close> carry the component
  proofs.
\<close>

named_theorems dict_simps \<open>lookups and key sets of association-list dictionaries\<close>
named_theorems result_simps \<open>sequencing of computations that may raise\<close>
named_theorems compile_simps \<open>frame facts of the admission compiler\<close>

section \<open>Computations that may raise\<close>

type_synonym ('e, 'a) result = "'e + 'a"

definition rbind :: "'e + 'a \<Rightarrow> ('a \<Rightarrow> 'e + 'b) \<Rightarrow> 'e + 'b" where
  "rbind m f = (case m of Inl e \<Rightarrow> Inl e | Inr a \<Rightarrow> f a)"

lemma rbind_simps [simp, result_simps]:
  "rbind (Inl e) f = Inl e"
  "rbind (Inr a) f = f a"
  by (simp_all add: rbind_def)

lemma rbind_eq_Inr [result_simps]:
  "rbind m f = Inr b \<longleftrightarrow> (\<exists>a. m = Inr a \<and> f a = Inr b)"
  by (cases m) simp_all

lemma rbind_eq_Inl [result_simps]:
  "rbind m f = Inl e \<longleftrightarrow> m = Inl e \<or> (\<exists>a. m = Inr a \<and> f a = Inl e)"
  by (cases m) simp_all

lemma rbind_cong [fundef_cong]:
  "m = m' \<Longrightarrow> (\<And>a. m' = Inr a \<Longrightarrow> f a = g a) \<Longrightarrow> rbind m f = rbind m' g"
  by (cases m') simp_all

lemma rbind_split:
  "P (rbind m f) \<longleftrightarrow> (\<forall>e. m = Inl e \<longrightarrow> P (Inl e)) \<and> (\<forall>a. m = Inr a \<longrightarrow> P (f a))"
  by (cases m) simp_all

primrec rfold :: "('x \<Rightarrow> 's \<Rightarrow> 'e + 's) \<Rightarrow> 'x list \<Rightarrow> 's \<Rightarrow> 'e + 's" where
  "rfold f [] s = Inr s"
| "rfold f (x # xs) s = rbind (f x s) (rfold f xs)"

lemma rfold_cong [fundef_cong]:
  "s = s' \<Longrightarrow> xs = ys \<Longrightarrow> (\<And>x t. x \<in> set ys \<Longrightarrow> f x t = g x t) \<Longrightarrow> rfold f xs s = rfold g ys s'"
proof (induction xs arbitrary: s s' ys)
  case (Cons x xs)
  have "f x s = g x s" using Cons.prems by auto
  moreover have "rfold f xs t = rfold g xs t" for t
    by (rule Cons.IH) (use Cons.prems in auto)
  ultimately show ?case using Cons.prems by (auto simp: rbind_def split: sum.splits)
qed simp

lemma rfold_append: "rfold f (xs @ ys) s = rbind (rfold f xs s) (rfold f ys)"
  by (induction xs arbitrary: s) (simp_all add: rbind_def split: sum.splits)

text \<open>An invariant of the loop body is an invariant of the loop.\<close>

lemma rfold_invariant:
  assumes "rfold f xs s = Inr t" "P s"
    and "\<And>x u v. x \<in> set xs \<Longrightarrow> P u \<Longrightarrow> f x u = Inr v \<Longrightarrow> P v"
  shows "P t"
  using assms
proof (induction xs arbitrary: s)
  case (Cons x xs)
  then obtain u where u: "f x s = Inr u" "rfold f xs u = Inr t"
    by (auto simp: rbind_eq_Inr)
  then have "P u" using Cons.prems(2,3) by (metis list.set_intros(1))
  then show ?case using Cons.IH u(2) Cons.prems(3) by (metis list.set_intros(2))
qed simp

section \<open>Dictionaries in insertion order\<close>

type_synonym ('k, 'v) dict = "('k \<times> 'v) list"

abbreviation dict_get :: "('k, 'v) dict \<Rightarrow> 'k \<Rightarrow> 'v option" where
  "dict_get d k \<equiv> map_of d k"

abbreviation dict_set :: "'k \<Rightarrow> 'v \<Rightarrow> ('k, 'v) dict \<Rightarrow> ('k, 'v) dict" where
  "dict_set k v d \<equiv> AList.update k v d"

abbreviation dict_keys :: "('k, 'v) dict \<Rightarrow> 'k list" where
  "dict_keys d \<equiv> map fst d"

abbreviation dict_values :: "('k, 'v) dict \<Rightarrow> 'v list" where
  "dict_values d \<equiv> map snd d"

text \<open>\<^verbatim>\<open>d.get(k, default)\<close> and \<^verbatim>\<open>d.setdefault(k, []).append(v)\<close>.\<close>

definition dict_get_or :: "'v \<Rightarrow> ('k, 'v) dict \<Rightarrow> 'k \<Rightarrow> 'v" where
  "dict_get_or v d k = (case map_of d k of None \<Rightarrow> v | Some w \<Rightarrow> w)"

definition dict_append :: "'k \<Rightarrow> 'v \<Rightarrow> ('k, 'v list) dict \<Rightarrow> ('k, 'v list) dict" where
  "dict_append k v d = AList.update k (dict_get_or [] d k @ [v]) d"

definition dict_setdefault :: "'k \<Rightarrow> 'v \<Rightarrow> ('k, 'v) dict \<Rightarrow> ('k, 'v) dict" where
  "dict_setdefault k v d = (if map_of d k = None then d @ [(k, v)] else d)"

text \<open>A dictionary comprehension: later pairs overwrite earlier ones.\<close>

definition dict_of :: "('k \<times> 'v) list \<Rightarrow> ('k, 'v) dict" where
  "dict_of kvs = fold (\<lambda>(k, v). AList.update k v) kvs []"

lemma map_of_update [simp, dict_simps]:
  "map_of (AList.update k v d) k' = (if k' = k then Some v else map_of d k')"
  by (simp add: update_conv')

lemma dict_get_or_simps [dict_simps]:
  "dict_get_or v [] k = v"
  "dict_get_or v ((k', w) # d) k = (if k = k' then w else dict_get_or v d k)"
  by (simp_all add: dict_get_or_def)

lemma dict_get_or_update [dict_simps]:
  "dict_get_or w (AList.update k v d) k' = (if k' = k then v else dict_get_or w d k')"
  by (simp add: dict_get_or_def)

lemma dict_get_or_append [dict_simps]:
  "dict_get_or [] (dict_append k v d) k'
     = (if k' = k then dict_get_or [] d k @ [v] else dict_get_or [] d k')"
  by (simp add: dict_append_def dict_get_or_update)

lemma map_of_setdefault [dict_simps]:
  "map_of (dict_setdefault k v d) k'
     = (if k' = k \<and> map_of d k = None then Some v else map_of d k')"
  by (auto simp: dict_setdefault_def map_add_def split: option.splits)

lemma distinct_keys_update [simp]:
  "distinct (map fst d) \<Longrightarrow> distinct (map fst (AList.update k v d))"
  by (simp add: distinct_update)

lemma set_keys_update [simp]: "fst ` set (AList.update k v d) = insert k (fst ` set d)"
  by (simp add: dom_update)

lemma set_update_subset: "set (AList.update k v d) \<subseteq> insert (k, v) (set d)"
  by (induction d) auto

lemma update_memD: "(k', v') \<in> set (AList.update k v d) \<Longrightarrow> (k' = k \<and> v' = v) \<or> (k', v') \<in> set d"
  using set_update_subset by fastforce

lemma update_new: "k \<notin> fst ` set d \<Longrightarrow> AList.update k v d = d @ [(k, v)]"
  by (induction d) auto

lemma map_of_eq_None_keys: "map_of d k = None \<longleftrightarrow> k \<notin> fst ` set d"
  by (simp add: map_of_eq_None_iff)

lemma map_of_dict_of_fold:
  "map_of (fold (\<lambda>(k, v). AList.update k v) kvs d) = map_of d ++ map_of (rev kvs)"
proof (induction kvs arbitrary: d)
  case (Cons kv kvs)
  obtain k v where kv: "kv = (k, v)" by (cases kv)
  show ?case
    using Cons.IH [of "AList.update k v d"]
    by (simp add: kv update_conv' map_add_def fun_eq_iff split: option.splits)
qed simp

lemma map_of_dict_of [dict_simps]: "map_of (dict_of kvs) = map_of (rev kvs)"
  by (simp add: dict_of_def map_of_dict_of_fold)

lemma map_of_dict_of_distinct:
  "distinct (map fst kvs) \<Longrightarrow> map_of (dict_of kvs) = map_of kvs"
  by (metis map_of_dict_of distinct_rev map_of_inject_set rev_map set_rev)

lemma keys_dict_of: "fst ` set (dict_of kvs) = fst ` set kvs"
proof -
  have "fst ` set (fold (\<lambda>(k, v). AList.update k v) kvs d) = fst ` set d \<union> fst ` set kvs" for d
    by (induction kvs arbitrary: d) (simp_all add: dom_update split: prod.splits)
  then show ?thesis by (simp add: dict_of_def)
qed

lemma distinct_keys_dict_of [simp]: "distinct (map fst (dict_of kvs))"
proof -
  have "distinct (map fst d) \<Longrightarrow> distinct (map fst (fold (\<lambda>(k, v). AList.update k v) kvs d))" for d
    by (induction kvs arbitrary: d) (auto simp: distinct_update)
  then show ?thesis by (simp add: dict_of_def)
qed

lemma dict_of_memD: "(k, v) \<in> set (dict_of kvs) \<Longrightarrow> (k, v) \<in> set kvs"
proof -
  have "(k, v) \<in> set (fold (\<lambda>(k, v). AList.update k v) kvs d) \<Longrightarrow> (k, v) \<in> set kvs \<or> (k, v) \<in> set d" for d
  proof (induction kvs arbitrary: d)
    case (Cons kv kvs)
    then show ?case using update_memD by (fastforce split: prod.splits)
  qed simp
  from this [of "[]"] show "(k, v) \<in> set (dict_of kvs) \<Longrightarrow> (k, v) \<in> set kvs"
    by (simp add: dict_of_def)
qed

section \<open>Sorted sets and duplicate-free accumulation\<close>

definition sorted_set :: "'a::linorder list \<Rightarrow> 'a list" where
  "sorted_set xs = sort (remdups xs)"

lemma sorted_set_simps [simp]:
  "set (sorted_set xs) = set xs" "distinct (sorted_set xs)" "sorted (sorted_set xs)"
  by (simp_all add: sorted_set_def)

lemma sorted_set_Nil_iff [simp]: "sorted_set xs = [] \<longleftrightarrow> xs = []"
  by (metis set_empty sorted_set_simps(1))

text \<open>Two duplicate-free sorted lists with the same elements are the same list.\<close>

lemma sorted_set_cong: "set xs = set ys \<Longrightarrow> sorted_set xs = sorted_set ys"
  by (metis sorted_distinct_set_unique sorted_set_simps)

definition add_new :: "'a list \<Rightarrow> 'a list \<Rightarrow> 'a list" where
  "add_new acc xs = fold (\<lambda>x a. if x \<in> set a then a else a @ [x]) xs acc"

lemma add_new_simps [simp]:
  "add_new acc [] = acc"
  "add_new acc (x # xs) = add_new (if x \<in> set acc then acc else acc @ [x]) xs"
  by (simp_all add: add_new_def)

lemma set_add_new [simp]: "set (add_new acc xs) = set acc \<union> set xs"
  by (induction xs arbitrary: acc) auto

lemma distinct_add_new [simp]: "distinct acc \<Longrightarrow> distinct (add_new acc xs)"
  by (induction xs arbitrary: acc) auto

lemma add_new_prefix: "\<exists>zs. add_new acc xs = acc @ zs \<and> set zs = set xs - set acc"
proof (induction xs arbitrary: acc)
  case (Cons x xs)
  show ?case
  proof (cases "x \<in> set acc")
    case True
    then show ?thesis using Cons.IH [of acc] by auto
  next
    case False
    obtain zs where zs: "add_new (acc @ [x]) xs = (acc @ [x]) @ zs" "set zs = set xs - set (acc @ [x])"
      using Cons.IH by blast
    then show ?thesis using False by (intro exI [of _ "x # zs"]) auto
  qed
qed simp

text \<open>Position of the first occurrence; \<open>before xs a b\<close> says that \<open>a\<close> is met before \<open>b\<close>.\<close>

definition before :: "'a list \<Rightarrow> 'a \<Rightarrow> 'a \<Rightarrow> bool" where
  "before xs a b \<longleftrightarrow> (\<exists>us vs. xs = us @ b # vs \<and> a \<in> set us)"

lemma before_append1: "before xs a b \<Longrightarrow> before (xs @ ys) a b"
  unfolding before_def by force

lemma before_snoc: "a \<in> set xs \<Longrightarrow> before (xs @ [b]) a b"
  unfolding before_def by blast

lemma before_setD: "before xs a b \<Longrightarrow> a \<in> set xs \<and> b \<in> set xs"
  unfolding before_def by auto

lemma before_irrefl: "distinct xs \<Longrightarrow> \<not> before xs a a"
  unfolding before_def by auto

lemma before_index:
  "before xs a b \<longleftrightarrow> (\<exists>i j. i < j \<and> j < length xs \<and> xs ! i = a \<and> xs ! j = b)"
proof
  assume "before xs a b"
  then obtain us vs where xs: "xs = us @ b # vs" and a: "a \<in> set us" unfolding before_def by blast
  then obtain i where "i < length us" "us ! i = a" by (auto simp: in_set_conv_nth)
  then show "\<exists>i j. i < j \<and> j < length xs \<and> xs ! i = a \<and> xs ! j = b"
    by (intro exI [of _ i] exI [of _ "length us"]) (auto simp: xs nth_append)
next
  assume "\<exists>i j. i < j \<and> j < length xs \<and> xs ! i = a \<and> xs ! j = b"
  then obtain i j where ij: "i < j" "j < length xs" "xs ! i = a" "xs ! j = b" by blast
  have "xs = take j xs @ b # drop (Suc j) xs" using ij id_take_nth_drop by blast
  moreover have "a \<in> set (take j xs)" using ij by (auto simp: in_set_conv_nth)
  ultimately show "before xs a b" unfolding before_def by blast
qed

section \<open>Strings\<close>

text \<open>\<^verbatim>\<open>sep.join(parts)\<close> and \<^verbatim>\<open>s.partition(c)\<close>.\<close>

fun join :: "'a list \<Rightarrow> 'a list list \<Rightarrow> 'a list" where
  "join sep [] = []"
| "join sep [s] = s"
| "join sep (s # t # ss) = s @ sep @ join sep (t # ss)"

definition partition_at :: "'a \<Rightarrow> 'a list \<Rightarrow> 'a list \<times> 'a list" where
  "partition_at c s = (takeWhile (\<lambda>x. x \<noteq> c) s, tl (dropWhile (\<lambda>x. x \<noteq> c) s))"

lemma partition_at_append: "c \<notin> set s \<Longrightarrow> partition_at c (s @ c # t) = (s, t)"
  by (induction s) (auto simp: partition_at_def)

text \<open>Joining is unambiguous when no part contains the separator character.\<close>

lemma join_single_inj:
  assumes "join [c] xs = join [c] ys" "xs \<noteq> []" "ys \<noteq> []"
    and "\<And>s. s \<in> set xs \<union> set ys \<Longrightarrow> c \<notin> set s"
  shows "xs = ys"
  using assms
proof (induction "[c]" xs arbitrary: ys rule: join.induct)
  case (2 s)
  then have "c \<notin> set s" by simp
  with 2 show ?case by (cases ys rule: remdups_adj.cases) auto
next
  case (3 s t ss)
  show ?case
  proof (cases ys rule: remdups_adj.cases)
    case 1
    then show ?thesis using 3 by simp
  next
    case (2 u)
    then have "s @ c # join [c] (t # ss) = u" using "3.prems"(1) by simp
    then show ?thesis using "3.prems"(4) [of u] 2 by auto
  next
    case (3 u v us)
    note ys = this
    have eq: "s @ c # join [c] (t # ss) = u @ c # join [c] (v # us)"
      using "3.prems"(1) ys by simp
    have "c \<notin> set s" "c \<notin> set u" using "3.prems"(4) ys by auto
    then have "s = u \<and> join [c] (t # ss) = join [c] (v # us)"
      using eq partition_at_append by (metis prod.inject)
    then show ?thesis using "3.hyps" [of "v # us"] "3.prems"(4) ys by auto
  qed
qed simp

end
