(* ===== verification/Identity.thy ===== *)
theory Identity
  imports Prelude
begin

text \<open>
  The identity law of \<^verbatim>\<open>core/identity.py\<close>: the wire normaliser \<open>json_value\<close>, canonical
  JSON, UTF-8, the domain-separated digest and the lexical laws of actor ids and digests.

  A Python \<^verbatim>\<open>str\<close> that reaches canonical JSON is a list of code points (\<open>ustr\<close>), so that lone
  surrogates, which \<^verbatim>\<open>_unicode_scalar\<close> refuses, exist in the model. A finite double is
  represented by its \<^verbatim>\<open>repr\<close>, which CPython guarantees to round-trip. SHA-256 (hashlib) is the
  parameter \<open>sha\<close> of every definition that hashes; nothing is assumed of it, and the identity
  theorem produces an explicit collision of \<open>sha\<close> instead of assuming that there is none.
\<close>

section \<open>Text and wire values\<close>

type_synonym ustr = "nat list"

definition ustr_of :: "string \<Rightarrow> ustr" where
  "ustr_of s = map of_char s"

datatype pyfloat = Finite ustr | NaN | Infinite bool

datatype json =
    JNull
  | JBool bool
  | JInt int
  | JFloat ustr
  | JStr ustr
  | JList "json list"
  | JObj "(ustr \<times> json) list"

datatype pykey = KStr ustr | KOther

text \<open>
  What a component may hand to \<^verbatim>\<open>json_value\<close>: a Pydantic model appears with its JSON dump, an
  enum member with its value, any other object with the name of its type.
\<close>

datatype pyvalue =
    PModel pyvalue
  | PEnum pyvalue
  | PStr ustr
  | PNone
  | PInt int
  | PBool bool
  | PFloat pyfloat
  | PDict "(pykey \<times> pyvalue) list"
  | PList "pyvalue list"
  | PTuple "pyvalue list"
  | POther string

datatype value_error =
    NotUnicodeScalar
  | NotFinite
  | KeyNotString
  | NotWireValue string
  | RepeatedKey ustr
  | ActorNotToken
  | ActorNotNamespaced
  | DigestPrefix
  | DigestHex

definition is_surrogate :: "nat \<Rightarrow> bool" where
  "is_surrogate c \<longleftrightarrow> 0xD800 \<le> c \<and> c \<le> 0xDFFF"

definition unicode_scalar :: "ustr \<Rightarrow> value_error + ustr" where
  "unicode_scalar s = (if list_ex is_surrogate s then Inl NotUnicodeScalar else Inr s)"

text \<open>
  The assignment \<^verbatim>\<open>normalized[_unicode_scalar(key)] = json_value(item)\<close> evaluates its right side
  before its target, so a bad item is reported before a bad key.
\<close>

fun json_value :: "pyvalue \<Rightarrow> value_error + json"
and json_values :: "pyvalue list \<Rightarrow> value_error + json list"
and json_items :: "(pykey \<times> pyvalue) list \<Rightarrow> (ustr, json) dict \<Rightarrow> value_error + (ustr, json) dict"
where
  "json_value (PModel dump) = json_value dump"
| "json_value (PEnum v) = json_value v"
| "json_value (PStr s) = rbind (unicode_scalar s) (\<lambda>s. Inr (JStr s))"
| "json_value PNone = Inr JNull"
| "json_value (PInt i) = Inr (JInt i)"
| "json_value (PBool b) = Inr (JBool b)"
| "json_value (PFloat f) = (case f of Finite r \<Rightarrow> Inr (JFloat r) | _ \<Rightarrow> Inl NotFinite)"
| "json_value (PDict items) = rbind (json_items items []) (\<lambda>kvs. Inr (JObj kvs))"
| "json_value (PList vs) = rbind (json_values vs) (\<lambda>js. Inr (JList js))"
| "json_value (PTuple vs) = rbind (json_values vs) (\<lambda>js. Inr (JList js))"
| "json_value (POther t) = Inl (NotWireValue t)"
| "json_values [] = Inr []"
| "json_values (v # vs) =
     rbind (json_value v) (\<lambda>j. rbind (json_values vs) (\<lambda>js. Inr (j # js)))"
| "json_items [] acc = Inr acc"
| "json_items ((k, v) # items) acc =
     (case k of
        KOther \<Rightarrow> Inl KeyNotString
      | KStr key \<Rightarrow>
          rbind (json_value v) (\<lambda>j.
          rbind (unicode_scalar key) (\<lambda>key. json_items items (dict_set key j acc))))"

text \<open>The object hook of \<^verbatim>\<open>parse_json_value\<close>: a repeated key is refused, never collapsed.\<close>

fun unique_object :: "(ustr \<times> 'v) list \<Rightarrow> (ustr, 'v) dict \<Rightarrow> value_error + (ustr, 'v) dict" where
  "unique_object [] acc = Inr acc"
| "unique_object ((k, v) # pairs) acc =
     (if map_of acc k \<noteq> None then Inl (RepeatedKey k)
      else unique_object pairs (dict_set k v acc))"

section \<open>Canonical JSON\<close>

fun dec_digits :: "nat \<Rightarrow> ustr" where
  "dec_digits n = (if n < 10 then [48 + n] else dec_digits (n div 10) @ [48 + n mod 10])"

declare dec_digits.simps [simp del]

definition int_repr :: "int \<Rightarrow> ustr" where
  "int_repr i = (if i < 0 then 45 # dec_digits (nat (- i)) else dec_digits (nat i))"

definition hex_digit :: "nat \<Rightarrow> nat" where
  "hex_digit d = (if d < 10 then 48 + d else 87 + d)"

text \<open>
  The escapes of \<^verbatim>\<open>json.dumps(..., ensure_ascii=False)\<close>: quote, backslash, the five short control
  escapes, \<^verbatim>\<open>\u00XX\<close> for the other control characters; everything else is itself.
\<close>

definition esc_char :: "nat \<Rightarrow> ustr" where
  "esc_char c =
     (if c = 34 then [92, 34] else if c = 92 then [92, 92]
      else if c = 8 then [92, 98] else if c = 12 then [92, 102]
      else if c = 10 then [92, 110] else if c = 13 then [92, 114]
      else if c = 9 then [92, 116]
      else if c < 32 then [92, 117, 48, 48, hex_digit (c div 16), hex_digit (c mod 16)]
      else [c])"

definition esc_str :: "ustr \<Rightarrow> ustr" where
  "esc_str s = 34 # concat (map esc_char s) @ [34]"

fun canonical_json :: "json \<Rightarrow> ustr" where
  "canonical_json JNull = ustr_of ''null''"
| "canonical_json (JBool b) = ustr_of (if b then ''true'' else ''false'')"
| "canonical_json (JInt i) = int_repr i"
| "canonical_json (JFloat r) = r"
| "canonical_json (JStr s) = esc_str s"
| "canonical_json (JList js) = 91 # join [44] (map canonical_json js) @ [93]"
| "canonical_json (JObj kvs) =
     123 # join [44] (map (\<lambda>(k, t). esc_str k @ 58 # t)
                          (sort_key fst (map (\<lambda>(k, v). (k, canonical_json v)) kvs))) @ [125]"

section \<open>The digest\<close>

definition utf8_char :: "nat \<Rightarrow> nat list" where
  "utf8_char c =
     (if c < 0x80 then [c]
      else if c < 0x800 then [0xC0 + c div 64, 0x80 + c mod 64]
      else if c < 0x10000 then [0xE0 + c div 4096, 0x80 + c div 64 mod 64, 0x80 + c mod 64]
      else [0xF0 + c div 262144, 0x80 + c div 4096 mod 64, 0x80 + c div 64 mod 64, 0x80 + c mod 64])"

definition utf8 :: "ustr \<Rightarrow> nat list" where
  "utf8 s = concat (map utf8_char s)"

type_synonym digest = string

definition material :: "string \<Rightarrow> nat \<Rightarrow> json \<Rightarrow> ustr" where
  "material domain version payload =
     join [0] [ustr_of ''constructicon'', ustr_of domain, dec_digits version, canonical_json payload]"

definition digest_of :: "(nat list \<Rightarrow> string) \<Rightarrow> string \<Rightarrow> nat \<Rightarrow> json \<Rightarrow> digest" where
  "digest_of sha domain version payload = ''sha256:'' @ sha (utf8 (material domain version payload))"

text \<open>\<^verbatim>\<open>Digest._well_formed\<close>.\<close>

definition digest_well_formed :: "string \<Rightarrow> value_error + string" where
  "digest_well_formed value =
     (if take 7 value \<noteq> ''sha256:'' then Inl DigestPrefix
      else let hexpart = drop 7 value in
        if length hexpart \<noteq> 64 \<or> list_ex (\<lambda>c. c \<notin> set ''0123456789abcdef'') hexpart
        then Inl DigestHex else Inr value)"

section \<open>Actor ids\<close>

text \<open>\<^verbatim>\<open>str.isspace\<close> on the Latin-1 range: tab to carriage return, FS to US, space, NEL, NBSP.\<close>

definition is_space :: "char \<Rightarrow> bool" where
  "is_space c = (let n = (of_char c :: nat) in
     (9 \<le> n \<and> n \<le> 13) \<or> (28 \<le> n \<and> n \<le> 32) \<or> n = 133 \<or> n = 160)"

definition strip :: "string \<Rightarrow> string" where
  "strip s = rev (dropWhile is_space (rev (dropWhile is_space s)))"

definition actor_id_fault :: "string \<Rightarrow> value_error option" where
  "actor_id_fault value =
     (if value = '''' \<or> strip value \<noteq> value \<or> list_ex is_space value then Some ActorNotToken
      else if CHR '':'' \<notin> set value then Some ActorNotNamespaced
      else None)"

definition actor_id_is_canonical :: "string \<Rightarrow> bool" where
  "actor_id_is_canonical value = (actor_id_fault value = None)"

definition canonical_actor_id :: "string \<Rightarrow> value_error + string" where
  "canonical_actor_id value = (case actor_id_fault value of Some e \<Rightarrow> Inl e | None \<Rightarrow> Inr value)"

section \<open>Laws\<close>

text \<open>The canonical order of a wire value: every object sorted by key, recursively.\<close>

fun json_norm :: "json \<Rightarrow> json" where
  "json_norm (JList js) = JList (map json_norm js)"
| "json_norm (JObj kvs) = JObj (sort_key fst (map (\<lambda>(k, v). (k, json_norm v)) kvs))"
| "json_norm j = j"

text \<open>
  A finite double's \<^verbatim>\<open>repr\<close> is made of digits, sign, point and exponent characters and has a point
  or an exponent; a dictionary has no repeated key.
\<close>

definition float_repr :: "ustr \<Rightarrow> bool" where
  "float_repr r \<longleftrightarrow> r \<noteq> [] \<and> list_all (\<lambda>c. (48 \<le> c \<and> c \<le> 57) \<or> c \<in> {43, 45, 46, 101}) r
     \<and> list_ex (\<lambda>c. c = 46 \<or> c = 101) r \<and> hd r \<noteq> 46 \<and> hd r \<noteq> 101 \<and> hd r \<noteq> 43"

fun wire :: "json \<Rightarrow> bool" where
  "wire (JFloat r) = float_repr r"
| "wire (JList js) = list_all wire js"
| "wire (JObj kvs) = (distinct (map fst kvs) \<and> list_all (\<lambda>(k, v). wire v) kvs)"
| "wire j = True"

subsection \<open>Numbers\<close>

fun undec :: "ustr \<Rightarrow> nat \<Rightarrow> nat" where
  "undec [] acc = acc"
| "undec (c # cs) acc = undec cs (10 * acc + (c - 48))"

lemma undec_append: "undec (xs @ ys) acc = undec ys (undec xs acc)"
  by (induction xs arbitrary: acc) auto

lemma undec_dec: "undec (dec_digits n) 0 = n"
  by (induction n rule: dec_digits.induct) (subst dec_digits.simps, auto simp: undec_append)

lemma dec_digits_inj: "dec_digits m = dec_digits n \<longleftrightarrow> m = n"
  using undec_dec by metis

lemma dec_digits_chars: "c \<in> set (dec_digits n) \<Longrightarrow> 48 \<le> c \<and> c \<le> 57"
  by (induction n rule: dec_digits.induct)
     (subst (asm) (2) dec_digits.simps, auto split: if_splits)

lemma dec_digits_nonempty [simp]: "dec_digits n \<noteq> []"
  by (subst dec_digits.simps) simp

lemma int_repr_inj: "int_repr i = int_repr j \<longleftrightarrow> i = j"
proof
  have hd: "hd (dec_digits n) \<noteq> 45" for n
    using dec_digits_chars [OF hd_in_set [OF dec_digits_nonempty], of n] by simp
  assume eq: "int_repr i = int_repr j"
  show "i = j"
  proof (cases "i < 0 \<longleftrightarrow> j < 0")
    case True
    with eq show ?thesis by (auto simp: int_repr_def dec_digits_inj split: if_splits)
  next
    case False
    with eq hd have False by (auto simp: int_repr_def split: if_splits) (metis list.sel(1))+
    then show ?thesis ..
  qed
qed simp

lemma int_repr_chars: "c \<in> set (int_repr i) \<Longrightarrow> c = 45 \<or> (48 \<le> c \<and> c \<le> 57)"
  using dec_digits_chars by (auto simp: int_repr_def split: if_splits)

lemma int_repr_nonempty [simp]: "int_repr i \<noteq> []"
  by (simp add: int_repr_def)

subsection \<open>Strings\<close>

text \<open>A decoder for one escaped character, and what it gives back.\<close>

definition unhex :: "nat \<Rightarrow> nat" where
  "unhex h = (if h < 58 then h - 48 else h - 87)"

definition unesc :: "ustr \<Rightarrow> nat \<times> ustr" where
  "unesc xs =
     (if hd xs \<noteq> 92 then (hd xs, tl xs)
      else let e = xs ! 1 in
        if e = 34 then (34, drop 2 xs) else if e = 92 then (92, drop 2 xs)
        else if e = 98 then (8, drop 2 xs) else if e = 102 then (12, drop 2 xs)
        else if e = 110 then (10, drop 2 xs) else if e = 114 then (13, drop 2 xs)
        else if e = 116 then (9, drop 2 xs)
        else (16 * unhex (xs ! 4) + unhex (xs ! 5), drop 6 xs))"

lemma unhex_hex [simp]: "unhex (hex_digit d) = d"
  by (auto simp: unhex_def hex_digit_def)

lemma unesc_esc: "unesc (esc_char c @ xs) = (c, xs)"
  by (simp add: esc_char_def unesc_def Let_def)

lemma esc_char_decode:
  assumes "esc_char c @ xs = esc_char d @ ys"
  shows "c = d \<and> xs = ys"
  using arg_cong [OF assms, of unesc] by (simp add: unesc_esc)

lemma esc_char_hd: "esc_char c \<noteq> [] \<and> hd (esc_char c) \<noteq> 34"
  by (simp add: esc_char_def)

lemma esc_char_not_quote: "esc_char c @ xs \<noteq> 34 # ys"
  using esc_char_hd [of c] by (metis append_is_Nil_conv hd_append2 list.sel(1))

lemma esc_body_decode:
  "concat (map esc_char s) @ 34 # r = concat (map esc_char t) @ 34 # q \<Longrightarrow> s = t \<and> r = q"
proof (induction s arbitrary: t)
  case Nil
  show ?case
  proof (cases t)
    case (Cons d t')
    have "esc_char d @ (concat (map esc_char t') @ 34 # q) = 34 # r"
      using Nil [symmetric] by (simp add: Cons)
    then show ?thesis using esc_char_not_quote by blast
  qed (use Nil in simp)
next
  case (Cons c s)
  then obtain d t' where t: "t = d # t'"
    by (cases t) (simp_all add: esc_char_not_quote)
  have "esc_char c @ concat (map esc_char s) @ 34 # r = esc_char d @ concat (map esc_char t') @ 34 # q"
    using Cons.prems t by simp
  from esc_char_decode [OF this] show ?case using Cons.IH t by blast
qed

lemma esc_str_decode: "esc_str s @ r = esc_str t @ q \<Longrightarrow> s = t \<and> r = q"
  using esc_body_decode [of s r t q] by (simp add: esc_str_def)


subsection \<open>Self-delimiting encodings\<close>

text \<open>
  A canonical text is followed by nothing, a comma, a closing bracket or a closing brace.
  An encoding is self-delimiting when the text and what follows it determine the value.
\<close>

definition stop :: "ustr \<Rightarrow> bool" where
  "stop r \<longleftrightarrow> r = [] \<or> hd r \<in> {44, 93, 125}"

lemma stop_simps [simp]: "stop []" "stop (c # r) \<longleftrightarrow> c \<in> {44, 93, 125}"
  by (simp_all add: stop_def)

lemma join_Cons: "join sep (x # xs) = x @ (if xs = [] then [] else sep @ join sep xs)"
  by (cases xs) simp_all

text \<open>Tokens without stop characters.\<close>

lemma token_decode:
  assumes "x @ r = y @ q" "stop r" "stop q"
    and "\<And>c. c \<in> set x \<union> set y \<Longrightarrow> c \<notin> {44, 93, 125}"
  shows "x = y \<and> r = q"
proof -
  have tw: "takeWhile (\<lambda>c. c \<notin> {44, 93, 125}) (z @ w) = z"
    if "stop w" "\<And>c. c \<in> set z \<Longrightarrow> c \<notin> {44, 93, 125}" for z w
  proof -
    have "takeWhile (\<lambda>c. c \<notin> {44, 93, 125}) w = []" using that(1) by (cases w) auto
    then show ?thesis using that(2) by (simp add: takeWhile_append2)
  qed
  have "x = y" using tw [of r x] tw [of q y] assms by auto
  then show ?thesis using assms(1) by simp
qed

lemma join_not_closed:
  assumes "e \<in> {93, 125}" "ys \<noteq> []" "\<And>x. x \<in> set ys \<Longrightarrow> f x \<noteq> [] \<and> hd (f x) \<notin> {93, 125}"
  shows "e # r \<noteq> join [44] (map f ys) @ e # q"
proof -
  obtain y ys' where ys: "ys = y # ys'" using assms(2) by (cases ys) auto
  then have "f y \<noteq> []" "hd (f y) \<noteq> e" using assms(1,3) by auto
  then have "hd (join [44] (map f ys) @ e # q) \<noteq> e" by (simp add: ys join_Cons)
  then show ?thesis by (metis list.sel(1))
qed

lemma join_decode:
  assumes "join [44] (map f xs) @ e # r = join [44] (map f ys) @ e # q"
    and dec: "\<And>x y r q. x \<in> set xs \<Longrightarrow> y \<in> set ys \<Longrightarrow> stop r \<Longrightarrow> stop q \<Longrightarrow> f x @ r = f y @ q \<Longrightarrow> x = y \<and> r = q"
    and e: "e \<in> {93, 125}"
    and ne: "\<And>x. x \<in> set xs \<union> set ys \<Longrightarrow> f x \<noteq> [] \<and> hd (f x) \<notin> {93, 125}"
  shows "xs = ys \<and> r = q"
  using assms(1) dec ne
proof (induction xs arbitrary: ys)
  case Nil
  then show ?case
    using join_not_closed [OF e, of ys f r q] by (cases "ys = []") auto
next
  case (Cons x xs)
  have "ys \<noteq> []"
    using Cons.prems(1,3) join_not_closed [OF e, of "x # xs" f q r] by auto
  then obtain y ys' where ys: "ys = y # ys'" by (cases ys) auto
  let ?tail = "\<lambda>zs w. (if zs = [] then [] else 44 # join [44] (map f zs)) @ e # w"
  have "f x @ ?tail xs r = f y @ ?tail ys' q"
    using Cons.prems(1) by (simp add: ys join_Cons split: if_splits)
  then have xy: "x = y" "?tail xs r = ?tail ys' q"
    using Cons.prems(2) [of x y "?tail xs r" "?tail ys' q"] e by (auto simp: ys split: if_splits)
  have "xs = ys' \<and> r = q"
  proof (cases "xs = [] \<or> ys' = []")
    case True
    then show ?thesis using xy(2) e by (auto split: if_splits)
  next
    case False
    then show ?thesis using xy(2) Cons.prems(2,3) by (intro Cons.IH) (auto simp: ys)
  qed
  then show ?case using xy ys by simp
qed


subsection \<open>Canonical JSON determines the value\<close>

lemma sort_key_map: "sort_key f (map g xs) = map g (sort_key (\<lambda>x. f (g x)) xs)"
proof -
  have ins: "insort_key f (g x) (map g ys) = map g (insort_key (\<lambda>x. f (g x)) x ys)" for x ys
    by (induction ys) auto
  show ?thesis by (induction xs) (simp_all add: ins)
qed

text \<open>Canonical JSON is the plain encoding of the normal form, in which objects are in key order.\<close>

fun enc :: "json \<Rightarrow> ustr" where
  "enc (JList js) = 91 # join [44] (map enc js) @ [93]"
| "enc (JObj kvs) = 123 # join [44] (map (\<lambda>(k, v). esc_str k @ 58 # enc v) kvs) @ [125]"
| "enc j = canonical_json j"

lemma canonical_json_enc: "canonical_json j = enc (json_norm j)"
proof (induction j rule: json_norm.induct)
  case (1 js)
  then show ?case by (simp cong: map_cong)
next
  case (2 kvs)
  have eq: "map (\<lambda>(k, v). (k, canonical_json v)) kvs = map (\<lambda>(k, v). (k, enc v)) (map (\<lambda>(k, v). (k, json_norm v)) kvs)"
    using 2 by auto
  have "sort_key fst (map (\<lambda>(k, v). (k, canonical_json v)) kvs)
      = map (\<lambda>(k, v). (k, enc v)) (sort_key fst (map (\<lambda>(k, v). (k, json_norm v)) kvs))"
    unfolding eq by (subst sort_key_map) (simp add: case_prod_beta')
  then show ?case by (simp add: case_prod_beta' o_def)
qed simp_all

text \<open>Which kind of value a text starts.\<close>

definition kind_char :: "nat \<Rightarrow> nat" where
  "kind_char c = (if c = 45 \<or> (48 \<le> c \<and> c \<le> 57) then 0 else c)"

fun kind :: "json \<Rightarrow> nat" where
  "kind JNull = 110"
| "kind (JBool b) = (if b then 116 else 102)"
| "kind (JInt i) = 0"
| "kind (JFloat r) = 0"
| "kind (JStr s) = 34"
| "kind (JList js) = 91"
| "kind (JObj kvs) = 123"

lemma enc_kind: "wire j \<Longrightarrow> kind_char (hd (enc j @ r)) = kind j"
proof (cases j)
  case (JInt i)
  then show ?thesis
    using int_repr_chars [OF hd_in_set [OF int_repr_nonempty], of i] by (auto simp: kind_char_def)
next
  case (JFloat q)
  moreover assume "wire j"
  ultimately show ?thesis
    using hd_in_set [of q] by (auto simp: float_repr_def list_all_iff kind_char_def)
qed (auto simp: ustr_of_def esc_str_def kind_char_def)

lemma enc_hd:
  assumes "wire j"
  shows "enc j \<noteq> [] \<and> hd (enc j) \<noteq> 93 \<and> hd (enc j) \<noteq> 125"
proof -
  have "enc j \<noteq> []" using assms by (cases j) (auto simp: ustr_of_def esc_str_def float_repr_def)
  moreover have "kind_char (hd (enc j)) \<notin> {93, 125}"
    using enc_kind [OF assms, of "[]"] by (cases j) auto
  ultimately show ?thesis by (auto simp: kind_char_def)
qed

lemma number_token:
  assumes "wire j" "kind j = 0" "c \<in> set (enc j)"
  shows "c \<notin> {44, 93, 125}"
  using assms int_repr_chars [of c]
  by (cases j) (auto simp: float_repr_def list_all_iff split: if_splits)

lemma number_decode:
  assumes "wire a" "wire b" "kind a = 0" "kind b = 0" "enc a = enc b"
  shows "a = b"
proof -
  have no: "\<not> list_ex (\<lambda>c. c = 46 \<or> c = 101) (int_repr i)" for i
    using int_repr_chars [of _ i] by (fastforce simp: list_ex_iff)
  show ?thesis
    using assms no by (cases a; cases b) (auto simp: int_repr_inj float_repr_def split: if_splits)
qed

lemma kind_eq: "enc a @ r = enc b @ q \<Longrightarrow> wire a \<Longrightarrow> wire b \<Longrightarrow> kind b = kind a"
  using enc_kind by metis

lemma enc_decode:
  assumes "wire a" "wire b" "stop r" "stop q" "enc a @ r = enc b @ q"
  shows "a = b \<and> r = q"
  using assms
proof (induction a arbitrary: b r q)
  case (JList js)
  have "kind b = 91" using kind_eq [OF JList.prems(5,1,2)] by simp
  then obtain js' where b: "b = JList js'" by (cases b) (auto split: if_splits)
  have "js = js' \<and> r = q"
    using JList.prems b
    by (intro join_decode [of enc js 93 r js' q] JList.IH) (auto simp: list_all_iff dest: enc_hd)
  then show ?case using b by simp
next
  case (JObj kvs)
  have "kind b = 123" using kind_eq [OF JObj.prems(5,1,2)] by simp
  then obtain kvs' where b: "b = JObj kvs'" by (cases b) (auto split: if_splits)
  let ?f = "\<lambda>(k, v). esc_str k @ 58 # enc v"
  have "kvs = kvs' \<and> r = q"
  proof (rule join_decode [of ?f kvs 125 r kvs' q])
    fix x y s t
    assume xy: "x \<in> set kvs" "y \<in> set kvs'" "stop s" "stop t" "?f x @ s = ?f y @ t"
    obtain k v k' v' where kv: "x = (k, v)" "y = (k', v')" by (cases x, cases y)
    then have "k = k' \<and> 58 # enc v @ s = 58 # enc v' @ t"
      using xy(5) esc_str_decode [of k "58 # enc v @ s" k' "58 # enc v' @ t"] by simp
    moreover have "wire v" "wire v'" using JObj.prems b xy kv by (auto simp: list_all_iff)
    ultimately show "x = y \<and> s = t"
      using JObj.IH [of x v v' s t] xy kv by auto
  qed (use JObj.prems b in \<open>auto simp: esc_str_def\<close>)
  then show ?case using b by simp
next
  case (JStr s)
  have "kind b = 34" using kind_eq [OF JStr.prems(5,1,2)] by simp
  then obtain s' where "b = JStr s'" by (cases b) (auto split: if_splits)
  then show ?case using JStr.prems(5) esc_str_decode [of s r s' q] by simp
next
  case (JInt i)
  have "kind b = 0" using kind_eq [OF JInt.prems(5,1,2)] by simp
  then show ?case
    using JInt.prems number_decode [of "JInt i" b] number_token [of "JInt i"] number_token [of b]
      token_decode [of "enc (JInt i)" r "enc b" q] by (metis Un_iff kind.simps(3))
next
  case (JFloat w)
  have "kind b = 0" using kind_eq [OF JFloat.prems(5,1,2)] by simp
  then show ?case
    using JFloat.prems number_decode [of "JFloat w" b] number_token [of "JFloat w"] number_token [of b]
      token_decode [of "enc (JFloat w)" r "enc b" q] by (metis Un_iff kind.simps(4))
next
  case JNull
  have "kind b = 110" using kind_eq [OF JNull.prems(5,1,2)] by simp
  then have "b = JNull" by (cases b) (auto split: if_splits)
  then show ?case using JNull.prems(5) by simp
next
  case (JBool x)
  have "kind b = kind (JBool x)" by (rule kind_eq [OF JBool.prems(5,1,2)])
  then have "b = JBool x" by (cases b) (auto split: if_splits)
  then show ?case using JBool.prems(5) by simp
qed

lemma wire_norm: "wire j \<Longrightarrow> wire (json_norm j)"
proof (induction j rule: json_norm.induct)
  case (2 kvs)
  have "map fst (map (\<lambda>(k, v). (k, json_norm v)) kvs) = map fst kvs" by auto
  then have "distinct (map fst (map (\<lambda>(k, v). (k, json_norm v)) kvs))" using "2.prems" by (simp only: wire.simps)
  then have "distinct (map fst (sort_key fst (map (\<lambda>(k, v). (k, json_norm v)) kvs)))"
    by (simp only: distinct_map distinct_sort set_sort)
  then show ?case using 2 by (auto simp: list_all_iff)
qed (auto simp: list_all_iff)

lemma canonical_json_inj:
  assumes "wire a" "wire b"
  shows "canonical_json a = canonical_json b \<longleftrightarrow> json_norm a = json_norm b"
proof
  assume "canonical_json a = canonical_json b"
  then have "enc (json_norm a) @ [] = enc (json_norm b) @ []" by (simp add: canonical_json_enc)
  then show "json_norm a = json_norm b"
    using enc_decode [of "json_norm a" "json_norm b" "[]" "[]"] wire_norm assms by simp
qed (simp add: canonical_json_enc)

subsection \<open>UTF-8 and the digest\<close>

definition un_utf8 :: "nat list \<Rightarrow> nat \<times> nat list" where
  "un_utf8 xs =
     (if hd xs < 0x80 then (hd xs, tl xs)
      else if hd xs < 0xE0 then ((hd xs - 0xC0) * 64 + (xs ! 1 - 0x80), drop 2 xs)
      else if hd xs < 0xF0 then
        ((hd xs - 0xE0) * 4096 + (xs ! 1 - 0x80) * 64 + (xs ! 2 - 0x80), drop 3 xs)
      else ((hd xs - 0xF0) * 262144 + (xs ! 1 - 0x80) * 4096 + (xs ! 2 - 0x80) * 64 + (xs ! 3 - 0x80), drop 4 xs))"

lemma split64:
  "(c div 4096) * 4096 + (c div 64 mod 64) * 64 + c mod 64 = (c::nat)"
  "(c div 262144) * 262144 + (c div 4096 mod 64) * 4096 + (c div 64 mod 64) * 64 + c mod 64 = c"
proof -
  have a: "c div 64 = (c div 4096) * 64 + c div 64 mod 64" for c :: nat
    using div_mult_mod_eq [of "c div 64" 64] by (simp add: div_mult2_eq [symmetric])
  have b: "c div 4096 = (c div 262144) * 64 + c div 4096 mod 64"
    using div_mult_mod_eq [of "c div 4096" 64] by (simp add: div_mult2_eq [symmetric])
  show three: "(c div 4096) * 4096 + (c div 64 mod 64) * 64 + c mod 64 = c"
    using a [of c] div_mult_mod_eq [of c 64] by linarith
  show "(c div 262144) * 262144 + (c div 4096 mod 64) * 4096 + (c div 64 mod 64) * 64 + c mod 64 = c"
    using b three by linarith
qed

lemma un_utf8_char: "un_utf8 (utf8_char c @ xs) = (c, xs)"
proof -
  consider "c < 0x80" | "0x80 \<le> c" "c < 0x800" | "0x800 \<le> c" "c < 0x10000" | "0x10000 \<le> c"
    by linarith
  then show ?thesis
  proof cases
    case 2
    then have "c div 64 < 32" by (simp add: less_mult_imp_div_less)
    with 2 show ?thesis using div_mult_mod_eq [of c 64] by (simp add: utf8_char_def un_utf8_def)
  next
    case 3
    then have "c div 4096 < 16" by (simp add: less_mult_imp_div_less)
    with 3 show ?thesis using split64(1) [of c] by (simp add: utf8_char_def un_utf8_def)
  next
    case 4
    then show ?thesis using split64(2) [of c] by (simp add: utf8_char_def un_utf8_def)
  qed (simp add: utf8_char_def un_utf8_def)
qed

lemma utf8_char_nonempty [simp]: "utf8_char c \<noteq> []"
  by (simp add: utf8_char_def)

lemma utf8_inj: "utf8 s = utf8 t \<Longrightarrow> s = t"
proof (induction s arbitrary: t)
  case Nil
  then show ?case by (cases t) (auto simp: utf8_def)
next
  case (Cons c s)
  then obtain d t' where t: "t = d # t'" by (cases t) (auto simp: utf8_def)
  have "utf8_char c @ utf8 s = utf8_char d @ utf8 t'" using Cons.prems t by (simp add: utf8_def)
  then have "c = d \<and> utf8 s = utf8 t'" using un_utf8_char by (metis prod.inject)
  then show ?case using Cons.IH t by blast
qed

lemma ustr_of_inj: "ustr_of s = ustr_of t \<longleftrightarrow> s = t"
  by (simp add: ustr_of_def inj_map_eq_map inj_of_char)

text \<open>
  Domains are constants of the code without the NUL separator, so the four parts of the hashed
  material can be told apart.
\<close>

definition nul_free :: "string \<Rightarrow> bool" where
  "nul_free s = list_all (\<lambda>c. of_char c \<noteq> (0 :: nat)) s"

lemma nul_free_ustr: "nul_free s \<Longrightarrow> 0 \<notin> set (ustr_of s)"
  by (auto simp: nul_free_def ustr_of_def list_all_iff)

lemma material_inj:
  assumes "nul_free d" "nul_free d'" "wire p" "wire p'"
    and "material d v p = material d' v' p'"
  shows "d = d' \<and> v = v' \<and> json_norm p = json_norm p'"
proof -
  have n: "0 \<notin> set (ustr_of d)" "0 \<notin> set (ustr_of d')" "0 \<notin> set (dec_digits v)" "0 \<notin> set (dec_digits v')"
    using assms(1,2) nul_free_ustr dec_digits_chars by fastforce+
  have "ustr_of d @ 0 # dec_digits v @ 0 # canonical_json p
      = ustr_of d' @ 0 # dec_digits v' @ 0 # canonical_json p'"
    using assms(5) by (simp add: material_def)
  then have "ustr_of d = ustr_of d'" "dec_digits v @ 0 # canonical_json p = dec_digits v' @ 0 # canonical_json p'"
    using n partition_at_append [of 0 "ustr_of d"] partition_at_append [of 0 "ustr_of d'"] by (metis prod.inject)+
  then show ?thesis
    using n partition_at_append [of 0 "dec_digits v"] partition_at_append [of 0 "dec_digits v'"]
      ustr_of_inj dec_digits_inj canonical_json_inj [OF assms(3,4)] by (metis prod.inject)
qed

text \<open>An explicit collision of SHA-256 on two byte strings.\<close>

definition collision :: "(nat list \<Rightarrow> string) \<Rightarrow> ustr \<Rightarrow> ustr \<Rightarrow> bool" where
  "collision sha m m' \<longleftrightarrow> utf8 m \<noteq> utf8 m' \<and> sha (utf8 m) = sha (utf8 m')"

lemma digest_of_inj:
  assumes "digest_of sha d v p = digest_of sha d' v' p'"
    and "nul_free d" "nul_free d'" "wire p" "wire p'"
  shows "(d = d' \<and> v = v' \<and> json_norm p = json_norm p') \<or> collision sha (material d v p) (material d' v' p')"
proof (cases "material d v p = material d' v' p'")
  case True
  then show ?thesis using material_inj [OF assms(2-5)] by simp
next
  case False
  then show ?thesis using utf8_inj assms(1) by (auto simp: digest_of_def collision_def)
qed

lemma digest_of_cong: "json_norm p = json_norm q \<Longrightarrow> digest_of sha d v p = digest_of sha d v q"
  by (simp add: digest_of_def material_def canonical_json_enc)

subsection \<open>The wire normaliser\<close>

text \<open>A stored value read back is a Python value again.\<close>

fun py_of_json :: "json \<Rightarrow> pyvalue" where
  "py_of_json JNull = PNone"
| "py_of_json (JBool b) = PBool b"
| "py_of_json (JInt i) = PInt i"
| "py_of_json (JFloat r) = PFloat (Finite r)"
| "py_of_json (JStr s) = PStr s"
| "py_of_json (JList js) = PList (map py_of_json js)"
| "py_of_json (JObj kvs) = PDict (map (\<lambda>(k, v). (KStr k, py_of_json v)) kvs)"

text \<open>What \<open>json_value\<close> returns: no lone surrogate in any string, no repeated key.\<close>

fun scalar_json :: "json \<Rightarrow> bool" where
  "scalar_json (JStr s) = (\<not> list_ex is_surrogate s)"
| "scalar_json (JList js) = list_all scalar_json js"
| "scalar_json (JObj kvs) = (distinct (map fst kvs)
     \<and> list_all (\<lambda>(k, v). \<not> list_ex is_surrogate k \<and> scalar_json v) kvs)"
| "scalar_json j = True"

lemma unicode_scalar_Inr: "unicode_scalar s = Inr t \<longleftrightarrow> t = s \<and> \<not> list_ex is_surrogate s"
  by (auto simp: unicode_scalar_def)

lemma scalar_update:
  assumes "scalar_json (JObj acc)" "\<not> list_ex is_surrogate k" "scalar_json v"
  shows "scalar_json (JObj (dict_set k v acc))"
  using assms update_memD [of _ _ k v acc]
  by (fastforce simp: list_all_iff distinct_update split: prod.splits)

lemma json_value_scalar:
  "json_value v = Inr j \<Longrightarrow> scalar_json j"
  "json_values vs = Inr js \<Longrightarrow> list_all scalar_json js"
  "json_items items acc = Inr kvs \<Longrightarrow> scalar_json (JObj acc) \<Longrightarrow> scalar_json (JObj kvs)"
proof (induction v and vs and items acc arbitrary: j and js and kvs
    rule: json_value_json_values_json_items.induct)
  case (15 k v items acc)
  then show ?case
    using scalar_update
    by (auto simp: rbind_eq_Inr unicode_scalar_Inr simp del: scalar_json.simps split: pykey.splits)
qed (auto simp: rbind_eq_Inr unicode_scalar_Inr split: pyfloat.splits)

lemma json_items_append:
  assumes "\<And>k v. (k, v) \<in> set kvs \<Longrightarrow> json_value (py_of_json v) = Inr v \<and> \<not> list_ex is_surrogate k"
    and "distinct (map fst (acc @ kvs))"
  shows "json_items (map (\<lambda>(k, v). (KStr k, py_of_json v)) kvs) acc = Inr (acc @ kvs)"
  using assms
proof (induction kvs arbitrary: acc)
  case (Cons kv kvs)
  obtain k v where kv: "kv = (k, v)" by (cases kv)
  then have "k \<notin> fst ` set acc" using Cons.prems(2) by force
  then have "dict_set k v acc = acc @ [(k, v)]" by (rule update_new)
  moreover have "unicode_scalar k = Inr k" using Cons.prems(1) [of k v] kv by (simp add: unicode_scalar_Inr)
  moreover have "json_value (py_of_json v) = Inr v" using Cons.prems(1) [of k v] kv by simp
  moreover have "json_items (map (\<lambda>(k, v). (KStr k, py_of_json v)) kvs) (acc @ [(k, v)]) = Inr ((acc @ [(k, v)]) @ kvs)"
    using Cons.prems by (intro Cons.IH) (auto simp: kv)
  ultimately show ?case by (simp add: kv)
qed simp

lemma json_values_map:
  "(\<And>v. v \<in> set js \<Longrightarrow> json_value (py_of_json v) = Inr v) \<Longrightarrow> json_values (map py_of_json js) = Inr js"
  by (induction js) auto

lemma json_value_of_json: "scalar_json j \<Longrightarrow> json_value (py_of_json j) = Inr j"
proof (induction j rule: py_of_json.induct)
  case (7 kvs)
  have "json_items (map (\<lambda>(k, v). (KStr k, py_of_json v)) kvs) [] = Inr ([] @ kvs)"
    using 7 by (intro json_items_append) (auto simp: list_all_iff)
  then show ?case by simp
qed (auto simp: unicode_scalar_def list_all_iff json_values_map)

text \<open>
  Normalisation is a round trip: whatever \<open>json_value\<close> returns, reading the stored value back
  and normalising it again returns the same value. A checkpoint restored from the journal therefore
  has exactly the value the live execution produced.
\<close>

theorem json_value_roundtrip:
  "json_value v = Inr j \<Longrightarrow> json_value (py_of_json j) = Inr j"
  using json_value_scalar(1) json_value_of_json by blast

theorem json_value_roundtrip_witness:
  "json_value (py_of_json (JObj [(ustr_of ''a'', JList [JInt 1, JNull])]))
     = Inr (JObj [(ustr_of ''a'', JList [JInt 1, JNull])])"
proof -
  have "json_value (PModel (PDict [(KStr (ustr_of ''a''), PTuple [PInt 1, PNone])]))
      = Inr (JObj [(ustr_of ''a'', JList [JInt 1, JNull])])"
    by (simp add: unicode_scalar_def ustr_of_def is_surrogate_def)
  then show ?thesis by (rule json_value_roundtrip)
qed

text \<open>
  Canonical JSON is an identity for wire values: two values have the same canonical text exactly
  when they are the same value up to the order of object keys.
\<close>

theorem canonical_json_identity:
  assumes "wire a" "wire b"
  shows "canonical_json a = canonical_json b \<longleftrightarrow> json_norm a = json_norm b"
  using assms by (rule canonical_json_inj)

theorem canonical_json_identity_witness:
  "canonical_json (JObj [(ustr_of ''b'', JBool True), (ustr_of ''a'', JInt 1)])
     = canonical_json (JObj [(ustr_of ''a'', JInt 1), (ustr_of ''b'', JBool True)])
   \<and> canonical_json (JInt 1) \<noteq> canonical_json (JBool True)"
proof -
  have w: "wire (JObj [(ustr_of ''b'', JBool True), (ustr_of ''a'', JInt 1)])"
    "wire (JObj [(ustr_of ''a'', JInt 1), (ustr_of ''b'', JBool True)])"
    "wire (JInt 1)" "wire (JBool True)"
    by (simp_all add: ustr_of_def)
  have "json_norm (JObj [(ustr_of ''b'', JBool True), (ustr_of ''a'', JInt 1)])
      = json_norm (JObj [(ustr_of ''a'', JInt 1), (ustr_of ''b'', JBool True)])"
    by (simp add: ustr_of_def)
  then show ?thesis
    using canonical_json_identity [OF w(1,2)] canonical_json_identity [OF w(3,4)] by simp
qed

text \<open>
  C40. The identity law: two digests that agree were computed over the same domain, the same schema
  version and the same payload (up to key order), or their two byte strings are an explicit collision
  of SHA-256. Domain separation is part of the statement: a digest of one domain never answers for
  another.
\<close>

theorem digest_identity:
  assumes "nul_free d" "nul_free d'" "wire p" "wire p'"
    and "digest_of sha d v p = digest_of sha d' v' p'"
  shows "(d = d' \<and> v = v' \<and> json_norm p = json_norm p')
    \<or> collision sha (material d v p) (material d' v' p')"
  by (rule digest_of_inj [OF assms(5,1-4)])

theorem digest_identity_witness:
  "nul_free ''inputs'' \<and> json_norm (JObj [(ustr_of ''b'', JNull), (ustr_of ''a'', JInt 1)])
     = json_norm (JObj [(ustr_of ''a'', JInt 1), (ustr_of ''b'', JNull)])"
proof -
  let ?sha = "\<lambda>bytes :: nat list. map char_of bytes :: string"
  let ?p = "JObj [(ustr_of ''b'', JNull), (ustr_of ''a'', JInt 1)]"
  let ?q = "JObj [(ustr_of ''a'', JInt 1), (ustr_of ''b'', JNull)]"
  have d: "nul_free ''inputs''" by (simp add: nul_free_def)
  have w: "wire ?p" "wire ?q" by (simp_all add: ustr_of_def)
  have c: "canonical_json ?p = canonical_json ?q" by (simp add: ustr_of_def)
  have e: "digest_of ?sha ''inputs'' 1 ?p = digest_of ?sha ''inputs'' 1 ?q"
    by (simp only: digest_of_def material_def c)
  have "material ''inputs'' 1 ?p = material ''inputs'' 1 ?q" by (simp only: material_def c)
  then show ?thesis using digest_identity [OF d d w e] d by (simp add: collision_def)
qed

end
