(* ===== verification/Grants.thy ===== *)
theory Grants
  imports Prelude
begin

text \<open>
  Execution grants (\<^verbatim>\<open>core/grants.py\<close>), executor profiles (\<^verbatim>\<open>core/executor.py\<close>,
  \<^verbatim>\<open>core/native_operator.py\<close>) and the grant compiler of admission
  (\<^verbatim>\<open>runtime/validator.py::_compile_grants\<close>).

  The order \<open>narrower\<close> compares two concrete grants by the authority they carry. The locale
  \<open>narrowing\<close> states what the compiler owes to the code that nests scopes: one request never
  widens, so no chain of requests does.
\<close>

section \<open>Grants\<close>

datatype posture = READ | WRITE

datatype selection_kind = ExplicitModel | BackendDefault

record model_selection =
  selection_kind :: selection_kind
  selection_model :: "string option"

datatype network_request = NetInherit | NetNone | NetAllow

datatype network = NoNetwork | AllowNetwork

record grant_request =
  req_posture :: "posture option"
  req_model :: "string option"
  req_effort :: "string option"
  req_allowed_tools :: "string list option"
  req_env_allowlist :: "string list option"
  req_network :: network_request
  req_timeout_s :: "nat option"

record effective_grants =
  posture :: posture
  model_selection :: model_selection
  effort :: "string option"
  allowed_tools :: "string list"
  env_allowlist :: "string list"
  network :: network
  timeout_s :: nat

datatype filesystem = NoFilesystem | WorkspaceOnly | ReadOnlySnapshot

record isolation_profile =
  filesystem :: filesystem
  process_tree_owned :: bool
  environment_allowlisted :: bool
  network_enforced :: bool

definition satisfies :: "isolation_profile \<Rightarrow> posture \<Rightarrow> bool" where
  "satisfies i p =
     (if \<not> (process_tree_owned i \<and> environment_allowlisted i) then False
      else if p = READ then filesystem i = NoFilesystem \<or> filesystem i = ReadOnlySnapshot
      else filesystem i = WorkspaceOnly)"

section \<open>Executor profiles\<close>

datatype network_access = NoAccess | ProviderRouteOnly

record grant_policy =
  tool_sets :: "string list list"
  network_modes :: "network list"
  network_access :: network_access
  environment_names :: "string list"
  workspace_required :: bool

record executor_profile =
  profile_name :: string
  structured_output :: bool
  postures :: "posture list"
  isolation :: isolation_profile
  accepted_efforts :: "string list"
  profile_policy :: "grant_policy option"

datatype executor_fault =
    NoCompletePolicy
  | PostureNotOffered posture
  | PostureNotEnforced posture
  | ToolSetNotOffered "string list"
  | NetworkModeNotOffered network
  | NetworkNotEnforced
  | EnvironmentUnsupported "string list"
  | EffortNotOffered "string option"
  | ModelNotExplicit
  | ModelNotOffered string

text \<open>\<^verbatim>\<open>not s.strip()\<close>: nothing but blanks (the white space of the Latin-1 range).\<close>

definition blank :: "string \<Rightarrow> bool" where
  "blank s = list_all (\<lambda>c. let n = (of_char c :: nat) in
     (9 \<le> n \<and> n \<le> 13) \<or> (28 \<le> n \<and> n \<le> 32) \<or> n = 133 \<or> n = 160) s"

definition opt :: "bool \<Rightarrow> 'a \<Rightarrow> 'a list" where
  "opt b x = (if b then [x] else [])"

definition grant_faults :: "executor_profile \<Rightarrow> effective_grants \<Rightarrow> executor_fault list" where
  "grant_faults profile g =
     (case profile_policy profile of
        None \<Rightarrow> [NoCompletePolicy]
      | Some policy \<Rightarrow>
          (if posture g \<notin> set (postures profile) then [PostureNotOffered (posture g)]
           else opt (\<not> satisfies (isolation profile) (posture g)) (PostureNotEnforced (posture g)))
          @ opt (sorted_set (allowed_tools g) \<notin> set (tool_sets policy)) (ToolSetNotOffered (allowed_tools g))
          @ opt (network g \<notin> set (network_modes policy)) (NetworkModeNotOffered (network g))
          @ opt (\<not> network_enforced (isolation profile)) NetworkNotEnforced
          @ (let unsupported = sorted_set (filter (\<lambda>e. e \<notin> set (environment_names policy)) (env_allowlist g))
             in opt (unsupported \<noteq> []) (EnvironmentUnsupported unsupported))
          @ (case effort g of None \<Rightarrow> []
             | Some e \<Rightarrow> opt (e \<notin> set (accepted_efforts profile)) (EffortNotOffered (Some e)))
          @ opt (selection_kind (model_selection g) = ExplicitModel
                 \<and> (case selection_model (model_selection g) of None \<Rightarrow> True | Some m \<Rightarrow> blank m))
                ModelNotExplicit)"

record native_policy =
  native_tool_sets :: "string list list"
  model_ids :: "string list"
  native_environment_names :: "string list"
  native_workspace_required :: bool

record native_profile =
  native_name :: string
  native_posture :: posture
  native_structured_output :: bool
  native_accepted_efforts :: "string list"
  native_policy :: native_policy
  native_isolation :: isolation_profile
  overage_authorized :: bool

definition native_grant_faults :: "native_profile \<Rightarrow> effective_grants \<Rightarrow> executor_fault list" where
  "native_grant_faults profile g =
     (let policy = native_policy profile; selection = model_selection g in
       (if posture g \<noteq> native_posture profile then [PostureNotOffered (posture g)]
        else opt (\<not> satisfies (native_isolation profile) (posture g)) (PostureNotEnforced (posture g)))
       @ opt (sorted_set (allowed_tools g) \<notin> set (native_tool_sets policy)) (ToolSetNotOffered (allowed_tools g))
       @ opt (network g \<noteq> AllowNetwork) (NetworkModeNotOffered (network g))
       @ opt (\<not> network_enforced (native_isolation profile)) NetworkNotEnforced
       @ (let unsupported = sorted_set (filter (\<lambda>e. e \<notin> set (native_environment_names policy)) (env_allowlist g))
          in opt (unsupported \<noteq> []) (EnvironmentUnsupported unsupported))
       @ (case effort g of None \<Rightarrow> [EffortNotOffered None]
          | Some e \<Rightarrow> opt (e \<notin> set (native_accepted_efforts profile)) (EffortNotOffered (Some e)))
       @ (if selection_kind selection \<noteq> ExplicitModel then [ModelNotExplicit]
          else case selection_model selection of
            None \<Rightarrow> [ModelNotExplicit]
          | Some m \<Rightarrow> (if blank m then [ModelNotExplicit]
                      else opt (m \<notin> set (model_ids policy)) (ModelNotOffered m))))"

section \<open>The grant compiler\<close>

datatype grant_fault =
    WidenPosture
  | WidenTools "string list"
  | WidenEnvironment "string list"
  | WidenNetwork
  | WidenTimeout nat nat

text \<open>\<^verbatim>\<open>request or parent\<close> on strings and integers: the empty string and 0 are false.\<close>

definition or_else :: "('a \<Rightarrow> bool) \<Rightarrow> 'a option \<Rightarrow> 'a \<Rightarrow> 'a" where
  "or_else truthy request parent =
     (case request of None \<Rightarrow> parent | Some x \<Rightarrow> if truthy x then x else parent)"

definition beyond :: "string list option \<Rightarrow> string list \<Rightarrow> string list" where
  "beyond request parent =
     (case request of None \<Rightarrow> [] | Some xs \<Rightarrow> sorted_set (filter (\<lambda>x. x \<notin> set parent) xs))"

definition widening_faults :: "effective_grants \<Rightarrow> grant_request \<Rightarrow> grant_fault list" where
  "widening_faults parent req =
     opt (or_else (\<lambda>_. True) (req_posture req) (posture parent) = WRITE \<and> posture parent = READ) WidenPosture
     @ opt (beyond (req_allowed_tools req) (allowed_tools parent) \<noteq> [])
           (WidenTools (beyond (req_allowed_tools req) (allowed_tools parent)))
     @ opt (beyond (req_env_allowlist req) (env_allowlist parent) \<noteq> [])
           (WidenEnvironment (beyond (req_env_allowlist req) (env_allowlist parent)))
     @ opt (req_network req = NetAllow \<and> network parent = NoNetwork) WidenNetwork
     @ (case req_timeout_s req of None \<Rightarrow> []
        | Some t \<Rightarrow> opt (t > timeout_s parent) (WidenTimeout t (timeout_s parent)))"

definition requested_grants :: "effective_grants \<Rightarrow> grant_request \<Rightarrow> effective_grants" where
  "requested_grants parent req =
     \<lparr>posture = or_else (\<lambda>_. True) (req_posture req) (posture parent),
      model_selection = (case req_model req of
                           Some m \<Rightarrow> \<lparr>selection_kind = ExplicitModel, selection_model = Some m\<rparr>
                         | None \<Rightarrow> model_selection parent),
      effort = (case req_effort req of
                  None \<Rightarrow> effort parent
                | Some e \<Rightarrow> if e = '''' then effort parent else Some e),
      allowed_tools = or_else (\<lambda>_. True) (req_allowed_tools req) (allowed_tools parent),
      env_allowlist = or_else (\<lambda>_. True) (req_env_allowlist req) (env_allowlist parent),
      network = (case req_network req of
                   NetInherit \<Rightarrow> network parent
                 | NetAllow \<Rightarrow> (if network parent = NoNetwork then network parent else AllowNetwork)
                 | NetNone \<Rightarrow> NoNetwork),
      timeout_s = or_else (\<lambda>n. n \<noteq> 0) (req_timeout_s req) (timeout_s parent)\<rparr>"

text \<open>
  \<^verbatim>\<open>_compile_grants\<close>: the faults it appends, and the grants it returns. Any fault returns the
  parent's grants.
\<close>

definition compile_grants ::
  "effective_grants \<Rightarrow> grant_request option \<Rightarrow> grant_fault list \<times> effective_grants" where
  "compile_grants parent request =
     (case request of
        None \<Rightarrow> ([], parent)
      | Some req \<Rightarrow>
          (if widening_faults parent req \<noteq> [] then (widening_faults parent req, parent)
           else ([], requested_grants parent req)))"

section \<open>Laws\<close>

definition narrower :: "effective_grants \<Rightarrow> effective_grants \<Rightarrow> bool" where
  "narrower g p \<longleftrightarrow>
     (posture g = WRITE \<longrightarrow> posture p = WRITE)
     \<and> set (allowed_tools g) \<subseteq> set (allowed_tools p)
     \<and> set (env_allowlist g) \<subseteq> set (env_allowlist p)
     \<and> (network g = AllowNetwork \<longrightarrow> network p = AllowNetwork)
     \<and> timeout_s g \<le> timeout_s p"

lemma narrower_refl [simp, intro]: "narrower g g"
  by (simp add: narrower_def)

lemma narrower_trans [trans]: "narrower a b \<Longrightarrow> narrower b c \<Longrightarrow> narrower a c"
  by (auto simp: narrower_def)

lemma beyond_Nil: "beyond (Some xs) parent = [] \<longleftrightarrow> set xs \<subseteq> set parent"
  by (auto simp: beyond_def filter_empty_conv)

lemma opt_simps [simp]: "opt True x = [x]" "opt False x = []" "opt b x = [] \<longleftrightarrow> \<not> b"
  by (simp_all add: opt_def)

lemma set_opt [simp]: "y \<in> set (opt b x) \<longleftrightarrow> b \<and> y = x"
  by (cases b) simp_all

text \<open>A request that asks for no more than its parent holds.\<close>

definition asks_within :: "effective_grants \<Rightarrow> grant_request \<Rightarrow> bool" where
  "asks_within parent req \<longleftrightarrow>
     (case req_posture req of Some WRITE \<Rightarrow> posture parent = WRITE | _ \<Rightarrow> True)
     \<and> (case req_allowed_tools req of Some xs \<Rightarrow> set xs \<subseteq> set (allowed_tools parent) | None \<Rightarrow> True)
     \<and> (case req_env_allowlist req of Some xs \<Rightarrow> set xs \<subseteq> set (env_allowlist parent) | None \<Rightarrow> True)
     \<and> (case req_network req of NetAllow \<Rightarrow> network parent = AllowNetwork | _ \<Rightarrow> True)
     \<and> (case req_timeout_s req of Some t \<Rightarrow> t \<le> timeout_s parent | None \<Rightarrow> True)"

lemma widening_faults_Nil: "widening_faults parent req = [] \<longleftrightarrow> asks_within parent req"
proof -
  have r: "(posture parent \<noteq> READ) \<longleftrightarrow> posture parent = WRITE" by (cases "posture parent") auto
  have n: "(network parent \<noteq> NoNetwork) \<longleftrightarrow> network parent = AllowNetwork" by (cases "network parent") auto
  have b: "beyond request xs = [] \<longleftrightarrow> (case request of Some ys \<Rightarrow> set ys \<subseteq> set xs | None \<Rightarrow> True)" for request xs
    by (cases request) (simp_all add: beyond_Nil beyond_def [of None])
  have p: "\<not> (or_else (\<lambda>_. True) (req_posture req) (posture parent) = WRITE \<and> posture parent = READ)
      \<longleftrightarrow> (case req_posture req of Some WRITE \<Rightarrow> posture parent = WRITE | _ \<Rightarrow> True)"
    using r by (auto simp: or_else_def split: option.splits posture.splits)
  have w: "\<not> (req_network req = NetAllow \<and> network parent = NoNetwork)
      \<longleftrightarrow> (case req_network req of NetAllow \<Rightarrow> network parent = AllowNetwork | _ \<Rightarrow> True)"
    using n by (auto split: network_request.splits)
  have t: "(case req_timeout_s req of None \<Rightarrow> []
        | Some t \<Rightarrow> opt (t > timeout_s parent) (WidenTimeout t (timeout_s parent))) = []
      \<longleftrightarrow> (case req_timeout_s req of Some t \<Rightarrow> t \<le> timeout_s parent | None \<Rightarrow> True)"
    by (simp add: not_less split: option.splits)
  show ?thesis
    unfolding widening_faults_def asks_within_def append_is_Nil_conv opt_simps p w t by (simp add: b)
qed

lemma requested_narrower: "asks_within parent req \<Longrightarrow> narrower (requested_grants parent req) parent"
  unfolding asks_within_def narrower_def requested_grants_def
  by (intro conjI) (auto simp: or_else_def split: option.splits posture.splits network_request.splits if_splits)

lemma compile_grants_narrower: "narrower (snd (compile_grants parent request)) parent"
  by (auto simp: compile_grants_def widening_faults_Nil requested_narrower split: option.splits)

text \<open>
  The contract between nested scopes: a step that only narrows composes to a chain that only
  narrows.
\<close>

locale narrowing =
  fixes le :: "'g \<Rightarrow> 'g \<Rightarrow> bool"
    and step :: "'g \<Rightarrow> 'r \<Rightarrow> 'g"
  assumes le_refl: "le g g"
    and le_trans: "le a b \<Longrightarrow> le b c \<Longrightarrow> le a c"
    and step_le: "le (step g r) g"
begin

lemma chain_le: "le (fold (\<lambda>r g. step g r) rs g) g"
proof (induction rs arbitrary: g)
  case (Cons r rs)
  then show ?case using step_le le_trans by (metis fold_simps(2))
qed (simp add: le_refl)

lemma chain_le_any: "le g root \<Longrightarrow> le (fold (\<lambda>r g. step g r) rs g) root"
  using chain_le le_trans by blast

end

interpretation grant_chain: narrowing narrower "\<lambda>g r. snd (compile_grants g r)"
  by unfold_locales (auto intro: narrower_trans compile_grants_narrower)

text \<open>
  Grants only narrow: however many nested scopes a node sits in and whatever each of them
  requests, the compiled grants never carry more authority than the root grants - no WRITE under
  READ, no tool or environment name the root does not list, no network the root forbids, no longer
  timeout.
\<close>

theorem grants_never_widen:
  "narrower (fold (\<lambda>request g. snd (compile_grants g request)) requests root) root"
  by (rule grant_chain.chain_le)

text \<open>
  The grant compiler accepts exactly the requests that ask for no more than their parent holds;
  every other request is reported and gets the parent's grants unchanged.
\<close>

theorem compile_grants_decides:
  "compile_grants parent (Some req) =
     (if asks_within parent req then ([], requested_grants parent req)
      else (widening_faults parent req, parent))
   \<and> (asks_within parent req \<longleftrightarrow> widening_faults parent req = [])"
  by (simp add: compile_grants_def widening_faults_Nil)

text \<open>
  An executor profile whose complete policy reports no fault really offers what was granted: the
  posture is offered and mechanically enforced, the tool set is one of its inventory, the network
  mode is offered and enforced, and no environment name is outside its inventory.
\<close>

theorem no_grant_faults_enforced:
  assumes "grant_faults profile g = []"
  shows "\<exists>policy. profile_policy profile = Some policy
    \<and> posture g \<in> set (postures profile) \<and> satisfies (isolation profile) (posture g)
    \<and> sorted_set (allowed_tools g) \<in> set (tool_sets policy)
    \<and> network g \<in> set (network_modes policy) \<and> network_enforced (isolation profile)
    \<and> set (env_allowlist g) \<subseteq> set (environment_names policy)"
proof -
  obtain policy where p: "profile_policy profile = Some policy"
    using assms by (cases "profile_policy profile") (auto simp: grant_faults_def)
  then show ?thesis
    using assms by (auto simp: grant_faults_def Let_def filter_empty_conv split: if_splits)
qed

definition sample_isolation :: isolation_profile where
  "sample_isolation = \<lparr>filesystem = ReadOnlySnapshot, process_tree_owned = True,
     environment_allowlisted = True, network_enforced = True\<rparr>"

definition sample_profile :: executor_profile where
  "sample_profile = \<lparr>profile_name = ''reader'', structured_output = True, postures = [READ],
     isolation = sample_isolation, accepted_efforts = [],
     profile_policy = Some \<lparr>tool_sets = [[''grep'']], network_modes = [NoNetwork],
       network_access = NoAccess, environment_names = [''PATH''], workspace_required = True\<rparr>\<rparr>"

definition sample_grants :: effective_grants where
  "sample_grants = \<lparr>posture = READ,
     model_selection = \<lparr>selection_kind = BackendDefault, selection_model = None\<rparr>,
     effort = None, allowed_tools = [''grep''], env_allowlist = [''PATH''],
     network = NoNetwork, timeout_s = 60\<rparr>"

theorem no_grant_faults_enforced_witness:
  "grant_faults sample_profile sample_grants = []
   \<and> satisfies (isolation sample_profile) (posture sample_grants)"
proof -
  have "grant_faults sample_profile sample_grants = []"
    by (simp add: grant_faults_def sample_profile_def sample_grants_def sample_isolation_def
        satisfies_def sorted_set_def Let_def)
  then show ?thesis using no_grant_faults_enforced by blast
qed

end
