(* ===== verification/Graph_IR.thy ===== *)
theory Graph_IR
  imports Identity Grants
begin

text \<open>
  Addresses (\<^verbatim>\<open>core/address.py\<close>), ports (\<^verbatim>\<open>core/ports.py\<close>) and the authored graph
  (\<^verbatim>\<open>core/graph.py\<close>): the three constructs \<open>Ref\<close>, \<open>Graph\<close> and \<open>Loop\<close>, and the JSON dump of
  each model, from which every identity is derived. Names are Latin-1 strings; an embedded JSON
  Schema is a wire value.
\<close>

section \<open>Addresses\<close>

type_synonym scope = "string list"

definition child :: "scope \<Rightarrow> string \<Rightarrow> scope" where
  "child s segment = s @ [segment]"

definition render :: "scope \<Rightarrow> string" where
  "render s = (if s = [] then ''<root>'' else join ''/'' s)"

definition LOOP_BODY_SEGMENT :: string where
  "LOOP_BODY_SEGMENT = ''body''"

record iteration_frame =
  frame_loop :: scope
  frame_index :: nat

record execution_path =
  path_scope :: scope
  iterations :: "iteration_frame list"

abbreviation jstr :: "string \<Rightarrow> json" where
  "jstr s \<equiv> JStr (ustr_of s)"

abbreviation jnat :: "nat \<Rightarrow> json" where
  "jnat n \<equiv> JInt (int n)"

definition jopt :: "('a \<Rightarrow> json) \<Rightarrow> 'a option \<Rightarrow> json" where
  "jopt f x = (case x of None \<Rightarrow> JNull | Some a \<Rightarrow> f a)"

definition jobj :: "(string \<times> json) list \<Rightarrow> json" where
  "jobj kvs = JObj (map (\<lambda>(k, v). (ustr_of k, v)) kvs)"

definition jdict :: "('v \<Rightarrow> json) \<Rightarrow> (string, 'v) dict \<Rightarrow> json" where
  "jdict f d = jobj (map (\<lambda>(k, v). (k, f v)) d)"

definition scope_json :: "scope \<Rightarrow> json" where
  "scope_json s = jobj [(''segments'', JList (map jstr s))]"

definition frame_json :: "iteration_frame \<Rightarrow> json" where
  "frame_json f = jobj [(''loop'', scope_json (frame_loop f)), (''index'', jnat (frame_index f))]"

definition path_json :: "execution_path \<Rightarrow> json" where
  "path_json p = jobj [(''scope'', scope_json (path_scope p)),
                       (''iterations'', JList (map frame_json (iterations p)))]"

text \<open>\<^verbatim>\<open>ExecutionPath.render\<close>; an index prints in decimal.\<close>

definition index_render :: "nat \<Rightarrow> string" where
  "index_render n = ''['' @ map char_of (dec_digits n) @ '']''"

definition path_render :: "execution_path \<Rightarrow> string" where
  "path_render p = render (path_scope p) @ concat (map (\<lambda>f. index_render (frame_index f)) (iterations p))"

definition invocation_id :: "(nat list \<Rightarrow> string) \<Rightarrow> string \<Rightarrow> execution_path \<Rightarrow> digest" where
  "invocation_id sha run_id path =
     digest_of sha ''invocation'' 1 (jobj [(''run_id'', jstr run_id), (''path'', path_json path)])"

section \<open>Ports\<close>

datatype cardinality = One | Optional | Many

record port =
  port_name :: string
  type_id :: string
  schema_hash :: string
  json_schema :: "(ustr, json) dict option"
  cardinality :: cardinality

definition cardinality_json :: "cardinality \<Rightarrow> json" where
  "cardinality_json c = jstr (case c of One \<Rightarrow> ''one'' | Optional \<Rightarrow> ''optional'' | Many \<Rightarrow> ''many'')"

definition port_json :: "port \<Rightarrow> json" where
  "port_json p = jobj [(''name'', jstr (port_name p)), (''type_id'', jstr (type_id p)),
     (''schema_hash'', jstr (schema_hash p)), (''json_schema'', jopt JObj (json_schema p)),
     (''cardinality'', cardinality_json (cardinality p))]"

definition boundary_bytes :: "port list \<Rightarrow> ustr" where
  "boundary_bytes ports = canonical_json (JList (map port_json ports))"

definition same_boundary :: "port list \<Rightarrow> port list \<Rightarrow> bool" where
  "same_boundary left right = (boundary_bytes left = boundary_bytes right)"

datatype port_address =
    GraphInputAddress (addr_scope: scope) (addr_port: string)
  | NodePortAddress (addr_scope: scope) (addr_node: string) (addr_port: string)
  | GraphOutputAddress (addr_scope: scope) (addr_port: string)

fun address_json :: "port_address \<Rightarrow> json" where
  "address_json (GraphInputAddress s p) =
     jobj [(''kind'', jstr ''graph_input''), (''scope'', scope_json s), (''port'', jstr p)]"
| "address_json (NodePortAddress s n p) =
     jobj [(''kind'', jstr ''node_port''), (''scope'', scope_json s), (''node'', jstr n), (''port'', jstr p)]"
| "address_json (GraphOutputAddress s p) =
     jobj [(''kind'', jstr ''graph_output''), (''scope'', scope_json s), (''port'', jstr p)]"

section \<open>Grants on the wire\<close>

definition posture_json :: "posture \<Rightarrow> json" where
  "posture_json p = jstr (case p of READ \<Rightarrow> ''read'' | WRITE \<Rightarrow> ''write'')"

definition selection_json :: "model_selection \<Rightarrow> json" where
  "selection_json m = jobj
     [(''kind'', jstr (case selection_kind m of ExplicitModel \<Rightarrow> ''explicit'' | BackendDefault \<Rightarrow> ''backend_default'')),
      (''model'', jopt jstr (selection_model m))]"

definition grant_request_json :: "grant_request \<Rightarrow> json" where
  "grant_request_json r = jobj
     [(''posture'', jopt posture_json (req_posture r)), (''model'', jopt jstr (req_model r)),
      (''effort'', jopt jstr (req_effort r)),
      (''allowed_tools'', jopt (\<lambda>xs. JList (map jstr xs)) (req_allowed_tools r)),
      (''env_allowlist'', jopt (\<lambda>xs. JList (map jstr xs)) (req_env_allowlist r)),
      (''network'', jstr (case req_network r of NetInherit \<Rightarrow> ''inherit'' | NetNone \<Rightarrow> ''none'' | NetAllow \<Rightarrow> ''allow'')),
      (''timeout_s'', jopt jnat (req_timeout_s r))]"

definition grants_json :: "effective_grants \<Rightarrow> json" where
  "grants_json g = jobj
     [(''posture'', posture_json (posture g)), (''model_selection'', selection_json (model_selection g)),
      (''effort'', jopt jstr (effort g)), (''allowed_tools'', JList (map jstr (allowed_tools g))),
      (''env_allowlist'', JList (map jstr (env_allowlist g))),
      (''network'', jstr (case network g of NoNetwork \<Rightarrow> ''none'' | AllowNetwork \<Rightarrow> ''allow'')),
      (''timeout_s'', jnat (timeout_s g))]"

section \<open>The graph\<close>

record ref =
  component :: string
  version :: "string option"
  bind :: "(string, string) dict"
  grants :: "grant_request option"

record connection =
  src :: string
  dst :: string
  conn_map :: "(string, string) dict"

datatype graph =
    Graph (graph_name: string) (nodes: "gnode list") (connections: "connection list")
          (inputs: "port list") (outputs: "port list")
and gnode = GNode (node_id: string) (node_body: body)
and body = RefBody ref | GraphBody graph | LoopBody loop
and loop = Loop (loop_body: loop_body) (feedback: "(string, string) dict")
                (continue_from: string) (max_iterations: nat)
and loop_body = LoopRef ref | LoopGraph graph

definition ref_json :: "ref \<Rightarrow> json" where
  "ref_json r = jobj [(''component'', jstr (component r)), (''version'', jopt jstr (version r)),
     (''bind'', jdict jstr (bind r)), (''grants'', jopt grant_request_json (grants r))]"

definition connection_json :: "connection \<Rightarrow> json" where
  "connection_json c = jobj [(''src'', jstr (src c)), (''dst'', jstr (dst c)), (''map'', jdict jstr (conn_map c))]"

primrec graph_json :: "graph \<Rightarrow> json"
and gnode_json :: "gnode \<Rightarrow> json"
and body_json :: "body \<Rightarrow> json"
and loop_json :: "loop \<Rightarrow> json"
and loop_body_json :: "loop_body \<Rightarrow> json"
where
  "graph_json (Graph name ns cs ins outs) = jobj
     [(''schema_version'', JInt 1), (''name'', jstr name), (''nodes'', JList (map gnode_json ns)),
      (''connections'', JList (map connection_json cs)), (''inputs'', JList (map port_json ins)),
      (''outputs'', JList (map port_json outs))]"
| "gnode_json (GNode i b) = jobj [(''id'', jstr i), (''body'', body_json b)]"
| "body_json (RefBody r) = ref_json r"
| "body_json (GraphBody g) = graph_json g"
| "body_json (LoopBody l) = loop_json l"
| "loop_json (Loop b fb cont n) = jobj
     [(''body'', loop_body_json b), (''feedback'', jdict jstr fb),
      (''continue_from'', jstr cont), (''max_iterations'', jnat n)]"
| "loop_body_json (LoopRef r) = ref_json r"
| "loop_body_json (LoopGraph g) = graph_json g"

definition source_graph_hash_for :: "(nat list \<Rightarrow> string) \<Rightarrow> graph \<Rightarrow> digest" where
  "source_graph_hash_for sha g = digest_of sha ''graph'' 1 (graph_json g)"


section \<open>Laws\<close>

subsection \<open>Objects with fixed fields\<close>

lemma json_norm_jobj:
  "json_norm (jobj kvs) = JObj (sort_key fst (map (\<lambda>(k, v). (ustr_of k, json_norm v)) kvs))"
  by (simp add: jobj_def comp_def case_prod_unfold)

lemma sort_key_set_eq: "sort_key f xs = sort_key f ys \<Longrightarrow> set xs = set ys"
  by (metis set_sort)

lemma assoc_eqI:
  assumes "set xs = set ys" "map fst xs = map fst ys" "distinct (map fst xs)"
  shows "xs = ys"
proof -
  have "map_of xs = map_of ys" using assms by (metis map_of_inject_set)
  moreover have "map snd zs = map (\<lambda>k. the (map_of zs k)) (map fst zs)" if "distinct (map fst zs)" for zs :: "('a \<times> 'b) list"
    using that by (auto simp: map_of_is_SomeI)
  ultimately have "map snd xs = map snd ys" using assms by metis
  then show ?thesis using assms(2) by (metis zip_map_fst_snd)
qed

text \<open>Two objects with the same fields agree exactly when their fields do.\<close>

lemma jobj_norm_eq:
  assumes "map fst xs = map fst ys" "distinct (map fst xs)"
  shows "json_norm (jobj xs) = json_norm (jobj ys) \<longleftrightarrow> map (\<lambda>(k, v). json_norm v) xs = map (\<lambda>(k, v). json_norm v) ys"
proof -
  let ?f = "\<lambda>(k, v). (ustr_of k, json_norm v)"
  have k: "map fst (map ?f zs) = map ustr_of (map fst zs)" and v: "map snd (map ?f zs) = map (\<lambda>(k, v). json_norm v) zs"
    for zs :: "(string \<times> json) list" by auto
  have "inj ustr_of" by (simp add: inj_on_def ustr_of_inj)
  then have d: "distinct (map fst (map ?f xs))"
    unfolding k using assms(2) by (simp only: distinct_map inj_on_subset [OF _ subset_UNIV] simp_thms)
  have e: "map fst (map ?f xs) = map fst (map ?f ys)" unfolding k using assms(1) by simp
  show ?thesis
  proof
    assume "json_norm (jobj xs) = json_norm (jobj ys)"
    then have "set (map ?f xs) = set (map ?f ys)" by (simp add: json_norm_jobj del: set_map) (erule sort_key_set_eq)
    then have "map ?f xs = map ?f ys" using e d by (rule assoc_eqI)
    then show "map (\<lambda>(k, v). json_norm v) xs = map (\<lambda>(k, v). json_norm v) ys" using v by metis
  next
    assume "map (\<lambda>(k, v). json_norm v) xs = map (\<lambda>(k, v). json_norm v) ys"
    then have "map ?f xs = map ?f ys" using v e by (metis zip_map_fst_snd)
    then show "json_norm (jobj xs) = json_norm (jobj ys)" by (simp add: json_norm_jobj)
  qed
qed

lemma jobj_norm_keys: "json_norm (jobj xs) = json_norm (jobj ys) \<Longrightarrow> fst ` set xs = fst ` set ys"
proof -
  assume "json_norm (jobj xs) = json_norm (jobj ys)"
  then have "set (map (\<lambda>(k, v). (ustr_of k, json_norm v)) xs) = set (map (\<lambda>(k, v). (ustr_of k, json_norm v)) ys)"
    by (simp add: json_norm_jobj del: set_map) (erule sort_key_set_eq)
  then have "fst ` set (map (\<lambda>(k, v). (ustr_of k, json_norm v)) xs) = fst ` set (map (\<lambda>(k, v). (ustr_of k, json_norm v)) ys)"
    by simp
  then have "ustr_of ` fst ` set xs = ustr_of ` fst ` set ys"
    by (simp add: image_image case_prod_unfold)
  then show ?thesis by (simp add: inj_image_eq_iff inj_on_def ustr_of_inj)
qed

lemma wire_jobj [simp]:
  "wire (jobj kvs) \<longleftrightarrow> distinct (map fst kvs) \<and> list_all (\<lambda>(k, v). wire v) kvs"
proof -
  have "map fst (map (\<lambda>(k, v). (ustr_of k, v)) kvs) = map ustr_of (map fst kvs)" by auto
  moreover have "distinct (map ustr_of ks) \<longleftrightarrow> distinct ks" for ks
    by (auto simp: distinct_map inj_on_def ustr_of_inj)
  ultimately show ?thesis by (simp only: jobj_def wire.simps) (auto simp: list_all_iff)
qed

lemma wire_jopt [simp]: "wire (jopt f x) \<longleftrightarrow> (case x of None \<Rightarrow> True | Some a \<Rightarrow> wire (f a))"
  by (simp add: jopt_def split: option.splits)

lemma wire_jdict [simp]: "wire (jdict jstr d) \<longleftrightarrow> distinct (map fst d)"
  by (simp add: jdict_def case_prod_unfold comp_def list_all_iff)

lemma jstr_norm_eq [simp]: "json_norm (jstr s) = json_norm (jstr t) \<longleftrightarrow> s = t"
  by (simp add: ustr_of_inj)

definition norm_dict :: "(string, 'v) dict \<Rightarrow> (string, 'v) dict" where
  "norm_dict d = sort_key (\<lambda>kv. ustr_of (fst kv)) d"

lemma jdict_norm_eq: "json_norm (jdict jstr d) = json_norm (jdict jstr e) \<longleftrightarrow> norm_dict d = norm_dict e"
proof -
  have "json_norm (jdict jstr d) = JObj (map (\<lambda>(k, v). (ustr_of k, jstr v)) (norm_dict d))" for d
    by (simp add: jdict_def json_norm_jobj norm_dict_def sort_key_map case_prod_unfold comp_def)
  moreover have "inj (\<lambda>(k :: string, v). (ustr_of k, jstr v))" by (auto simp: inj_on_def ustr_of_inj)
  ultimately show ?thesis by (simp add: inj_map_eq_map)
qed

named_theorems dump_simps \<open>when two JSON dumps are the same value\<close>

lemma jlist_norm_eq:
  assumes "\<And>x y. json_norm (f x) = json_norm (f y) \<longleftrightarrow> g x = g y"
  shows "json_norm (JList (map f xs)) = json_norm (JList (map f ys)) \<longleftrightarrow> map g xs = map g ys"
  by (simp add: list_eq_iff_nth_eq assms cong: conj_cong)

lemma jstrs_norm_eq [dump_simps]: "json_norm (JList (map jstr xs)) = json_norm (JList (map jstr ys)) \<longleftrightarrow> xs = ys"
  using jlist_norm_eq [of jstr id xs ys] by (simp add: ustr_of_inj)

lemma jopt_norm_eq:
  assumes "\<And>x y. json_norm (f x) = json_norm (f y) \<longleftrightarrow> g x = g y" "\<And>x. json_norm (f x) \<noteq> JNull"
  shows "json_norm (jopt f x) = json_norm (jopt f y) \<longleftrightarrow> map_option g x = map_option g y"
  using assms(2) [symmetric] by (cases x; cases y) (simp_all add: jopt_def assms)

lemma jobj_not_null [simp]: "json_norm (jobj kvs) \<noteq> JNull"
  by (simp add: jobj_def)

lemma jstr_opt_norm_eq [dump_simps]: "json_norm (jopt jstr x) = json_norm (jopt jstr y) \<longleftrightarrow> x = y"
  using jopt_norm_eq [of jstr id x y] by (simp add: ustr_of_inj option.map_id)

lemma jnat_opt_norm_eq [dump_simps]: "json_norm (jopt jnat x) = json_norm (jopt jnat y) \<longleftrightarrow> x = y"
  using jopt_norm_eq [of jnat id x y] by (simp add: option.map_id)

lemma jstrs_opt_norm_eq [dump_simps]:
  "json_norm (jopt (\<lambda>xs. JList (map jstr xs)) x) = json_norm (jopt (\<lambda>xs. JList (map jstr xs)) y) \<longleftrightarrow> x = y"
  using jopt_norm_eq [of "\<lambda>xs. JList (map jstr xs)" id x y] by (simp add: jstrs_norm_eq [simplified] option.map_id)

lemma scope_norm_eq [dump_simps]: "json_norm (scope_json s) = json_norm (scope_json t) \<longleftrightarrow> s = t"
  unfolding scope_json_def by (subst jobj_norm_eq) (simp_all add: dump_simps del: json_norm.simps)

lemma path_norm_eq [dump_simps]: "json_norm (path_json p) = json_norm (path_json q) \<longleftrightarrow> p = q"
proof -
  have f: "json_norm (frame_json a) = json_norm (frame_json b) \<longleftrightarrow> a = b" for a b
    unfolding frame_json_def by (cases a; cases b) (subst jobj_norm_eq, simp_all add: dump_simps)
  show ?thesis unfolding path_json_def
    by (cases p; cases q)
       (subst jobj_norm_eq, simp_all add: dump_simps jlist_norm_eq [of frame_json id, simplified f] f del: json_norm.simps)
qed

lemma wire_path_json [simp]: "wire (path_json p)"
  by (simp add: path_json_def scope_json_def frame_json_def list_all_iff)

subsection \<open>Ports\<close>

definition schema_norm :: "(ustr, json) dict \<Rightarrow> (ustr, json) dict" where
  "schema_norm d = sort_key fst (map (\<lambda>(k, v). (k, json_norm v)) d)"

definition port_norm :: "port \<Rightarrow> port" where
  "port_norm p = p\<lparr>json_schema := map_option schema_norm (json_schema p)\<rparr>"

definition port_wire :: "port \<Rightarrow> bool" where
  "port_wire p = (case json_schema p of None \<Rightarrow> True | Some d \<Rightarrow> wire (JObj d))"

lemma schema_norm_eq [dump_simps]:
  "json_norm (jopt JObj x) = json_norm (jopt JObj y) \<longleftrightarrow> map_option schema_norm x = map_option schema_norm y"
  by (rule jopt_norm_eq) (simp_all add: schema_norm_def)

lemma cardinality_norm_eq [dump_simps]: "json_norm (cardinality_json c) = json_norm (cardinality_json d) \<longleftrightarrow> c = d"
  by (cases c; cases d) (simp_all add: cardinality_json_def ustr_of_inj)

lemma port_norm_eq [dump_simps]: "json_norm (port_json p) = json_norm (port_json q) \<longleftrightarrow> port_norm p = port_norm q"
  unfolding port_json_def
  by (cases p; cases q) (subst jobj_norm_eq, auto simp: dump_simps port_norm_def simp del: json_norm.simps)

lemma wire_port_json [simp]: "wire (port_json p) \<longleftrightarrow> port_wire p"
  by (simp add: port_json_def port_wire_def cardinality_json_def split: option.splits)

lemma ports_norm_eq [dump_simps]:
  "json_norm (JList (map port_json ps)) = json_norm (JList (map port_json qs)) \<longleftrightarrow> map port_norm ps = map port_norm qs"
  by (rule jlist_norm_eq) (rule port_norm_eq)

text \<open>
  A boundary is compared by its canonical bytes: two port lists are the same boundary exactly
  when they declare the same ports in the same order, embedded schemas included, up to the key order
  of schema objects. In particular a schema that differs only by \<^verbatim>\<open>1\<close> against \<^verbatim>\<open>True\<close>, which
  Python's \<^verbatim>\<open>==\<close> cannot tell apart, is a different boundary.
\<close>

theorem same_boundary_exact:
  assumes "list_all port_wire ps" "list_all port_wire qs"
  shows "same_boundary ps qs \<longleftrightarrow> map port_norm ps = map port_norm qs"
proof -
  have "wire (JList (map port_json ps))" "wire (JList (map port_json qs))"
    using assms by (simp_all add: list_all_iff)
  from canonical_json_inj [OF this] show ?thesis
    by (simp add: same_boundary_def boundary_bytes_def dump_simps del: json_norm.simps canonical_json.simps)
qed

definition schema_port :: "json \<Rightarrow> port" where
  "schema_port v = \<lparr>port_name = ''x'', type_id = ''t'', schema_hash = ''s'',
     json_schema = Some [(ustr_of ''const'', v)], cardinality = One\<rparr>"

theorem same_boundary_exact_witness:
  "\<not> same_boundary [schema_port (JInt 1)] [schema_port (JBool True)]"
proof -
  have "list_all port_wire [schema_port (JInt 1)]" "list_all port_wire [schema_port (JBool True)]"
    by (simp_all add: port_wire_def schema_port_def)
  from same_boundary_exact [OF this] show ?thesis
    by (simp add: port_norm_def schema_norm_def schema_port_def)
qed

text \<open>
  One invocation, one address: two invocation ids that agree name the same run and the same
  execution path (static scope and loop frames), or their preimages are an explicit collision of
  SHA-256.
\<close>

theorem invocation_id_identity:
  assumes "invocation_id sha run path = invocation_id sha run' path'"
  shows "(run = run' \<and> path = path')
    \<or> collision sha (material ''invocation'' 1 (jobj [(''run_id'', jstr run), (''path'', path_json path)]))
                    (material ''invocation'' 1 (jobj [(''run_id'', jstr run'), (''path'', path_json path')]))"
proof -
  have n: "nul_free ''invocation''" by (simp add: nul_free_def)
  have e: "json_norm (jobj [(''run_id'', jstr run), (''path'', path_json path)])
      = json_norm (jobj [(''run_id'', jstr run'), (''path'', path_json path')]) \<longleftrightarrow> run = run' \<and> path = path'"
    by (subst jobj_norm_eq) (simp_all add: dump_simps del: json_norm.simps)
  show ?thesis
    using digest_of_inj [OF assms [unfolded invocation_id_def] n n] unfolding e by simp
qed

definition sample_path :: execution_path where
  "sample_path = \<lparr>path_scope = [''g'', ''n''], iterations = [\<lparr>frame_loop = [''g''], frame_index = 0\<rparr>]\<rparr>"

theorem invocation_id_identity_witness:
  "invocation_id (map char_of) ''r1'' sample_path = invocation_id (map char_of) ''r1'' sample_path
   \<and> path_scope sample_path = [''g'', ''n'']"
  using invocation_id_identity [of "map char_of" "''r1''" sample_path "''r1''" sample_path, OF refl]
  by (simp add: sample_path_def)

subsection \<open>Graphs\<close>

text \<open>
  An authored graph up to the order of its dictionaries (bindings, maps, feedback) and of the keys of
  embedded schemas, which is Python's equality refined by the type of every scalar.
\<close>

definition ref_norm :: "ref \<Rightarrow> ref" where
  "ref_norm r = r\<lparr>bind := norm_dict (bind r)\<rparr>"

definition connection_norm :: "connection \<Rightarrow> connection" where
  "connection_norm c = c\<lparr>conn_map := norm_dict (conn_map c)\<rparr>"

primrec graph_norm :: "graph \<Rightarrow> graph"
and gnode_norm :: "gnode \<Rightarrow> gnode"
and body_norm :: "body \<Rightarrow> body"
and loop_norm :: "loop \<Rightarrow> loop"
and loop_body_norm :: "loop_body \<Rightarrow> loop_body"
where
  "graph_norm (Graph name ns cs ins outs) =
     Graph name (map gnode_norm ns) (map connection_norm cs) (map port_norm ins) (map port_norm outs)"
| "gnode_norm (GNode i b) = GNode i (body_norm b)"
| "body_norm (RefBody r) = RefBody (ref_norm r)"
| "body_norm (GraphBody g) = GraphBody (graph_norm g)"
| "body_norm (LoopBody l) = LoopBody (loop_norm l)"
| "loop_norm (Loop b fb cont n) = Loop (loop_body_norm b) (norm_dict fb) cont n"
| "loop_body_norm (LoopRef r) = LoopRef (ref_norm r)"
| "loop_body_norm (LoopGraph g) = LoopGraph (graph_norm g)"

text \<open>A graph whose dictionaries repeat no key and whose schemas are wire values.\<close>

primrec graph_wire :: "graph \<Rightarrow> bool"
and gnode_wire :: "gnode \<Rightarrow> bool"
and body_wire :: "body \<Rightarrow> bool"
and loop_wire :: "loop \<Rightarrow> bool"
and loop_body_wire :: "loop_body \<Rightarrow> bool"
where
  "graph_wire (Graph name ns cs ins outs) =
     (list_all gnode_wire ns \<and> list_all (\<lambda>c. distinct (map fst (conn_map c))) cs
      \<and> list_all port_wire ins \<and> list_all port_wire outs)"
| "gnode_wire (GNode i b) = body_wire b"
| "body_wire (RefBody r) = distinct (map fst (bind r))"
| "body_wire (GraphBody g) = graph_wire g"
| "body_wire (LoopBody l) = loop_wire l"
| "loop_wire (Loop b fb cont n) = (loop_body_wire b \<and> distinct (map fst fb))"
| "loop_body_wire (LoopRef r) = distinct (map fst (bind r))"
| "loop_body_wire (LoopGraph g) = graph_wire g"

lemma posture_norm_eq [dump_simps]: "json_norm (posture_json p) = json_norm (posture_json q) \<longleftrightarrow> p = q"
  by (cases p; cases q) (simp_all add: posture_json_def ustr_of_inj)

lemma posture_opt_norm_eq [dump_simps]: "json_norm (jopt posture_json p) = json_norm (jopt posture_json q) \<longleftrightarrow> p = q"
  using jopt_norm_eq [of posture_json id p q]
  by (simp add: dump_simps option.map_id) (simp add: posture_json_def)

lemma grant_request_norm_eq [dump_simps]:
  "json_norm (grant_request_json r) = json_norm (grant_request_json q) \<longleftrightarrow> r = q"
proof -
  have n: "(case a of NetInherit \<Rightarrow> ''inherit'' | NetNone \<Rightarrow> ''none'' | NetAllow \<Rightarrow> ''allow'')
      = (case b of NetInherit \<Rightarrow> ''inherit'' | NetNone \<Rightarrow> ''none'' | NetAllow \<Rightarrow> ''allow'') \<longleftrightarrow> a = b" for a b
    by (cases a; cases b) simp_all
  show ?thesis unfolding grant_request_json_def
    by (cases r; cases q) (subst jobj_norm_eq, simp_all add: dump_simps n del: json_norm.simps)
qed

lemma request_opt_norm_eq [dump_simps]:
  "json_norm (jopt grant_request_json r) = json_norm (jopt grant_request_json q) \<longleftrightarrow> r = q"
  using jopt_norm_eq [of grant_request_json id r q]
  by (simp add: dump_simps option.map_id) (simp add: grant_request_json_def)

lemma ref_norm_eq [dump_simps]: "json_norm (ref_json r) = json_norm (ref_json q) \<longleftrightarrow> ref_norm r = ref_norm q"
  unfolding ref_json_def
  by (cases r; cases q) (subst jobj_norm_eq, simp_all add: dump_simps jdict_norm_eq ref_norm_def del: json_norm.simps)

lemma connection_norm_eq [dump_simps]:
  "json_norm (connection_json c) = json_norm (connection_json d) \<longleftrightarrow> connection_norm c = connection_norm d"
  unfolding connection_json_def
  by (cases c; cases d) (subst jobj_norm_eq, simp_all add: dump_simps jdict_norm_eq connection_norm_def del: json_norm.simps)

text \<open>The three node bodies are told apart by their field names.\<close>

lemma jobj_norm_neq: "k \<in> fst ` set xs \<Longrightarrow> k \<notin> fst ` set ys \<Longrightarrow> json_norm (jobj xs) \<noteq> json_norm (jobj ys)"
  using jobj_norm_keys by blast

lemma body_kinds_differ [dump_simps]:
  "json_norm (ref_json r) \<noteq> json_norm (graph_json g)" "json_norm (ref_json r) \<noteq> json_norm (loop_json l)"
  "json_norm (graph_json g) \<noteq> json_norm (loop_json l)"
  by (cases g; cases l; simp only: ref_json_def graph_json.simps loop_json.simps;
      rule jobj_norm_neq [of "''component''"] jobj_norm_neq [of "''nodes''"]; simp; fail)+

lemmas body_kinds_differ' [dump_simps] = body_kinds_differ [symmetric]

lemma jlist_norm_eq_on:
  assumes "\<And>x y. x \<in> set xs \<Longrightarrow> json_norm (f x) = json_norm (f y) \<longleftrightarrow> g x = g y"
  shows "json_norm (JList (map f xs)) = json_norm (JList (map f ys)) \<longleftrightarrow> map g xs = map g ys"
  using assms by (simp add: list_eq_iff_nth_eq cong: conj_cong)

lemma graph_norm_eq_all:
  "json_norm (graph_json g) = json_norm (graph_json g') \<longleftrightarrow> graph_norm g = graph_norm g'"
  "json_norm (gnode_json n) = json_norm (gnode_json n') \<longleftrightarrow> gnode_norm n = gnode_norm n'"
  "json_norm (body_json b) = json_norm (body_json b') \<longleftrightarrow> body_norm b = body_norm b'"
  "json_norm (loop_json l) = json_norm (loop_json l') \<longleftrightarrow> loop_norm l = loop_norm l'"
  "json_norm (loop_body_json lb) = json_norm (loop_body_json lb') \<longleftrightarrow> loop_body_norm lb = loop_body_norm lb'"
proof (induction g and n and b and l and lb arbitrary: g' and n' and b' and l' and lb' rule: graph.induct gnode.induct body.induct loop.induct loop_body.induct)
  case (Graph name ns cs ins outs)
  obtain name' ns' cs' ins' outs' where g': "g' = Graph name' ns' cs' ins' outs'" by (cases g')
  have n: "json_norm (JList (map gnode_json ns)) = json_norm (JList (map gnode_json ns')) \<longleftrightarrow> map gnode_norm ns = map gnode_norm ns'"
    by (rule jlist_norm_eq_on) (rule Graph)
  show ?case unfolding g' graph_json.simps
    by (subst jobj_norm_eq) (simp_all add: n dump_simps jlist_norm_eq [OF connection_norm_eq] del: json_norm.simps)
next
  case (GNode i b)
  obtain i' b' where n': "n' = GNode i' b'" by (cases n')
  show ?case unfolding n' gnode_json.simps
    by (subst jobj_norm_eq) (simp_all add: GNode dump_simps del: json_norm.simps)
next
  case (RefBody r) then show ?case by (cases b') (simp_all add: dump_simps)
next
  case (GraphBody g) then show ?case by (cases b') (simp_all add: dump_simps)
next
  case (LoopBody l) then show ?case by (cases b') (simp_all add: dump_simps)
next
  case (Loop b fb cont n)
  obtain b' fb' cont' m where l': "l' = Loop b' fb' cont' m" by (cases l')
  show ?case unfolding l' loop_json.simps
    by (subst jobj_norm_eq) (simp_all add: Loop dump_simps jdict_norm_eq del: json_norm.simps, simp)
next
  case (LoopRef r) then show ?case by (cases lb') (simp_all add: dump_simps)
next
  case (LoopGraph g) then show ?case by (cases lb') (simp_all add: dump_simps)
qed

lemma wire_graph_json_all:
  "graph_wire g \<Longrightarrow> wire (graph_json g)" "gnode_wire n \<Longrightarrow> wire (gnode_json n)"
  "body_wire b \<Longrightarrow> wire (body_json b)" "loop_wire l \<Longrightarrow> wire (loop_json l)"
  "loop_body_wire lb \<Longrightarrow> wire (loop_body_json lb)"
proof (induction g and n and b and l and lb rule: graph.induct gnode.induct body.induct loop.induct loop_body.induct)
  have r: "wire (ref_json r) \<longleftrightarrow> distinct (map fst (bind r))" for r
    by (simp add: ref_json_def grant_request_json_def posture_json_def list_all_iff split: option.splits)
  {
    case (RefBody r) then show ?case by (simp add: r)
  next
    case (LoopRef r) then show ?case by (simp add: r)
  }
qed (auto simp: connection_json_def list_all_iff)

text \<open>
  The source-graph hash identifies the authored graph: two graphs with the same hash are the same
  graph up to the order of their dictionaries, at every depth of composition, or their dumps are an
  explicit collision of SHA-256.
\<close>

theorem source_graph_hash_identity:
  assumes "graph_wire g" "graph_wire h" "source_graph_hash_for sha g = source_graph_hash_for sha h"
  shows "graph_norm g = graph_norm h
    \<or> collision sha (material ''graph'' 1 (graph_json g)) (material ''graph'' 1 (graph_json h))"
proof -
  have n: "nul_free ''graph''" by (simp add: nul_free_def)
  show ?thesis
    using digest_of_inj [OF assms(3) [unfolded source_graph_hash_for_def] n n
        wire_graph_json_all(1) [OF assms(1)] wire_graph_json_all(1) [OF assms(2)]]
      graph_norm_eq_all(1) [of g h] by simp
qed

definition bind_ref :: "(string, string) dict \<Rightarrow> graph" where
  "bind_ref d = Graph ''g'' [GNode ''n'' (RefBody \<lparr>component = ''c'', version = None, bind = d, grants = None\<rparr>)] [] [] []"

theorem source_graph_hash_identity_witness:
  "graph_norm (bind_ref [(''b'', ''x''), (''a'', ''y'')]) = graph_norm (bind_ref [(''a'', ''y''), (''b'', ''x'')])"
proof -
  let ?g = "bind_ref [(''b'', ''x''), (''a'', ''y'')]" and ?h = "bind_ref [(''a'', ''y''), (''b'', ''x'')]"
  have w: "graph_wire ?g" "graph_wire ?h" by (simp_all add: bind_ref_def)
  have "canonical_json (graph_json ?g) = canonical_json (graph_json ?h)"
    by (simp add: bind_ref_def jobj_def jdict_def ref_json_def jopt_def ustr_of_def)
  then have m: "material ''graph'' 1 (graph_json ?g) = material ''graph'' 1 (graph_json ?h)"
    by (simp only: material_def)
  have "source_graph_hash_for (map char_of) ?g = source_graph_hash_for (map char_of) ?h"
    by (simp only: source_graph_hash_for_def digest_of_def m)
  from source_graph_hash_identity [OF w this] show ?thesis by (simp only: m collision_def simp_thms)
qed

end
