(* ===== verification/Faults.thy ===== *)
theory Faults
  imports Graph_IR
begin

text \<open>
  The faults that admission records (\<^verbatim>\<open>runtime/validator.py\<close>). A fault of the source is a message
  with structured details; here each message is a constructor that carries the same data. Located
  faults keep the exact coordinate of the authored value: a path into the proposal, or into the bytes
  of one retained definition.
\<close>

datatype path_step = Key string | Index nat

record location =
  loc_path :: "path_step list"
  loc_retained :: "(string \<times> digest) option"

definition loc_child :: "location \<Rightarrow> path_step list \<Rightarrow> location" where
  "loc_child l parts = l\<lparr>loc_path := loc_path l @ parts\<rparr>"

definition root_location :: location where
  "root_location = \<lparr>loc_path = [], loc_retained = None\<rparr>"

record map_entry =
  connection_index :: nat
  destination_node :: string
  destination_port :: string
  selector :: string
  entry_location :: location

datatype defect =
    UnknownConnectionNode nat string string "string list"
  | GraphCycle nat string string "string list"
  | UnusedMapDestination map_entry
  | DuplicateMapDestination map_entry cardinality nat string
  | MalformedSelector map_entry
  | ExplicitSourceCount map_entry nat
  | ExplicitSourceCardinality map_entry cardinality
  | ExplicitSourceContract map_entry "string \<times> string" "string \<times> string"
  | AmbiguousNodeInput map_entry "string list"
  | AmbiguousNodeInputUnmappable string string "string list"
  | AmbiguousGraphOutput string "string list"
  | MissingFeedbackSeed string string
  | MissingPortSource string "string option"

datatype fault =
    Located scope location defect
  | DuplicatePorts string "string list"
  | InputsNotObject
  | MissingRunInputs "string list" "string list"
  | ExtraRunInputs "ustr list" "string list"
  | DuplicateNodeIds string
  | UnknownNode string string
  | CycleOutsideLoop "string list"
  | UnusedPin scope string digest
  | NestedLoop scope
  | UnknownComponent scope string "string list"
  | NoStableVersion scope string "string list"
  | StablePointerDamaged scope string digest
  | NoSuchVersion scope string string "string list"
  | NoPin scope string
  | PinComponentMismatch scope string string
  | PinUnavailable scope string digest
  | RetainedComposite scope "string list" string digest
  | GrantWidening scope grant_fault
  | FeedbackDestination scope string "string list"
  | FeedbackSource scope string "string list"
  | FeedbackCardinality scope string string
  | FeedbackContract scope string string
  | FeedbackSourceCount scope string nat
  | ContinueUndeclared scope string "string list"
  | ContinueContract scope string
  | ContinueSourceCount scope string
  | EmptyLoopBody scope
  | UnknownCapability scope string string "string list"
  | ExecutorUnavailable scope string string string
  | ExecutorGrants scope string string executor_fault
  | PostureUnavailable scope string posture
  | PostureUnenforceable scope string posture
  | WritePostureRequired scope string posture
  | ChannelIncoherent scope string string string
  | ChannelWithoutEndpoint scope string string
  | ChannelPorts scope string string string nat nat
  | ChannelExchange scope string string string

text \<open>\<^verbatim>\<open>_map_fault\<close>: the fault is located at the authored map entry.\<close>

definition map_fault :: "map_entry \<Rightarrow> scope \<Rightarrow> defect \<Rightarrow> fault" where
  "map_fault e s d = Located s
     (loc_child (entry_location e)
        [Key ''connections'', Index (connection_index e), Key ''map'', Key (destination_port e)]) d"

end
