(* ===== verification/Topology.thy ===== *)
theory Topology
  imports Faults
begin

text \<open>
  One graph level's connections (\<^verbatim>\<open>runtime/validator.py\<close>): \<open>endpoint_faults\<close>
  (\<^verbatim>\<open>_validate_connection_endpoints\<close>), the iterative depth-first search \<open>cycle_reports\<close>
  (\<^verbatim>\<open>_reject_cycles\<close>), the memoised \<open>upstream_closure\<close> (\<^verbatim>\<open>_upstream_closure\<close>) and the placement
  \<open>ordered_nodes\<close> (\<^verbatim>\<open>_ordered_nodes\<close>).

  The search is a worklist of frames, one per node on the trail, each with the edges it has still to
  look at. It returns one report per back edge. The closure and the placement are recursive Python functions, one
  frame of the interpreter's stack per nested call: they take the frames that are left as an argument, and their result
  may be \<open>StackExhausted\<close>.

  The laws relate the four functions to the edge
  relation \<open>edges\<close> of the level: the search decides acyclicity, and on a level it accepts, within a stack of one frame more than it
  has nodes, the closure of a node is exactly its ancestors, in dependency order, and the placement succeeds with every
  producer before its consumers. A chain of nodes that is listed backwards needs that stack.
\<close>

section \<open>Model\<close>

definition node_ids :: "graph \<Rightarrow> string list" where
  "node_ids g = map node_id (nodes g)"

definition missing_roles :: "string list \<Rightarrow> connection \<Rightarrow> string list" where
  "missing_roles declared c = opt (src c \<notin> set declared) ''src'' @ opt (dst c \<notin> set declared) ''dst''"

definition endpoint_faults :: "graph \<Rightarrow> scope \<Rightarrow> location \<Rightarrow> fault list" where
  "endpoint_faults g s l = concat (map (\<lambda>(i, c).
     let missing = missing_roles (node_ids g) c in
     opt (missing \<noteq> [])
       (Located s (loc_child l [Key ''connections'', Index i]) (UnknownConnectionNode i (src c) (dst c) missing)))
     (enumerate 0 (connections g)))"

subsection \<open>The cycle search\<close>

datatype mark = OnStack | Done

type_synonym edge_index = "(string, (nat \<times> string) list) dict"

definition outgoing :: "graph \<Rightarrow> edge_index" where
  "outgoing g = fold (\<lambda>(i, c). dict_append (src c) (i, dst c)) (enumerate 0 (connections g)) []"

type_synonym cycle_report = "nat \<times> string \<times> string \<times> string list"

text \<open>The stack holds the trail with its frames, innermost first.\<close>

definition trail_of :: "(string \<times> (nat \<times> string) list) list \<Rightarrow> string list" where
  "trail_of stack = rev (map fst stack)"

definition unseen_edges :: "edge_index \<Rightarrow> (string, mark) dict \<Rightarrow> nat" where
  "unseen_edges out st = sum_list (map (\<lambda>(k, es). if map_of st k = None then 2 * length es else 0) out)"

lemma unseen_edges_mark:
  "map_of st t = None \<Longrightarrow> unseen_edges out (dict_set t m st) + 2 * length (dict_get_or [] out t) \<le> unseen_edges out st"
proof (induction out)
  case (Cons kv out)
  obtain k es where kv: "kv = (k, es)" by (cases kv)
  have mono: "unseen_edges out (dict_set t m st) \<le> unseen_edges out st"
    unfolding unseen_edges_def by (intro sum_list_mono) (auto split: prod.splits)
  have IH: "unseen_edges out (dict_set t m st) + 2 * length (dict_get_or [] out t) \<le> unseen_edges out st"
    using Cons by simp
  have rest: "unseen_edges (kv # out) s = (if map_of s k = None then 2 * length es else 0) + unseen_edges out s" for s
    by (simp add: unseen_edges_def kv)
  show ?case
    using mono IH Cons.prems by (cases "k = t") (auto simp: rest, auto simp: dict_get_or_simps kv)
qed (simp add: unseen_edges_def dict_get_or_def)

lemma unseen_edges_mono: "unseen_edges out (dict_set t m st) \<le> unseen_edges out st"
  unfolding unseen_edges_def by (intro sum_list_mono) (auto split: prod.splits)

function scan ::
  "edge_index \<Rightarrow> (string, mark) dict \<Rightarrow> (string \<times> (nat \<times> string) list) list
     \<Rightarrow> (string, mark) dict \<times> cycle_report list" where
  "scan out st [] = (st, [])"
| "scan out st ((n, []) # stack) = scan out (dict_set n Done st) stack"
| "scan out st ((n, (i, t) # es) # stack) =
     (if map_of st t = Some OnStack then
        (let (st', reports) = scan out st ((n, es) # stack) in
         (st', (i, n, t, dropWhile (\<lambda>x. x \<noteq> t) (trail_of ((n, es) # stack)) @ [t]) # reports))
      else if map_of st t = None then
        scan out (dict_set t OnStack st) ((t, dict_get_or [] out t) # (n, es) # stack)
      else scan out st ((n, es) # stack))"
  by pat_completeness auto
termination
proof (relation "measure (\<lambda>(out, st, stack). sum_list (map (\<lambda>(n, es). 2 * length es + 1) stack) + unseen_edges out st)", goal_cases)
  case (4 out st n i t es stack)
  then show ?case using unseen_edges_mark [of st t out OnStack] by simp
qed (simp_all add: unseen_edges_mono le_imp_less_Suc)

definition scan_from :: "edge_index \<Rightarrow> string \<Rightarrow> (string, mark) dict \<Rightarrow> (string, mark) dict \<times> cycle_report list" where
  "scan_from out n st =
     (if map_of st n \<noteq> None then (st, [])
      else scan out (dict_set n OnStack st) [(n, dict_get_or [] out n)])"

primrec scan_all :: "edge_index \<Rightarrow> string list \<Rightarrow> (string, mark) dict \<Rightarrow> (string, mark) dict \<times> cycle_report list" where
  "scan_all out [] st = (st, [])"
| "scan_all out (n # ns) st =
     (let (st', rs) = scan_from out n st; (st'', rs') = scan_all out ns st' in (st'', rs @ rs'))"

definition cycle_reports :: "graph \<Rightarrow> cycle_report list" where
  "cycle_reports g = snd (scan_all (outgoing g) (node_ids g) [])"

definition cycle_faults :: "graph \<Rightarrow> scope \<Rightarrow> location \<Rightarrow> fault list" where
  "cycle_faults g s l = map (\<lambda>(i, n, t, cyc).
     Located s (loc_child l [Key ''connections'', Index i]) (GraphCycle i n t cyc)) (cycle_reports g)"

subsection \<open>The upstream closure\<close>

text \<open>How a level raises: \<^verbatim>\<open>KeyError\<close> on an undeclared destination, a refusal, or \<^verbatim>\<open>RecursionError\<close>.\<close>

datatype level_error = UnknownDestination | Refused fault | StackExhausted

text \<open>
  \<^verbatim>\<open>direct[connection.dst].append(connection.src)\<close> raises \<^verbatim>\<open>KeyError\<close> (\<open>None\<close>) on an undeclared
  destination.
\<close>

definition add_parent :: "connection \<Rightarrow> (string, string list) dict \<Rightarrow> (string, string list) dict option" where
  "add_parent c direct = (case map_of direct (dst c) of
     None \<Rightarrow> None | Some ps \<Rightarrow> Some (dict_set (dst c) (ps @ [src c]) direct))"

primrec add_parents :: "connection list \<Rightarrow> (string, string list) dict \<Rightarrow> (string, string list) dict option" where
  "add_parents [] direct = Some direct"
| "add_parents (c # cs) direct = Option.bind (add_parent c direct) (add_parents cs)"

definition direct_parents :: "graph \<Rightarrow> (string, string list) dict option" where
  "direct_parents g = add_parents (connections g) (dict_of (map (\<lambda>n. (n, [])) (node_ids g)))"

text \<open>One step of the loop over a node's parents.\<close>

definition merge_parent ::
  "(string \<Rightarrow> (string, string list) dict \<Rightarrow> level_error + (string, string list) dict) \<Rightarrow> string set \<Rightarrow> string
     \<Rightarrow> (string, string list) dict \<times> string list \<Rightarrow> level_error + (string, string list) dict \<times> string list" where
  "merge_parent vis seen parent st = (case st of (cl, ordered) \<Rightarrow>
     if parent \<in> seen then Inr (cl, ordered)
     else rbind (vis parent cl) (\<lambda>cl'. Inr (cl', add_new ordered (dict_get_or [] cl' parent @ [parent]))))"

primrec visit ::
  "nat \<Rightarrow> (string, string list) dict \<Rightarrow> string \<Rightarrow> string set \<Rightarrow> (string, string list) dict
     \<Rightarrow> level_error + (string, string list) dict" where
  "visit 0 direct name seen closure = Inl StackExhausted"
| "visit (Suc n) direct name seen closure =
     (if map_of closure name \<noteq> None then Inr closure
      else rbind (rfold (merge_parent (\<lambda>parent. visit n direct parent (insert name seen)) seen)
                        (dict_get_or [] direct name) (closure, []))
             (\<lambda>(closure', ordered). Inr (dict_set name ordered closure')))"

text \<open>\<^verbatim>\<open>_upstream_closure\<close> takes a frame itself.\<close>

definition upstream_closure :: "nat \<Rightarrow> graph \<Rightarrow> level_error + (string, string list) dict" where
  "upstream_closure n g =
     (case direct_parents g of
        None \<Rightarrow> Inl UnknownDestination
      | Some direct \<Rightarrow> rfold (\<lambda>name. visit (n - 1) direct name {}) (node_ids g) [])"

subsection \<open>Placement\<close>

type_synonym placement = "string set \<times> gnode list"

primrec place ::
  "nat \<Rightarrow> (string, gnode) dict \<Rightarrow> (string, string list) dict \<Rightarrow> string \<Rightarrow> string \<Rightarrow> string list \<Rightarrow> placement
     \<Rightarrow> level_error + placement" where
  "place 0 by_id upstream gname name trail st = Inl StackExhausted"
| "place (Suc n) by_id upstream gname name trail st =
     (if name \<in> fst st then Inr st
      else case map_of by_id name of
        None \<Rightarrow> Inl (Refused (UnknownNode gname name))
      | Some node \<Rightarrow>
          if name \<in> set trail then Inl (Refused (CycleOutsideLoop (trail @ [name])))
          else rbind (rfold (\<lambda>parent. place n by_id upstream gname parent (trail @ [name]))
                            (dict_get_or [] upstream name) st)
                 (\<lambda>(placed, ordered). Inr (insert name placed, ordered @ [node])))"

definition ordered_nodes :: "nat \<Rightarrow> graph \<Rightarrow> (string, string list) dict \<Rightarrow> level_error + gnode list" where
  "ordered_nodes n g upstream =
     (let by_id = dict_of (map (\<lambda>n. (node_id n, n)) (nodes g)) in
      if length by_id \<noteq> length (nodes g) then Inl (Refused (DuplicateNodeIds (graph_name g)))
      else rbind (rfold (\<lambda>node. place (n - 1) by_id upstream (graph_name g) (node_id node) []) (nodes g) ({}, []))
             (\<lambda>(placed, ordered). Inr ordered))"


section \<open>Laws\<close>

definition edges :: "graph \<Rightarrow> (string \<times> string) set" where
  "edges g = (\<lambda>c. (src c, dst c)) ` set (connections g)"

definition endpoints_declared :: "graph \<Rightarrow> bool" where
  "endpoints_declared g \<longleftrightarrow> (\<forall>c \<in> set (connections g). src c \<in> set (node_ids g) \<and> dst c \<in> set (node_ids g))"

lemma endpoint_faults_Nil: "endpoint_faults g s l = [] \<longleftrightarrow> endpoints_declared g"
proof -
  have "missing_roles ids c = [] \<longleftrightarrow> src c \<in> set ids \<and> dst c \<in> set ids" for ids c
    by (simp add: missing_roles_def)
  then have "endpoint_faults g s l = [] \<longleftrightarrow>
      (\<forall>ic \<in> set (enumerate 0 (connections g)). src (snd ic) \<in> set (node_ids g) \<and> dst (snd ic) \<in> set (node_ids g))"
    by (simp add: endpoint_faults_def Let_def case_prod_unfold)
  also have "\<dots> \<longleftrightarrow> (\<forall>c \<in> snd ` set (enumerate 0 (connections g)). src c \<in> set (node_ids g) \<and> dst c \<in> set (node_ids g))"
    by simp
  finally show ?thesis by (simp add: endpoints_declared_def flip: set_map)
qed

lemma finite_edges [simp]: "finite (edges g)"
  by (simp add: edges_def)

lemma edges_declared: "endpoints_declared g \<Longrightarrow> (a, b) \<in> edges g \<Longrightarrow> a \<in> set (node_ids g) \<and> b \<in> set (node_ids g)"
  by (auto simp: endpoints_declared_def edges_def)

lemma trancl_declared: "endpoints_declared g \<Longrightarrow> (a, b) \<in> (edges g)\<^sup>+ \<Longrightarrow> a \<in> set (node_ids g) \<and> b \<in> set (node_ids g)"
  by (meson edges_declared tranclD tranclD2)

subsection \<open>The cycle search decides acyclicity\<close>

lemma outgoing_fold:
  "dict_get_or [] (fold (\<lambda>(i, c). dict_append (src c) (i, dst c)) ics d) n
     = dict_get_or [] d n @ map (\<lambda>(i, c). (i, dst c)) (filter (\<lambda>(i, c). src c = n) ics)"
  by (induction ics arbitrary: d) (auto simp: dict_simps split: prod.splits)

lemma outgoing_mem:
  "(i, t) \<in> set (dict_get_or [] (outgoing g) n)
     \<longleftrightarrow> i < length (connections g) \<and> src (connections g ! i) = n \<and> dst (connections g ! i) = t"
  by (auto simp: outgoing_def outgoing_fold dict_simps in_set_enumerate_eq image_iff)

lemma outgoing_edges: "t \<in> snd ` set (dict_get_or [] (outgoing g) n) \<longleftrightarrow> (n, t) \<in> edges g"
proof
  assume "t \<in> snd ` set (dict_get_or [] (outgoing g) n)"
  then obtain i where "(i, t) \<in> set (dict_get_or [] (outgoing g) n)" by auto
  then show "(n, t) \<in> edges g" unfolding outgoing_mem edges_def by (auto simp: image_iff)
next
  assume "(n, t) \<in> edges g"
  then obtain i where "i < length (connections g)" "src (connections g ! i) = n" "dst (connections g ! i) = t"
    by (auto simp: edges_def in_set_conv_nth)
  then have "(i, t) \<in> set (dict_get_or [] (outgoing g) n)" by (simp add: outgoing_mem)
  then show "t \<in> snd ` set (dict_get_or [] (outgoing g) n)" by force
qed

definition marked :: "mark \<Rightarrow> (string, mark) dict \<Rightarrow> string set" where
  "marked m st = {n. map_of st n = Some m}"

lemma marked_set [simp]:
  "marked m (dict_set n m' st) = (if m = m' then insert n (marked m st) else marked m st - {n})"
  by (auto simp: marked_def)

lemma dom_marked: "dom (map_of st) = marked OnStack st \<union> marked Done st"
  by (auto simp: marked_def) (metis mark.exhaust)

text \<open>The trail is a path, its marks are the stack, and every frame holds a suffix of its edges.\<close>

definition stack_ok :: "edge_index \<Rightarrow> (string \<times> string) set \<Rightarrow> (string, mark) dict \<Rightarrow> (string \<times> (nat \<times> string) list) list \<Rightarrow> bool" where
  "stack_ok out E st stack \<longleftrightarrow> successively (\<lambda>t n. (n, t) \<in> E) (map fst stack) \<and> distinct (map fst stack)
     \<and> marked OnStack st = fst ` set stack
     \<and> (\<forall>(n, es) \<in> set stack. set es \<subseteq> set (dict_get_or [] out n))"

text \<open>With no report yet: finished nodes are closed and acyclic, and every edge already looked at
  leads to a finished node or to the frame above.\<close>

fun frames_ok :: "edge_index \<Rightarrow> string set \<Rightarrow> string set \<Rightarrow> (string \<times> (nat \<times> string) list) list \<Rightarrow> bool" where
  "frames_ok out D up [] = True"
| "frames_ok out D up ((n, es) # stack) =
     (snd ` set (dict_get_or [] out n) \<subseteq> D \<union> up \<union> snd ` set es \<and> frames_ok out D {n} stack)"

definition done_ok :: "(string \<times> string) set \<Rightarrow> string set \<Rightarrow> bool" where
  "done_ok E D \<longleftrightarrow> (\<forall>(a, b) \<in> E. a \<in> D \<longrightarrow> b \<in> D) \<and> acyclic (E \<inter> D \<times> D)"

lemma frames_ok_mono: "frames_ok out D up stack \<Longrightarrow> D \<subseteq> D' \<Longrightarrow> up \<subseteq> D' \<union> up' \<Longrightarrow> frames_ok out D' up' stack"
proof (induction stack arbitrary: up up')
  case (Cons f stack)
  obtain n es where f: "f = (n, es)" by (cases f)
  have "frames_ok out D' {n} stack" using Cons.IH [of "{n}" "{n}"] Cons.prems by (auto simp: f)
  then show ?case using Cons.prems by (auto simp: f)
qed simp

text \<open>A finished node gets no edge from the finished ones, so it closes no cycle among them.\<close>

lemma done_ok_insert:
  assumes "done_ok E D" "n \<notin> D" "\<And>t. (n, t) \<in> E \<Longrightarrow> t \<in> D"
  shows "done_ok E (insert n D)"
proof -
  let ?R = "E \<inter> insert n D \<times> insert n D"
  have closed: "b \<in> D" if "(a, b) \<in> E" "a \<in> D" for a b using assms(1) that by (auto simp: done_ok_def)
  have last: "b \<in> D" if "(a, b) \<in> ?R" for a b using that closed assms(3) by auto
  have stay: "(a, b) \<in> (E \<inter> D \<times> D)\<^sup>+" if "(a, b) \<in> ?R\<^sup>+" "a \<in> D" for a b
    using that
  proof (induction rule: trancl_induct)
    case (base y) then show ?case using closed by auto
  next
    case (step y z)
    then have "y \<in> D" by (meson Int_iff SigmaE2 tranclD2)
    then show ?case using step closed by (meson IntI IntD1 SigmaI trancl_into_trancl)
  qed
  have "acyclic ?R"
  proof (rule acyclicI, rule allI, rule notI)
    fix x assume x: "(x, x) \<in> ?R\<^sup>+"
    then have "x \<in> D" using last by (meson tranclD2)
    then show False using stay [OF x] assms(1) by (simp add: done_ok_def acyclic_def)
  qed
  then show ?thesis using closed assms(3) by (auto simp: done_ok_def)
qed

lemma stack_ok_pop:
  "stack_ok out E st ((n, es) # stack) \<Longrightarrow> stack_ok out E (dict_set n Done st) stack"
  by (auto simp: stack_ok_def successively_Cons)

lemma stack_ok_next:
  "stack_ok out E st ((n, e # es) # stack) \<Longrightarrow> stack_ok out E st ((n, es) # stack)"
  by (auto simp: stack_ok_def)

lemma stack_ok_push:
  assumes "stack_ok out E st ((n, (i, t) # es) # stack)" "map_of st t = None"
    and "\<And>n t. t \<in> snd ` set (dict_get_or [] out n) \<longleftrightarrow> (n, t) \<in> E"
  shows "stack_ok out E (dict_set t OnStack st) ((t, dict_get_or [] out t) # (n, es) # stack)"
proof -
  have "(i, t) \<in> set (dict_get_or [] out n)" using assms(1) by (auto simp: stack_ok_def)
  then have "(n, t) \<in> E" using assms(3) by (metis image_eqI snd_conv)
  moreover have "t \<notin> fst ` set ((n, es) # stack)"
  proof
    assume "t \<in> fst ` set ((n, es) # stack)"
    then have "t \<in> marked OnStack st" using assms(1) by (auto simp: stack_ok_def)
    then show False using assms(2) by (simp add: marked_def)
  qed
  ultimately show ?thesis using stack_ok_next [OF assms(1)] by (auto simp: stack_ok_def)
qed

lemma scan_silent:
  assumes "\<And>n t. t \<in> snd ` set (dict_get_or [] out n) \<longleftrightarrow> (n, t) \<in> E"
    and "stack_ok out E st stack" "frames_ok out (marked Done st) {} stack" "done_ok E (marked Done st)"
    and "snd (scan out st stack) = []"
  shows "done_ok E (marked Done (fst (scan out st stack)))
    \<and> marked OnStack (fst (scan out st stack)) = {}
    \<and> dom (map_of st) \<subseteq> dom (map_of (fst (scan out st stack)))"
  using assms
proof (induction out st stack rule: scan.induct [case_names Nil Pop Edge])
  case (Nil out st)
  then show ?case by (simp add: stack_ok_def)
next
  case (Pop out st n stack)
  let ?D = "marked Done st"
  have t: "t \<in> ?D" if "(n, t) \<in> E" for t using that Pop.prems(1,3) by auto
  have "n \<in> marked OnStack st" using Pop.prems(2) by (simp add: stack_ok_def)
  then have n: "n \<notin> ?D" by (simp add: marked_def)
  have "frames_ok out (insert n ?D) {} stack"
    using Pop.prems(3) by (auto elim: frames_ok_mono)
  then have "done_ok E (marked Done (fst (scan out (dict_set n Done st) stack)))
    \<and> marked OnStack (fst (scan out (dict_set n Done st) stack)) = {}
    \<and> dom (map_of (dict_set n Done st)) \<subseteq> dom (map_of (fst (scan out (dict_set n Done st) stack)))"
    using done_ok_insert [OF Pop.prems(4) n t] stack_ok_pop [OF Pop.prems(2)] Pop.prems(1,5)
    by (intro Pop.IH) simp_all
  then show ?case by (auto simp: update_conv')
next
  case (Edge out st n i t es stack)
  let ?D = "marked Done st"
  consider "map_of st t = Some OnStack" | "map_of st t = None" | "map_of st t = Some Done"
    by (cases "map_of st t") (auto, metis mark.exhaust)
  then show ?case
  proof cases
    case 1
    then show ?thesis using Edge.prems(5) by (simp split: prod.splits)
  next
    case 2
    have D: "marked Done (dict_set t OnStack st) = ?D" using 2 by (auto simp: marked_def)
    let ?s = "scan out (dict_set t OnStack st) ((t, dict_get_or [] out t) # (n, es) # stack)"
    have "done_ok E (marked Done (fst ?s)) \<and> marked OnStack (fst ?s) = {} \<and> dom (map_of (dict_set t OnStack st)) \<subseteq> dom (map_of (fst ?s))"
      using Edge.prems 2 stack_ok_push [OF Edge.prems(2) 2 Edge.prems(1)]
      by (intro Edge.IH(2)) (auto simp: D simp del: marked_set)
    then show ?thesis using 2 by (auto simp: update_conv')
  next
    case 3
    then have "t \<in> ?D" by (simp add: marked_def)
    then have "frames_ok out ?D {} ((n, es) # stack)" using Edge.prems(3) by auto
    then show ?thesis
      using Edge.prems(1,4,5) 3 stack_ok_next [OF Edge.prems(2)] by (simp add: Edge.IH(3))
  qed
qed

text \<open>Every report is a real cycle: a closed walk that ends with the reported connection.\<close>

definition real_cycle :: "graph \<Rightarrow> cycle_report \<Rightarrow> bool" where
  "real_cycle g r = (case r of (i, n, t, cyc) \<Rightarrow>
     i < length (connections g) \<and> src (connections g ! i) = n \<and> dst (connections g ! i) = t
     \<and> length cyc \<ge> 2 \<and> hd cyc = t \<and> last cyc = t \<and> cyc ! (length cyc - 2) = n
     \<and> successively (\<lambda>a b. (a, b) \<in> edges g) cyc)"

lemma cycle_from_stack:
  assumes "stack_ok (outgoing g) (edges g) st ((n, (i, t) # es) # stack)" "map_of st t = Some OnStack"
  shows "real_cycle g (i, n, t, dropWhile (\<lambda>x. x \<noteq> t) (trail_of ((n, es') # stack)) @ [t])"
proof -
  let ?tr = "trail_of ((n, es') # stack)" let ?w = "dropWhile (\<lambda>x. x \<noteq> t) ?tr"
  have e: "(i, t) \<in> set (dict_get_or [] (outgoing g) n)" using assms(1) by (auto simp: stack_ok_def)
  have "t \<in> marked OnStack st" using assms(2) by (simp add: marked_def)
  then have t: "t \<in> set ?tr" using assms(1) by (auto simp: stack_ok_def trail_of_def)
  then have w: "?w \<noteq> []" by (auto simp: dropWhile_eq_Nil_conv)
  then have h: "hd ?w = t" using hd_dropWhile [of "\<lambda>x. x \<noteq> t" ?tr] by blast
  have "last ?w = last ?tr"
    using w by (metis last_append takeWhile_dropWhile_id)
  then have l: "last ?w = n" by (simp add: trail_of_def)
  have "successively (\<lambda>a b. (a, b) \<in> edges g) ?tr"
    using assms(1) by (simp only: trail_of_def successively_rev stack_ok_def list.map fst_conv)
  then have "successively (\<lambda>a b. (a, b) \<in> edges g) (takeWhile (\<lambda>x. x \<noteq> t) ?tr @ ?w)" by simp
  then have s: "successively (\<lambda>a b. (a, b) \<in> edges g) ?w" by (simp only: successively_append_iff)
  have "(n, t) \<in> edges g" using e outgoing_edges by (metis image_eqI snd_conv)
  then have "successively (\<lambda>a b. (a, b) \<in> edges g) (?w @ [t])" using s l by (simp add: successively_append_iff)
  moreover have "(?w @ [t]) ! (length (?w @ [t]) - 2) = n"
    using w l by (simp add: nth_append last_conv_nth)
  moreover have "hd (?w @ [t]) = t" using h w by simp
  moreover have "length (?w @ [t]) \<ge> 2" using w by (cases ?w) auto
  ultimately show ?thesis using e outgoing_mem by (simp only: real_cycle_def prod.case last_snoc simp_thms)
qed

lemma scan_reports:
  assumes "stack_ok (outgoing g) (edges g) st stack"
  shows "list_all (real_cycle g) (snd (scan (outgoing g) st stack))
    \<and> marked OnStack (fst (scan (outgoing g) st stack)) = {}"
  using assms
proof (induction "outgoing g" st stack rule: scan.induct [case_names Nil Pop Edge])
  case (Nil st)
  then show ?case by (simp add: stack_ok_def)
next
  case (Pop st n stack)
  then show ?case using stack_ok_pop by simp
next
  case (Edge st n i t es stack)
  note next' = stack_ok_next [OF Edge.prems]
  show ?case
  proof (cases "map_of st t = Some OnStack")
    case True
    then show ?thesis
      using Edge.hyps(1) [OF True next'] cycle_from_stack [OF Edge.prems True, of es] by (auto split: prod.splits)
  next
    case False
    then show ?thesis
      using Edge.hyps(2) [OF False] Edge.hyps(3) [OF False] next' stack_ok_push [OF Edge.prems _ outgoing_edges] by simp
  qed
qed

lemma scan_from_ok:
  assumes "marked OnStack st = {}"
  shows "list_all (real_cycle g) (snd (scan_from (outgoing g) n st))
    \<and> marked OnStack (fst (scan_from (outgoing g) n st)) = {}"
proof (cases "map_of st n")
  case None
  have "stack_ok (outgoing g) (edges g) (dict_set n OnStack st) [(n, dict_get_or [] (outgoing g) n)]"
    using assms by (simp add: stack_ok_def)
  then show ?thesis using scan_reports None by (simp add: scan_from_def)
qed (use assms in \<open>simp add: scan_from_def\<close>)

lemma scan_from_silent:
  assumes "marked OnStack st = {}" "done_ok (edges g) (marked Done st)" "snd (scan_from (outgoing g) n st) = []"
  shows "done_ok (edges g) (marked Done (fst (scan_from (outgoing g) n st)))
    \<and> insert n (dom (map_of st)) \<subseteq> dom (map_of (fst (scan_from (outgoing g) n st)))"
proof (cases "map_of st n")
  case None
  let ?st = "dict_set n OnStack st" and ?stack = "[(n, dict_get_or [] (outgoing g) n)]"
  have D: "marked Done ?st = marked Done st" using None by (auto simp: marked_def)
  have "done_ok (edges g) (marked Done (fst (scan (outgoing g) ?st ?stack)))
    \<and> marked OnStack (fst (scan (outgoing g) ?st ?stack)) = {}
    \<and> dom (map_of ?st) \<subseteq> dom (map_of (fst (scan (outgoing g) ?st ?stack)))"
    using assms None
    by (intro scan_silent [OF outgoing_edges]) (auto simp: stack_ok_def scan_from_def D simp del: marked_set, simp_all)
  then show ?thesis using None by (auto simp: scan_from_def update_conv')
qed (use assms in \<open>auto simp: scan_from_def\<close>)

lemma scan_all_ok:
  assumes "marked OnStack st = {}"
  shows "list_all (real_cycle g) (snd (scan_all (outgoing g) ns st))
    \<and> marked OnStack (fst (scan_all (outgoing g) ns st)) = {}"
  using assms
proof (induction ns arbitrary: st)
  case (Cons n ns)
  obtain st' rs where s: "scan_from (outgoing g) n st = (st', rs)" by (cases "scan_from (outgoing g) n st")
  show ?case
    using scan_from_ok [OF Cons.prems, of g n] Cons.IH [of st'] by (simp add: s case_prod_beta)
qed simp

lemma scan_all_silent:
  assumes "marked OnStack st = {}" "done_ok (edges g) (marked Done st)" "snd (scan_all (outgoing g) ns st) = []"
  shows "done_ok (edges g) (marked Done (fst (scan_all (outgoing g) ns st)))
    \<and> set ns \<union> dom (map_of st) \<subseteq> dom (map_of (fst (scan_all (outgoing g) ns st)))"
  using assms
proof (induction ns arbitrary: st)
  case (Cons n ns)
  obtain st' rs where s: "scan_from (outgoing g) n st = (st', rs)" by (cases "scan_from (outgoing g) n st")
  have "rs = []" using Cons.prems(3) by (simp add: s split: prod.splits)
  then have 1: "done_ok (edges g) (marked Done st')" "insert n (dom (map_of st)) \<subseteq> dom (map_of st')"
    using scan_from_silent [OF Cons.prems(1,2), of n] by (simp_all add: s)
  have 2: "marked OnStack st' = {}" using scan_from_ok [OF Cons.prems(1), of g n] by (simp add: s)
  have "done_ok (edges g) (marked Done (fst (scan_all (outgoing g) ns st')))
    \<and> set ns \<union> dom (map_of st') \<subseteq> dom (map_of (fst (scan_all (outgoing g) ns st')))"
    using Cons.prems(3) by (intro Cons.IH 1 2) (simp add: s split: prod.splits)
  then show ?case using 1(2) by (simp add: s case_prod_beta) blast
qed simp

lemma cycle_reports_real: "list_all (real_cycle g) (cycle_reports g)"
  using scan_all_ok [of "[]" g "node_ids g"] by (simp add: cycle_reports_def marked_def)

lemma real_cycle_not_acyclic: "real_cycle g r \<Longrightarrow> \<not> acyclic (edges g)"
proof -
  assume r: "real_cycle g r"
  obtain i n t cyc where rc: "r = (i, n, t, cyc)" by (cases r)
  have walk: "successively (\<lambda>a b. (a, b) \<in> E) xs \<Longrightarrow> length xs \<ge> 2 \<Longrightarrow> (hd xs, last xs) \<in> E\<^sup>+" for E and xs :: "string list"
  proof (induction xs rule: induct_list012)
    case (3 x y zs)
    then show ?case by (cases zs) (auto intro: trancl_into_trancl2)
  qed auto
  have "(t, t) \<in> (edges g)\<^sup>+" using r walk [of "edges g" cyc] by (auto simp: real_cycle_def rc)
  then show ?thesis by (auto simp: acyclic_def)
qed

lemma cycle_reports_Nil:
  assumes "endpoints_declared g"
  shows "cycle_reports g = [] \<longleftrightarrow> acyclic (edges g)"
proof
  assume *: "cycle_reports g = []"
  let ?st = "fst (scan_all (outgoing g) (node_ids g) [])"
  have "done_ok (edges g) (marked Done [])" "marked OnStack [] = {}"
    by (auto simp: done_ok_def marked_def acyclic_def)
  then have ok: "done_ok (edges g) (marked Done ?st)" "set (node_ids g) \<subseteq> dom (map_of ?st)" "marked OnStack ?st = {}"
    using scan_all_silent [of "[]" g "node_ids g"] scan_all_ok [of "[]" g "node_ids g"] *
    by (simp_all add: cycle_reports_def)
  have "set (node_ids g) \<subseteq> marked Done ?st"
    using ok(2,3) dom_marked [of ?st] by simp
  then have "edges g \<inter> marked Done ?st \<times> marked Done ?st = edges g"
    using edges_declared [OF assms] by auto
  then show "acyclic (edges g)" using ok(1) by (simp add: done_ok_def)
next
  assume "acyclic (edges g)"
  then show "cycle_reports g = []"
    using cycle_reports_real real_cycle_not_acyclic by (metis list.pred_inject(2) neq_Nil_conv)
qed

subsection \<open>Lists in dependency order\<close>

definition dep_closed :: "('a \<times> 'a) set \<Rightarrow> 'a list \<Rightarrow> bool" where
  "dep_closed E xs \<longleftrightarrow> (\<forall>b \<in> set xs. \<forall>a. (a, b) \<in> E\<^sup>+ \<longrightarrow> before xs a b)"

definition is_upstream :: "('a \<times> 'a) set \<Rightarrow> 'a \<Rightarrow> 'a list \<Rightarrow> bool" where
  "is_upstream E n xs \<longleftrightarrow> set xs = {a. (a, n) \<in> E\<^sup>+} \<and> distinct xs \<and> dep_closed E xs"

lemma dep_closed_Nil [simp]: "dep_closed E []"
  by (simp add: dep_closed_def)

lemma dep_closed_anc: "dep_closed E xs \<Longrightarrow> b \<in> set xs \<Longrightarrow> (a, b) \<in> E\<^sup>+ \<Longrightarrow> a \<in> set xs"
  unfolding dep_closed_def using before_setD by metis

lemma dep_closed_snoc:
  assumes "dep_closed E xs" "\<And>a. (a, n) \<in> E\<^sup>+ \<Longrightarrow> a \<in> set xs" "n \<notin> set xs"
  shows "dep_closed E (xs @ [n])"
  unfolding dep_closed_def
proof (intro ballI allI impI)
  fix b a assume "b \<in> set (xs @ [n])" "(a, b) \<in> E\<^sup>+"
  then show "before (xs @ [n]) a b"
    using assms before_snoc before_append1 unfolding dep_closed_def by (cases "b = n") fastforce+
qed

lemma add_new_filter: "distinct xs \<Longrightarrow> add_new acc xs = acc @ filter (\<lambda>x. x \<notin> set acc) xs"
proof (induction xs arbitrary: acc)
  case (Cons x xs)
  have "filter (\<lambda>y. y \<notin> set (acc @ [x])) xs = filter (\<lambda>y. y \<notin> set acc) xs"
    using Cons.prems by (intro filter_cong) auto
  then show ?case using Cons by simp
qed simp

lemma before_filter: "before xs a b \<Longrightarrow> P a \<Longrightarrow> P b \<Longrightarrow> before (filter P xs) a b"
proof -
  assume "before xs a b" and p: "P a" "P b"
  then obtain us vs where "xs = us @ b # vs" "a \<in> set us" unfolding before_def by blast
  then have "filter P xs = filter P us @ b # filter P vs" "a \<in> set (filter P us)" using p by auto
  then show ?thesis unfolding before_def by blast
qed

lemma before_append2: "before ys a b \<Longrightarrow> before (xs @ ys) a b"
proof -
  assume "before ys a b"
  then obtain us vs where "ys = us @ b # vs" "a \<in> set us" unfolding before_def by blast
  then have "xs @ ys = (xs @ us) @ b # vs" "a \<in> set (xs @ us)" by auto
  then show ?thesis unfolding before_def by blast
qed

lemma before_across: "a \<in> set xs \<Longrightarrow> b \<in> set ys \<Longrightarrow> before (xs @ ys) a b"
proof -
  assume a: "a \<in> set xs" and "b \<in> set ys"
  then obtain us vs where "ys = us @ b # vs" by (meson split_list)
  then have "xs @ ys = (xs @ us) @ b # vs" "a \<in> set (xs @ us)" using a by auto
  then show ?thesis unfolding before_def by blast
qed

text \<open>Merging a second list in dependency order into the first keeps the order.\<close>

lemma dep_closed_add_new:
  assumes "dep_closed E xs" "dep_closed E ys" "distinct ys"
  shows "dep_closed E (add_new xs ys)"
  unfolding dep_closed_def add_new_filter [OF assms(3)]
proof (intro ballI allI impI)
  fix b a let ?new = "filter (\<lambda>x. x \<notin> set xs) ys"
  assume b: "b \<in> set (xs @ ?new)" and ab: "(a, b) \<in> E\<^sup>+"
  show "before (xs @ ?new) a b"
  proof (cases "b \<in> set xs")
    case True
    then show ?thesis using assms(1) ab before_append1 unfolding dep_closed_def by metis
  next
    case False
    then have y: "before ys a b" and b': "b \<in> set ?new" using b assms(2) ab unfolding dep_closed_def by auto
    show ?thesis
    proof (cases "a \<in> set xs")
      case True
      show ?thesis by (rule before_across [OF True b'])
    next
      case na: False
      have "before ?new a b" by (rule before_filter [OF y]) (use na False in auto)
      then show ?thesis by (rule before_append2)
    qed
  qed
qed

lemma dep_closed_fst_edge: "dep_closed E xs \<Longrightarrow> (a, b) \<in> E \<Longrightarrow> b \<in> set xs \<Longrightarrow> before xs a b"
  unfolding dep_closed_def by blast

subsection \<open>The upstream closure is the ancestors, in dependency order\<close>

lemma add_parents_ok:
  assumes "\<And>c. c \<in> set cs \<Longrightarrow> dst c \<in> dom (map_of d)"
  shows "\<exists>d'. add_parents cs d = Some d' \<and> dom (map_of d') = dom (map_of d)
    \<and> (\<forall>n. dict_get_or [] d' n = dict_get_or [] d n @ map src (filter (\<lambda>c. dst c = n) cs))"
  using assms
proof (induction cs arbitrary: d)
  case (Cons c cs)
  then obtain ps where ps: "map_of d (dst c) = Some ps" by fastforce
  let ?d = "dict_set (dst c) (ps @ [src c]) d"
  have dom: "dom (map_of ?d) = dom (map_of d)" using ps by (auto simp: update_conv')
  then obtain d' where d': "add_parents cs ?d = Some d'" "dom (map_of d') = dom (map_of ?d)"
      "\<forall>n. dict_get_or [] d' n = dict_get_or [] ?d n @ map src (filter (\<lambda>c. dst c = n) cs)"
    using Cons.IH [of ?d, unfolded dom] Cons.prems dom by (metis list.set_intros(2))
  have "dict_get_or [] ?d n = dict_get_or [] d n @ (if dst c = n then [src c] else [])" for n
    using ps by (auto simp: dict_get_or_update) (simp add: dict_get_or_def)
  then show ?case using d' dom by (auto simp: add_parent_def ps)
qed simp

lemma direct_parents_ok:
  assumes "endpoints_declared g"
  shows "\<exists>d. direct_parents g = Some d \<and> (\<forall>n. set (dict_get_or [] d n) = {a. (a, n) \<in> edges g})"
proof -
  let ?d = "dict_of (map (\<lambda>n. (n, [] :: string list)) (node_ids g))"
  have dom: "dom (map_of ?d) = set (node_ids g)"
    by (simp add: dom_map_of_conv_image_fst keys_dict_of image_image)
  have "map_of ?d n = Some v \<Longrightarrow> v = []" for n v
    using dict_of_memD map_of_SomeD by fastforce
  then have e: "dict_get_or [] ?d n = []" for n by (auto simp: dict_get_or_def split: option.splits)
  have "\<exists>d'. add_parents (connections g) ?d = Some d' \<and> dom (map_of d') = dom (map_of ?d)
    \<and> (\<forall>n. dict_get_or [] d' n = dict_get_or [] ?d n @ map src (filter (\<lambda>c. dst c = n) (connections g)))"
    by (rule add_parents_ok) (use assms dom in \<open>auto simp: endpoints_declared_def\<close>)
  then show ?thesis by (auto simp: direct_parents_def e edges_def)
qed

definition closure_ok :: "(string \<times> string) set \<Rightarrow> (string, string list) dict \<Rightarrow> bool" where
  "closure_ok E cl \<longleftrightarrow> (\<forall>n v. map_of cl n = Some v \<longrightarrow> is_upstream E n v)"

definition merged_ok :: "(string \<times> string) set \<Rightarrow> string set \<Rightarrow> (string, string list) dict \<Rightarrow> string list \<Rightarrow> bool" where
  "merged_ok E ps cl ordered \<longleftrightarrow> closure_ok E cl \<and> distinct ordered \<and> dep_closed E ordered
     \<and> set ordered = {a. \<exists>p \<in> ps. (a, p) \<in> E\<^sup>*}"

lemma merge_parent_ok:
  assumes "acyclic E" "merged_ok E ps (fst st) (snd st)" "p \<notin> seen"
    and "vis p (fst st) = Inr cl'" "closure_ok E cl'" "map_of cl' p \<noteq> None"
  shows "\<exists>st'. merge_parent vis seen p st = Inr st' \<and> fst st' = cl' \<and> merged_ok E (insert p ps) (fst st') (snd st')"
proof -
  obtain cl ordered where st: "st = (cl, ordered)" by (cases st)
  obtain v where v: "map_of cl' p = Some v" using assms(6) by auto
  then have u: "is_upstream E p v" using assms(5) by (auto simp: closure_ok_def)
  have "p \<notin> set v" using u assms(1) by (auto simp: is_upstream_def acyclic_def)
  then have d: "distinct (v @ [p])" "dep_closed E (v @ [p])"
    using u dep_closed_snoc [of E v p] by (auto simp: is_upstream_def)
  have "set (v @ [p]) = {a. (a, p) \<in> E\<^sup>*}" using u by (auto simp: is_upstream_def rtrancl_eq_or_trancl)
  then show ?thesis
    using assms(2-5) d dep_closed_add_new [of E ordered "v @ [p]"] v
    by (auto simp: merge_parent_def st merged_ok_def dict_get_or_def simp del: add_new_simps)
qed

lemma merge_parents_ok:
  assumes "acyclic E" "merged_ok E qs (fst st) (snd st)"
    and "\<And>p. p \<in> set ps \<Longrightarrow> p \<notin> seen"
    and "\<And>p cl. p \<in> set ps \<Longrightarrow> closure_ok E cl \<Longrightarrow>
      \<exists>cl'. vis p cl = Inr cl' \<and> closure_ok E cl' \<and> map_of cl' p \<noteq> None \<and> dom (map_of cl) \<subseteq> dom (map_of cl')"
  shows "\<exists>st'. rfold (merge_parent vis seen) ps st = Inr st' \<and> merged_ok E (qs \<union> set ps) (fst st') (snd st')
    \<and> dom (map_of (fst st)) \<subseteq> dom (map_of (fst st'))"
  using assms
proof (induction ps arbitrary: qs st)
  case (Cons p ps)
  have "closure_ok E (fst st)" using Cons.prems(2) by (simp add: merged_ok_def)
  then obtain cl' where c: "vis p (fst st) = Inr cl'" "closure_ok E cl'" "map_of cl' p \<noteq> None" "dom (map_of (fst st)) \<subseteq> dom (map_of cl')"
    using Cons.prems(4) [of p "fst st"] by auto
  obtain st1 where 1: "merge_parent vis seen p st = Inr st1" "fst st1 = cl'" "merged_ok E (insert p qs) (fst st1) (snd st1)"
    using merge_parent_ok [where vis = vis, OF Cons.prems(1,2) Cons.prems(3) [of p] c(1-3)] by auto
  from Cons.IH [OF Cons.prems(1) 1(3) Cons.prems(3,4)] show ?case using 1(1,2) c(4) by auto
qed simp

text \<open>\<open>V\<close> holds the nodes; the trail \<open>seen\<close> grows with every frame and never repeats, so its complement bounds the frames needed.\<close>

lemma visit_ok:
  assumes "acyclic E" "\<And>n. set (dict_get_or [] direct n) = {a. (a, n) \<in> E}" "finite V" "\<And>a b. (a, b) \<in> E \<Longrightarrow> a \<in> V"
    and "closure_ok E cl" "\<And>s. s \<in> seen \<Longrightarrow> (name, s) \<in> E\<^sup>+" "name \<in> V" "card (V - seen) \<le> n"
  shows "\<exists>cl'. visit n direct name seen cl = Inr cl' \<and> closure_ok E cl' \<and> map_of cl' name \<noteq> None \<and> dom (map_of cl) \<subseteq> dom (map_of cl')"
  using assms(5-8)
proof (induction n arbitrary: name seen cl)
  case 0
  have "name \<notin> seen" using 0(2) assms(1) by (auto simp: acyclic_def)
  then show ?case using 0(3,4) assms(3) by auto
next
  case (Suc n)
  show ?case
  proof (cases "map_of cl name")
    case (Some v)
    then show ?thesis using Suc.prems(1) by simp
  next
    case None
    let ?ps = "dict_get_or [] direct name" and ?vis = "\<lambda>p. visit n direct p (insert name seen)"
    have nseen: "name \<notin> seen" using Suc.prems(2) assms(1) by (auto simp: acyclic_def)
    have unseen: "p \<notin> seen" if "p \<in> set ?ps" for p
      using that Suc.prems(2) assms(1,2) by (auto simp: acyclic_def) (meson trancl_into_trancl2)
    have "V - insert name seen \<subset> V - seen" using nseen Suc.prems(3) by blast
    then have "card (V - insert name seen) < card (V - seen)" by (intro psubset_card_mono) (use assms(3) in auto)
    then have c: "card (V - insert name seen) \<le> n" using Suc.prems(4) by simp
    have step: "\<exists>cl'. ?vis p cl = Inr cl' \<and> closure_ok E cl' \<and> map_of cl' p \<noteq> None \<and> dom (map_of cl) \<subseteq> dom (map_of cl')"
      if p: "p \<in> set ?ps" "closure_ok E cl" for p cl
    proof (rule Suc.IH [OF p(2) _ _ c])
      have e: "(p, name) \<in> E" using p(1) assms(2) by auto
      then show "p \<in> V" by (rule assms(4))
      show "(p, s) \<in> E\<^sup>+" if s: "s \<in> insert name seen" for s
        using s e Suc.prems(2) by (auto intro: trancl_into_trancl2)
    qed
    have "merged_ok E {} (fst (cl, [])) (snd (cl, []))" using Suc.prems(1) by (simp add: merged_ok_def)
    from merge_parents_ok [where ps = ?ps and vis = ?vis, OF assms(1) this unseen step] obtain st where st:
      "rfold (merge_parent ?vis seen) ?ps (cl, []) = Inr st" "merged_ok E (set ?ps) (fst st) (snd st)" "dom (map_of cl) \<subseteq> dom (map_of (fst st))"
      by (metis Un_empty_left fst_conv)
    have m: "closure_ok E (fst st)" "is_upstream E name (snd st)"
      using st(2) assms(2) by (auto simp: merged_ok_def is_upstream_def dest: tranclD2 intro: rtrancl_into_trancl1)
    have "visit (Suc n) direct name seen cl = Inr (dict_set name (snd st) (fst st))"
      using None st(1) by (cases st) simp
    then show ?thesis using m st(3) by (auto simp: closure_ok_def update_conv')
  qed
qed

lemma upstream_closure_ok:
  assumes "endpoints_declared g" "acyclic (edges g)" "length (nodes g) < n"
  shows "\<exists>up. upstream_closure n g = Inr up \<and> (\<forall>n \<in> set (node_ids g). \<exists>v. map_of up n = Some v)
    \<and> (\<forall>n v. map_of up n = Some v \<longrightarrow> is_upstream (edges g) n v)"
proof -
  obtain d where d: "direct_parents g = Some d" "\<And>n. set (dict_get_or [] d n) = {a. (a, n) \<in> edges g}"
    using direct_parents_ok [OF assms(1)] by blast
  have "card (set (node_ids g)) \<le> length (node_ids g)" by (rule card_length)
  then have c: "card (set (node_ids g) - {}) \<le> n - 1" using assms(3) by (simp add: node_ids_def)
  have v: "\<exists>cl'. visit (n - 1) d name {} cl = Inr cl' \<and> closure_ok (edges g) cl' \<and> map_of cl' name \<noteq> None \<and> dom (map_of cl) \<subseteq> dom (map_of cl')"
    if "closure_ok (edges g) cl" "name \<in> set (node_ids g)" for name cl
    by (rule visit_ok [OF assms(2) d(2) _ _ that(1) _ that(2) c]) (use edges_declared [OF assms(1)] in auto)
  have "closure_ok (edges g) cl \<Longrightarrow> set ns \<subseteq> set (node_ids g) \<Longrightarrow> \<exists>up. rfold (\<lambda>name. visit (n - 1) d name {}) ns cl = Inr up
      \<and> closure_ok (edges g) up \<and> (\<forall>n \<in> set ns \<union> dom (map_of cl). map_of up n \<noteq> None)" for ns cl
  proof (induction ns arbitrary: cl)
    case (Cons m ns)
    obtain cl' where v: "visit (n - 1) d m {} cl = Inr cl'" "closure_ok (edges g) cl'" "map_of cl' m \<noteq> None" "dom (map_of cl) \<subseteq> dom (map_of cl')"
      using v [OF Cons.prems(1), of m] Cons.prems(2) by auto
    obtain up where up: "rfold (\<lambda>name. visit (n - 1) d name {}) ns cl' = Inr up" "closure_ok (edges g) up"
        "\<forall>n \<in> set ns \<union> dom (map_of cl'). map_of up n \<noteq> None"
      using Cons.IH [OF v(2)] Cons.prems(2) by auto
    have "set (m # ns) \<union> dom (map_of cl) \<subseteq> set ns \<union> dom (map_of cl')" using v(3,4) by auto
    then have "\<forall>n \<in> set (m # ns) \<union> dom (map_of cl). map_of up n \<noteq> None" using up(3) by blast
    moreover have "rfold (\<lambda>name. visit (n - 1) d name {}) (m # ns) cl = Inr up" using v(1) up(1) by simp
    ultimately show ?case using up(2) by blast
  qed auto
  from this [of "[]" "node_ids g"] show ?thesis
    by (auto simp: upstream_closure_def d(1) closure_ok_def)
qed

subsection \<open>A deeper stack changes nothing else\<close>

definition stack_below :: "level_error + 'a \<Rightarrow> level_error + 'a \<Rightarrow> bool" where
  "stack_below x y \<longleftrightarrow> x = Inl StackExhausted \<or> x = y"

lemma stack_below_simps [simp]: "stack_below x x" "stack_below (Inl StackExhausted) y"
  by (simp_all add: stack_below_def)

lemma stack_below_bind: "stack_below x y \<Longrightarrow> (\<And>a. stack_below (f a) (h a)) \<Longrightarrow> stack_below (rbind x f) (rbind y h)"
  unfolding stack_below_def by (cases x; cases y) auto

lemma stack_below_fold: "(\<And>x s. stack_below (f x s) (h x s)) \<Longrightarrow> stack_below (rfold f xs s) (rfold h xs s)"
  by (induction xs arbitrary: s) (auto intro: stack_below_bind)

lemma visit_below: "n \<le> k \<Longrightarrow> stack_below (visit n direct name seen cl) (visit k direct name seen cl)"
proof (induction n arbitrary: k name seen cl)
  case (Suc n)
  then obtain m where m: "k = Suc m" "n \<le> m" by (cases k) auto
  have "stack_below (merge_parent (\<lambda>p. visit n direct p s) t p st) (merge_parent (\<lambda>p. visit m direct p s) t p st)" for s t p st
    using Suc.IH [OF m(2)] by (auto simp: merge_parent_def intro!: stack_below_bind split: prod.splits)
  then show ?case by (auto simp: m(1) intro!: stack_below_bind stack_below_fold)
qed simp

lemma place_below: "n \<le> k \<Longrightarrow> stack_below (place n by_id up gname name trail st) (place k by_id up gname name trail st)"
proof (induction n arbitrary: k name trail st)
  case (Suc n)
  then obtain m where m: "k = Suc m" "n \<le> m" by (cases k) auto
  then show ?case using Suc.IH [OF m(2)] by (auto simp: m(1) intro!: stack_below_bind stack_below_fold split: option.splits)
qed simp

lemma closure_below: "n \<le> k \<Longrightarrow> stack_below (upstream_closure n g) (upstream_closure k g)"
  unfolding upstream_closure_def by (auto intro!: stack_below_fold visit_below split: option.splits)

lemma ordered_below: "n \<le> k \<Longrightarrow> stack_below (ordered_nodes n g up) (ordered_nodes k g up)"
  unfolding ordered_nodes_def Let_def by (auto intro!: stack_below_bind stack_below_fold place_below)

subsection \<open>Placement succeeds in dependency order\<close>

definition placed_ok :: "(string, gnode) dict \<Rightarrow> (string \<times> string) set \<Rightarrow> placement \<Rightarrow> bool" where
  "placed_ok by_id E st \<longleftrightarrow> fst st = node_id ` set (snd st) \<and> distinct (map node_id (snd st))
     \<and> dep_closed E (map node_id (snd st)) \<and> (\<forall>n \<in> set (snd st). map_of by_id (node_id n) = Some n)"

text \<open>A placement adds the node and nothing but its ancestors.\<close>

definition placed_step :: "(string, gnode) dict \<Rightarrow> (string \<times> string) set \<Rightarrow> string set \<Rightarrow> placement \<Rightarrow> placement \<Rightarrow> bool" where
  "placed_step by_id E ps st st' \<longleftrightarrow> placed_ok by_id E st' \<and> ps \<union> fst st \<subseteq> fst st'
     \<and> fst st' \<subseteq> fst st \<union> {a. \<exists>p \<in> ps. (a, p) \<in> E\<^sup>*}"

lemma rfold_place:
  assumes "\<And>p st. p \<in> set ps \<Longrightarrow> placed_ok by_id E st \<Longrightarrow> \<exists>st'. f p st = Inr st' \<and> placed_step by_id E {p} st st'"
    and "placed_ok by_id E st"
  shows "\<exists>st'. rfold f ps st = Inr st' \<and> placed_step by_id E (set ps) st st'"
  using assms
proof (induction ps arbitrary: st)
  case (Cons p ps)
  obtain st1 where 1: "f p st = Inr st1" "placed_step by_id E {p} st st1"
    using Cons.prems(1) [of p st] Cons.prems(2) by auto
  obtain st2 where "rfold f ps st1 = Inr st2" "placed_step by_id E (set ps) st1 st2"
    using Cons.IH [of st1] Cons.prems(1) 1(2) by (auto simp: placed_step_def)
  then show ?case using 1 by (auto simp: placed_step_def)
qed (auto simp: placed_step_def)

lemma placed_ok_snoc:
  assumes "placed_step by_id E {a. (a, name) \<in> E\<^sup>+} (placed, ordered) (placed', ordered')"
    and "acyclic E" "name \<notin> placed" "map_of by_id name = Some node" "node_id node = name"
  shows "placed_step by_id E {name} (placed, ordered) (insert name placed', ordered' @ [node])"
proof -
  have "name \<notin> placed'"
  proof
    assume "name \<in> placed'"
    then obtain p where "(name, p) \<in> E\<^sup>*" "(p, name) \<in> E\<^sup>+" using assms(1,3) by (auto simp: placed_step_def)
    then show False using assms(2) by (metis acyclic_def rtrancl_trancl_trancl)
  qed
  moreover have "dep_closed E (map node_id ordered' @ [name])"
    using assms(1) calculation by (intro dep_closed_snoc) (auto simp: placed_step_def placed_ok_def)
  ultimately show ?thesis
    using assms by (auto simp: placed_step_def placed_ok_def dest: trancl_into_rtrancl intro: rtrancl_trans)
qed

lemma place_ok:
  assumes "acyclic E" "\<And>a b. (a, b) \<in> E\<^sup>+ \<Longrightarrow> a \<in> dom (map_of by_id)"
    and "\<And>n m. map_of by_id n = Some m \<Longrightarrow> node_id m = n"
    and "\<And>n. n \<in> dom (map_of by_id) \<Longrightarrow> is_upstream E n (dict_get_or [] up n)"
    and "name \<in> dom (map_of by_id)" "\<And>t. t \<in> set trail \<Longrightarrow> (name, t) \<in> E\<^sup>+" "placed_ok by_id E st"
    and "card (dom (map_of by_id) - set trail) \<le> n"
  shows "\<exists>st'. place n by_id up gname name trail st = Inr st' \<and> placed_step by_id E {name} st st'"
  using assms(5-8)
proof (induction n arbitrary: name trail st)
  case 0
  have "name \<notin> set trail" using 0(2) assms(1) by (auto simp: acyclic_def)
  then show ?case using 0(1,4) finite_dom_map_of [of by_id] by auto
next
  case (Suc n)
  obtain placed ordered where st: "st = (placed, ordered)" by (cases st)
  obtain node where node: "map_of by_id name = Some node" using Suc.prems(1) by blast
  show ?case
  proof (cases "name \<in> placed")
    case True
    then show ?thesis using Suc.prems(3) by (simp add: st placed_step_def)
  next
    case False
    let ?up = "dict_get_or [] up name" and ?V = "dom (map_of by_id)"
    have u: "set ?up = {a. (a, name) \<in> E\<^sup>+}" using assms(4) Suc.prems(1) by (simp add: is_upstream_def)
    have nt: "name \<notin> set trail" using Suc.prems(2) assms(1) by (auto simp: acyclic_def)
    have "?V - set (trail @ [name]) \<subset> ?V - set trail" using nt Suc.prems(1) by auto
    then have "card (?V - set (trail @ [name])) < card (?V - set trail)"
      by (intro psubset_card_mono) (use finite_dom_map_of [of by_id] in auto)
    then have c: "card (?V - set (trail @ [name])) \<le> n" using Suc.prems(4) by simp
    have "\<exists>st'. rfold (\<lambda>p. place n by_id up gname p (trail @ [name])) ?up st = Inr st'
        \<and> placed_step by_id E (set ?up) st st'"
    proof (rule rfold_place)
      fix p st assume p: "p \<in> set ?up" and st: "placed_ok by_id E st"
      then show "\<exists>st'. place n by_id up gname p (trail @ [name]) st = Inr st' \<and> placed_step by_id E {p} st st'"
        using assms(2) Suc.prems(2) u by (intro Suc.IH [OF _ _ st c]) (auto intro: trancl_trans)
    qed (rule Suc.prems(3))
    then obtain placed' ordered' where r: "rfold (\<lambda>p. place n by_id up gname p (trail @ [name])) ?up st = Inr (placed', ordered')"
      and s: "placed_step by_id E (set ?up) (placed, ordered) (placed', ordered')" by (auto simp: st)
    have "place (Suc n) by_id up gname name trail st = Inr (insert name placed', ordered' @ [node])"
      using False node nt r by (simp add: st)
    then show ?thesis
      using placed_ok_snoc [OF s [unfolded u] assms(1) False node assms(3) [OF node]] by (simp add: st)
  qed
qed

text \<open>What a level's schedule owes to the compiler: every node once, producers first.\<close>

definition scheduled :: "graph \<Rightarrow> gnode list \<Rightarrow> bool" where
  "scheduled g ns \<longleftrightarrow> set ns = set (nodes g) \<and> distinct ns \<and> length ns = length (nodes g)
     \<and> distinct (map node_id ns)
     \<and> (\<forall>c \<in> set (connections g). before (map node_id ns) (src c) (dst c))"

lemma by_id_ok:
  assumes "distinct (node_ids g)"
  defines "by_id \<equiv> dict_of (map (\<lambda>n. (node_id n, n)) (nodes g))"
  shows "length by_id = length (nodes g)" "dom (map_of by_id) = set (node_ids g)"
    and "map_of by_id k = Some n \<longleftrightarrow> n \<in> set (nodes g) \<and> node_id n = k"
proof -
  have k: "map fst (map (\<lambda>n. (node_id n, n)) (nodes g)) = node_ids g" by (simp add: node_ids_def comp_def)
  then have m: "map_of by_id = map_of (map (\<lambda>n. (node_id n, n)) (nodes g))"
    unfolding by_id_def using assms(1) by (intro map_of_dict_of_distinct) simp
  have "fst ` set by_id = set (node_ids g)" unfolding by_id_def keys_dict_of by (simp add: image_image node_ids_def)
  then have "set (map fst by_id) = set (node_ids g)" by simp
  moreover have "distinct (map fst by_id)" unfolding by_id_def by (rule distinct_keys_dict_of)
  ultimately have "length (map fst by_id) = length (node_ids g)" using assms(1) by (metis distinct_card)
  then show "length by_id = length (nodes g)" by (simp add: node_ids_def)
  show "dom (map_of by_id) = set (node_ids g)" unfolding m by (simp add: dom_map_of_conv_image_fst image_image node_ids_def)
  show "map_of by_id k = Some n \<longleftrightarrow> n \<in> set (nodes g) \<and> node_id n = k"
    unfolding m using assms(1) k by (subst map_of_eq_Some_iff) auto
qed

lemma ordered_nodes_ok:
  assumes "endpoints_declared g" "acyclic (edges g)" "distinct (node_ids g)" "length (nodes g) < n" "upstream_closure n g = Inr up"
  shows "\<exists>ns. ordered_nodes n g up = Inr ns \<and> scheduled g ns"
proof -
  let ?by_id = "dict_of (map (\<lambda>n. (node_id n, n)) (nodes g))"
  note by_id = by_id_ok [OF assms(3)]
  have up: "n \<in> dom (map_of ?by_id) \<Longrightarrow> is_upstream (edges g) n (dict_get_or [] up n)" for n
    using upstream_closure_ok [OF assms(1,2,4)] assms(5) by (auto simp: by_id dict_get_or_def split: option.splits)
  have step: "\<exists>st'. place (n - 1) ?by_id up (graph_name g) (node_id m) [] st = Inr st' \<and> placed_step ?by_id (edges g) {node_id m} st st'"
    if "m \<in> set (nodes g)" "placed_ok ?by_id (edges g) st" for m st
  proof (rule place_ok)
    have "card (set (node_ids g)) \<le> length (node_ids g)" by (rule card_length)
    then show "card (dom (map_of ?by_id) - set []) \<le> n - 1" using assms(4) by (simp add: by_id node_ids_def)
  qed (use that assms(2) trancl_declared [OF assms(1)] up in \<open>auto simp: by_id node_ids_def\<close>)
  have "\<exists>st'. rfold (\<lambda>m. place (n - 1) ?by_id up (graph_name g) m []) (node_ids g) ({}, []) = Inr st'
      \<and> placed_step ?by_id (edges g) (set (node_ids g)) ({}, []) st'"
    by (rule rfold_place) (use step in \<open>auto simp: node_ids_def placed_ok_def\<close>)
  moreover have "rfold f (map h xs) s = rfold (\<lambda>x. f (h x)) xs s" for f :: "string \<Rightarrow> placement \<Rightarrow> level_error + placement" and h :: "gnode \<Rightarrow> string" and xs s
    by (induction xs arbitrary: s) (simp_all add: rbind_def split: sum.splits)
  ultimately obtain placed ns where r: "rfold (\<lambda>m. place (n - 1) ?by_id up (graph_name g) (node_id m) []) (nodes g) ({}, []) = Inr (placed, ns)"
    and s: "placed_step ?by_id (edges g) (set (node_ids g)) ({}, []) (placed, ns)"
    by (auto simp: node_ids_def)
  have ids: "set (node_ids g) \<subseteq> node_id ` set ns" "set ns \<subseteq> set (nodes g)" "distinct (map node_id ns)" "dep_closed (edges g) (map node_id ns)"
    using s by (auto simp: placed_step_def placed_ok_def by_id)
  have inj: "inj_on node_id (set (nodes g))" "distinct (nodes g)" using assms(3) by (simp_all add: node_ids_def distinct_map)
  have "set ns = set (nodes g)"
    using ids(1,2) inj(1) by (auto simp: node_ids_def inj_on_def)
  moreover have "distinct ns" using ids(3) by (simp add: distinct_map)
  moreover have "length ns = length (nodes g)" using calculation inj(2) by (metis distinct_card)
  moreover have "before (map node_id ns) (src c) (dst c)" if "c \<in> set (connections g)" for c
  proof (rule dep_closed_fst_edge [OF ids(4)])
    show "(src c, dst c) \<in> edges g" using that by (auto simp: edges_def)
    show "dst c \<in> set (map node_id ns)" using that assms(1) ids(1) by (auto simp: endpoints_declared_def)
  qed
  ultimately have "scheduled g ns" using ids(3) by (simp add: scheduled_def)
  moreover have "ordered_nodes n g up = Inr ns" using r by (simp add: ordered_nodes_def Let_def by_id)
  ultimately show ?thesis by blast
qed

subsection \<open>The interface to the compiler\<close>

text \<open>
  The compiler walks a level in the order it is given. A scheduler of admissible levels owes it a
  schedule; then, whenever a node is compiled, all its ancestors have been.
\<close>

locale scheduler =
  fixes admissible :: "graph \<Rightarrow> bool" and level_order :: "graph \<Rightarrow> gnode list option"
  assumes scheduled_ok: "admissible g \<Longrightarrow> \<exists>ns. level_order g = Some ns \<and> scheduled g ns"
begin

lemma schedule_total: "admissible g \<Longrightarrow> level_order g \<noteq> None"
  using scheduled_ok by fastforce

lemma schedule_sound: "admissible g \<Longrightarrow> level_order g = Some ns \<Longrightarrow> scheduled g ns"
  using scheduled_ok by fastforce

lemma producer_compiled:
  assumes "admissible g" "level_order g = Some (us @ n # vs)" "c \<in> set (connections g)" "dst c = node_id n"
  shows "src c \<in> node_id ` set us"
proof -
  let ?ids = "map node_id (us @ n # vs)"
  have s: "before ?ids (src c) (node_id n)" "distinct ?ids"
    using schedule_sound [OF assms(1,2)] assms(3,4) by (auto simp: scheduled_def)
  then obtain xs ys where split: "?ids = xs @ node_id n # ys" "src c \<in> set xs" unfolding before_def by blast
  have "node_id n \<notin> set (map node_id us)" "node_id n \<notin> set (map node_id vs)" using s(2) by auto
  from append_Cons_eq_iff [OF this, of xs ys] have "map node_id us = xs" using split(1) by simp
  then show ?thesis using split(2) by auto
qed

lemma ancestor_compiled:
  assumes "admissible g" "level_order g = Some (us @ n # vs)" "(a, node_id n) \<in> (edges g)\<^sup>+"
  shows "a \<in> node_id ` set us"
  using assms(3,2)
proof (induction "node_id n" arbitrary: us n vs rule: trancl_induct)
  case base
  then show ?case using producer_compiled [OF assms(1)] by (auto simp: edges_def)
next
  case (step y)
  obtain c where c: "c \<in> set (connections g)" "src c = y" "dst c = node_id n"
    using step.hyps(2) by (auto simp: edges_def)
  then obtain m us1 us2 where m: "us = us1 @ m # us2" "node_id m = y"
    using producer_compiled [OF assms(1) step.prems c(1,3)] by (metis image_iff split_list)
  then show ?case using step.hyps(3) [of m us1 "us2 @ n # vs"] step.prems by auto
qed

end

definition level_admissible :: "graph \<Rightarrow> bool" where
  "level_admissible g \<longleftrightarrow> endpoint_faults g [] root_location = [] \<and> cycle_reports g = [] \<and> distinct (node_ids g)"

definition level_order :: "nat \<Rightarrow> graph \<Rightarrow> gnode list option" where
  "level_order n g = (case rbind (upstream_closure n g) (ordered_nodes n g) of Inl _ \<Rightarrow> None | Inr ns \<Rightarrow> Some ns)"

text \<open>A stack of one frame more than the level has nodes is enough.\<close>

interpretation level: scheduler "\<lambda>g. level_admissible g \<and> length (nodes g) < n" "level_order n" for n
proof
  fix g assume "level_admissible g \<and> length (nodes g) < n"
  then have e: "endpoints_declared g" "acyclic (edges g)" "distinct (node_ids g)" "length (nodes g) < n"
    by (auto simp: level_admissible_def endpoint_faults_Nil cycle_reports_Nil)
  then obtain up where up: "upstream_closure n g = Inr up" using upstream_closure_ok by blast
  show "\<exists>ns. level_order n g = Some ns \<and> scheduled g ns"
    using ordered_nodes_ok [OF e up] by (auto simp: level_order_def up)
qed

text \<open>Whatever the stack, an order that is returned is a schedule.\<close>

lemma order_scheduled:
  assumes "level_admissible g" "upstream_closure n g = Inr up" "ordered_nodes n g up = Inr ns"
  shows "scheduled g ns"
proof -
  let ?k = "max n (Suc (length (nodes g)))"
  have "upstream_closure ?k g = Inr up" "ordered_nodes ?k g up = Inr ns"
    using closure_below [of n ?k g] ordered_below [of n ?k g up] assms(2,3) by (auto simp: stack_below_def)
  then have "level_order ?k g = Some ns" by (simp add: level_order_def)
  then show ?thesis using level.schedule_sound [of g ?k ns] assms(1) by simp
qed

subsection \<open>Properties\<close>

definition arrow :: "string \<Rightarrow> string \<Rightarrow> connection" where
  "arrow a b = \<lparr>src = a, dst = b, conn_map = []\<rparr>"

definition leaf :: "string \<Rightarrow> gnode" where
  "leaf i = GNode i (RefBody \<lparr>component = ''c'', version = None, bind = [], grants = None\<rparr>)"

definition diamond :: graph where
  "diamond = Graph ''g'' [leaf ''d'', leaf ''b'', leaf ''c'', leaf ''a'']
     [arrow ''a'' ''b'', arrow ''a'' ''c'', arrow ''b'' ''d'', arrow ''c'' ''d''] [] []"

definition ring :: graph where
  "ring = Graph ''g'' [leaf ''a'', leaf ''b''] [arrow ''a'' ''b'', arrow ''b'' ''a''] [] []"

text \<open>\<open>chain m\<close> connects \<open>m\<close> nodes in a row and lists every consumer before its producer.\<close>

definition chain_node :: "nat \<Rightarrow> string" where
  "chain_node i = replicate (Suc i) (CHR ''n'')"

definition chain :: "nat \<Rightarrow> graph" where
  "chain m = Graph ''chain'' (map (\<lambda>i. leaf (chain_node i)) [0..<m])
     (map (\<lambda>i. arrow (chain_node (Suc i)) (chain_node i)) [0..<m - 1]) [] []"

lemma chain_node_inj [simp]: "chain_node i = chain_node k \<longleftrightarrow> i = k"
  by (auto simp: chain_node_def simp del: replicate.simps dest: arg_cong [of _ _ length])

lemma chain_simps [simp]: "nodes (chain m) = map (\<lambda>i. leaf (chain_node i)) [0..<m]" "node_ids (chain m) = map chain_node [0..<m]"
  "connections (chain m) = map (\<lambda>i. arrow (chain_node (Suc i)) (chain_node i)) [0..<m - 1]"
  by (simp_all add: chain_def node_ids_def leaf_def comp_def)

lemma chain_edges: "edges (chain m) = {(chain_node (Suc i), chain_node i) | i. Suc i < m}"
  by (auto simp: edges_def arrow_def image_iff)

lemma chain_silent: "endpoint_faults (chain m) s l = []" "cycle_faults (chain m) s l = []" "distinct (node_ids (chain m))"
proof -
  show e: "endpoint_faults (chain m) s l = []" by (auto simp: endpoint_faults_Nil endpoints_declared_def arrow_def)
  have "edges (chain m) \<subseteq> (measure length)\<inverse>" by (auto simp: chain_edges chain_node_def)
  then have "acyclic (edges (chain m))" using acyclic_subset wf_acyclic [OF wf_measure] acyclic_converse by blast
  then show "cycle_faults (chain m) s l = []" using cycle_reports_Nil [of "chain m"] e by (simp add: cycle_faults_def endpoint_faults_Nil)
  show "distinct (node_ids (chain m))" by (simp add: distinct_map inj_on_def)
qed

lemma chain_visit:
  assumes "\<And>n. set (dict_get_or [] direct n) = {a. (a, n) \<in> edges (chain m)}"
    and "i + n < m" "\<And>k. i \<le> k \<Longrightarrow> map_of cl (chain_node k) = None \<and> chain_node k \<notin> seen"
  shows "visit n direct (chain_node i) seen cl = Inl StackExhausted"
  using assms(2,3)
proof (induction n arbitrary: i seen)
  case (Suc n)
  let ?ps = "dict_get_or [] direct (chain_node i)"
  have ps: "set ?ps = {chain_node (Suc i)}" using Suc.prems(1) by (auto simp: assms(1) chain_edges)
  then obtain rest where "?ps = chain_node (Suc i) # rest" by (cases ?ps) auto
  moreover have "visit n direct (chain_node (Suc i)) (insert (chain_node i) seen) cl = Inl StackExhausted"
    by (rule Suc.IH) (use Suc.prems in auto)
  ultimately show ?case using Suc.prems(2) [of i] Suc.prems(2) [of "Suc i"] by (simp add: merge_parent_def)
qed simp

lemma chain_exhausts:
  assumes "0 < m" "n \<le> m"
  shows "upstream_closure n (chain m) = Inl StackExhausted"
proof -
  have e: "endpoints_declared (chain m)" using chain_silent(1) by (simp add: endpoint_faults_Nil)
  obtain d where d: "direct_parents (chain m) = Some d" "\<And>n. set (dict_get_or [] d n) = {a. (a, n) \<in> edges (chain m)}"
    using direct_parents_ok [OF e] by blast
  have "visit (n - 1) d (chain_node 0) {} [] = Inl StackExhausted" by (rule chain_visit [OF d(2)]) (use assms in auto)
  moreover have "node_ids (chain m) = chain_node 0 # map chain_node [1..<m]" using assms(1) by (simp add: upt_rec [of 0])
  ultimately show ?thesis by (simp add: upstream_closure_def d(1))
qed

text \<open>
  C12. The cycle search is a decision procedure: on a level whose connections name declared nodes,
  it reports nothing exactly when the connections are acyclic.
\<close>

theorem cycle_search_decides:
  assumes "endpoint_faults g s l = []"
  shows "cycle_faults g s l = [] \<longleftrightarrow> acyclic (edges g)"
  using assms by (simp add: cycle_faults_def cycle_reports_Nil endpoint_faults_Nil)

lemma diamond_silent: "endpoint_faults diamond s l = []" "cycle_reports diamond = []" "distinct (node_ids diamond)"
  by (simp_all add: diamond_def leaf_def arrow_def endpoint_faults_def cycle_reports_def outgoing_def
      node_ids_def missing_roles_def scan_from_def dict_append_def dict_get_or_def)

theorem cycle_search_decides_witness:
  "acyclic (edges diamond) \<and> \<not> acyclic (edges ring)"
proof -
  have r: "endpoint_faults ring [] root_location = []" "cycle_faults ring [] root_location \<noteq> []"
    by (simp_all add: ring_def leaf_def arrow_def endpoint_faults_def cycle_faults_def cycle_reports_def outgoing_def
      node_ids_def missing_roles_def scan_from_def dict_append_def dict_get_or_def)
  show ?thesis
    using cycle_search_decides [OF diamond_silent(1)] cycle_search_decides [OF r(1)] r(2) diamond_silent(2)
    by (auto simp: cycle_faults_def)
qed

text \<open>
  Every reported cycle is real: the report names an existing connection with its two ends, and
  its trail is a closed walk along connections that starts at the connection's target and ends with
  that connection.
\<close>

theorem reported_cycles_are_real: "list_all (real_cycle g) (cycle_reports g)"
  by (rule cycle_reports_real)

text \<open>
  On a level that passes both checks the upstream closure is computed without error, and each
  node's list is exactly the set of its ancestors, without repetition, each after all of its own
  ancestors.
\<close>

theorem upstream_closure_exact:
  assumes "endpoint_faults g s l = []" "cycle_faults g s l = []"
  shows "\<exists>up. upstream_closure (Suc (length (nodes g))) g = Inr up
    \<and> list_all (\<lambda>n. case map_of up n of None \<Rightarrow> False | Some v \<Rightarrow> is_upstream (edges g) n v) (node_ids g)"
proof -
  have "endpoints_declared g" "acyclic (edges g)"
    using assms cycle_reports_Nil by (auto simp: endpoint_faults_Nil cycle_faults_def)
  from upstream_closure_ok [OF this lessI] obtain up where "upstream_closure (Suc (length (nodes g))) g = Inr up"
    "\<And>n. n \<in> set (node_ids g) \<Longrightarrow> \<exists>v. map_of up n = Some v"
    "\<And>n v. map_of up n = Some v \<Longrightarrow> is_upstream (edges g) n v" by blast
  then show ?thesis by (fastforce simp: list_all_iff)
qed

theorem upstream_closure_exact_witness:
  "\<exists>up. upstream_closure (Suc (length (nodes diamond))) diamond = Inr up
    \<and> list_all (\<lambda>n. case map_of up n of None \<Rightarrow> False | Some v \<Rightarrow> is_upstream (edges diamond) n v) (node_ids diamond)"
  by (rule upstream_closure_exact [of _ "[]" root_location]) (simp_all add: diamond_silent cycle_faults_def)

text \<open>
  C11. Placement succeeds on every level that passes the checks and repeats no node id: within a stack of one frame more than the
  level has nodes, closure and placement return every node exactly once, the source of every connection before its
  destination; and on a smaller stack they return such an order, if they return.
\<close>

theorem placement_in_dependency_order:
  assumes "level_admissible g"
  shows "(length (nodes g) < n \<longrightarrow> (\<exists>up ns. upstream_closure n g = Inr up \<and> ordered_nodes n g up = Inr ns))
    \<and> (\<forall>up ns. upstream_closure n g = Inr up \<longrightarrow> ordered_nodes n g up = Inr ns \<longrightarrow> scheduled g ns)"
  using level.schedule_total [of g n] assms order_scheduled [OF assms]
  by (auto simp: level_order_def rbind_def split: sum.splits)

theorem placement_in_dependency_order_witness:
  "\<exists>up ns. upstream_closure 5 diamond = Inr up \<and> ordered_nodes 5 diamond up = Inr ns \<and> scheduled diamond ns"
proof -
  have "level_admissible diamond" by (simp add: level_admissible_def diamond_silent)
  from placement_in_dependency_order [OF this, of 5] show ?thesis by (auto simp: diamond_def)
qed

end
