(* ===== verification/Port_Binding.thy ===== *)
theory Port_Binding
  imports Faults "HOL-Library.Multiset"
begin

text \<open>
  Magnetic port binding (\<^verbatim>\<open>runtime/validator.py\<close>): \<open>bind_port\<close> chooses the sources of one port by
  nominal contract, \<open>resolve_selector\<close> resolves an explicit map entry, \<open>bind_node_inputs\<close> binds all
  inputs of a node, \<open>applicable_selectors\<close> lists the selectors an ambiguity fault advertises.

  The source compares \<^verbatim>\<open>_Source\<close> objects by identity in one place. Every such object is built at one
  site per scope and port name, so \<open>src_origin\<close> names that site and stands for the identity.
\<close>

section \<open>Model\<close>

datatype origin =
    RootInput string
  | AtomicOutput scope string
  | LevelOutput scope string nat
  | Retagged scope string nat
  | LoopBoundary scope string
  | LoopExported scope string

record source =
  src_address :: port_address
  src_port :: port
  src_origin :: origin

type_synonym sources_by = "(string, source list) dict"

type_synonym node_outputs = "(string, sources_by) dict"

definition ports_same_contract :: "port \<Rightarrow> port \<Rightarrow> bool" where
  "ports_same_contract left right \<longleftrightarrow> type_id left = type_id right \<and> schema_hash left = schema_hash right"

definition source_matches :: "source \<Rightarrow> port \<Rightarrow> bool" where
  "source_matches s p \<longleftrightarrow> type_id (src_port s) = type_id p \<and> schema_hash (src_port s) = schema_hash p"

text \<open>Where a node input is bound; a graph output is bound with no site.\<close>

record binding_site =
  site_node :: string
  site_level :: location
  site_incoming :: "nat option"
  site_lookup :: node_outputs
  site_inputs :: sources_by

definition selectable :: "port \<Rightarrow> source list \<Rightarrow> string \<Rightarrow> source list \<Rightarrow> bool" where
  "selectable p sources name resolved =
     (name \<noteq> '''' \<and> (case resolved of
        [s] \<Rightarrow> src_origin s \<in> src_origin ` set sources \<and> cardinality (src_port s) = One \<and> source_matches s p
      | _ \<Rightarrow> False))"

definition applicable_selectors :: "port \<Rightarrow> source list \<Rightarrow> binding_site option \<Rightarrow> string list" where
  "applicable_selectors p sources site =
     (case site of None \<Rightarrow> []
      | Some b \<Rightarrow> sort (
          concat (map (\<lambda>(node, outs).
              if node = ''$input'' \<or> CHR ''.'' \<in> set node then []
              else map (\<lambda>(out, _). node @ ''.'' @ out) (filter (\<lambda>(out, resolved). selectable p sources out resolved) outs))
            (site_lookup b))
          @ map (\<lambda>(name, _). ''$input.'' @ name)
              (filter (\<lambda>(name, resolved). selectable p sources name resolved) (site_inputs b))))"

definition ambiguous_port_fault :: "port \<Rightarrow> source list \<Rightarrow> location \<Rightarrow> scope \<Rightarrow> binding_site option \<Rightarrow> fault" where
  "ambiguous_port_fault p sources loc s site =
     (let candidates = applicable_selectors p sources site in
      case site of
        None \<Rightarrow> Located s loc (AmbiguousGraphOutput (port_name p) candidates)
      | Some b \<Rightarrow>
          (case site_incoming b of
             Some index \<Rightarrow>
               if candidates \<noteq> [] then
                 let entry = \<lparr>connection_index = index, destination_node = site_node b,
                              destination_port = port_name p, selector = hd candidates,
                              entry_location = site_level b\<rparr>
                 in map_fault entry s (AmbiguousNodeInput entry candidates)
               else Located s loc (AmbiguousNodeInputUnmappable (site_node b) (port_name p) candidates)
           | None \<Rightarrow> Located s loc (AmbiguousNodeInputUnmappable (site_node b) (port_name p) candidates)))"

definition bind_port ::
  "port \<Rightarrow> source list \<Rightarrow> location \<Rightarrow> scope \<Rightarrow> binding_site option \<Rightarrow> fault list \<times> source list option" where
  "bind_port p pool loc s site =
     (let typed = filter (\<lambda>x. source_matches x p) pool;
          missing = Located s loc (MissingPortSource (port_name p) (map_option site_node site));
          named = filter (\<lambda>x. port_name (src_port x) = port_name p) typed
      in if cardinality p = Many then (if typed = [] then ([missing], None) else ([], Some typed))
         else if length named = 1 then ([], Some named)
         else if length named > 1 then ([ambiguous_port_fault p named loc s site], None)
         else if length typed = 1 then ([], Some typed)
         else if length typed > 1 then ([ambiguous_port_fault p typed loc s site], None)
         else if cardinality p = Optional then ([], None)
         else ([missing], None))"

definition resolve_selector ::
  "map_entry \<Rightarrow> port \<Rightarrow> node_outputs \<Rightarrow> sources_by \<Rightarrow> scope \<Rightarrow> fault + source" where
  "resolve_selector entry p lookup ins s =
     (let (node, out) = partition_at (CHR ''.'') (selector entry) in
      if out = '''' then Inl (map_fault entry s (MalformedSelector entry))
      else
        let sources = (if node = ''$input'' then dict_get_or [] ins out
                       else dict_get_or [] (dict_get_or [] lookup node) out)
        in case sources of
             [x] \<Rightarrow>
               (if cardinality (src_port x) \<noteq> One
                then Inl (map_fault entry s (ExplicitSourceCardinality entry (cardinality (src_port x))))
                else if \<not> source_matches x p
                then Inl (map_fault entry s (ExplicitSourceContract entry
                       (type_id (src_port x), schema_hash (src_port x)) (type_id p, schema_hash p)))
                else Inr x)
           | _ \<Rightarrow> Inl (map_fault entry s (ExplicitSourceCount entry (length sources))))"

text \<open>The map entries of one node, grouped by destination port; the first entry of a selector wins.\<close>

definition group_entries :: "string list \<Rightarrow> map_entry list \<Rightarrow> (string, (string, map_entry) dict) dict" where
  "group_entries declared explicit =
     fold (\<lambda>e by_port.
         if destination_port e \<in> set declared
         then dict_set (destination_port e)
                (dict_setdefault (selector e) e (dict_get_or [] by_port (destination_port e))) by_port
         else by_port)
       explicit []"

definition unused_maps :: "string list \<Rightarrow> map_entry list \<Rightarrow> scope \<Rightarrow> fault list" where
  "unused_maps declared explicit s =
     map (\<lambda>e. map_fault e s (UnusedMapDestination e)) (filter (\<lambda>e. destination_port e \<notin> set declared) explicit)"

definition bind_mapped ::
  "port \<Rightarrow> map_entry list \<Rightarrow> binding_site \<Rightarrow> scope \<Rightarrow> fault list \<times> source list option" where
  "bind_mapped p entries site s =
     (if cardinality p \<noteq> Many \<and> length entries > 1 then
        (let first = entries ! 0; conflict = entries ! 1 in
         ([map_fault conflict s (DuplicateMapDestination conflict (cardinality p) (connection_index first) (selector first))], None))
      else
        (let selected = map (\<lambda>e. resolve_selector e p (site_lookup site) (site_inputs site) s) entries in
         (concat (map (case_sum (\<lambda>f. [f]) (\<lambda>_. [])) selected),
          if list_all (\<lambda>x. \<not> isl x) selected then Some (map projr selected) else None)))"

definition bind_input ::
  "(string, (string, map_entry) dict) dict \<Rightarrow> string set \<Rightarrow> source list \<Rightarrow> location \<Rightarrow> scope \<Rightarrow> binding_site \<Rightarrow> port
     \<Rightarrow> fault list \<times> source list option" where
  "bind_input by_port fb pool loc s site p =
     (let entries = dict_values (dict_get_or [] by_port (port_name p)) in
      if entries \<noteq> [] then bind_mapped p entries site s
      else if port_name p \<in> fb \<and> \<not> list_ex (\<lambda>x. source_matches x p) pool
      then ([Located s loc (MissingFeedbackSeed (site_node site) (port_name p))], None)
      else bind_port p pool loc s (Some site))"

definition bind_node_inputs ::
  "port list \<Rightarrow> map_entry list \<Rightarrow> string set \<Rightarrow> source list \<Rightarrow> location \<Rightarrow> scope \<Rightarrow> binding_site
     \<Rightarrow> fault list \<times> sources_by" where
  "bind_node_inputs ports explicit fb pool loc s site =
     (let declared = map port_name ports; by_port = group_entries declared explicit
      in fold (\<lambda>p (faults, bound).
           let (fs, sel) = bind_input by_port fb pool loc s site p
           in (faults @ fs, case sel of None \<Rightarrow> bound | Some xs \<Rightarrow> dict_set (port_name p) xs bound))
         ports (unused_maps declared explicit s, []))"

definition explicit_maps :: "graph \<Rightarrow> location \<Rightarrow> map_entry list" where
  "explicit_maps g loc = concat (map (\<lambda>(i, c).
     map (\<lambda>(port, sel). \<lparr>connection_index = i, destination_node = dst c, destination_port = port,
                        selector = sel, entry_location = loc\<rparr>) (sort_key fst (conn_map c)))
     (enumerate 0 (connections g)))"

definition unique_port_faults :: "port list \<Rightarrow> string \<Rightarrow> fault list" where
  "unique_port_faults ports place =
     (let (seen, duplicates) = fold (\<lambda>p (seen, dups).
            (port_name p # seen, if port_name p \<in> set seen then port_name p # dups else dups)) ports ([], [])
      in opt (duplicates \<noteq> []) (DuplicatePorts place (sorted_set duplicates)))"


section \<open>Laws\<close>

text \<open>What a bound port may hold: matching sources, and exactly one unless it gathers.\<close>

definition well_bound :: "port \<Rightarrow> source list \<Rightarrow> bool" where
  "well_bound p xs \<longleftrightarrow> xs \<noteq> [] \<and> list_all (\<lambda>x. source_matches x p) xs \<and> (cardinality p \<noteq> Many \<longrightarrow> length xs = 1)"

text \<open>The outcome of binding one port: sources, or a fault, or nothing for an optional port.\<close>

definition bound_or_fault :: "port \<Rightarrow> fault list \<times> source list option \<Rightarrow> bool" where
  "bound_or_fault p r = (case snd r of
      Some xs \<Rightarrow> fst r = [] \<and> well_bound p xs
    | None \<Rightarrow> fst r \<noteq> [] \<or> cardinality p = Optional)"

lemma bind_port_decides: "bound_or_fault p (bind_port p pool loc s site)"
  by (auto simp: bind_port_def bound_or_fault_def well_bound_def Let_def list_all_iff)

lemma bind_port_from_pool: "snd (bind_port p pool loc s site) = Some xs \<Longrightarrow> set xs \<subseteq> set pool"
  by (auto simp: bind_port_def Let_def split: if_splits)

text \<open>
  Binding a port is total and sound: it either returns at least one source of the exact nominal
  contract (exactly one unless the port gathers) and records nothing, or returns nothing and records a
  fault; the only silent absence is an optional port.
\<close>

theorem bind_port_total_and_sound: "bound_or_fault p (bind_port p pool loc s site)"
  by (rule bind_port_decides)

lemma filter_single_mset: "mset xs = mset ys \<Longrightarrow> length (filter P xs) = 1 \<Longrightarrow> filter P xs = filter P ys"
proof -
  assume m: "mset xs = mset ys" and l: "length (filter P xs) = 1"
  then obtain x where x: "filter P xs = [x]" by (auto simp: length_Suc_conv)
  have "mset (filter P ys) = {#x#}" using m x by (metis mset_filter mset_single_iff)
  then show ?thesis using x by (metis mset_single_iff)
qed

text \<open>
  Ambiguity is never guessed: the source chosen for a port that does not gather depends only on
  which sources are offered, not on the order in which they are met.
\<close>

theorem bind_port_order_independent:
  assumes "mset pool = mset pool'" "cardinality p \<noteq> Many"
  shows "snd (bind_port p pool loc s site) = snd (bind_port p pool' loc s site)"
proof -
  let ?t = "\<lambda>x. source_matches x p" and ?n = "\<lambda>x. port_name (src_port x) = port_name p"
  have len: "length (filter Q pool) = length (filter Q pool')" for Q
    using assms(1) by (metis mset_filter size_mset)
  have single: "length (filter Q pool) = 1 \<Longrightarrow> filter Q pool = filter Q pool'" for Q
    by (rule filter_single_mset [OF assms(1)])
  show ?thesis
    using assms(2) len [of ?t] len [of "\<lambda>x. ?t x \<and> ?n x"] single [of ?t] single [of "\<lambda>x. ?t x \<and> ?n x"]
    by (simp add: bind_port_def Let_def filter_filter conj_commute)
qed

definition plain_port :: "string \<Rightarrow> string \<Rightarrow> cardinality \<Rightarrow> port" where
  "plain_port n t c = \<lparr>port_name = n, type_id = t, schema_hash = ''1'', json_schema = None, cardinality = c\<rparr>"

definition offer :: "string \<Rightarrow> string \<Rightarrow> string \<Rightarrow> source" where
  "offer node n t = \<lparr>src_address = NodePortAddress [''g''] node n, src_port = plain_port n t One,
     src_origin = AtomicOutput [''g'', node] n\<rparr>"

theorem bind_port_order_independent_witness:
  "snd (bind_port (plain_port ''x'' ''T'' One) [offer ''a'' ''y'' ''T'', offer ''b'' ''x'' ''T''] root_location [''g''] None)
     = Some [offer ''b'' ''x'' ''T'']"
proof -
  have "mset [offer ''a'' ''y'' ''T'', offer ''b'' ''x'' ''T''] = mset [offer ''b'' ''x'' ''T'', offer ''a'' ''y'' ''T'']"
    "cardinality (plain_port ''x'' ''T'' One) \<noteq> Many" by (simp_all add: plain_port_def)
  from bind_port_order_independent [OF this] show ?thesis
    by (simp add: bind_port_def source_matches_def offer_def plain_port_def)
qed

subsection \<open>Explicit selectors\<close>

lemma resolve_selector_sound:
  "resolve_selector e p lookup ins s = Inr x \<Longrightarrow> cardinality (src_port x) = One \<and> source_matches x p"
  by (auto simp: resolve_selector_def Let_def split: prod.splits list.splits if_splits)

text \<open>Splitting at the first dot gives back the two parts of a node selector.\<close>

lemma partition_selector: "CHR ''.'' \<notin> set node \<Longrightarrow> partition_at (CHR ''.'') (node @ CHR ''.'' # out) = (node, out)"
  by (rule partition_at_append)

lemma selectable_single:
  "selectable p sources name resolved \<Longrightarrow> \<exists>x. resolved = [x] \<and> name \<noteq> ''''
     \<and> src_origin x \<in> src_origin ` set sources \<and> cardinality (src_port x) = One \<and> source_matches x p"
  by (auto simp: selectable_def split: list.splits)

lemma resolve_selectable:
  assumes "partition_at (CHR ''.'') (selector e) = (node, out)" "selectable p sources out resolved"
    and "(if node = ''$input'' then dict_get_or [] ins out else dict_get_or [] (dict_get_or [] lookup node) out) = resolved"
  shows "\<exists>x. resolve_selector e p lookup ins s = Inr x \<and> src_origin x \<in> src_origin ` set sources"
  using selectable_single [OF assms(2)] assms(1,3) by (auto simp: resolve_selector_def Let_def)

text \<open>
  Every selector an ambiguity fault advertises is one that resolution accepts: written into the
  connection's map it resolves, without a fault, to one of the very sources that were ambiguous.
\<close>

theorem advertised_selectors_resolve:
  assumes "sel \<in> set (applicable_selectors p sources (Some site))" "selector e = sel"
    and "distinct (map fst (site_lookup site))" "distinct (map fst (site_inputs site))"
    and "list_all (\<lambda>(node, outs). distinct (map fst outs)) (site_lookup site)"
  shows "\<exists>x. resolve_selector e p (site_lookup site) (site_inputs site) s = Inr x
    \<and> src_origin x \<in> src_origin ` set sources"
proof -
  consider (node) node outs out resolved where "(node, outs) \<in> set (site_lookup site)" "node \<noteq> ''$input''"
      "CHR ''.'' \<notin> set node" "(out, resolved) \<in> set outs" "selectable p sources out resolved" "sel = node @ ''.'' @ out"
    | (input) name resolved where "(name, resolved) \<in> set (site_inputs site)" "selectable p sources name resolved"
      "sel = ''$input.'' @ name"
    using assms(1) by (auto simp: applicable_selectors_def split: if_splits)
  then show ?thesis
  proof cases
    case node
    have "dict_get_or [] (site_lookup site) node = outs" using node(1) assms(3) by (simp add: dict_get_or_def)
    moreover have "distinct (map fst outs)" using node(1) assms(5) by (auto simp: list_all_iff)
    then have "dict_get_or [] outs out = resolved" using node(4) by (simp add: dict_get_or_def)
    ultimately show ?thesis
      using node(2,3,5,6) assms(2) by (intro resolve_selectable [of e node out]) (simp_all add: partition_selector)
  next
    case input
    have "partition_at (CHR ''.'') (''$input'' @ CHR ''.'' # name) = (''$input'', name)"
      by (rule partition_selector) simp
    moreover have "dict_get_or [] (site_inputs site) name = resolved" using input(1) assms(4) by (simp add: dict_get_or_def)
    ultimately show ?thesis
      using input(2,3) assms(2) by (intro resolve_selectable [of e "''$input''" name]) simp_all
  qed
qed

definition two_offers :: binding_site where
  "two_offers = \<lparr>site_node = ''n'', site_level = root_location, site_incoming = Some 0,
     site_lookup = [(''a'', [(''y'', [offer ''a'' ''y'' ''T''])]), (''b'', [(''z'', [offer ''b'' ''z'' ''T''])])],
     site_inputs = []\<rparr>"

theorem advertised_selectors_resolve_witness:
  "\<exists>x. resolve_selector \<lparr>connection_index = 0, destination_node = ''n'', destination_port = ''x'',
        selector = ''a.y'', entry_location = root_location\<rparr> (plain_port ''x'' ''T'' One)
        (site_lookup two_offers) (site_inputs two_offers) [''g'', ''n''] = Inr x
      \<and> src_origin x \<in> src_origin ` set [offer ''a'' ''y'' ''T'', offer ''b'' ''z'' ''T'']"
proof -
  have c: "applicable_selectors (plain_port ''x'' ''T'' One) [offer ''a'' ''y'' ''T'', offer ''b'' ''z'' ''T''] (Some two_offers)
      = [''a.y'', ''b.z'']"
    by (simp add: applicable_selectors_def two_offers_def selectable_def source_matches_def offer_def plain_port_def)
  show ?thesis
    by (rule advertised_selectors_resolve [of "''a.y''"]) (simp_all only: c, simp_all add: two_offers_def)
qed

subsection \<open>The inputs of a node\<close>

lemma no_faults_iff:
  "concat (map (case_sum (\<lambda>f. [f]) (\<lambda>_. [])) xs) = [] \<longleftrightarrow> list_all (\<lambda>x. \<not> isl x) xs"
  by (induction xs) (auto split: sum.splits)

lemma bind_mapped_decides: "entries \<noteq> [] \<Longrightarrow> bound_or_fault p (bind_mapped p entries site s)"
proof -
  assume ne: "entries \<noteq> []"
  define sel where "sel = map (\<lambda>e. resolve_selector e p (site_lookup site) (site_inputs site) s) entries"
  have wb: "well_bound p (map projr sel)"
    if r: "list_all (\<lambda>x. \<not> isl x) sel" and c: "\<not> (cardinality p \<noteq> Many \<and> length entries > 1)"
  proof -
    have "source_matches (projr x) p" if "x \<in> set sel" for x
      using that r resolve_selector_sound unfolding sel_def by (cases x) (fastforce simp: list_all_iff)+
    moreover have "length entries = 1" if "cardinality p \<noteq> Many" using that c ne by (cases entries) auto
    ultimately show ?thesis using ne by (auto simp: well_bound_def list_all_iff sel_def)
  qed
  show ?thesis
    unfolding bind_mapped_def sel_def [symmetric] Let_def bound_or_fault_def
    using wb by (simp add: no_faults_iff del: concat_eq_Nil_conv)
qed

lemma bind_input_decides: "bound_or_fault p (bind_input by_port fb pool loc s site p)"
  using bind_mapped_decides bind_port_decides by (auto simp: bind_input_def Let_def bound_or_fault_def [of _ "([_], None)"])

text \<open>Every bound name is a declared port with well-bound sources; with no fault, every required port is bound.\<close>

definition inputs_ok :: "port list \<Rightarrow> fault list \<times> sources_by \<Rightarrow> bool" where
  "inputs_ok ports r \<longleftrightarrow>
     list_all (\<lambda>(n, xs). list_ex (\<lambda>p. port_name p = n \<and> well_bound p xs) ports) (snd r)
     \<and> (fst r = [] \<longrightarrow> list_all (\<lambda>p. cardinality p = Optional \<or> port_name p \<in> fst ` set (snd r)) ports)"

lemma bind_node_inputs_fold:
  assumes "list_all (\<lambda>(n, xs). list_ex (\<lambda>p. port_name p = n \<and> well_bound p xs) (qs @ ps)) bound"
    and "faults = [] \<longrightarrow> list_all (\<lambda>p. cardinality p = Optional \<or> port_name p \<in> fst ` set bound) qs"
  shows "inputs_ok (qs @ ps) (fold (\<lambda>p (faults, bound).
           let (fs, sel) = bind_input by_port fb pool loc s site p
           in (faults @ fs, case sel of None \<Rightarrow> bound | Some xs \<Rightarrow> dict_set (port_name p) xs bound)) ps (faults, bound))"
  using assms
proof (induction ps arbitrary: qs faults bound)
  case (Cons p ps)
  obtain fs sel where b: "bind_input by_port fb pool loc s site p = (fs, sel)" by (cases "bind_input by_port fb pool loc s site p")
  have d: "bound_or_fault p (fs, sel)" using bind_input_decides [of p by_port fb pool loc s site] by (simp add: b)
  let ?bound = "case sel of None \<Rightarrow> bound | Some xs \<Rightarrow> dict_set (port_name p) xs bound"
  have 1: "list_all (\<lambda>(n, xs). list_ex (\<lambda>p. port_name p = n \<and> well_bound p xs) ((qs @ [p]) @ ps)) ?bound"
    using Cons.prems(1) d by (auto simp: list_all_iff bound_or_fault_def split: option.splits dest!: update_memD)
  have 2: "faults @ fs = [] \<longrightarrow> list_all (\<lambda>p. cardinality p = Optional \<or> port_name p \<in> fst ` set ?bound) (qs @ [p])"
    using Cons.prems(2) d by (auto simp: list_all_iff bound_or_fault_def split: option.splits)
  show ?case using Cons.IH [OF 1 2] by (simp add: b)
qed (auto simp: inputs_ok_def)

lemma bind_node_inputs_inv: "inputs_ok ports (bind_node_inputs ports explicit fb pool loc s site)"
  using bind_node_inputs_fold [of "[]"] by (simp add: bind_node_inputs_def Let_def)

text \<open>
  Binding the inputs of a node: whatever is bound is a declared input with sources of its exact
  contract, one unless it gathers, however it was bound (by map, by name or by type); and when no fault
  is recorded every input that is not optional is bound.
\<close>

theorem node_inputs_bound: "inputs_ok ports (bind_node_inputs ports explicit fb pool loc s site)"
  by (rule bind_node_inputs_inv)

lemma unique_port_faults_Nil: "unique_port_faults ports place = [] \<longleftrightarrow> distinct (map port_name ports)"
proof -
  have "snd (fold (\<lambda>p (seen, dups). (port_name p # seen, if port_name p \<in> set seen then port_name p # dups else dups)) ports (seen, dups)) = []
      \<longleftrightarrow> dups = [] \<and> distinct (map port_name ports) \<and> set (map port_name ports) \<inter> set seen = {}" for seen dups
    by (induction ports arbitrary: seen dups) auto
  from this [of "[]" "[]"] show ?thesis by (simp add: unique_port_faults_def case_prod_unfold Let_def)
qed

end
