(* ===== verification/Component.thy ===== *)
theory Component
  imports Graph_IR
begin

text \<open>
  Components and their version identity (\<^verbatim>\<open>core/component.py\<close>). The content hash covers executable
  semantics and contract; lineage and labels are provenance and stay outside it.
\<close>

section \<open>Model\<close>

record python_ref =
  package :: string
  py_module :: string
  qualname :: string
  contract_hash :: digest
  source_digest :: "digest option"

record artifact_ref =
  artifact_digest :: digest
  media_type :: string
  artifact_size :: nat
  locator :: "string option"

record capability_requirement =
  req_alias :: string
  req_kind :: string

datatype impact_scope = ComponentScope | ReverseDependencies

record learning_profile =
  change_surfaces :: "string list"
  experience_policy :: ref
  evaluator :: ref
  promotion_policy :: ref
  evaluation_dataset :: "artifact_ref option"
  impact_scope :: impact_scope
  requires_human_stable_approval :: bool

record lineage =
  parent_version :: "digest option"
  created_by_run :: string
  experience_set :: "artifact_ref option"
  proposer_manifest_hash :: "digest option"

record metadata =
  learning :: "learning_profile option"
  metadata_lineage :: "lineage option"
  labels :: "string list"

datatype role = NodeRole | ComponentRole | HarnessRole | WorkflowRole

datatype comp_body = Atomic python_ref | Composite graph

record component_def =
  comp_name :: string
  role :: role
  comp_body :: comp_body
  comp_inputs :: "port list"
  comp_outputs :: "port list"
  metadata :: metadata
  requirements :: "capability_requirement list option"

text \<open>\<^verbatim>\<open>_canonical_requirements\<close>: sorted by alias and kind, no alias twice.\<close>

definition canonical_requirements ::
  "capability_requirement list option \<Rightarrow> string list + capability_requirement list option" where
  "canonical_requirements value = (case value of None \<Rightarrow> Inr None
     | Some rs \<Rightarrow>
         let ordered = sort_key req_alias (sort_key req_kind rs);
             aliases = map req_alias ordered;
             duplicates = sorted_set (filter (\<lambda>a. count_list aliases a > 1) aliases)
         in if duplicates \<noteq> [] then Inl duplicates else Inr (Some ordered))"

definition python_ref_json :: "python_ref \<Rightarrow> json" where
  "python_ref_json r = jobj [(''package'', jstr (package r)), (''module'', jstr (py_module r)),
     (''qualname'', jstr (qualname r)), (''contract_hash'', jstr (contract_hash r)),
     (''source_digest'', jopt jstr (source_digest r))]"

definition artifact_json :: "artifact_ref \<Rightarrow> json" where
  "artifact_json a = jobj [(''digest'', jstr (artifact_digest a)), (''media_type'', jstr (media_type a)),
     (''size'', jnat (artifact_size a)), (''locator'', jopt jstr (locator a))]"

definition requirement_json :: "capability_requirement \<Rightarrow> json" where
  "requirement_json r = jobj [(''alias'', jstr (req_alias r)), (''kind'', jstr (req_kind r))]"

definition impact_json :: "impact_scope \<Rightarrow> json" where
  "impact_json i = jstr (case i of ComponentScope \<Rightarrow> ''component'' | ReverseDependencies \<Rightarrow> ''reverse_dependencies'')"

definition learning_json :: "learning_profile \<Rightarrow> json" where
  "learning_json l = jobj
     [(''change_surfaces'', JList (map jstr (sorted_set (change_surfaces l)))),
      (''experience_policy'', ref_json (experience_policy l)), (''evaluator'', ref_json (evaluator l)),
      (''promotion_policy'', ref_json (promotion_policy l)),
      (''evaluation_dataset'', jopt artifact_json (evaluation_dataset l)),
      (''impact_scope'', impact_json (impact_scope l)),
      (''requires_human_stable_approval'', JBool (requires_human_stable_approval l))]"

definition lineage_json :: "lineage \<Rightarrow> json" where
  "lineage_json l = jobj
     [(''parent_version'', jopt jstr (parent_version l)), (''created_by_run'', jstr (created_by_run l)),
      (''experience_set'', jopt artifact_json (experience_set l)),
      (''proposer_manifest_hash'', jopt jstr (proposer_manifest_hash l))]"

definition metadata_json :: "metadata \<Rightarrow> json" where
  "metadata_json m = jobj [(''learning'', jopt learning_json (learning m)),
     (''lineage'', jopt lineage_json (metadata_lineage m)), (''labels'', JList (map jstr (sorted_set (labels m))))]"

definition role_json :: "role \<Rightarrow> json" where
  "role_json r = jstr (case r of NodeRole \<Rightarrow> ''node'' | ComponentRole \<Rightarrow> ''component''
     | HarnessRole \<Rightarrow> ''harness'' | WorkflowRole \<Rightarrow> ''workflow'')"

definition comp_body_json :: "comp_body \<Rightarrow> json" where
  "comp_body_json b = (case b of Atomic r \<Rightarrow> python_ref_json r | Composite g \<Rightarrow> graph_json g)"

text \<open>The dump of a definition; a legacy definition keeps the requirements field absent.\<close>

definition component_json :: "component_def \<Rightarrow> json" where
  "component_json d = jobj
     ([(''name'', jstr (comp_name d)), (''role'', role_json (role d)), (''body'', comp_body_json (comp_body d)),
       (''inputs'', JList (map port_json (comp_inputs d))), (''outputs'', JList (map port_json (comp_outputs d))),
       (''metadata'', metadata_json (metadata d))]
      @ (case requirements d of None \<Rightarrow> []
         | Some rs \<Rightarrow> [(''capability_requirements'', JList (map requirement_json rs))]))"

definition content_payload :: "component_def \<Rightarrow> (string \<times> json) list" where
  "content_payload d =
     [(''role'', role_json (role d)), (''body'', comp_body_json (comp_body d)),
      (''inputs'', JList (map port_json (comp_inputs d))), (''outputs'', JList (map port_json (comp_outputs d))),
      (''learning'', jopt learning_json (learning (metadata d)))]"

definition content_hash :: "(nat list \<Rightarrow> string) \<Rightarrow> component_def \<Rightarrow> digest" where
  "content_hash sha d =
     (case requirements d of
        None \<Rightarrow> digest_of sha ''component'' 1 (jobj (content_payload d))
      | Some rs \<Rightarrow> digest_of sha ''component'' 2
          (jobj (content_payload d @ [(''capability_requirements'', JList (map requirement_json rs))])))"

definition same_definition :: "component_def \<Rightarrow> component_def \<Rightarrow> bool" where
  "same_definition left right = (canonical_json (component_json left) = canonical_json (component_json right))"

record promotion_record =
  prom_component :: string
  prom_channel :: string
  from_version :: "digest option"
  to_version :: digest
  attestation_id :: string
  prom_actor :: string
  source_run :: "string option"
  prom_created_at :: nat

definition same_identity_as :: "promotion_record \<Rightarrow> promotion_record \<Rightarrow> bool" where
  "same_identity_as r q \<longleftrightarrow> prom_component r = prom_component q \<and> prom_channel r = prom_channel q
     \<and> from_version r = from_version q \<and> to_version r = to_version q
     \<and> attestation_id r = attestation_id q \<and> source_run r = source_run q"

definition contract_digest :: "(nat list \<Rightarrow> string) \<Rightarrow> component_def \<Rightarrow> digest" where
  "contract_digest sha d = digest_of sha ''component-contract'' 1
     (jobj [(''inputs'', JList (map port_json (comp_inputs d))), (''outputs'', JList (map port_json (comp_outputs d)))])"

text \<open>\<^verbatim>\<open>embedded_schema_faults\<close> (\<^verbatim>\<open>runtime/registry.py\<close>): the ports whose schema does not hash to
  their declared revision.\<close>

definition embedded_schema_faults :: "(nat list \<Rightarrow> string) \<Rightarrow> component_def \<Rightarrow> (string \<times> string) list" where
  "embedded_schema_faults sha d =
     concat (map (\<lambda>(direction, ports). concat (map (\<lambda>p. case json_schema p of None \<Rightarrow> []
         | Some schema \<Rightarrow> opt (schema_hash p \<noteq> digest_of sha ''json-schema'' 1 (JObj schema)) (direction, port_name p)) ports))
       [(''input'', comp_inputs d), (''output'', comp_outputs d)])"

section \<open>Laws\<close>

text \<open>What a content hash covers: everything of a definition but its name, lineage and labels.\<close>

definition learning_norm :: "learning_profile \<Rightarrow> learning_profile" where
  "learning_norm l = l\<lparr>change_surfaces := sorted_set (change_surfaces l),
     experience_policy := ref_norm (experience_policy l), evaluator := ref_norm (evaluator l),
     promotion_policy := ref_norm (promotion_policy l)\<rparr>"

definition body_of_norm :: "comp_body \<Rightarrow> comp_body" where
  "body_of_norm b = (case b of Atomic r \<Rightarrow> Atomic r | Composite g \<Rightarrow> Composite (graph_norm g))"

definition semantics :: "component_def \<Rightarrow> role \<times> comp_body \<times> port list \<times> port list \<times> learning_profile option \<times> capability_requirement list option" where
  "semantics d = (role d, body_of_norm (comp_body d), map port_norm (comp_inputs d), map port_norm (comp_outputs d),
     map_option learning_norm (learning (metadata d)), requirements d)"

definition component_wire :: "component_def \<Rightarrow> bool" where
  "component_wire d \<longleftrightarrow> (case comp_body d of Atomic _ \<Rightarrow> True | Composite g \<Rightarrow> graph_wire g)
     \<and> list_all port_wire (comp_inputs d) \<and> list_all port_wire (comp_outputs d)
     \<and> (case learning (metadata d) of None \<Rightarrow> True
        | Some l \<Rightarrow> distinct (map fst (bind (experience_policy l))) \<and> distinct (map fst (bind (evaluator l)))
            \<and> distinct (map fst (bind (promotion_policy l))))"

lemma artifact_norm_eq [dump_simps]: "json_norm (artifact_json a) = json_norm (artifact_json b) \<longleftrightarrow> a = b"
  unfolding artifact_json_def
  by (cases a; cases b) (subst jobj_norm_eq, simp_all add: dump_simps del: json_norm.simps, simp)

lemma artifact_opt_norm_eq [dump_simps]: "json_norm (jopt artifact_json a) = json_norm (jopt artifact_json b) \<longleftrightarrow> a = b"
  using jopt_norm_eq [of artifact_json id a b] by (simp add: dump_simps option.map_id) (simp add: artifact_json_def)

lemma requirement_norm_eq: "json_norm (requirement_json a) = json_norm (requirement_json b) \<longleftrightarrow> a = b"
  unfolding requirement_json_def
  by (cases a; cases b) (subst jobj_norm_eq, simp_all add: dump_simps del: json_norm.simps)

lemma requirements_norm_eq [dump_simps]:
  "json_norm (JList (map requirement_json xs)) = json_norm (JList (map requirement_json ys)) \<longleftrightarrow> xs = ys"
  using jlist_norm_eq [of requirement_json id xs ys] requirement_norm_eq by simp

lemma role_norm_eq [dump_simps]: "json_norm (role_json r) = json_norm (role_json q) \<longleftrightarrow> r = q"
  by (cases r; cases q) (simp_all add: role_json_def ustr_of_inj)

lemma impact_norm_eq [dump_simps]: "json_norm (impact_json r) = json_norm (impact_json q) \<longleftrightarrow> r = q"
  by (cases r; cases q) (simp_all add: impact_json_def ustr_of_inj)

lemma learning_norm_eq [dump_simps]:
  "json_norm (learning_json l) = json_norm (learning_json m) \<longleftrightarrow> learning_norm l = learning_norm m"
  unfolding learning_json_def
  by (cases l; cases m) (subst jobj_norm_eq, simp_all add: dump_simps learning_norm_def del: json_norm.simps, simp)

lemma learning_opt_norm_eq [dump_simps]:
  "json_norm (jopt learning_json l) = json_norm (jopt learning_json m) \<longleftrightarrow> map_option learning_norm l = map_option learning_norm m"
  by (rule jopt_norm_eq [OF learning_norm_eq]) (simp add: learning_json_def)

lemma python_ref_norm_eq [dump_simps]: "json_norm (python_ref_json r) = json_norm (python_ref_json q) \<longleftrightarrow> r = q"
  unfolding python_ref_json_def
  by (cases r; cases q) (subst jobj_norm_eq, simp_all add: dump_simps del: json_norm.simps)

lemma comp_body_norm_eq [dump_simps]:
  "json_norm (comp_body_json b) = json_norm (comp_body_json c) \<longleftrightarrow> body_of_norm b = body_of_norm c"
proof -
  have neq: "json_norm (python_ref_json r) \<noteq> json_norm (graph_json g)" for r g
    by (cases g) (simp only: python_ref_json_def graph_json.simps, rule jobj_norm_neq [of "''package''"], simp_all)
  then show ?thesis
    using neq [symmetric] by (cases b; cases c) (auto simp: comp_body_json_def body_of_norm_def dump_simps graph_norm_eq_all simp del: json_norm.simps)
qed

definition hashed_payload :: "component_def \<Rightarrow> json" where
  "hashed_payload d = (case requirements d of None \<Rightarrow> jobj (content_payload d)
     | Some rs \<Rightarrow> jobj (content_payload d @ [(''capability_requirements'', JList (map requirement_json rs))]))"

definition hash_version :: "component_def \<Rightarrow> nat" where
  "hash_version d = (case requirements d of None \<Rightarrow> 1 | Some _ \<Rightarrow> 2)"

lemma content_hash_eq: "content_hash sha d = digest_of sha ''component'' (hash_version d) (hashed_payload d)"
  by (simp add: content_hash_def hashed_payload_def hash_version_def split: option.splits)

lemma hashed_payload_eq:
  assumes "hash_version d = hash_version e"
  shows "json_norm (hashed_payload d) = json_norm (hashed_payload e) \<longleftrightarrow> semantics d = semantics e"
proof (cases "requirements d")
  case None
  then have e: "requirements e = None" using assms by (auto simp: hash_version_def split: option.splits)
  show ?thesis unfolding hashed_payload_def None e option.case content_payload_def
    by (subst jobj_norm_eq) (simp_all add: dump_simps semantics_def None e del: json_norm.simps)
next
  case (Some rs)
  then obtain qs where e: "requirements e = Some qs" using assms by (auto simp: hash_version_def split: option.splits)
  show ?thesis unfolding hashed_payload_def Some e option.case content_payload_def append.simps
    by (subst jobj_norm_eq) (simp_all add: dump_simps semantics_def Some e del: json_norm.simps)
qed

lemma wire_ref_json: "wire (ref_json r) \<longleftrightarrow> distinct (map fst (bind r))"
  by (simp add: ref_json_def grant_request_json_def posture_json_def list_all_iff split: option.splits)

lemma wire_artifact_json [simp]: "wire (artifact_json a)"
  by (simp add: artifact_json_def split: option.splits)

lemma wire_hashed_payload: "component_wire d \<Longrightarrow> wire (hashed_payload d)"
proof -
  assume w: "component_wire d"
  have b: "wire (comp_body_json (comp_body d))"
    using w by (auto simp: component_wire_def comp_body_json_def python_ref_json_def wire_graph_json_all
        split: comp_body.splits option.splits)
  have l: "wire (jopt learning_json (learning (metadata d)))"
    using w by (auto simp: component_wire_def learning_json_def impact_json_def wire_ref_json list_all_iff split: option.splits)
  have r: "wire (role_json (role d))" by (simp add: role_json_def)
  show ?thesis
    using w b l r by (auto simp: component_wire_def hashed_payload_def content_payload_def requirement_json_def list_all_iff
        simp del: wire_jopt split: option.splits)
qed

text \<open>
  Version identity: two definitions with the same content hash have the same role, body, ports,
  learning profile and capability contract (up to the order of dictionaries), or their preimages are an
  explicit collision of SHA-256. A legacy definition without a capability contract and a complete
  declaration of no requirements are different versions.
\<close>

theorem content_hash_identity:
  assumes "component_wire d" "component_wire e" "content_hash sha d = content_hash sha e"
  shows "semantics d = semantics e
    \<or> collision sha (material ''component'' (hash_version d) (hashed_payload d))
                    (material ''component'' (hash_version e) (hashed_payload e))"
proof -
  have n: "nul_free ''component''" by (simp add: nul_free_def)
  show ?thesis
    using digest_of_inj [OF assms(3) [unfolded content_hash_eq] n n wire_hashed_payload [OF assms(1)] wire_hashed_payload [OF assms(2)]]
      hashed_payload_eq [of d e] by auto
qed

definition sample_atomic :: "string \<Rightarrow> string list \<Rightarrow> component_def" where
  "sample_atomic n tags = \<lparr>comp_name = n, role = NodeRole,
     comp_body = Atomic \<lparr>package = ''p'', py_module = ''m'', qualname = ''f'', contract_hash = ''h'', source_digest = None\<rparr>,
     comp_inputs = [], comp_outputs = [], metadata = \<lparr>learning = None, metadata_lineage = None, labels = tags\<rparr>,
     requirements = Some []\<rparr>"

theorem content_hash_identity_witness:
  "content_hash (map char_of) (sample_atomic ''a'' []) = content_hash (map char_of) (sample_atomic ''b'' [''x''])
   \<and> semantics (sample_atomic ''a'' []) = semantics (sample_atomic ''b'' [''x''])"
proof -
  have p: "hashed_payload (sample_atomic ''a'' []) = hashed_payload (sample_atomic ''b'' [''x''])"
    "hash_version (sample_atomic ''a'' []) = hash_version (sample_atomic ''b'' [''x''])"
    by (simp_all add: hashed_payload_def content_payload_def hash_version_def sample_atomic_def)
  have h: "content_hash (map char_of) (sample_atomic ''a'' []) = content_hash (map char_of) (sample_atomic ''b'' [''x''])"
    unfolding content_hash_eq p ..
  have "component_wire (sample_atomic ''a'' [])" "component_wire (sample_atomic ''b'' [''x''])"
    by (simp_all add: component_wire_def sample_atomic_def)
  from content_hash_identity [OF this h] h show ?thesis unfolding p collision_def by simp
qed

lemma content_hash_provenance:
  "semantics d = semantics e \<Longrightarrow> content_hash sha d = content_hash sha e"
proof -
  assume s: "semantics d = semantics e"
  then have v: "hash_version d = hash_version e" by (simp add: semantics_def hash_version_def)
  show ?thesis unfolding content_hash_eq v
    using hashed_payload_eq [OF v] s by (intro digest_of_cong) simp
qed

end
