(* ===== verification/Registry.thy ===== *)
theory Registry
  imports Component
begin

text \<open>
  The component registry: snapshots (\<^verbatim>\<open>core/registry.py\<close>), version selection
  (\<^verbatim>\<open>runtime/_resolution.py\<close>) and the append-only store (\<^verbatim>\<open>InMemoryRegistryStore\<close> in
  \<^verbatim>\<open>runtime/registry.py\<close>) as a state machine with write-once versions and compare-and-swap
  promotions, and the registration plan of \<^verbatim>\<open>ComponentRegistry\<close>.

  The locale \<open>registry_store\<close> states what the \<^verbatim>\<open>RegistryStore\<close> protocol promises to its client; the
  in-memory store is its interpretation, and the registration client is proved inside it.
\<close>

section \<open>Snapshots\<close>

record revision =
  registration_seq :: nat
  promotion_seq :: nat

record stored_version =
  definition_of :: component_def
  stored_hash :: digest
  registered_at :: nat

record snapshot =
  snap_revision :: revision
  versions :: "(string, (digest, stored_version) dict) dict"
  order :: "(string, digest list) dict"
  stable :: "(string, digest) dict"
  history :: "(string, (digest option \<times> digest) list) dict"

text \<open>\<^verbatim>\<open>str(v) if v else None\<close>: an empty digest counts as absent.\<close>

definition present :: "string option \<Rightarrow> string option" where
  "present v = (case v of Some x \<Rightarrow> if x = '''' then None else Some x | None \<Rightarrow> None)"

definition stable_version :: "snapshot \<Rightarrow> string \<Rightarrow> digest option" where
  "stable_version snap name = present (map_of (stable snap) name)"

definition get_version :: "snapshot \<Rightarrow> string \<Rightarrow> digest \<Rightarrow> stored_version option" where
  "get_version snap name v = map_of (dict_get_or [] (versions snap) name) v"

definition names :: "snapshot \<Rightarrow> string list" where
  "names snap = sort (dict_keys (versions snap))"

record pin =
  pin_scope :: scope
  pin_component :: string
  pin_version :: digest

definition select_version :: "snapshot \<Rightarrow> ref \<Rightarrow> scope \<Rightarrow> (scope, pin) dict option \<Rightarrow> stored_version option" where
  "select_version snap r s lock =
     (case lock of
        Some pins \<Rightarrow>
          (case map_of pins s of
             None \<Rightarrow> None
           | Some p \<Rightarrow> if pin_component p \<noteq> component r then None
                       else get_version snap (pin_component p) (pin_version p))
      | None \<Rightarrow>
          (case version r of
             Some v \<Rightarrow> map_of (dict_get_or [] (versions snap) (component r)) v
           | None \<Rightarrow>
               (case stable_version snap (component r) of
                  None \<Rightarrow> None
                | Some v \<Rightarrow> get_version snap (component r) v)))"

section \<open>The store\<close>

record store =
  st_versions :: "(string, (digest, stored_version) dict) dict"
  st_order :: "(string, digest list) dict"
  st_version_seq :: "(string \<times> digest, nat) dict"
  st_promotions :: "(nat \<times> promotion_record) list"
  st_registration_seq :: nat
  st_promotion_seq :: nat

definition empty_store :: store where
  "empty_store = \<lparr>st_versions = [], st_order = [], st_version_seq = [], st_promotions = [],
     st_registration_seq = 0, st_promotion_seq = 0\<rparr>"

datatype registry_error =
    KeyError
  | FutureRevision revision revision
  | EndpointsOutsideCut string
  | DiscontinuousHistory string
  | ContradictoryDefinition string digest
  | UnsupportedChannel string
  | ContradictoryReceipt string
  | StableMoved string "digest option" "digest option"
  | TargetNotRetained
  | CompositeWithImpl
  | CompositeWithRequirements
  | SchemaFaults "(string \<times> string) list"
  | BoundaryMismatch
  | MainModule
  | NotImportable
  | ImplMismatch
  | LocalClosure
  | ContractHashMismatch
  | DuplicateAliases "string list"
  | EmptyRequirement
  | SourceUnavailable
  | SourceDigestRequired
  | ImplementationDrift
  | AtomicFaults "registry_error list"
  | MultipleIdentities "digest list"
  | HashCollision
  | RowDisappeared
  | RowNotProduced

definition current_revision :: "store \<Rightarrow> revision" where
  "current_revision s = \<lparr>registration_seq = st_registration_seq s, promotion_seq = st_promotion_seq s\<rparr>"

type_synonym cut = "(string, (digest, stored_version) dict) dict \<times> (string, digest list) dict"

definition cut_version :: "store \<Rightarrow> nat \<Rightarrow> string \<times> digest \<Rightarrow> cut \<Rightarrow> registry_error + cut" where
  "cut_version s r nk c =
     (case map_of (st_version_seq s) nk of
        None \<Rightarrow> Inl KeyError
      | Some n \<Rightarrow>
          if n > r then Inr c
          else (case map_of (dict_get_or [] (st_versions s) (fst nk)) (snd nk) of
                  None \<Rightarrow> Inl KeyError
                | Some v \<Rightarrow>
                    Inr (dict_set (fst nk) (dict_set (snd nk) v (dict_get_or [] (fst c) (fst nk))) (fst c),
                         dict_append (fst nk) (snd nk) (snd c))))"

definition registrations :: "store \<Rightarrow> (string \<times> digest) list" where
  "registrations s = concat (map (\<lambda>(name, hashes). map (Pair name) hashes) (st_order s))"

type_synonym pointers = "(string, digest) dict \<times> (string, (digest option \<times> digest) list) dict"

definition cut_promotion ::
  "(string, (digest, stored_version) dict) dict \<Rightarrow> nat \<Rightarrow> nat \<times> promotion_record \<Rightarrow> pointers \<Rightarrow> registry_error + pointers" where
  "cut_promotion vs p sr c =
     (let r = snd sr; name = prom_component r; retained = dict_get_or [] vs name;
          prior = present (from_version r); target = to_version r
      in if fst sr > p \<or> prom_channel r \<noteq> ''stable'' then Inr c
         else if map_of retained target = None \<or> (case prior of None \<Rightarrow> False | Some b \<Rightarrow> map_of retained b = None)
         then Inl (EndpointsOutsideCut name)
         else if map_of (fst c) name \<noteq> prior then Inl (DiscontinuousHistory name)
         else Inr (dict_set name target (fst c), dict_append name (prior, target) (snd c)))"

definition store_snapshot :: "store \<Rightarrow> revision option \<Rightarrow> registry_error + snapshot" where
  "store_snapshot s at =
     (let cur = current_revision s; sel = (case at of None \<Rightarrow> cur | Some r \<Rightarrow> r) in
      if registration_seq sel > registration_seq cur \<or> promotion_seq sel > promotion_seq cur
      then Inl (FutureRevision sel cur)
      else rbind (rfold (cut_version s (registration_seq sel)) (registrations s) ([], [])) (\<lambda>(vs, ord).
           rbind (rfold (cut_promotion vs (promotion_seq sel)) (st_promotions s) ([], [])) (\<lambda>(stb, hist).
           Inr \<lparr>snap_revision = sel, versions = vs, order = ord, stable = stb, history = hist\<rparr>)))"

definition store_version :: "store \<Rightarrow> stored_version \<Rightarrow> registry_error + store" where
  "store_version s v =
     (let name = comp_name (definition_of v); key = stored_hash v in
      case map_of (dict_get_or [] (st_versions s) name) key of
        Some existing \<Rightarrow>
          if same_definition (definition_of existing) (definition_of v) then Inr s
          else Inl (ContradictoryDefinition name key)
      | None \<Rightarrow>
          let seq = st_registration_seq s + 1 in
          Inr (s\<lparr>st_registration_seq := seq,
                 st_versions := dict_set name (dict_set key v (dict_get_or [] (st_versions s) name)) (st_versions s),
                 st_order := dict_append name key (st_order s),
                 st_version_seq := dict_set (name, key) seq (st_version_seq s)\<rparr>))"

text \<open>The first receipt of an attestation, and the pointer left by the last stable promotion.\<close>

definition promotion_for_attestation :: "store \<Rightarrow> string \<Rightarrow> promotion_record option" where
  "promotion_for_attestation s a = find (\<lambda>r. attestation_id r = a) (map snd (st_promotions s))"

definition current_pointer :: "store \<Rightarrow> string \<Rightarrow> digest option" where
  "current_pointer s name =
     fold (\<lambda>(_, r) cur. if prom_component r = name \<and> prom_channel r = ''stable'' then Some (to_version r) else cur)
          (st_promotions s) None"

definition store_promotion :: "store \<Rightarrow> promotion_record \<Rightarrow> registry_error + (store \<times> promotion_record)" where
  "store_promotion s r =
     (if prom_channel r \<noteq> ''stable'' then Inl (UnsupportedChannel (prom_channel r))
      else case promotion_for_attestation s (attestation_id r) of
        Some prior \<Rightarrow>
          if same_identity_as prior r then Inr (s, prior) else Inl (ContradictoryReceipt (attestation_id r))
      | None \<Rightarrow>
          let cur = current_pointer s (prom_component r); expected = present (from_version r) in
          if cur \<noteq> expected then Inl (StableMoved (prom_component r) expected cur)
          else if map_of (dict_get_or [] (st_versions s) (prom_component r)) (to_version r) = None
          then Inl TargetNotRetained
          else let seq = st_promotion_seq s + 1 in
               Inr (s\<lparr>st_promotion_seq := seq, st_promotions := st_promotions s @ [(seq, r)]\<rparr>, r))"


section \<open>Registration\<close>

text \<open>
  \<^verbatim>\<open>ComponentRegistry.plan_registration\<close> and \<^verbatim>\<open>apply_registration\<close>. Importing a module and reading a
  function's source are facts of the host: \<open>load\<close> gives the callable found at a module and qualified
  name, \<open>source_of\<close> the digest of its source, and both are parameters.
\<close>

datatype row_origin = Existing | CanonicalNew

record planned_registration =
  planned_stored :: stored_version
  planned_origin :: row_origin

definition contains :: "'a list \<Rightarrow> 'a list \<Rightarrow> bool" where
  "contains needle xs = list_ex (\<lambda>i. take (length needle) (drop i xs) = needle) [0..<Suc (length xs)]"

definition atomic_identity_faults ::
  "(nat list \<Rightarrow> string) \<Rightarrow> ('impl \<Rightarrow> digest option) \<Rightarrow> component_def \<Rightarrow> python_ref \<Rightarrow> 'impl \<Rightarrow> registry_error list" where
  "atomic_identity_faults sha source_of d body impl =
     opt (contains ''<locals>'' (qualname body)) LocalClosure
     @ opt (contract_hash body \<noteq> contract_digest sha d) ContractHashMismatch
     @ (let fs = embedded_schema_faults sha d in map (\<lambda>f. SchemaFaults [f]) fs)
     @ (case requirements d of None \<Rightarrow> []
        | Some rs \<Rightarrow>
            (let aliases = map req_alias rs; dups = sorted_set (filter (\<lambda>a. count_list aliases a > 1) aliases)
             in opt (dups \<noteq> []) (DuplicateAliases dups))
            @ concat (map (\<lambda>r. opt (req_alias r = '''' \<or> req_kind r = '''') EmptyRequirement) rs))
     @ (case source_of impl of
          None \<Rightarrow> [SourceUnavailable]
        | Some observed \<Rightarrow>
            (case source_digest body of
               None \<Rightarrow> [SourceDigestRequired]
             | Some declared \<Rightarrow> opt (declared \<noteq> observed) ImplementationDrift))"

definition definition_faults ::
  "(nat list \<Rightarrow> string) \<Rightarrow> (string \<Rightarrow> string \<Rightarrow> 'impl option) \<Rightarrow> ('impl \<Rightarrow> digest option)
     \<Rightarrow> component_def \<Rightarrow> 'impl option \<Rightarrow> registry_error + unit" where
  "definition_faults sha load source_of d impl =
     (case comp_body d of
        Composite g \<Rightarrow>
          if impl \<noteq> None then Inl CompositeWithImpl
          else if requirements d \<noteq> None then Inl CompositeWithRequirements
          else if embedded_schema_faults sha d \<noteq> [] then Inl (SchemaFaults (embedded_schema_faults sha d))
          else if \<not> same_boundary (comp_inputs d) (inputs g) \<or> \<not> same_boundary (comp_outputs d) (outputs g)
          then Inl BoundaryMismatch
          else Inr ()
      | Atomic body \<Rightarrow>
          if py_module body = ''__main__'' then Inl MainModule
          else case load (py_module body) (qualname body) of
            None \<Rightarrow> Inl NotImportable
          | Some loaded \<Rightarrow>
              if impl \<noteq> None \<and> impl \<noteq> Some loaded then Inl ImplMismatch
              else let fs = atomic_identity_faults sha source_of d body loaded in
                   if fs \<noteq> [] then Inl (AtomicFaults fs) else Inr ())"

definition plan_row :: "(nat list \<Rightarrow> string) \<Rightarrow> snapshot \<Rightarrow> component_def \<Rightarrow> nat \<Rightarrow> registry_error + planned_registration" where
  "plan_row sha snap d now =
     (let matches = filter (\<lambda>v. same_definition (definition_of v) d) (dict_values (dict_get_or [] (versions snap) (comp_name d)));
          identities = sorted_set (map stored_hash matches)
      in if length identities > 1 then Inl (MultipleIdentities identities)
         else case matches of
           v # _ \<Rightarrow> Inr \<lparr>planned_stored = v, planned_origin = Existing\<rparr>
         | [] \<Rightarrow>
             (let content = content_hash sha d in
              case get_version snap (comp_name d) content of
                Some v \<Rightarrow>
                  if \<not> same_definition (definition_of v) d then Inl HashCollision
                  else Inr \<lparr>planned_stored = \<lparr>definition_of = d, stored_hash = content, registered_at = now\<rparr>, planned_origin = CanonicalNew\<rparr>
              | None \<Rightarrow> Inr \<lparr>planned_stored = \<lparr>definition_of = d, stored_hash = content, registered_at = now\<rparr>, planned_origin = CanonicalNew\<rparr>))"

definition plan_registration ::
  "(nat list \<Rightarrow> string) \<Rightarrow> (string \<Rightarrow> string \<Rightarrow> 'impl option) \<Rightarrow> ('impl \<Rightarrow> digest option)
     \<Rightarrow> store \<Rightarrow> component_def \<Rightarrow> 'impl option \<Rightarrow> nat \<Rightarrow> registry_error + planned_registration" where
  "plan_registration sha load source_of s d impl now =
     rbind (definition_faults sha load source_of d impl) (\<lambda>_.
     rbind (store_snapshot s None) (\<lambda>snap. plan_row sha snap d now))"

definition apply_registration :: "store \<Rightarrow> planned_registration \<Rightarrow> registry_error + (store \<times> stored_version)" where
  "apply_registration s plan =
     (let v = planned_stored plan; name = comp_name (definition_of v) in
      rbind (store_snapshot s None) (\<lambda>snap.
        case get_version snap name (stored_hash v) of
          Some existing \<Rightarrow>
            if \<not> same_definition (definition_of existing) (definition_of v)
            then Inl (ContradictoryDefinition name (stored_hash v))
            else Inr (s, existing)
        | None \<Rightarrow>
            if planned_origin plan = Existing then Inl RowDisappeared
            else rbind (store_version s v) (\<lambda>s'.
                 rbind (store_snapshot s' None) (\<lambda>snap'.
                   case get_version snap' name (stored_hash v) of
                     None \<Rightarrow> Inl RowNotProduced
                   | Some stored \<Rightarrow>
                       if \<not> same_definition (definition_of stored) (definition_of v) then Inl RowNotProduced
                       else Inr (s', stored)))))"

definition register :: 
  "(nat list \<Rightarrow> string) \<Rightarrow> (string \<Rightarrow> string \<Rightarrow> 'impl option) \<Rightarrow> ('impl \<Rightarrow> digest option)
     \<Rightarrow> store \<Rightarrow> component_def \<Rightarrow> 'impl option \<Rightarrow> nat \<Rightarrow> registry_error + (store \<times> digest)" where
  "register sha load source_of s d impl now =
     rbind (plan_registration sha load source_of s d impl now) (\<lambda>plan.
       if planned_origin plan = CanonicalNew
       then rbind (store_version s (planned_stored plan)) (\<lambda>s'. Inr (s', stored_hash (planned_stored plan)))
       else Inr (s, stored_hash (planned_stored plan)))"

definition candidates :: "snapshot \<Rightarrow> string \<Rightarrow> digest list" where
  "candidates snap name = filter (\<lambda>v. map_of (stable snap) name \<noteq> Some v) (dict_get_or [] (order snap) name)"

section \<open>Laws of the store\<close>

subsection \<open>Retained cuts never change\<close>

text \<open>One accepted write.\<close>

inductive store_step :: "store \<Rightarrow> store \<Rightarrow> bool" where
  Register: "store_version s v = Inr s' \<Longrightarrow> store_step s s'"
| Promote: "store_promotion s r = Inr (s', r') \<Longrightarrow> store_step s s'"

inductive store_steps :: "store \<Rightarrow> store \<Rightarrow> bool" where
  Refl: "store_steps s s"
| Step: "store_steps s t \<Longrightarrow> store_step t u \<Longrightarrow> store_steps s u"

inductive_cases store_stepE: "store_step s s'"

definition cut_of :: "revision \<Rightarrow> revision \<Rightarrow> bool" where
  "cut_of r q \<longleftrightarrow> registration_seq r \<le> registration_seq q \<and> promotion_seq r \<le> promotion_seq q"

lemma store_version_cases:
  assumes "store_version s v = Inr s'"
  obtains (same) "s' = s" "\<exists>e. map_of (dict_get_or [] (st_versions s) (comp_name (definition_of v))) (stored_hash v) = Some e
        \<and> same_definition (definition_of e) (definition_of v)"
  | (new) name key where "name = comp_name (definition_of v)" "key = stored_hash v"
      "map_of (dict_get_or [] (st_versions s) name) key = None"
      "s' = s\<lparr>st_registration_seq := st_registration_seq s + 1,
              st_versions := dict_set name (dict_set key v (dict_get_or [] (st_versions s) name)) (st_versions s),
              st_order := dict_append name key (st_order s),
              st_version_seq := dict_set (name, key) (st_registration_seq s + 1) (st_version_seq s)\<rparr>"
  using assms unfolding store_version_def Let_def
  by (auto split: option.splits if_splits)

lemma store_promotion_cases:
  assumes "store_promotion s r = Inr (s', r')"
  obtains (retry) "s' = s" "promotion_for_attestation s (attestation_id r) = Some r'" "same_identity_as r' r"
  | (move) "r' = r" "prom_channel r = ''stable''" "promotion_for_attestation s (attestation_id r) = None"
      "current_pointer s (prom_component r) = present (from_version r)"
      "map_of (dict_get_or [] (st_versions s) (prom_component r)) (to_version r) \<noteq> None"
      "s' = s\<lparr>st_promotion_seq := st_promotion_seq s + 1, st_promotions := st_promotions s @ [(st_promotion_seq s + 1, r)]\<rparr>"
  using assms unfolding store_promotion_def Let_def
  by (auto split: option.splits if_splits)

definition flat :: "(string, digest list) dict \<Rightarrow> (string \<times> digest) list" where
  "flat d = concat (map (\<lambda>(name, hashes). map (Pair name) hashes) d)"

lemma flat_simps [simp]: "flat [] = []" "flat ((n, hs) # d) = map (Pair n) hs @ flat d"
  by (simp_all add: flat_def)

lemma registrations_flat: "registrations s = flat (st_order s)"
  by (simp add: registrations_def flat_def)

lemma set_flat_append: "set (flat (dict_append n k d)) = insert (n, k) (set (flat d))"
  unfolding dict_append_def by (induction d) (auto simp: dict_get_or_simps)

lemma filter_other: "y \<notin> set xs \<Longrightarrow> filter (\<lambda>x. x \<noteq> y) xs = xs"
  by (induction xs) auto

lemma filter_flat_append:
  "(n, k) \<notin> set (flat d) \<Longrightarrow> filter (\<lambda>x. x \<noteq> (n, k)) (flat (dict_append n k d)) = flat d"
  unfolding dict_append_def
  by (induction d) (auto simp: dict_get_or_simps filter_other)

lemma distinct_flat_append:
  "distinct (flat d) \<Longrightarrow> (n, k) \<notin> set (flat d) \<Longrightarrow> distinct (flat (dict_append n k d))"
proof (induction d)
  case (Cons x d)
  obtain m hs where x: "x = (m, hs)" by (cases x)
  have a: "dict_append n k (x # d) = (if m = n then (n, hs @ [k]) # d else x # dict_append n k d)"
    by (simp add: dict_append_def x dict_get_or_simps)
  show ?case unfolding a
    using Cons set_flat_append [of n k d] by (auto simp: x)
qed (simp add: dict_append_def dict_get_or_def)

lemma cut_skip:
  assumes "\<And>c. cut_version s r nk c = Inr c"
  shows "rfold (cut_version s r) xs c = rfold (cut_version s r) (filter (\<lambda>x. x \<noteq> nk) xs) c"
  by (induction xs arbitrary: c) (auto simp: assms rbind_def split: sum.splits)

text \<open>Every retained version has a row, a sequence number and a place in the registration order.\<close>

definition row_ok :: "store \<Rightarrow> string \<Rightarrow> digest \<Rightarrow> bool" where
  "row_ok s n k \<longleftrightarrow>
     (if (n, k) \<in> set (registrations s) then
        (case (map_of (dict_get_or [] (st_versions s) n) k, map_of (st_version_seq s) (n, k)) of
           (Some v, Some q) \<Rightarrow> comp_name (definition_of v) = n \<and> stored_hash v = k \<and> q \<le> st_registration_seq s
         | _ \<Rightarrow> False)
      else map_of (dict_get_or [] (st_versions s) n) k = None)"

definition rows_ok :: "store \<Rightarrow> bool" where
  "rows_ok s \<longleftrightarrow> distinct (registrations s) \<and> (\<forall>n k. row_ok s n k)"

lemma rows_ok_empty: "rows_ok empty_store"
  by (simp add: rows_ok_def row_ok_def empty_store_def registrations_def dict_get_or_def)

lemma row_registered:
  "rows_ok s \<Longrightarrow> (n, k) \<in> set (registrations s) \<longleftrightarrow> map_of (dict_get_or [] (st_versions s) n) k \<noteq> None"
  unfolding rows_ok_def row_ok_def by (metis (no_types, lifting) option.exhaust option.simps(4) prod.case)

lemma row_contents:
  assumes "rows_ok s" "map_of (dict_get_or [] (st_versions s) n) k = Some v"
  shows "comp_name (definition_of v) = n \<and> stored_hash v = k
    \<and> (\<exists>q. map_of (st_version_seq s) (n, k) = Some q \<and> q \<le> st_registration_seq s)"
proof -
  have "(n, k) \<in> set (registrations s)" "row_ok s n k"
    using assms row_registered by (auto simp: rows_ok_def)
  then show ?thesis using assms(2) by (simp add: row_ok_def split: option.splits)
qed

lemma rows_ok_step: "rows_ok s \<Longrightarrow> store_step s s' \<Longrightarrow> rows_ok s'"
proof -
  assume ok: "rows_ok s"
  have reg: "rows_ok s'" if v: "store_version s v = Inr s'" for v
    using v
  proof (cases rule: store_version_cases)
    case (new name key)
    have nk: "(name, key) \<notin> set (registrations s)" using row_registered ok new(3) by fastforce
    have regs: "set (registrations s') = insert (name, key) (set (registrations s))" "distinct (registrations s')"
      using ok nk by (simp_all add: registrations_flat new(4) set_flat_append distinct_flat_append rows_ok_def)
    have vers: "map_of (dict_get_or [] (st_versions s') n) k
        = (if n = name \<and> k = key then Some v else map_of (dict_get_or [] (st_versions s) n) k)" for n k
      by (simp add: new(4) dict_get_or_update)
    have seqs: "map_of (st_version_seq s') nk = (if nk = (name, key) then Some (st_registration_seq s + 1) else map_of (st_version_seq s) nk)" for nk
      by (simp add: new(4))
    have reg: "st_registration_seq s' = st_registration_seq s + 1" by (simp add: new(4))
    have "row_ok s' n k" for n k
    proof (cases "(n, k) = (name, key)")
      case False
      have "row_ok s n k" using ok by (simp add: rows_ok_def)
      then show ?thesis using False by (auto simp: row_ok_def regs(1) vers seqs reg split: option.splits)
    qed (simp add: row_ok_def regs(1) vers seqs reg new(1,2))
    then show ?thesis using regs(2) by (simp add: rows_ok_def)
  qed (use ok in simp)
  have prom: "rows_ok s'" if "store_promotion s r = Inr (s', r')" for r r'
    using that
  proof (cases rule: store_promotion_cases)
    case move
    have "st_versions s' = st_versions s" "st_version_seq s' = st_version_seq s" "st_order s' = st_order s"
      "st_registration_seq s' = st_registration_seq s" by (simp_all add: move(6))
    then have "rows_ok s' = rows_ok s" by (simp only: rows_ok_def row_ok_def registrations_def)
    then show ?thesis using ok by simp
  qed (use ok in simp)
  show "store_step s s' \<Longrightarrow> rows_ok s'" by (erule store_stepE) (use reg prom in auto)
qed

lemma snapshot_stable_register:
  assumes "rows_ok s" "store_version s v = Inr s'" "cut_of q (current_revision s)"
  shows "store_snapshot s' (Some q) = store_snapshot s (Some q) \<and> cut_of q (current_revision s')"
  using assms(2)
proof (cases rule: store_version_cases)
  case (new name key)
  have nk: "(name, key) \<notin> set (registrations s)" using row_registered assms(1) new(3) by fastforce
  let ?r = "registration_seq q"
  have "cut_version s' ?r (name, key) c = Inr c" for c
    using assms(3) by (simp add: cut_version_def new(4) cut_of_def current_revision_def)
  then have "rfold (cut_version s' ?r) (registrations s') c = rfold (cut_version s' ?r) (registrations s) c" for c
    using nk by (subst cut_skip [of s' ?r "(name, key)"]) (simp_all add: registrations_flat new(4) filter_flat_append)
  moreover have look: "map_of (st_version_seq s') x = map_of (st_version_seq s) x"
      "map_of (dict_get_or [] (st_versions s') (fst x)) (snd x) = map_of (dict_get_or [] (st_versions s) (fst x)) (snd x)"
    if "x \<in> set (registrations s)" for x
    using that nk by (auto simp: new(4) dict_get_or_update prod_eq_iff)
  have "rfold (cut_version s' ?r) (registrations s) c = rfold (cut_version s ?r) (registrations s) c" for c
    by (intro rfold_cong) (simp_all only: cut_version_def look)
  moreover have "st_promotions s' = st_promotions s" "st_registration_seq s' = st_registration_seq s + 1"
      "st_promotion_seq s' = st_promotion_seq s"
    by (simp_all add: new(4))
  ultimately show ?thesis
    using assms(3) by (simp add: store_snapshot_def current_revision_def cut_of_def)
qed (use assms(3) in simp)

lemma snapshot_stable_promote:
  assumes "store_promotion s r = Inr (s', r')" "cut_of q (current_revision s)"
  shows "store_snapshot s' (Some q) = store_snapshot s (Some q) \<and> cut_of q (current_revision s')"
  using assms(1)
proof (cases rule: store_promotion_cases)
  case move
  have "rfold (cut_promotion vs (promotion_seq q)) (st_promotions s') c = rfold (cut_promotion vs (promotion_seq q)) (st_promotions s) c" for vs c
    using assms(2) by (simp add: move(6) rfold_append cut_promotion_def Let_def cut_of_def current_revision_def rbind_def split: sum.splits)
  moreover have "st_versions s' = st_versions s" "st_version_seq s' = st_version_seq s" by (simp_all add: move(6))
  then have "cut_version s' = cut_version s" by (intro ext) (simp only: cut_version_def)
  moreover have "registrations s' = registrations s" by (simp add: move(6) registrations_def)
  ultimately show ?thesis
    using assms(2) by (simp add: store_snapshot_def current_revision_def cut_of_def move(6))
qed (use assms(2) in simp)

lemma snapshot_stable_step:
  assumes "rows_ok s" "store_step s s'" "cut_of q (current_revision s)"
  shows "store_snapshot s' (Some q) = store_snapshot s (Some q) \<and> cut_of q (current_revision s')"
  using assms(2) snapshot_stable_register [OF assms(1) _ assms(3)] snapshot_stable_promote [OF _ assms(3)]
  by (auto elim: store_stepE)

lemma rows_ok_steps: "store_steps s t \<Longrightarrow> rows_ok s \<Longrightarrow> rows_ok t"
  by (induction rule: store_steps.induct) (auto intro: rows_ok_step)

lemma snapshot_stable_steps:
  assumes "store_steps s t" "rows_ok s" "cut_of q (current_revision s)"
  shows "store_snapshot t (Some q) = store_snapshot s (Some q) \<and> cut_of q (current_revision t)"
  using assms
proof (induction rule: store_steps.induct)
  case (Step s t u)
  then show ?case using snapshot_stable_step rows_ok_steps by metis
qed simp

subsection \<open>The current snapshot always exists\<close>

definition pointer :: "(nat \<times> promotion_record) list \<Rightarrow> string \<Rightarrow> digest option" where
  "pointer ps name =
     fold (\<lambda>(_, r) cur. if prom_component r = name \<and> prom_channel r = ''stable'' then Some (to_version r) else cur) ps None"

lemma pointer_simps [simp]:
  "pointer [] name = None"
  "pointer (ps @ [(q, r)]) name
     = (if prom_component r = name \<and> prom_channel r = ''stable'' then Some (to_version r) else pointer ps name)"
  by (simp_all add: pointer_def)

lemma current_pointer_pointer: "current_pointer s name = pointer (st_promotions s) name"
  by (simp add: current_pointer_def pointer_def)

text \<open>Every move starts where the previous one ended, at a retained target, under its own attestation.\<close>

fun moves_back :: "store \<Rightarrow> (nat \<times> promotion_record) list \<Rightarrow> bool" where
  "moves_back s [] = True"
| "moves_back s ((q, r) # ps) =
     (moves_back s ps \<and> prom_channel r = ''stable'' \<and> q \<le> st_promotion_seq s
      \<and> pointer (rev ps) (prom_component r) = present (from_version r)
      \<and> map_of (dict_get_or [] (st_versions s) (prom_component r)) (to_version r) \<noteq> None)"

definition moves_ok :: "store \<Rightarrow> (nat \<times> promotion_record) list \<Rightarrow> bool" where
  "moves_ok s ps = moves_back s (rev ps)"

definition store_ok :: "store \<Rightarrow> bool" where
  "store_ok s \<longleftrightarrow> rows_ok s \<and> moves_ok s (st_promotions s) \<and> distinct (map (\<lambda>(_, r). attestation_id r) (st_promotions s))"

lemma moves_ok_snoc:
  "moves_ok s (ps @ [(q, r)]) \<longleftrightarrow> moves_ok s ps \<and> prom_channel r = ''stable'' \<and> q \<le> st_promotion_seq s
     \<and> pointer ps (prom_component r) = present (from_version r)
     \<and> map_of (dict_get_or [] (st_versions s) (prom_component r)) (to_version r) \<noteq> None"
  by (simp add: moves_ok_def)

lemma moves_ok_mono:
  assumes "moves_ok s ps" "st_promotion_seq s \<le> st_promotion_seq s'"
    and "\<And>n k. map_of (dict_get_or [] (st_versions s) n) k \<noteq> None \<Longrightarrow> map_of (dict_get_or [] (st_versions s') n) k \<noteq> None"
  shows "moves_ok s' ps"
  using assms(1)
proof (induction ps rule: rev_induct)
  case (snoc x ps)
  obtain q r where x: "x = (q, r)" by (cases x)
  then show ?case using snoc assms(2) assms(3) [of "prom_component r" "to_version r"] by (simp add: moves_ok_snoc del: not_None_eq)
qed (simp add: moves_ok_def)

lemma find_None_ids: "promotion_for_attestation s a = None \<longleftrightarrow> a \<notin> (\<lambda>(_, r). attestation_id r) ` set (st_promotions s)"
  unfolding promotion_for_attestation_def find_None_iff by force

lemma store_ok_empty: "store_ok empty_store"
  by (simp add: store_ok_def rows_ok_empty moves_ok_def empty_store_def [THEN arg_cong [of _ _ st_promotions]])

lemma store_ok_step: "store_ok s \<Longrightarrow> store_step s s' \<Longrightarrow> store_ok s'"
proof -
  assume ok: "store_ok s"
  have reg: "moves_ok s' (st_promotions s')" "st_promotions s' = st_promotions s" if v: "store_version s v = Inr s'" for v
    using v
    by (cases rule: store_version_cases; use ok in \<open>auto simp: store_ok_def dict_get_or_update elim!: moves_ok_mono split: if_splits\<close>)+
  have prom: "moves_ok s' (st_promotions s') \<and> distinct (map (\<lambda>(_, r). attestation_id r) (st_promotions s'))"
    if "store_promotion s r = Inr (s', r')" for r r'
    using that
  proof (cases rule: store_promotion_cases)
    case move
    have f: "st_versions s' = st_versions s" "st_promotion_seq s' = st_promotion_seq s + 1"
      "st_promotions s' = st_promotions s @ [(st_promotion_seq s + 1, r)]" by (simp_all add: move(6))
    have "moves_ok s' (st_promotions s)" using ok f by (auto simp: store_ok_def intro: moves_ok_mono)
    then show ?thesis
      using ok move(2-5) by (auto simp: f moves_ok_snoc store_ok_def find_None_ids current_pointer_pointer)
  qed (use ok in \<open>simp add: store_ok_def\<close>)
  assume step: "store_step s s'"
  then have "rows_ok s'" using rows_ok_step ok by (auto simp: store_ok_def)
  moreover have "moves_ok s' (st_promotions s') \<and> distinct (map (\<lambda>(_, r). attestation_id r) (st_promotions s'))"
    using step reg prom ok by (auto elim!: store_stepE simp: store_ok_def)
  ultimately show "store_ok s'" by (simp add: store_ok_def)
qed

lemma store_ok_steps: "store_steps s t \<Longrightarrow> store_ok s \<Longrightarrow> store_ok t"
  by (induction rule: store_steps.induct) (auto intro: store_ok_step)

definition cut_covers :: "store \<Rightarrow> (string \<times> digest) set \<Rightarrow> cut \<Rightarrow> bool" where
  "cut_covers s xs c \<longleftrightarrow> (\<forall>n k. map_of (dict_get_or [] (fst c) n) k
     = (if (n, k) \<in> xs then map_of (dict_get_or [] (st_versions s) n) k else None))"

lemma cut_versions_total:
  assumes "rows_ok s" "set xs \<subseteq> set (registrations s)" "cut_covers s ys c"
  shows "\<exists>c'. rfold (cut_version s (st_registration_seq s)) xs c = Inr c' \<and> cut_covers s (set xs \<union> ys) c'"
  using assms(2,3)
proof (induction xs arbitrary: c ys)
  case (Cons x xs)
  obtain n k where x: "x = (n, k)" by (cases x)
  obtain v where v: "map_of (dict_get_or [] (st_versions s) n) k = Some v"
    using Cons.prems(1) row_registered [OF assms(1)] by (auto simp: x)
  obtain q where "map_of (st_version_seq s) (n, k) = Some q" "q \<le> st_registration_seq s"
    using row_contents [OF assms(1) v] by blast
  then obtain c1 where c1: "cut_version s (st_registration_seq s) x c = Inr c1"
      "fst c1 = dict_set n (dict_set k v (dict_get_or [] (fst c) n)) (fst c)"
    by (simp add: cut_version_def x v)
  have "cut_covers s (insert x ys) c1"
    using Cons.prems(2) v by (simp add: cut_covers_def c1(2) dict_get_or_update x)
  then show ?case using Cons.IH [of "insert x ys" c1] Cons.prems(1) c1(1) by simp
qed simp

lemma pointer_target: "moves_ok s ps \<Longrightarrow> pointer ps n = Some b \<Longrightarrow> map_of (dict_get_or [] (st_versions s) n) b \<noteq> None"
proof (induction ps rule: rev_induct)
  case (snoc x ps)
  then show ?case by (cases x) (auto simp: moves_ok_snoc split: if_splits)
qed simp

lemma cut_promotions_total:
  assumes "moves_ok s ps" "\<And>n. map_of (dict_get_or [] vs n) = map_of (dict_get_or [] (st_versions s) n)"
  shows "\<exists>c. rfold (cut_promotion vs (st_promotion_seq s)) ps ([], []) = Inr c \<and> (\<forall>n. map_of (fst c) n = pointer ps n)"
  using assms(1)
proof (induction ps rule: rev_induct)
  case (snoc x ps)
  obtain q r where x: "x = (q, r)" by (cases x)
  have m: "moves_ok s ps" "prom_channel r = ''stable''" "q \<le> st_promotion_seq s"
      "pointer ps (prom_component r) = present (from_version r)"
      "map_of (dict_get_or [] (st_versions s) (prom_component r)) (to_version r) \<noteq> None"
    using snoc.prems by (auto simp: x moves_ok_snoc)
  obtain c where c: "rfold (cut_promotion vs (st_promotion_seq s)) ps ([], []) = Inr c" "\<And>n. map_of (fst c) n = pointer ps n"
    using snoc.IH [OF m(1)] by blast
  have "case present (from_version r) of None \<Rightarrow> True | Some b \<Rightarrow> map_of (dict_get_or [] vs (prom_component r)) b \<noteq> None"
    using pointer_target [OF m(1)] m(4) by (auto simp: assms(2) split: option.splits)
  then have "cut_promotion vs (st_promotion_seq s) x c
      = Inr (dict_set (prom_component r) (to_version r) (fst c), dict_append (prom_component r) (present (from_version r), to_version r) (snd c))"
    using m(2-5) c(2) by (auto simp: cut_promotion_def x Let_def assms(2) split: option.splits)
  then show ?case using c m(2) by (auto simp: x rfold_append)
qed simp

lemma snapshot_total:
  assumes "store_ok s"
  shows "\<exists>snap. store_snapshot s None = Inr snap \<and> snap_revision snap = current_revision s
    \<and> (\<forall>n. map_of (stable snap) n = current_pointer s n)
    \<and> (\<forall>n k. get_version snap n k = map_of (dict_get_or [] (st_versions s) n) k)"
proof -
  have rows: "rows_ok s" and moves: "moves_ok s (st_promotions s)" using assms by (auto simp: store_ok_def)
  obtain vs ord where 1: "rfold (cut_version s (st_registration_seq s)) (registrations s) ([], []) = Inr (vs, ord)"
      "cut_covers s (set (registrations s) \<union> {}) (vs, ord)"
    using cut_versions_total [OF rows subset_refl, of "{}" "([], [])"] by (auto simp: cut_covers_def dict_get_or_def)
  have vs: "map_of (dict_get_or [] vs n) k = map_of (dict_get_or [] (st_versions s) n) k" for n k
    using 1(2) row_registered [OF rows, of n k] by (auto simp: cut_covers_def)
  then obtain stb hist where 2: "rfold (cut_promotion vs (st_promotion_seq s)) (st_promotions s) ([], []) = Inr (stb, hist)"
      "\<And>n. map_of stb n = pointer (st_promotions s) n"
    using cut_promotions_total [OF moves, of vs] by (auto simp: fun_eq_iff)
  have "store_snapshot s None = Inr \<lparr>snap_revision = current_revision s, versions = vs, order = ord, stable = stb, history = hist\<rparr>"
    by (simp add: store_snapshot_def current_revision_def 1 2)
  then show ?thesis using vs 2(2) by (simp add: get_version_def current_pointer_pointer)
qed

subsection \<open>The store protocol\<close>

text \<open>
  What \<^verbatim>\<open>RegistryStore\<close> promises: a current snapshot always exists, a write-once insert is visible in
  the next snapshot and removes nothing, and a compare-and-swap promotion moves exactly one pointer.
\<close>

locale registry_store =
  fixes inv :: "'s \<Rightarrow> bool"
    and snap_of :: "'s \<Rightarrow> 'e + snapshot"
    and put_version :: "'s \<Rightarrow> stored_version \<Rightarrow> 'e + 's"
    and put_promotion :: "'s \<Rightarrow> promotion_record \<Rightarrow> 'e + ('s \<times> promotion_record)"
  assumes snap_total: "inv s \<Longrightarrow> \<exists>snap. snap_of s = Inr snap"
    and put_version_inv: "inv s \<Longrightarrow> put_version s v = Inr s' \<Longrightarrow> inv s'"
    and put_version_visible: "inv s \<Longrightarrow> put_version s v = Inr s' \<Longrightarrow> snap_of s' = Inr snap' \<Longrightarrow>
      \<exists>w. get_version snap' (comp_name (definition_of v)) (stored_hash v) = Some w
        \<and> same_definition (definition_of w) (definition_of v)"
    and put_version_keeps: "inv s \<Longrightarrow> put_version s v = Inr s' \<Longrightarrow> snap_of s = Inr snap \<Longrightarrow> snap_of s' = Inr snap' \<Longrightarrow>
      get_version snap n k = Some w \<Longrightarrow> get_version snap' n k = Some w"
    and put_version_absent: "inv s \<Longrightarrow> snap_of s = Inr snap \<Longrightarrow>
      get_version snap (comp_name (definition_of v)) (stored_hash v) = None \<Longrightarrow> \<exists>s'. put_version s v = Inr s'"
    and put_promotion_inv: "inv s \<Longrightarrow> put_promotion s r = Inr (s', r') \<Longrightarrow> inv s'"
begin

text \<open>Inserting what is absent succeeds, and the row is there afterwards.\<close>

lemma insert_then_lookup:
  assumes "inv s" "snap_of s = Inr snap" "get_version snap (comp_name (definition_of v)) (stored_hash v) = None"
  shows "\<exists>s' snap' w. put_version s v = Inr s' \<and> inv s' \<and> snap_of s' = Inr snap'
    \<and> get_version snap' (comp_name (definition_of v)) (stored_hash v) = Some w
    \<and> same_definition (definition_of w) (definition_of v)"
proof -
  obtain s' where s': "put_version s v = Inr s'" using put_version_absent [OF assms] by blast
  then have i: "inv s'" using put_version_inv assms(1) by blast
  then obtain snap' where "snap_of s' = Inr snap'" using snap_total by blast
  then show ?thesis using s' i put_version_visible [OF assms(1) s'] by blast
qed

end

interpretation memory: registry_store store_ok "\<lambda>s. store_snapshot s None" store_version store_promotion
proof
  fix s s' snap snap' v n k w r r'
  show "store_ok s \<Longrightarrow> \<exists>snap. store_snapshot s None = Inr snap" using snapshot_total by blast
  show inv: "store_ok s \<Longrightarrow> store_version s v = Inr s' \<Longrightarrow> store_ok s'" using store_ok_step Register by blast
  show "store_ok s \<Longrightarrow> store_promotion s r = Inr (s', r') \<Longrightarrow> store_ok s'" using store_ok_step Promote by blast
  have look: "store_ok s \<Longrightarrow> store_snapshot s None = Inr snap \<Longrightarrow> get_version snap n k = map_of (dict_get_or [] (st_versions s) n) k" for s snap n k
    using snapshot_total [of s] by auto
  have refl: "same_definition d d" for d by (simp add: same_definition_def)
  show "\<exists>w. get_version snap' (comp_name (definition_of v)) (stored_hash v) = Some w \<and> same_definition (definition_of w) (definition_of v)"
    if "store_ok s" "store_version s v = Inr s'" "store_snapshot s' None = Inr snap'"
    using that(2) look [OF inv [OF that(1,2)] that(3)] refl
    by (cases rule: store_version_cases) (auto simp: dict_get_or_update)
  show "get_version snap' n k = Some w"
    if "store_ok s" "store_version s v = Inr s'" "store_snapshot s None = Inr snap" "store_snapshot s' None = Inr snap'" "get_version snap n k = Some w"
    using that(2,5) look [OF that(1,3), of n k] look [OF inv [OF that(1,2)] that(4), of n k]
    by (cases rule: store_version_cases) (auto simp: dict_get_or_update)
  show "\<exists>s'. store_version s v = Inr s'"
    if "store_ok s" "store_snapshot s None = Inr snap" "get_version snap (comp_name (definition_of v)) (stored_hash v) = None"
    using that(3) look [OF that(1,2)] by (simp add: store_version_def Let_def)
qed

subsection \<open>Properties\<close>

definition reachable :: "store \<Rightarrow> bool" where
  "reachable s = store_steps empty_store s"

lemma reachable_ok: "reachable s \<Longrightarrow> store_ok s"
  using store_ok_steps store_ok_empty by (simp add: reachable_def)

definition sample_version :: stored_version where
  "sample_version = \<lparr>definition_of = sample_atomic ''a'' [], stored_hash = ''h1'', registered_at = 0\<rparr>"

definition sample_promotion :: promotion_record where
  "sample_promotion = \<lparr>prom_component = ''a'', prom_channel = ''stable'', from_version = None, to_version = ''h1'',
     attestation_id = ''t1'', prom_actor = ''u:x'', source_run = None, prom_created_at = 0\<rparr>"

definition one_version :: store where
  "one_version = \<lparr>st_versions = [(''a'', [(''h1'', sample_version)])], st_order = [(''a'', [''h1''])],
     st_version_seq = [((''a'', ''h1''), 1)], st_promotions = [], st_registration_seq = 1, st_promotion_seq = 0\<rparr>"

definition one_promotion :: store where
  "one_promotion = one_version\<lparr>st_promotion_seq := 1, st_promotions := [(1, sample_promotion)]\<rparr>"

lemma one_version_step: "store_version empty_store sample_version = Inr one_version"
  by (simp add: store_version_def empty_store_def sample_version_def one_version_def sample_atomic_def dict_append_def dict_get_or_def Let_def)

lemma one_promotion_step: "store_promotion one_version sample_promotion = Inr (one_promotion, sample_promotion)"
  by (simp add: store_promotion_def one_promotion_def one_version_def sample_promotion_def promotion_for_attestation_def
      current_pointer_def present_def dict_get_or_def)

lemma one_promotion_reachable: "reachable one_version" "reachable one_promotion"
  unfolding reachable_def using one_version_step one_promotion_step store_steps.intros store_step.intros by metis+

text \<open>
  Every reachable store has a current snapshot: no sequence of accepted writes can leave the
  registry unreadable. The snapshot shows exactly the retained versions, and its stable pointers are
  the targets of the last promotions.
\<close>

theorem current_snapshot_exists:
  assumes "reachable s"
  shows "\<exists>snap. store_snapshot s None = Inr snap \<and> snap_revision snap = current_revision s
    \<and> map_of (stable snap) = current_pointer s
    \<and> (\<lambda>n k. get_version snap n k) = (\<lambda>n k. map_of (dict_get_or [] (st_versions s) n) k)"
  using snapshot_total [OF reachable_ok [OF assms]] by (metis ext)

theorem current_snapshot_exists_witness:
  "\<exists>snap. store_snapshot one_promotion None = Inr snap \<and> map_of (stable snap) ''a'' = Some ''h1''"
  using current_snapshot_exists [OF one_promotion_reachable(2)]
  by (auto simp: current_pointer_def one_promotion_def sample_promotion_def)

text \<open>
  C7. A retained cut never changes: whatever is registered or promoted later, the snapshot at the
  revision a store had is the snapshot it had. One admission sees one coherent world, and any later
  reader can reconstruct it.
\<close>

theorem retained_cut_is_immutable:
  assumes "reachable s" "store_steps s t"
  shows "store_snapshot t (Some (current_revision s)) = store_snapshot s None"
proof -
  have "store_snapshot s (Some (current_revision s)) = store_snapshot s None"
    by (simp add: store_snapshot_def)
  then show ?thesis
    using snapshot_stable_steps [OF assms(2), of "current_revision s"] reachable_ok [OF assms(1)]
    by (simp add: store_ok_def cut_of_def)
qed

theorem retained_cut_is_immutable_witness:
  "store_snapshot one_promotion (Some \<lparr>registration_seq = 1, promotion_seq = 0\<rparr>) = store_snapshot one_version None"
proof -
  have "store_steps one_version one_promotion"
    using one_promotion_step store_steps.intros store_step.intros by metis
  from retained_cut_is_immutable [OF one_promotion_reachable(1) this] show ?thesis
    by (simp add: current_revision_def one_version_def)
qed

text \<open>
  A promotion is a compare-and-swap: when it is accepted, either it is a retry of a recorded move
  (same component, endpoints, attestation and run) and nothing changes, or the stable pointer was where
  the promotion expected it, the target is retained, and only that component's pointer moves to it.
\<close>

theorem promotion_compare_and_swap:
  assumes "store_promotion s r = Inr (s', r')"
  shows "(s' = s \<and> same_identity_as r' r \<and> promotion_for_attestation s (attestation_id r) = Some r')
    \<or> (r' = r \<and> current_pointer s (prom_component r) = present (from_version r)
       \<and> map_of (dict_get_or [] (st_versions s) (prom_component r)) (to_version r) \<noteq> None
       \<and> current_pointer s' = (current_pointer s)(prom_component r := Some (to_version r)))"
  using assms
proof (cases rule: store_promotion_cases)
  case move
  then show ?thesis by (auto simp: current_pointer_pointer fun_eq_iff)
qed simp

theorem promotion_compare_and_swap_witness:
  "current_pointer one_promotion = (current_pointer one_version)(''a'' := Some ''h1'')"
  using promotion_compare_and_swap [OF one_promotion_step]
  by (auto simp: one_version_def one_promotion_def sample_promotion_def)

text \<open>
  One attestation authorizes one move: in a reachable store no two promotions carry the same
  attestation.
\<close>

theorem one_attestation_one_move:
  assumes "reachable s"
  shows "distinct (map (\<lambda>(_, r). attestation_id r) (st_promotions s))"
  using reachable_ok [OF assms] by (simp add: store_ok_def)

theorem one_attestation_one_move_witness:
  "distinct (map (\<lambda>(_, r). attestation_id r) (st_promotions one_promotion)) \<and> length (st_promotions one_promotion) = 1"
  using one_attestation_one_move [OF one_promotion_reachable(2)] by (simp add: one_promotion_def)

text \<open>
  Applying a planned new registration to a reachable store always succeeds unless a contradictory
  definition is already stored under the same identity: it returns a row with the planned definition,
  and afterwards the current snapshot has it. The self-checks at the end of
  \<^verbatim>\<open>apply_registration\<close> never fire.
\<close>

theorem apply_registration_produces_row:
  assumes "reachable s" "planned_origin plan = CanonicalNew"
  shows "case apply_registration s plan of
      Inr (s', w) \<Rightarrow> same_definition (definition_of w) (definition_of (planned_stored plan)) \<and> store_ok s'
        \<and> (\<exists>snap. store_snapshot s' None = Inr snap
             \<and> get_version snap (comp_name (definition_of (planned_stored plan))) (stored_hash (planned_stored plan)) = Some w)
    | Inl e \<Rightarrow> e = ContradictoryDefinition (comp_name (definition_of (planned_stored plan))) (stored_hash (planned_stored plan))"
proof -
  let ?v = "planned_stored plan"
  note ok = reachable_ok [OF assms(1)]
  obtain snap where snap: "store_snapshot s None = Inr snap" using memory.snap_total [OF ok] by blast
  show ?thesis
  proof (cases "get_version snap (comp_name (definition_of ?v)) (stored_hash ?v)")
    case None
    from memory.insert_then_lookup [OF ok snap None] show ?thesis
      using assms(2) None by (auto simp: apply_registration_def Let_def snap)
  next
    case (Some w)
    then show ?thesis using ok snap by (auto simp: apply_registration_def Let_def)
  qed
qed

theorem apply_registration_produces_row_witness:
  "reachable one_version \<and>
   (case apply_registration one_version \<lparr>planned_stored = sample_version\<lparr>stored_hash := ''h2''\<rparr>, planned_origin = CanonicalNew\<rparr> of
      Inr (s', w) \<Rightarrow> same_definition (definition_of w) (definition_of sample_version) \<and> store_ok s'
    | Inl e \<Rightarrow> e = ContradictoryDefinition ''a'' ''h2'')"
  using one_promotion_reachable(1)
    apply_registration_produces_row [OF one_promotion_reachable(1),
      of "\<lparr>planned_stored = sample_version\<lparr>stored_hash := ''h2''\<rparr>, planned_origin = CanonicalNew\<rparr>"]
  by (auto simp: sample_version_def sample_atomic_def split: sum.splits)

end
