(* ===== verification/Exchange.thy ===== *)
theory Exchange
  imports Graph_IR
begin

text \<open>
  Channel contracts, endpoints and bindings as admission sees them (\<^verbatim>\<open>core/channel.py\<close>) and the law
  of the two canonical human exchanges (\<^verbatim>\<open>core/human.py\<close>, \<^verbatim>\<open>canonical_exchange_fault\<close>).
\<close>

section \<open>Model\<close>

datatype interaction = Advice | Approval

datatype durability = ProcessDurability | SqliteWal

record contract =
  contract_type :: string
  contract_schema :: string

record endpoint =
  lane :: string
  interaction :: interaction
  recipient :: "string option"

record channel_binding =
  cb_endpoint :: endpoint
  cb_port :: string
  cb_contract :: contract
  cb_reply_port :: string
  cb_reply_contract :: contract

record channel_profile =
  durability :: durability
  max_batch :: nat

definition MAILBOX_CHANNEL_KIND :: string where
  "MAILBOX_CHANNEL_KIND = ''channel.mailbox''"

definition IN_PROCESS_CHANNEL_KIND :: string where
  "IN_PROCESS_CHANNEL_KIND = ''channel.in_process''"

definition BUILTIN_CHANNEL_DURABILITIES :: "(string, durability) dict" where
  "BUILTIN_CHANNEL_DURABILITIES = [(MAILBOX_CHANNEL_KIND, SqliteWal), (IN_PROCESS_CHANNEL_KIND, ProcessDurability)]"

definition ADVICE_REQUEST_CONTRACT :: contract where
  "ADVICE_REQUEST_CONTRACT = \<lparr>contract_type = ''constructicon.std/AdviceRequest'', contract_schema = ''advice-request-1''\<rparr>"

definition ADVICE_REPLY_CONTRACT :: contract where
  "ADVICE_REPLY_CONTRACT = \<lparr>contract_type = ''constructicon.std/AdviceResponse'', contract_schema = ''advice-response-1''\<rparr>"

definition APPROVAL_REQUEST_CONTRACT :: contract where
  "APPROVAL_REQUEST_CONTRACT = \<lparr>contract_type = ''constructicon.std/ApprovalRequest'', contract_schema = ''approval-request-1''\<rparr>"

definition APPROVAL_REPLY_CONTRACT :: contract where
  "APPROVAL_REPLY_CONTRACT = \<lparr>contract_type = ''constructicon.std/ApprovalDecision'', contract_schema = ''approval-decision-1''\<rparr>"

definition CANONICAL_EXCHANGES :: "(contract \<times> contract \<times> interaction) list" where
  "CANONICAL_EXCHANGES =
     [(ADVICE_REQUEST_CONTRACT, ADVICE_REPLY_CONTRACT, Advice),
      (APPROVAL_REQUEST_CONTRACT, APPROVAL_REPLY_CONTRACT, Approval)]"

datatype exchange_fault =
    PairsNonCanonical contract contract interaction
  | WrongInteraction interaction interaction
  | ApprovalNotCanonical

fun exchange_fault_in ::
  "(contract \<times> contract \<times> interaction) list \<Rightarrow> contract \<Rightarrow> contract \<Rightarrow> interaction \<Rightarrow> exchange_fault option" where
  "exchange_fault_in [] request reply i = (if i = Approval then Some ApprovalNotCanonical else None)"
| "exchange_fault_in ((creq, crep, required) # rest) request reply i =
     (if request \<noteq> creq \<and> reply \<noteq> crep then exchange_fault_in rest request reply i
      else if request \<noteq> creq \<or> reply \<noteq> crep then Some (PairsNonCanonical request reply required)
      else if i \<noteq> required then Some (WrongInteraction required i)
      else None)"

definition canonical_exchange_fault :: "contract \<Rightarrow> contract \<Rightarrow> interaction \<Rightarrow> exchange_fault option" where
  "canonical_exchange_fault request reply i = exchange_fault_in CANONICAL_EXCHANGES request reply i"

definition interaction_json :: "interaction \<Rightarrow> json" where
  "interaction_json i = jstr (case i of Advice \<Rightarrow> ''advice'' | Approval \<Rightarrow> ''approval'')"

definition contract_json :: "contract \<Rightarrow> json" where
  "contract_json c = jobj [(''type_id'', jstr (contract_type c)), (''schema_hash'', jstr (contract_schema c))]"

definition endpoint_json :: "endpoint \<Rightarrow> json" where
  "endpoint_json e = jobj [(''lane'', jstr (lane e)), (''interaction'', interaction_json (interaction e)),
     (''recipient_actor_id'', jopt jstr (recipient e))]"

definition channel_binding_json :: "channel_binding \<Rightarrow> json" where
  "channel_binding_json b = jobj [(''endpoint'', endpoint_json (cb_endpoint b)), (''port'', jstr (cb_port b)),
     (''contract'', contract_json (cb_contract b)), (''reply_port'', jstr (cb_reply_port b)),
     (''reply_contract'', contract_json (cb_reply_contract b))]"

section \<open>Laws\<close>

lemmas canonical_contracts =
  ADVICE_REQUEST_CONTRACT_def ADVICE_REPLY_CONTRACT_def APPROVAL_REQUEST_CONTRACT_def APPROVAL_REPLY_CONTRACT_def

lemma exchange_fault_None:
  "canonical_exchange_fault request reply i = None \<longleftrightarrow>
     (request = ADVICE_REQUEST_CONTRACT \<and> reply = ADVICE_REPLY_CONTRACT \<and> i = Advice)
     \<or> (request = APPROVAL_REQUEST_CONTRACT \<and> reply = APPROVAL_REPLY_CONTRACT \<and> i = Approval)
     \<or> (request \<notin> {ADVICE_REQUEST_CONTRACT, APPROVAL_REQUEST_CONTRACT}
        \<and> reply \<notin> {ADVICE_REPLY_CONTRACT, APPROVAL_REPLY_CONTRACT} \<and> i = Advice)"
  unfolding canonical_exchange_fault_def CANONICAL_EXCHANGES_def
  by (cases i) (auto simp: canonical_contracts)

text \<open>
  The exchanges admission seals: the two canonical pairs under their own interaction, and pairs
  that name neither half of a canonical exchange under \<^emph>\<open>advice\<close>. Hence the interaction is
  \<^emph>\<open>approval\<close> exactly when both contracts are the canonical approval pair: a governance decision can
  be answered only under approval authority, and approval authority answers nothing else.
\<close>

theorem approval_only_for_approval_exchange:
  assumes "canonical_exchange_fault request reply i = None"
  shows "i = Approval \<longleftrightarrow> request = APPROVAL_REQUEST_CONTRACT \<and> reply = APPROVAL_REPLY_CONTRACT"
  using assms by (auto simp: exchange_fault_None canonical_contracts)

theorem approval_only_for_approval_exchange_witness:
  "canonical_exchange_fault APPROVAL_REQUEST_CONTRACT APPROVAL_REPLY_CONTRACT Approval = None
   \<and> canonical_exchange_fault APPROVAL_REQUEST_CONTRACT APPROVAL_REPLY_CONTRACT Advice \<noteq> None"
proof -
  have a: "canonical_exchange_fault APPROVAL_REQUEST_CONTRACT APPROVAL_REPLY_CONTRACT Approval = None"
    by (simp add: canonical_exchange_fault_def CANONICAL_EXCHANGES_def canonical_contracts)
  show ?thesis
    using a approval_only_for_approval_exchange [OF a]
      approval_only_for_approval_exchange [of APPROVAL_REQUEST_CONTRACT APPROVAL_REPLY_CONTRACT Advice]
    by auto
qed

end
