(* ===== verification/Capability.thy ===== *)
theory Capability
  imports Exchange
begin

text \<open>
  Capability descriptors (\<^verbatim>\<open>CapabilityDescriptor\<close> in \<^verbatim>\<open>runtime/registry.py\<close>): what the catalog exposes
  of an injected capability, the well-formedness law of its constructor, and the three questions
  admission asks of the live object behind it.

  A live object is code outside the core. \<open>live_object\<close> records what the core reads of it: which
  protocols it implements (\<^verbatim>\<open>Channel\<close>, \<^verbatim>\<open>ExecutorProvider\<close>, \<^verbatim>\<open>QualificationAuthorizing\<close>) and the
  facts those publish.
\<close>

section \<open>Model\<close>

datatype any_profile = Profile executor_profile | NativeProfile native_profile

definition complete_profile :: "any_profile \<Rightarrow> bool" where
  "complete_profile p = (case p of Profile q \<Rightarrow> profile_policy q \<noteq> None | NativeProfile _ \<Rightarrow> True)"

definition profile_grant_faults :: "any_profile \<Rightarrow> effective_grants \<Rightarrow> executor_fault list" where
  "profile_grant_faults p g = (case p of Profile q \<Rightarrow> grant_faults q g | NativeProfile q \<Rightarrow> native_grant_faults q g)"

definition network_json :: "network \<Rightarrow> json" where
  "network_json n = jstr (case n of NoNetwork \<Rightarrow> ''none'' | AllowNetwork \<Rightarrow> ''allow'')"

definition isolation_fields :: "isolation_profile \<Rightarrow> (string \<times> json) list" where
  "isolation_fields i =
     [(''filesystem'', jstr (case filesystem i of NoFilesystem \<Rightarrow> ''none'' | WorkspaceOnly \<Rightarrow> ''workspace_only''
        | ReadOnlySnapshot \<Rightarrow> ''read_only_snapshot'')),
      (''process_tree_owned'', JBool (process_tree_owned i)),
      (''environment_allowlisted'', JBool (environment_allowlisted i)), (''network_enforced'', JBool (network_enforced i))]"

definition strings_json :: "string list \<Rightarrow> json" where
  "strings_json xs = JList (map jstr xs)"

definition policy_json :: "grant_policy \<Rightarrow> json" where
  "policy_json p = jobj
     [(''schema_version'', JInt 1), (''tool_sets'', JList (map strings_json (tool_sets p))),
      (''network_modes'', JList (map network_json (network_modes p))),
      (''network_access'', jstr (case network_access p of NoAccess \<Rightarrow> ''none'' | ProviderRouteOnly \<Rightarrow> ''provider_route_only'')),
      (''environment_names'', strings_json (environment_names p)), (''workspace_required'', JBool (workspace_required p))]"

text \<open>A complete profile serializes its sets sorted; a legacy one leaves the policy field absent.\<close>

definition profile_json :: "executor_profile \<Rightarrow> json" where
  "profile_json p = jobj
     ([(''name'', jstr (profile_name p)), (''structured_output'', JBool (structured_output p)),
       (''postures'', JList (map posture_json (filter (\<lambda>x. x \<in> set (postures p)) [READ, WRITE]))),
       (''isolation'', jobj (isolation_fields (isolation p))),
       (''accepted_efforts'', strings_json (sorted_set (accepted_efforts p)))]
      @ (case profile_policy p of None \<Rightarrow> [] | Some q \<Rightarrow> [(''grant_policy'', policy_json q)]))"

definition native_policy_json :: "native_policy \<Rightarrow> json" where
  "native_policy_json p = jobj
     [(''schema_version'', JInt 3), (''tool_sets'', JList (map strings_json (native_tool_sets p))),
      (''model_ids'', strings_json (model_ids p)), (''environment_names'', strings_json (native_environment_names p)),
      (''workspace_required'', JBool (native_workspace_required p)), (''network_modes'', strings_json [''allow'']),
      (''network_access'', jstr ''native_vendor_session_only''), (''tool_path'', jstr ''mediated_callbacks_only'')]"

definition native_profile_json :: "native_profile \<Rightarrow> json" where
  "native_profile_json p = jobj
     [(''schema_version'', JInt 3), (''name'', jstr (native_name p)), (''posture'', posture_json (native_posture p)),
      (''structured_output'', JBool (native_structured_output p)),
      (''accepted_efforts'', strings_json (native_accepted_efforts p)), (''grant_policy'', native_policy_json (native_policy p)),
      (''isolation'', jobj ((''schema_version'', JInt 3) # isolation_fields (native_isolation p)
         @ [(''native_workspace'', jstr ''none''), (''worker_network'', jstr ''none''),
            (''credential_state'', jstr ''narrow_vendor_store_rw''), (''zones'', jstr ''native_and_worker_separate'')])),
      (''authentication'', jstr ''vendor_managed_subscription''),
      (''account_assurance'', jstr ''operator_bound_vendor_identity_unverified''),
      (''subscription_overage'', jstr (if overage_authorized p then ''operator_authorized'' else ''forbidden''))]"

definition any_profile_json :: "any_profile \<Rightarrow> json" where
  "any_profile_json p = (case p of Profile q \<Rightarrow> profile_json q | NativeProfile q \<Rightarrow> native_profile_json q)"

record live_executor =
  launch_profile :: "(any_profile \<times> string) option"
  live_reasons :: "string list option"

record live_object =
  live_channel :: "(string \<times> channel_profile) option"
  live_executor :: "live_executor option"
  live_authorizes :: "(digest \<Rightarrow> string \<Rightarrow> bool) option"

record descriptor =
  capability_id :: string
  cap_kind :: string
  cap_revision :: string
  executor_profile :: "any_profile option"
  channel_profile :: "channel_profile option"
  cap_endpoint :: "endpoint option"
  leased :: bool
  requires_posture :: "posture option"

datatype descriptor_error =
    ChannelProfileExpected
  | ReservedDurability string durability
  | EndpointOnNonChannel
  | ExecutorAndChannel
  | LeasedChannel

definition channel_kind :: "string \<Rightarrow> bool" where
  "channel_kind k = (take 8 k = ''channel.'')"

definition descriptor_check :: "descriptor \<Rightarrow> descriptor_error option" where
  "descriptor_check d =
     (let channel = channel_kind (cap_kind d) in
      if channel \<noteq> (channel_profile d \<noteq> None) then Some ChannelProfileExpected
      else if (case (map_of BUILTIN_CHANNEL_DURABILITIES (cap_kind d), channel_profile d) of
                 (Some expected, Some p) \<Rightarrow> durability p \<noteq> expected | _ \<Rightarrow> False)
      then Some (ReservedDurability (cap_kind d) (the (map_of BUILTIN_CHANNEL_DURABILITIES (cap_kind d))))
      else if cap_endpoint d \<noteq> None \<and> \<not> channel then Some EndpointOnNonChannel
      else if executor_profile d \<noteq> None \<and> channel then Some ExecutorAndChannel
      else if leased d \<and> channel then Some LeasedChannel
      else None)"

definition channel_incoherence :: "descriptor \<Rightarrow> live_object option \<Rightarrow> string option" where
  "channel_incoherence d live =
     (let channel = Option.bind live live_channel in
      case channel_profile d of
        None \<Rightarrow> (if channel \<noteq> None then Some ''the injected object implements Channel but its descriptor does not'' else None)
      | Some p \<Rightarrow>
          (case channel of
             None \<Rightarrow> Some ''assembly injected no object implementing the Channel contract''
           | Some (cid, profile) \<Rightarrow>
               if cid \<noteq> capability_id d then Some (''the injected transport serves '' @ cid)
               else if profile \<noteq> p then Some ''its injected profile differs from the descriptor profile''
               else None))"

definition complete_executor :: "descriptor \<Rightarrow> bool" where
  "complete_executor d = (case executor_profile d of None \<Rightarrow> False | Some p \<Rightarrow> complete_profile p)"

definition executor_incoherence :: "descriptor \<Rightarrow> live_object option \<Rightarrow> string option" where
  "executor_incoherence d live =
     (let provider = Option.bind live live_executor in
      if \<not> complete_executor d then
        (if provider \<noteq> None then Some ''an executor provider requires a complete descriptor profile'' else None)
      else if cap_kind d \<noteq> ''executor'' \<or> \<not> leased d
      then Some ''a complete executor descriptor must have kind executor and be leased''
      else case live of
        None \<Rightarrow> None
      | Some _ \<Rightarrow>
          (case provider of
             None \<Rightarrow> Some ''the injected executor does not implement ExecutorProvider''
           | Some e \<Rightarrow>
               (case launch_profile e of
                  None \<Rightarrow> Some ''the provider supplies no launch identity''
                | Some (p, got) \<Rightarrow>
                    if canonical_json (any_profile_json p) \<noteq> canonical_json (any_profile_json (the (executor_profile d)))
                    then Some ''the provider profile differs from the descriptor profile''
                    else if got \<noteq> cap_revision d
                    then Some ''the provider content-derived revision differs from the descriptor revision''
                    else case live_reasons e of
                      None \<Rightarrow> Some ''provider availability must be a tuple of non-empty refusal reasons''
                    | Some rs \<Rightarrow> if [] \<in> set rs then Some ''provider availability must be a tuple of non-empty refusal reasons''
                                else None)))"

definition executor_unavailability :: "descriptor \<Rightarrow> live_object option \<Rightarrow> string list" where
  "executor_unavailability d live =
     (case executor_incoherence d live of
        Some reason \<Rightarrow> [reason]
      | None \<Rightarrow>
          if \<not> complete_executor d then []
          else case live of
            None \<Rightarrow> [''no executor provider is assembled'']
          | Some l \<Rightarrow> (case Option.bind (live_executor l) live_reasons of None \<Rightarrow> [] | Some rs \<Rightarrow> rs))"

section \<open>Laws\<close>

text \<open>An available complete executor is the one the descriptor describes.\<close>

lemma executor_available:
  assumes "executor_unavailability d live = []" "complete_executor d"
  shows "\<exists>l e p. live = Some l \<and> live_executor l = Some e \<and> launch_profile e = Some (p, cap_revision d)
    \<and> canonical_json (any_profile_json p) = canonical_json (any_profile_json (the (executor_profile d)))
    \<and> live_reasons e = Some [] \<and> cap_kind d = ''executor'' \<and> leased d"
proof -
  have none: "executor_incoherence d live = None"
    using assms(1) by (auto simp: executor_unavailability_def split: option.splits)
  then obtain l where l: "live = Some l"
    using assms by (cases live) (auto simp: executor_unavailability_def)
  obtain e where e: "live_executor l = Some e" using none assms(2)
    by (cases "live_executor l") (auto simp: executor_incoherence_def Let_def l split: if_splits)
  obtain p got where p: "launch_profile e = Some (p, got)" using none assms(2)
    by (cases "launch_profile e") (auto simp: executor_incoherence_def Let_def l e split: if_splits)
  obtain rs where rs: "live_reasons e = Some rs" using none assms(2)
    by (cases "live_reasons e") (auto simp: executor_incoherence_def Let_def l e p split: if_splits)
  have "rs = []" using assms none by (simp add: executor_unavailability_def l e rs)
  then show ?thesis
    using none assms(2) by (auto simp: executor_incoherence_def Let_def l e p rs split: if_splits)
qed

lemma unavailable_incoherent: "executor_incoherence d live \<noteq> None \<Longrightarrow> executor_unavailability d live \<noteq> []"
  by (auto simp: executor_unavailability_def)

text \<open>A well-formed descriptor of a built-in channel kind promises that kind's durability.\<close>

lemma descriptor_channel:
  assumes "descriptor_check d = None"
  shows "(channel_profile d \<noteq> None \<longleftrightarrow> channel_kind (cap_kind d))
    \<and> (channel_kind (cap_kind d) \<longrightarrow> \<not> leased d \<and> executor_profile d = None)
    \<and> (cap_endpoint d \<noteq> None \<longrightarrow> channel_kind (cap_kind d))"
  using assms by (auto simp: descriptor_check_def Let_def split: if_splits)

end
