(* ===== verification/Manifest.thy ===== *)
theory Manifest
  imports Exchange
begin

text \<open>
  The sealed execution manifest (\<^verbatim>\<open>core/manifest.py\<close>): resolved components, port bindings,
  capability bindings and loop programs, the JSON dump of each, the identity payload per schema
  version, the two identity checks of \<^verbatim>\<open>validated_manifest_identity\<close>, and the reader of a stored manifest.
\<close>

section \<open>Model\<close>

definition MANIFEST_SCHEMA_VERSION :: nat where
  "MANIFEST_SCHEMA_VERSION = 2"

definition MANIFEST_CHANNEL_SCHEMA_VERSION :: nat where
  "MANIFEST_CHANNEL_SCHEMA_VERSION = 3"

definition CONTINUE_TYPE :: string where
  "CONTINUE_TYPE = ''constructicon/continue''"

definition CONTINUE_SCHEMA_HASH :: "(nat list \<Rightarrow> string) \<Rightarrow> digest" where
  "CONTINUE_SCHEMA_HASH sha = digest_of sha ''json-schema'' 1 (jobj [(''type'', jstr ''boolean'')])"

definition SELF_BINDING :: string where
  "SELF_BINDING = ''__node__''"

definition SELF_CAPABILITY :: string where
  "SELF_CAPABILITY = ''__node__''"

record port_binding =
  destination :: port_address
  sources :: "port_address list"

record resolution =
  res_scope :: scope
  res_component :: string
  requested_version :: "string option"
  resolved_version :: digest
  res_contract_hash :: digest
  implementation_digest :: "digest option"

record capability_binding =
  bind_scope :: scope
  binding :: string
  bound_capability :: string
  bound_revision :: string
  effective_grants :: effective_grants
  bound_channel :: "channel_binding option"

record loop_export =
  export_port :: port
  export_destination :: port_address
  export_sources :: "port_address list"

record loop_resolution =
  loop_scope :: scope
  body_scope :: scope
  loop_max :: nat
  input_ports :: "port list"
  initial_bindings :: "port_binding list"
  feedback_bindings :: "port_binding list"
  continue_source :: port_address
  exports :: "loop_export list"
  member_order :: "scope list"

record manifest =
  schema_version :: nat
  source_graph :: graph
  source_graph_hash :: digest
  resolved_components :: "resolution list"
  resolved_connections :: "port_binding list"
  capability_bindings :: "capability_binding list"
  resolved_loops :: "loop_resolution list"
  input_hash :: digest
  world_hash :: digest
  manifest_hash :: digest

definition port_binding_json :: "port_binding \<Rightarrow> json" where
  "port_binding_json b = jobj [(''destination'', address_json (destination b)), (''sources'', JList (map address_json (sources b)))]"

definition resolution_json :: "resolution \<Rightarrow> json" where
  "resolution_json r = jobj [(''scope'', scope_json (res_scope r)), (''component'', jstr (res_component r)),
     (''requested_version'', jopt jstr (requested_version r)), (''resolved_version'', jstr (resolved_version r)),
     (''contract_hash'', jstr (res_contract_hash r)), (''implementation_digest'', jopt jstr (implementation_digest r))]"

text \<open>A binding with no channel keeps the field absent.\<close>

definition capability_binding_json :: "capability_binding \<Rightarrow> json" where
  "capability_binding_json b = jobj
     ([(''scope'', scope_json (bind_scope b)), (''binding'', jstr (binding b)),
       (''capability_id'', jstr (bound_capability b)), (''revision'', jstr (bound_revision b)),
       (''effective_grants'', grants_json (effective_grants b)), (''lifetime'', jstr ''invocation'')]
      @ (case bound_channel b of None \<Rightarrow> [] | Some c \<Rightarrow> [(''channel'', channel_binding_json c)]))"

definition export_json :: "loop_export \<Rightarrow> json" where
  "export_json e = jobj [(''port'', port_json (export_port e)), (''destination'', address_json (export_destination e)),
     (''sources'', JList (map address_json (export_sources e)))]"

definition loop_resolution_json :: "loop_resolution \<Rightarrow> json" where
  "loop_resolution_json l = jobj
     [(''scope'', scope_json (loop_scope l)), (''body_scope'', scope_json (body_scope l)),
      (''max_iterations'', jnat (loop_max l)), (''input_ports'', JList (map port_json (input_ports l))),
      (''initial_bindings'', JList (map port_binding_json (initial_bindings l))),
      (''feedback_bindings'', JList (map port_binding_json (feedback_bindings l))),
      (''continue_source'', address_json (continue_source l)), (''exports'', JList (map export_json (exports l))),
      (''member_order'', JList (map scope_json (member_order l)))]"

definition binds_channel :: "capability_binding list \<Rightarrow> bool" where
  "binds_channel bs = list_ex (\<lambda>b. bound_channel b \<noteq> None) bs"

datatype manifest_error = NeedsChannelVersion | ClaimsChannel nat | GraphIdentityMismatch | ManifestIdentityMismatch
  | UnsupportedVersion nat | LoopsInVersionOne

definition declared_version_check :: "manifest \<Rightarrow> manifest_error + manifest" where
  "declared_version_check m =
     (let channel = binds_channel (capability_bindings m) in
      if channel \<and> schema_version m < MANIFEST_CHANNEL_SCHEMA_VERSION then Inl NeedsChannelVersion
      else if \<not> channel \<and> schema_version m \<ge> MANIFEST_CHANNEL_SCHEMA_VERSION then Inl (ClaimsChannel (schema_version m))
      else Inr m)"

definition manifest_identity_payload :: "manifest \<Rightarrow> json" where
  "manifest_identity_payload m = jobj
     ([(''schema_version'', jnat (schema_version m)), (''source_graph_hash'', jstr (source_graph_hash m)),
       (''world_hash'', jstr (world_hash m)), (''input_hash'', jstr (input_hash m)),
       (''resolved_components'', JList (map resolution_json (resolved_components m))),
       (''resolved_connections'', JList (map port_binding_json (resolved_connections m))),
       (''capability_bindings'', JList (map capability_binding_json (capability_bindings m)))]
      @ (if schema_version m \<ge> 2 then [(''resolved_loops'', JList (map loop_resolution_json (resolved_loops m)))] else []))"

definition manifest_hash_for :: "(nat list \<Rightarrow> string) \<Rightarrow> manifest \<Rightarrow> digest" where
  "manifest_hash_for sha m = digest_of sha ''manifest'' (schema_version m) (manifest_identity_payload m)"

definition validated_manifest_identity :: "(nat list \<Rightarrow> string) \<Rightarrow> manifest \<Rightarrow> manifest_error + manifest" where
  "validated_manifest_identity sha m =
     (if source_graph_hash_for sha (source_graph m) \<noteq> source_graph_hash m then Inl GraphIdentityMismatch
      else if manifest_hash_for sha m \<noteq> manifest_hash m then Inl ManifestIdentityMismatch
      else Inr m)"

text \<open>
  \<^verbatim>\<open>parse_manifest_json\<close> on the stored JSON of a manifest \<open>m\<close>, from the version it declares on: the supported versions, the refusal of loops
  under version 1, the validation of the model and the two identities. The text is taken to be the lossless dump of \<open>m\<close>.
\<close>

definition read_manifest :: "(nat list \<Rightarrow> string) \<Rightarrow> manifest \<Rightarrow> manifest_error + manifest" where
  "read_manifest sha m =
     (if schema_version m \<notin> {1, MANIFEST_SCHEMA_VERSION, MANIFEST_CHANNEL_SCHEMA_VERSION} then Inl (UnsupportedVersion (schema_version m))
      else if schema_version m = 1 \<and> resolved_loops m \<noteq> [] then Inl LoopsInVersionOne
      else rbind (declared_version_check m) (validated_manifest_identity sha))"

section \<open>Laws\<close>

lemma address_norm_eq [dump_simps]: "json_norm (address_json a) = json_norm (address_json b) \<longleftrightarrow> a = b"
proof -
  have neq: "json_norm (address_json (NodePortAddress s n p)) \<noteq> json_norm (address_json (GraphInputAddress t q))"
    "json_norm (address_json (NodePortAddress s n p)) \<noteq> json_norm (address_json (GraphOutputAddress t q))" for s n p t q
    unfolding address_json.simps by (rule jobj_norm_neq [of "''node''"]; simp)+
  show ?thesis
    using neq neq [symmetric]
    by (cases a; cases b) (simp_all only:, simp_all only: address_json.simps, (subst jobj_norm_eq, simp_all add: dump_simps del: json_norm.simps)+)
qed

lemma jlist_inj_eq:
  "(\<And>x y. json_norm (f x) = json_norm (f y) \<longleftrightarrow> x = y) \<Longrightarrow>
     json_norm (JList (map f xs)) = json_norm (JList (map f ys)) \<longleftrightarrow> xs = ys"
  using jlist_norm_eq [of f id xs ys] by simp

lemmas addresses_norm_eq [dump_simps] = jlist_inj_eq [OF address_norm_eq]

lemma port_binding_norm_eq: "json_norm (port_binding_json a) = json_norm (port_binding_json b) \<longleftrightarrow> a = b"
  unfolding port_binding_json_def
  by (cases a; cases b) (subst jobj_norm_eq, simp_all add: dump_simps del: json_norm.simps)

lemmas port_bindings_norm_eq [dump_simps] = jlist_inj_eq [OF port_binding_norm_eq]

lemma resolution_norm_eq: "json_norm (resolution_json a) = json_norm (resolution_json b) \<longleftrightarrow> a = b"
  unfolding resolution_json_def
  by (cases a; cases b) (subst jobj_norm_eq, simp_all add: dump_simps del: json_norm.simps)

lemmas resolutions_norm_eq [dump_simps] = jlist_inj_eq [OF resolution_norm_eq]

lemma selection_norm_eq [dump_simps]: "json_norm (selection_json a) = json_norm (selection_json b) \<longleftrightarrow> a = b"
proof -
  have "(case x of ExplicitModel \<Rightarrow> ''explicit'' | BackendDefault \<Rightarrow> ''backend_default'')
      = (case y of ExplicitModel \<Rightarrow> ''explicit'' | BackendDefault \<Rightarrow> ''backend_default'') \<longleftrightarrow> x = y" for x y
    by (cases x; cases y) simp_all
  then show ?thesis unfolding selection_json_def
    by (cases a; cases b) (subst jobj_norm_eq, simp_all add: dump_simps del: json_norm.simps)
qed

lemma grants_norm_eq [dump_simps]: "json_norm (grants_json a) = json_norm (grants_json b) \<longleftrightarrow> a = b"
proof -
  have n: "(case x of NoNetwork \<Rightarrow> ''none'' | AllowNetwork \<Rightarrow> ''allow'') = (case y of NoNetwork \<Rightarrow> ''none'' | AllowNetwork \<Rightarrow> ''allow'') \<longleftrightarrow> x = y" for x y
    by (cases x; cases y) simp_all
  show ?thesis unfolding grants_json_def
    by (cases a; cases b) (subst jobj_norm_eq, simp_all add: dump_simps n del: json_norm.simps, simp)
qed

lemma contract_norm_eq [dump_simps]: "json_norm (contract_json a) = json_norm (contract_json b) \<longleftrightarrow> a = b"
  unfolding contract_json_def
  by (cases a; cases b) (subst jobj_norm_eq, simp_all add: dump_simps del: json_norm.simps)

lemma interaction_norm_eq [dump_simps]: "json_norm (interaction_json a) = json_norm (interaction_json b) \<longleftrightarrow> a = b"
  by (cases a; cases b) (simp_all add: interaction_json_def ustr_of_inj)

lemma endpoint_norm_eq [dump_simps]: "json_norm (endpoint_json a) = json_norm (endpoint_json b) \<longleftrightarrow> a = b"
  unfolding endpoint_json_def
  by (cases a; cases b) (subst jobj_norm_eq, simp_all add: dump_simps del: json_norm.simps)

lemma channel_binding_norm_eq [dump_simps]:
  "json_norm (channel_binding_json a) = json_norm (channel_binding_json b) \<longleftrightarrow> a = b"
  unfolding channel_binding_json_def
  by (cases a; cases b) (subst jobj_norm_eq, simp_all add: dump_simps del: json_norm.simps)

lemma capability_binding_norm_eq:
  "json_norm (capability_binding_json a) = json_norm (capability_binding_json b) \<longleftrightarrow> a = b"
proof -
  have none: "json_norm (capability_binding_json x) = json_norm (capability_binding_json y) \<longleftrightarrow> x = y"
    if "bound_channel x = None" "bound_channel y = None" for x y
    unfolding capability_binding_json_def that option.case append_Nil2
    using that by (cases x; cases y) (subst jobj_norm_eq, simp_all add: dump_simps del: json_norm.simps)
  have some: "json_norm (capability_binding_json x) = json_norm (capability_binding_json y) \<longleftrightarrow> x = y"
    if "bound_channel x = Some c" "bound_channel y = Some d" for x y c d
    unfolding capability_binding_json_def that option.case append.simps
    using that by (cases x; cases y) (subst jobj_norm_eq, simp_all add: dump_simps del: json_norm.simps)
  have neq: "json_norm (capability_binding_json x) \<noteq> json_norm (capability_binding_json y)"
    if "bound_channel x = Some c" "bound_channel y = None" for x y c
    unfolding capability_binding_json_def that option.case append.simps append_Nil2
    by (rule jobj_norm_neq [of "''channel''"]) simp_all
  show ?thesis
  proof (cases "bound_channel a")
    case None
    then show ?thesis using none [of a b] neq [of b _ a] by (cases "bound_channel b") fastforce+
  next
    case (Some c)
    then show ?thesis using some [of a c b] neq [of a c b] by (cases "bound_channel b") auto
  qed
qed

lemmas capability_bindings_norm_eq [dump_simps] = jlist_inj_eq [OF capability_binding_norm_eq]

lemmas scopes_norm_eq [dump_simps] = jlist_inj_eq [OF scope_norm_eq]

definition export_norm :: "loop_export \<Rightarrow> loop_export" where
  "export_norm e = e\<lparr>export_port := port_norm (export_port e)\<rparr>"

definition loop_resolution_norm :: "loop_resolution \<Rightarrow> loop_resolution" where
  "loop_resolution_norm l = l\<lparr>input_ports := map port_norm (input_ports l), exports := map export_norm (exports l)\<rparr>"

lemma export_norm_eq: "json_norm (export_json a) = json_norm (export_json b) \<longleftrightarrow> export_norm a = export_norm b"
  unfolding export_json_def
  by (cases a; cases b) (subst jobj_norm_eq, simp_all add: dump_simps export_norm_def del: json_norm.simps)

lemma loop_resolution_norm_eq:
  "json_norm (loop_resolution_json a) = json_norm (loop_resolution_json b) \<longleftrightarrow> loop_resolution_norm a = loop_resolution_norm b"
  unfolding loop_resolution_json_def
  by (cases a; cases b) (subst jobj_norm_eq, simp_all add: dump_simps jlist_norm_eq [OF export_norm_eq] loop_resolution_norm_def del: json_norm.simps, simp)

text \<open>Everything the manifest hash covers; schema version 1 has no loops.\<close>

definition sealed :: "manifest \<Rightarrow> nat \<times> digest \<times> digest \<times> digest \<times> resolution list \<times> port_binding list
    \<times> capability_binding list \<times> loop_resolution list" where
  "sealed m = (schema_version m, source_graph_hash m, world_hash m, input_hash m, resolved_components m,
     resolved_connections m, capability_bindings m,
     if schema_version m \<ge> 2 then map loop_resolution_norm (resolved_loops m) else [])"

lemma payload_norm_eq:
  assumes "schema_version m = schema_version n"
  shows "json_norm (manifest_identity_payload m) = json_norm (manifest_identity_payload n) \<longleftrightarrow> sealed m = sealed n"
proof (cases "schema_version n \<ge> 2")
  case True
  then show ?thesis unfolding manifest_identity_payload_def assms simp_thms if_True append.simps
    by (subst jobj_norm_eq)
       (simp_all add: dump_simps jlist_norm_eq [OF loop_resolution_norm_eq] sealed_def assms del: json_norm.simps)
next
  case False
  then show ?thesis unfolding manifest_identity_payload_def assms simp_thms if_False append.simps
    by (subst jobj_norm_eq) (simp_all add: dump_simps sealed_def assms del: json_norm.simps)
qed

text \<open>A manifest whose embedded schemas are wire values.\<close>

definition manifest_wire :: "manifest \<Rightarrow> bool" where
  "manifest_wire m \<longleftrightarrow> graph_wire (source_graph m)
     \<and> list_all (\<lambda>l. list_all port_wire (input_ports l) \<and> list_all (\<lambda>e. port_wire (export_port e)) (exports l)) (resolved_loops m)"

lemma wire_scope_json [simp]: "wire (scope_json s)"
  by (simp add: scope_json_def list_all_iff)

lemma wire_address_json [simp]: "wire (address_json a)"
  by (cases a) simp_all

lemma wire_binding_json [simp]: "wire (port_binding_json b)" "wire (resolution_json r)"
  by (simp_all add: port_binding_json_def resolution_json_def list_all_iff split: option.splits)

lemma wire_capability_json [simp]: "wire (capability_binding_json c)"
proof -
  have "wire (grants_json g)" for g
    by (simp add: grants_json_def posture_json_def selection_json_def list_all_iff split: option.splits)
  then show ?thesis
    by (simp add: capability_binding_json_def channel_binding_json_def endpoint_json_def contract_json_def
        interaction_json_def split: option.splits)
qed

lemma wire_payload: "manifest_wire m \<Longrightarrow> wire (manifest_identity_payload m)"
  by (auto simp: manifest_identity_payload_def manifest_wire_def loop_resolution_json_def export_json_def list_all_iff)

text \<open>
  C10. A manifest hash names one executable world: two validated manifests with the same hash agree on
  schema version, inputs, resolved components, every port binding, every capability binding with its
  grants and channel, every loop program, and on the authored graph itself, or one of the two pairs of
  preimages is an explicit collision of SHA-256.
\<close>

theorem manifest_identity:
  assumes "manifest_wire m" "manifest_wire n"
    and "validated_manifest_identity sha m = Inr m" "validated_manifest_identity sha n = Inr n"
    and "manifest_hash m = manifest_hash n"
  shows "(sealed m = sealed n \<and> graph_norm (source_graph m) = graph_norm (source_graph n))
    \<or> collision sha (material ''manifest'' (schema_version m) (manifest_identity_payload m))
                    (material ''manifest'' (schema_version n) (manifest_identity_payload n))
    \<or> collision sha (material ''graph'' 1 (graph_json (source_graph m))) (material ''graph'' 1 (graph_json (source_graph n)))"
proof -
  have nul: "nul_free ''manifest''" "nul_free ''graph''" by (simp_all add: nul_free_def)
  have v: "manifest_hash_for sha m = manifest_hash_for sha n"
    "source_graph_hash m = source_graph_hash_for sha (source_graph m)" "source_graph_hash n = source_graph_hash_for sha (source_graph n)"
    using assms(3-5) by (auto simp: validated_manifest_identity_def split: if_splits)
  consider "collision sha (material ''manifest'' (schema_version m) (manifest_identity_payload m))
                    (material ''manifest'' (schema_version n) (manifest_identity_payload n))"
    | "schema_version m = schema_version n" "json_norm (manifest_identity_payload m) = json_norm (manifest_identity_payload n)"
    using digest_of_inj [OF v(1) [unfolded manifest_hash_for_def] nul(1) nul(1) wire_payload wire_payload] assms(1,2) by blast
  then show ?thesis
  proof cases
    case 2
    then have s: "sealed m = sealed n" using payload_norm_eq by blast
    then have "source_graph_hash_for sha (source_graph m) = source_graph_hash_for sha (source_graph n)"
      using v(2,3) by (simp add: sealed_def)
    from digest_of_inj [OF this [unfolded source_graph_hash_for_def] nul(2) nul(2)] show ?thesis
      using s assms(1,2) graph_norm_eq_all(1) wire_graph_json_all(1) by (auto simp: manifest_wire_def)
  qed simp
qed

definition empty_manifest :: "(nat list \<Rightarrow> string) \<Rightarrow> manifest" where
  "empty_manifest sha =
     (let g = Graph ''g'' [] [] [] [];
          m = \<lparr>schema_version = 2, source_graph = g, source_graph_hash = source_graph_hash_for sha g, resolved_components = [],
               resolved_connections = [], capability_bindings = [], resolved_loops = [], input_hash = ''i'', world_hash = ''w'', manifest_hash = ''x''\<rparr>
      in m\<lparr>manifest_hash := manifest_hash_for sha m\<rparr>)"

theorem manifest_identity_witness:
  "validated_manifest_identity (map char_of) (empty_manifest (map char_of)) = Inr (empty_manifest (map char_of))
   \<and> sealed (empty_manifest (map char_of)) = sealed (empty_manifest (map char_of))"
proof -
  let ?m = "empty_manifest (map char_of)"
  have w: "manifest_wire ?m" by (simp add: manifest_wire_def empty_manifest_def Let_def)
  have v: "validated_manifest_identity (map char_of) ?m = Inr ?m"
    by (simp add: validated_manifest_identity_def empty_manifest_def Let_def manifest_hash_for_def manifest_identity_payload_def)
  show ?thesis using manifest_identity [OF w w v v refl] v by (simp add: collision_def)
qed

end
