(* ===== verification/Admission.thy ===== *)
theory Admission
  imports Topology Port_Binding Registry Capability Manifest
begin

text \<open>
  Admission (\<^verbatim>\<open>runtime/validator.py\<close>): the compiler from an authored graph to a sealed manifest.

  \<open>compilation\<close> is \<^verbatim>\<open>_Compilation\<close>, threaded through every operation. An operation returns the next
  state with its result, or raises: \<open>AdmissionErr\<close> with the faults recorded so far, \<open>ValueErr\<close> for
  inputs that are not wire values, \<open>KeyErr\<close> where the source would raise \<^verbatim>\<open>KeyError\<close>, and
  \<open>RecursionErr\<close> when the interpreter's stack is exhausted. The compiler recurses through composite
  components, whose nesting the registry does not bound, and through the connections of a level, so the three mutually recursive
  functions, and the closure and the placement they call, take the frames of the stack that are left as fuel: a call leaves one fewer to
  what it calls. The frames of functions that call nothing recursive, a bounded number at any time, are not counted, nor are those
  that render the submitted graph and normalise the run inputs before the compiler starts. Each is a functional of the one below it (\<open>graph_step\<close>, \<open>node_step\<close>,
  \<open>loop_step\<close>), tied together by \<open>compile_graph\<close>, \<open>compile_node\<close> and \<open>compile_loop\<close>.
\<close>

section \<open>State\<close>

record compilation =
  snap :: snapshot
  catalog :: "(string, descriptor) dict"
  capabilities :: "(string, live_object) dict"
  graph_hash :: digest
  faults :: "fault list"
  resolutions :: "resolution list"
  bindings :: "port_binding list"
  cap_bindings :: "capability_binding list"
  loops :: "loop_resolution list"
  atomic_scopes :: "scope list"
  lock :: "(scope, pin) dict option"
  consumed_pins :: "scope list"

datatype admit_error =
    AdmissionErr "fault list"
  | ValueErr value_error
  | VersionErr manifest_error
  | KeyErr
  | RecursionErr

definition add_faults :: "fault list \<Rightarrow> compilation \<Rightarrow> compilation" where
  "add_faults fs c = c\<lparr>faults := faults c @ fs\<rparr>"

section \<open>References\<close>

definition resolve_ref :: "compilation \<Rightarrow> ref \<Rightarrow> scope \<Rightarrow> compilation \<times> stored_version option" where
  "resolve_ref c r s =
     (let stored = select_version (snap c) r s (lock c); name = component r in
      case lock c of
        Some pins \<Rightarrow>
          (case map_of pins s of
             None \<Rightarrow> (add_faults [NoPin s name] c, None)
           | Some p \<Rightarrow>
               let c' = c\<lparr>consumed_pins := consumed_pins c @ [s]\<rparr> in
               if pin_component p \<noteq> name then (add_faults [PinComponentMismatch s (pin_component p) name] c', None)
               else if stored = None then (add_faults [PinUnavailable s (pin_component p) (pin_version p)] c', None)
               else (c', stored))
      | None \<Rightarrow>
          if map_of (versions (snap c)) name = None then (add_faults [UnknownComponent s name (names (snap c))] c, None)
          else case version r of
            None \<Rightarrow>
              (case stable_version (snap c) name of
                 None \<Rightarrow> (add_faults [NoStableVersion s name (dict_get_or [] (order (snap c)) name)] c, None)
               | Some v \<Rightarrow>
                   if stored = None then (add_faults [StablePointerDamaged s name v] c, None) else (c, stored))
          | Some v \<Rightarrow>
              if stored = None then (add_faults [NoSuchVersion s name v (dict_get_or [] (order (snap c)) name)] c, None)
              else (c, stored))"

definition record_resolution ::
  "(nat list \<Rightarrow> string) \<Rightarrow> component_def \<Rightarrow> stored_version \<Rightarrow> ref \<Rightarrow> scope \<Rightarrow> compilation \<Rightarrow> compilation" where
  "record_resolution sha d v r s c = c\<lparr>resolutions := resolutions c @
     [\<lparr>res_scope = s, res_component = comp_name d, requested_version = version r, resolved_version = stored_hash v,
       res_contract_hash = contract_digest sha d,
       implementation_digest = (case comp_body d of Composite _ \<Rightarrow> None | Atomic b \<Rightarrow> source_digest b)\<rparr>]\<rparr>"

definition boundary_lies :: "(nat list \<Rightarrow> string) \<Rightarrow> stored_version \<Rightarrow> scope \<Rightarrow> compilation \<Rightarrow> compilation \<times> bool" where
  "boundary_lies sha v s c =
     (let d = definition_of v in
      case comp_body d of
        Atomic _ \<Rightarrow> (c, False)
      | Composite g \<Rightarrow>
          (let reasons = map (\<lambda>(direction, p). direction @ '' port '' @ p) (embedded_schema_faults sha d)
                 @ opt (\<not> same_boundary (comp_inputs d) (inputs g) \<or> \<not> same_boundary (comp_outputs d) (outputs g))
                       ''declares a boundary its Graph does not export''
           in if reasons = [] then (c, False)
              else (add_faults [RetainedComposite s reasons (comp_name d) (stored_hash v)] c, True)))"

section \<open>Atomic components\<close>

definition admitted_unavailability :: "compilation \<Rightarrow> descriptor \<Rightarrow> string \<Rightarrow> string list" where
  "admitted_unavailability c d cap =
     (let provider = map_of (capabilities c) cap; reasons = executor_unavailability d provider in
      if reasons \<noteq> [] \<and> lock c = None \<and> executor_incoherence d provider = None
         \<and> (case Option.bind provider live_authorizes of None \<Rightarrow> False | Some auth \<Rightarrow> auth (graph_hash c) cap)
      then [] else reasons)"

definition exchange_reason :: "exchange_fault \<Rightarrow> string" where
  "exchange_reason f = (case f of
      PairsNonCanonical _ _ _ \<Rightarrow> ''pairs non-canonical contracts''
    | WrongInteraction _ _ \<Rightarrow> ''seals the wrong interaction''
    | ApprovalNotCanonical \<Rightarrow> ''approval requires the canonical approval exchange'')"

definition compiled_channel ::
  "compilation \<Rightarrow> component_def \<Rightarrow> scope \<Rightarrow> string \<Rightarrow> descriptor \<Rightarrow> fault list \<times> channel_binding option" where
  "compiled_channel c d s al desc =
     (let cap = capability_id desc in
      case channel_incoherence desc (map_of (capabilities c) cap) of
        Some why \<Rightarrow> ([ChannelIncoherent s al cap why], None)
      | None \<Rightarrow>
          (case channel_profile desc of
             None \<Rightarrow> ([], None)
           | Some _ \<Rightarrow>
               (case cap_endpoint desc of
                  None \<Rightarrow> ([ChannelWithoutEndpoint s al cap], None)
                | Some ep \<Rightarrow>
                    (case (comp_inputs d, comp_outputs d) of
                       ([request], [reply]) \<Rightarrow>
                         (let rc = \<lparr>contract_type = type_id request, contract_schema = schema_hash request\<rparr>;
                              pc = \<lparr>contract_type = type_id reply, contract_schema = schema_hash reply\<rparr>
                          in case canonical_exchange_fault rc pc (interaction ep) of
                               Some f \<Rightarrow> ([ChannelExchange s al cap (exchange_reason f)], None)
                             | None \<Rightarrow> ([], Some \<lparr>cb_endpoint = ep, cb_port = port_name request, cb_contract = rc,
                                                cb_reply_port = port_name reply, cb_reply_contract = pc\<rparr>))
                     | _ \<Rightarrow> ([ChannelPorts s al cap (comp_name d) (length (comp_inputs d)) (length (comp_outputs d))], None)))))"

definition executor_faults :: "scope \<Rightarrow> string \<Rightarrow> string \<Rightarrow> descriptor \<Rightarrow> effective_grants \<Rightarrow> fault list" where
  "executor_faults s al cap d g =
     (case executor_profile d of
        None \<Rightarrow> []
      | Some p \<Rightarrow>
          if complete_profile p then map (ExecutorGrants s cap al) (profile_grant_faults p g)
          else (case p of
                  NativeProfile _ \<Rightarrow> []
                | Profile q \<Rightarrow>
                    if posture g \<notin> set (postures q) then [PostureUnavailable s cap (posture g)]
                    else if \<not> satisfies (isolation q) (posture g) then [PostureUnenforceable s cap (posture g)]
                    else []))"

definition bind_capability ::
  "component_def \<Rightarrow> scope \<Rightarrow> effective_grants \<Rightarrow> string \<times> string \<Rightarrow> compilation \<Rightarrow> compilation" where
  "bind_capability d s g ac c =
     (let (al, cap) = ac in
      case map_of (catalog c) cap of
        None \<Rightarrow> add_faults [UnknownCapability s al cap (sort (dict_keys (catalog c)))] c
      | Some desc \<Rightarrow>
          (let unavailable = map (\<lambda>reason. ExecutorUnavailable s cap reason al) (admitted_unavailability c desc cap);
               posture_fault = opt (requires_posture desc = Some WRITE \<and> posture g \<noteq> WRITE) (WritePostureRequired s cap (posture g));
               (channel_faults, channel) = compiled_channel c d s al desc
           in (add_faults (unavailable @ executor_faults s al cap desc g @ posture_fault @ channel_faults) c)
                \<lparr>cap_bindings := cap_bindings c @
                   [\<lparr>bind_scope = s, binding = al, bound_capability = cap, bound_revision = cap_revision desc,
                     effective_grants = g, bound_channel = channel\<rparr>]\<rparr>))"

definition self_binding :: "scope \<Rightarrow> effective_grants \<Rightarrow> capability_binding" where
  "self_binding s g = \<lparr>bind_scope = s, binding = SELF_BINDING, bound_capability = SELF_CAPABILITY,
     bound_revision = ''0'', effective_grants = g, bound_channel = None\<rparr>"

definition register_atomic ::
  "string \<Rightarrow> component_def \<Rightarrow> scope \<Rightarrow> scope \<Rightarrow> sources_by \<Rightarrow> ref \<Rightarrow> effective_grants \<Rightarrow> compilation
     \<Rightarrow> compilation \<times> sources_by" where
  "register_atomic node d s level bound r g c =
     (let c1 = c\<lparr>bindings := bindings c @ map (\<lambda>(p, xs).
                  \<lparr>destination = NodePortAddress level node p, sources = map src_address xs\<rparr>) bound,
                cap_bindings := cap_bindings c @ [self_binding s g]\<rparr>;
          c2 = fold (bind_capability d s g) (sort_key fst (bind r)) c1;
          c3 = c2\<lparr>atomic_scopes := atomic_scopes c2 @ [s]\<rparr>
      in (c3, dict_of (map (\<lambda>p. (port_name p, [\<lparr>src_address = NodePortAddress level node (port_name p), src_port = p,
                                               src_origin = AtomicOutput s (port_name p)\<rparr>])) (comp_outputs d))))"

section \<open>One graph level\<close>

record level =
  lv_scope :: scope
  lv_inputs :: sources_by
  lv_grants :: effective_grants
  lv_depth :: nat
  lv_location :: location

record node_ctx =
  nc_scope :: scope
  nc_pool :: "source list"
  nc_explicit :: "map_entry list"
  nc_site :: binding_site
  nc_grants :: effective_grants
  nc_depth :: nat
  nc_location :: location

type_synonym outcome = "admit_error + compilation \<times> sources_by"

type_synonym graph_compiler = "graph \<Rightarrow> level \<Rightarrow> compilation \<Rightarrow> outcome"

type_synonym node_compiler = "gnode \<Rightarrow> node_ctx \<Rightarrow> compilation \<Rightarrow> outcome"

type_synonym loop_compiler = "string \<Rightarrow> loop \<Rightarrow> node_ctx \<Rightarrow> compilation \<Rightarrow> outcome"

definition all_sources :: "sources_by \<Rightarrow> source list" where
  "all_sources d = concat (dict_values d)"

definition entries_for :: "graph \<Rightarrow> location \<Rightarrow> string \<Rightarrow> map_entry list" where
  "entries_for g loc node = filter (\<lambda>e. destination_node e = node) (explicit_maps g loc)"

definition node_index :: "graph \<Rightarrow> string \<Rightarrow> nat" where
  "node_index g i = dict_get_or 0 (dict_of (map (\<lambda>(k, n). (node_id n, k)) (enumerate 0 (nodes g)))) i"

definition incoming_index :: "graph \<Rightarrow> string \<Rightarrow> nat option" where
  "incoming_index g i = map_of (fold (\<lambda>(k, c). dict_setdefault (dst c) k) (enumerate 0 (connections g)) []) i"

definition node_pool :: "(string, string list) dict \<Rightarrow> node_outputs \<Rightarrow> sources_by \<Rightarrow> string \<Rightarrow> source list" where
  "node_pool up outs ins i =
     concat (map (\<lambda>name. all_sources (dict_get_or [] outs name)) (dict_get_or [] up i)) @ all_sources ins"

definition compile_member ::
  "node_compiler \<Rightarrow> graph \<Rightarrow> level \<Rightarrow> (string, string list) dict \<Rightarrow> gnode \<Rightarrow> compilation \<times> node_outputs
     \<Rightarrow> admit_error + compilation \<times> node_outputs" where
  "compile_member cn g lv up node st =
     (let (c, outs) = st; i = node_id node;
          ctx = \<lparr>nc_scope = lv_scope lv, nc_pool = node_pool up outs (lv_inputs lv) i,
                 nc_explicit = entries_for g (lv_location lv) i,
                 nc_site = \<lparr>site_node = i, site_level = lv_location lv, site_incoming = incoming_index g i,
                            site_lookup = outs, site_inputs = lv_inputs lv\<rparr>,
                 nc_grants = lv_grants lv, nc_depth = lv_depth lv,
                 nc_location = loc_child (lv_location lv) [Key ''nodes'', Index (node_index g i), Key ''body'']\<rparr>
      in rbind (cn node ctx c) (\<lambda>(c', o'). Inr (c', dict_set i o' outs)))"

definition bind_output :: "level \<Rightarrow> source list \<Rightarrow> source list \<Rightarrow> nat \<times> port \<Rightarrow> compilation \<times> sources_by \<Rightarrow> compilation \<times> sources_by" where
  "bind_output lv node_pl input_pl ip st =
     (let (i, p) = ip; (c, outs) = st;
          pool = (if filter (\<lambda>x. ports_same_contract (src_port x) p) node_pl \<noteq> [] then node_pl else input_pl);
          (fs, bound) = bind_port p pool (loc_child (lv_location lv) [Key ''outputs'', Index i]) (lv_scope lv) None
      in (add_faults fs c,
          case bound of None \<Rightarrow> outs
          | Some xs \<Rightarrow> dict_set (port_name p) (map (\<lambda>(k, x). \<lparr>src_address = src_address x, src_port = p,
                         src_origin = LevelOutput (lv_scope lv) (port_name p) k\<rparr>) (enumerate 0 xs)) outs))"

text \<open>What the recursion over the level raises, as the compiler's error.\<close>

definition raised_by_level :: "level_error \<Rightarrow> admit_error" where
  "raised_by_level e = (case e of UnknownDestination \<Rightarrow> KeyErr | Refused f \<Rightarrow> AdmissionErr [f] | StackExhausted \<Rightarrow> RecursionErr)"

definition graph_step :: "nat \<Rightarrow> node_compiler \<Rightarrow> graph_compiler" where
  "graph_step n cn g lv c =
     (let s = lv_scope lv; c1 = add_faults (endpoint_faults g s (lv_location lv)) c in
      if endpoint_faults g s (lv_location lv) \<noteq> [] then Inl (AdmissionErr (faults c1))
      else let c2 = add_faults (cycle_faults g s (lv_location lv)) c1 in
      if cycle_faults g s (lv_location lv) \<noteq> [] then Inl (AdmissionErr (faults c2))
      else let c3 = add_faults (unique_port_faults (inputs g) (render s @ '' graph inputs'')
                      @ unique_port_faults (outputs g) (render s @ '' graph outputs'')) c2 in
      case upstream_closure n g of
        Inl e \<Rightarrow> Inl (raised_by_level e)
      | Inr up \<Rightarrow>
          (case ordered_nodes n g up of
             Inl e \<Rightarrow> Inl (raised_by_level e)
           | Inr ns \<Rightarrow>
               rbind (rfold (compile_member cn g lv up) ns (c3, [])) (\<lambda>(c4, outs).
                 Inr (fold (bind_output lv (concat (map (\<lambda>(_, per_node). all_sources per_node) outs)) (all_sources (lv_inputs lv)))
                        (enumerate 0 (outputs g)) (c4, [])))))"

section \<open>One node\<close>

definition grant_step :: "scope \<Rightarrow> effective_grants \<Rightarrow> grant_request option \<Rightarrow> compilation \<Rightarrow> compilation \<times> effective_grants" where
  "grant_step s parent request c =
     (let (fs, g) = compile_grants parent request in (add_faults (map (GrantWidening s) fs) c, g))"

definition bind_inputs :: "port list \<Rightarrow> string set \<Rightarrow> node_ctx \<Rightarrow> string \<Rightarrow> compilation \<Rightarrow> compilation \<times> sources_by" where
  "bind_inputs ports fb ctx i c =
     (let (fs, bound) = bind_node_inputs ports (nc_explicit ctx) fb (nc_pool ctx) (nc_location ctx)
                          (child (nc_scope ctx) i) (nc_site ctx)
      in (add_faults fs c, bound))"

definition retag :: "scope \<Rightarrow> port list \<Rightarrow> sources_by \<Rightarrow> sources_by" where
  "retag s ports bound =
     (let declared = dict_of (map (\<lambda>p. (port_name p, p)) ports) in
      map (\<lambda>(name, xs). (name, map (\<lambda>(k, x). x\<lparr>src_port := the (map_of declared name),
                                               src_origin := Retagged s name k\<rparr>) (enumerate 0 xs))) bound)"

definition ref_step :: "(nat list \<Rightarrow> string) \<Rightarrow> graph_compiler \<Rightarrow> string \<Rightarrow> ref \<Rightarrow> node_ctx \<Rightarrow> compilation \<Rightarrow> outcome" where
  "ref_step sha cg i r ctx c =
     (let s = child (nc_scope ctx) i; (c1, stored) = resolve_ref c r s in
      case stored of
        None \<Rightarrow> Inr (c1, [])
      | Some v \<Rightarrow>
          (let d = definition_of v;
               (c2, g) = grant_step s (nc_grants ctx) (grants r) c1;
               c3 = record_resolution sha d v r s c2;
               (c4, bound) = bind_inputs (comp_inputs d) {} ctx i c3
           in case comp_body d of
                Composite graph \<Rightarrow>
                  (let (c5, lies) = boundary_lies sha v s c4 in
                   if lies then Inr (c5, [])
                   else cg graph \<lparr>lv_scope = s, lv_inputs = retag s (comp_inputs d) bound, lv_grants = g,
                                  lv_depth = nc_depth ctx,
                                  lv_location = \<lparr>loc_path = [Key ''body''], loc_retained = Some (comp_name d, stored_hash v)\<rparr>\<rparr> c5)
              | Atomic _ \<Rightarrow> Inr (register_atomic i d s (nc_scope ctx) bound r g c4)))"

definition node_step :: "(nat list \<Rightarrow> string) \<Rightarrow> graph_compiler \<Rightarrow> loop_compiler \<Rightarrow> node_compiler" where
  "node_step sha cg cl node ctx c =
     (let i = node_id node; s = child (nc_scope ctx) i in
      case node_body node of
        LoopBody l \<Rightarrow>
          if nc_depth ctx \<noteq> 0 then Inr (add_faults [NestedLoop s] c, []) else cl i l ctx c
      | RefBody r \<Rightarrow> ref_step sha cg i r ctx c
      | GraphBody g \<Rightarrow>
          (let (c1, bound) = bind_inputs (inputs g) {} ctx i c in
           cg g \<lparr>lv_scope = s, lv_inputs = bound, lv_grants = nc_grants ctx, lv_depth = nc_depth ctx,
                 lv_location = nc_location ctx\<rparr> c1))"


section \<open>One loop\<close>

definition by_name :: "port list \<Rightarrow> (string, port) dict" where
  "by_name ports = dict_of (map (\<lambda>p. (port_name p, p)) ports)"

definition loop_boundary ::
  "(nat list \<Rightarrow> string) \<Rightarrow> loop_body \<Rightarrow> scope \<Rightarrow> compilation \<Rightarrow> compilation \<times> (port list \<times> port list) option" where
  "loop_boundary sha b s c =
     (case b of
        LoopGraph g \<Rightarrow> (c, Some (inputs g, outputs g))
      | LoopRef r \<Rightarrow>
          (let (c1, stored) = resolve_ref c r s in
           case stored of
             None \<Rightarrow> (c1, None)
           | Some v \<Rightarrow>
               (let (c2, lies) = boundary_lies sha v s c1 in
                if lies then (c2, None)
                else (c2, Some (comp_inputs (definition_of v), comp_outputs (definition_of v))))))"

definition feedback_faults :: "scope \<Rightarrow> (string, port) dict \<Rightarrow> (string, port) dict \<Rightarrow> string \<times> string \<Rightarrow> fault list" where
  "feedback_faults s ins outs io =
     (let (i, o') = io in
      opt (map_of ins i = None) (FeedbackDestination s i (sort (dict_keys ins)))
      @ opt (map_of outs o' = None) (FeedbackSource s o' (sort (dict_keys outs)))
      @ (case (map_of ins i, map_of outs o') of
           (Some p, Some q) \<Rightarrow>
             opt (cardinality p \<noteq> One \<or> cardinality q \<noteq> One) (FeedbackCardinality s i o')
             @ opt (\<not> ports_same_contract p q) (FeedbackContract s i o')
         | _ \<Rightarrow> []))"

definition continue_faults :: "(nat list \<Rightarrow> string) \<Rightarrow> scope \<Rightarrow> (string, port) dict \<Rightarrow> string \<Rightarrow> fault list" where
  "continue_faults sha s outs cont =
     (case map_of outs cont of
        None \<Rightarrow> [ContinueUndeclared s cont (sort (dict_keys outs))]
      | Some p \<Rightarrow> opt (type_id p \<noteq> CONTINUE_TYPE \<or> schema_hash p \<noteq> CONTINUE_SCHEMA_HASH sha \<or> cardinality p \<noteq> One)
                      (ContinueContract s cont))"

text \<open>The loop's boundary: one initial binding and one boundary source per bound body input.\<close>

definition bind_boundary ::
  "scope \<Rightarrow> sources_by \<Rightarrow> port \<Rightarrow> port_binding list \<times> sources_by \<Rightarrow> port_binding list \<times> sources_by" where
  "bind_boundary bs bound p st =
     (case map_of bound (port_name p) of
        None \<Rightarrow> st
      | Some xs \<Rightarrow>
          (let dest = GraphInputAddress bs (port_name p) in
           (fst st @ [\<lparr>destination = dest, sources = map src_address xs\<rparr>],
            dict_set (port_name p) [\<lparr>src_address = dest, src_port = p, src_origin = LoopBoundary bs (port_name p)\<rparr>] (snd st))))"

definition compile_loop_body ::
  "node_compiler \<Rightarrow> graph_compiler \<Rightarrow> loop_body \<Rightarrow> scope \<Rightarrow> sources_by \<Rightarrow> node_ctx \<Rightarrow> compilation \<Rightarrow> outcome" where
  "compile_loop_body cn cg b bs boundary ctx c =
     (case b of
        LoopRef r \<Rightarrow>
          cn (GNode ''$body'' (RefBody r))
             \<lparr>nc_scope = bs, nc_pool = all_sources boundary, nc_explicit = [],
              nc_site = \<lparr>site_node = ''$body'', site_level = nc_location ctx, site_incoming = None,
                         site_lookup = [], site_inputs = boundary\<rparr>,
              nc_grants = nc_grants ctx, nc_depth = 1, nc_location = loc_child (nc_location ctx) [Key ''body'']\<rparr> c
      | LoopGraph g \<Rightarrow>
          cg g \<lparr>lv_scope = bs, lv_inputs = boundary, lv_grants = nc_grants ctx, lv_depth = 1,
                lv_location = loc_child (nc_location ctx) [Key ''body'']\<rparr> c)"

definition bind_feedback ::
  "scope \<Rightarrow> scope \<Rightarrow> (string, port) dict \<Rightarrow> (string, port) dict \<Rightarrow> sources_by \<Rightarrow> string \<times> string
     \<Rightarrow> fault list \<times> port_binding list \<Rightarrow> fault list \<times> port_binding list" where
  "bind_feedback s bs ins outs produced io st =
     (let (i, o') = io in
      if map_of ins i = None \<or> map_of outs o' = None then st
      else let xs = dict_get_or [] produced o' in
        if xs = [] then st
        else if length xs \<noteq> 1 then (fst st @ [FeedbackSourceCount s o' (length xs)], snd st)
        else (fst st, snd st @ [\<lparr>destination = GraphInputAddress bs i, sources = map src_address xs\<rparr>]))"

definition continue_of ::
  "scope \<Rightarrow> scope \<Rightarrow> (string, port) dict \<Rightarrow> sources_by \<Rightarrow> string \<Rightarrow> fault list \<times> port_address" where
  "continue_of s bs outs produced cont =
     (case map_of produced cont of
        Some [x] \<Rightarrow> ([], src_address x)
      | _ \<Rightarrow> (opt (map_of outs cont \<noteq> None) (ContinueSourceCount s cont), GraphInputAddress bs cont))"

definition bind_export ::
  "scope \<Rightarrow> string \<Rightarrow> string \<Rightarrow> sources_by \<Rightarrow> port \<Rightarrow> loop_export list \<times> sources_by \<Rightarrow> loop_export list \<times> sources_by" where
  "bind_export level i cont produced p st =
     (let xs = dict_get_or [] produced (port_name p) in
      if port_name p = cont \<or> xs = [] then st
      else let dest = NodePortAddress level i (port_name p) in
        (fst st @ [\<lparr>export_port = p, export_destination = dest, export_sources = map src_address xs\<rparr>],
         dict_set (port_name p) [\<lparr>src_address = dest, src_port = p, src_origin = LoopExported (child level i) (port_name p)\<rparr>] (snd st)))"

definition loop_step :: "(nat list \<Rightarrow> string) \<Rightarrow> node_compiler \<Rightarrow> graph_compiler \<Rightarrow> loop_compiler" where
  "loop_step sha cn cg i l ctx c =
     (let level = nc_scope ctx; s = child level i; bs = child s LOOP_BODY_SEGMENT;
          (c1, boundary) = loop_boundary sha (loop_body l) (child bs ''$body'') c
      in case boundary of
           None \<Rightarrow> Inr (c1, [])
         | Some (ins, outs) \<Rightarrow>
             (let c2 = add_faults (unique_port_faults ins (render s @ '' body inputs'')
                         @ unique_port_faults outs (render s @ '' body outputs'')
                         @ concat (map (feedback_faults s (by_name ins) (by_name outs)) (feedback l))
                         @ continue_faults sha s (by_name outs) (continue_from l)) c1;
                  (c3, bound) = bind_inputs ins (set (dict_keys (feedback l))) ctx i c2;
                  (initial, boundary_sources) = fold (bind_boundary bs bound) ins ([], []);
                  start = length (atomic_scopes c3)
              in rbind (compile_loop_body cn cg (loop_body l) bs boundary_sources ctx c3) (\<lambda>(c4, produced).
                 let members = drop start (atomic_scopes c4);
                     c5 = add_faults (opt (members = []) (EmptyLoopBody s)) c4;
                     (ff, fb) = fold (bind_feedback s bs (by_name ins) (by_name outs) produced) (feedback l) ([], []);
                     (cf, cont) = continue_of s bs (by_name outs) produced (continue_from l);
                     c6 = add_faults (ff @ cf) c5;
                     (exps, outer) = fold (bind_export level i (continue_from l) produced) outs ([], [])
                 in Inr (c6\<lparr>loops := loops c6 @
                      [\<lparr>loop_scope = s, body_scope = bs, loop_max = max_iterations l, input_ports = ins,
                        initial_bindings = initial, feedback_bindings = fb, continue_source = cont,
                        exports = exps, member_order = members\<rparr>]\<rparr>, outer))))"

section \<open>The compiler\<close>

fun compile_graph :: "(nat list \<Rightarrow> string) \<Rightarrow> nat \<Rightarrow> graph_compiler"
and compile_node :: "(nat list \<Rightarrow> string) \<Rightarrow> nat \<Rightarrow> node_compiler"
and compile_loop :: "(nat list \<Rightarrow> string) \<Rightarrow> nat \<Rightarrow> loop_compiler"
where
  "compile_graph sha 0 = (\<lambda>_ _ _. Inl RecursionErr)"
| "compile_graph sha (Suc n) = graph_step n (compile_node sha n)"
| "compile_node sha 0 = (\<lambda>_ _ _. Inl RecursionErr)"
| "compile_node sha (Suc n) = node_step sha (compile_graph sha n) (compile_loop sha n)"
| "compile_loop sha 0 = (\<lambda>_ _ _ _. Inl RecursionErr)"
| "compile_loop sha (Suc n) = loop_step sha (compile_node sha n) (compile_graph sha n)"

section \<open>Admission\<close>

record world =
  w_snapshot :: snapshot
  w_catalog :: "(string, descriptor) dict"
  w_capabilities :: "(string, live_object) dict"
  w_pins :: "pin list option"

definition start_compilation :: "(nat list \<Rightarrow> string) \<Rightarrow> world \<Rightarrow> graph \<Rightarrow> compilation" where
  "start_compilation sha w g =
     \<lparr>snap = w_snapshot w, catalog = w_catalog w, capabilities = w_capabilities w,
      graph_hash = source_graph_hash_for sha g, faults = [], resolutions = [], bindings = [], cap_bindings = [],
      loops = [], atomic_scopes = [],
      lock = map_option (\<lambda>pins. dict_of (map (\<lambda>p. (pin_scope p, p)) pins)) (w_pins w), consumed_pins = []\<rparr>"

definition input_faults :: "graph \<Rightarrow> ustr list \<Rightarrow> fault list" where
  "input_faults g given =
     (let declared = sorted_set (map port_name (inputs g));
          missing = sorted_set (map port_name (filter (\<lambda>p. cardinality p \<noteq> Optional \<and> ustr_of (port_name p) \<notin> set given) (inputs g)));
          extra = sorted_set (filter (\<lambda>k. k \<notin> ustr_of ` set declared) given)
      in opt (missing \<noteq> []) (MissingRunInputs missing declared) @ opt (extra \<noteq> []) (ExtraRunInputs extra declared))"

definition root_inputs :: "graph \<Rightarrow> scope \<Rightarrow> ustr list \<Rightarrow> sources_by" where
  "root_inputs g s given =
     dict_of (map (\<lambda>p. (port_name p, [\<lparr>src_address = GraphInputAddress s (port_name p), src_port = p,
                                      src_origin = RootInput (port_name p)\<rparr>]))
       (filter (\<lambda>p. ustr_of (port_name p) \<in> set given) (inputs g)))"

definition output_bindings :: "graph \<Rightarrow> scope \<Rightarrow> sources_by \<Rightarrow> port_binding list" where
  "output_bindings g s outs = concat (map (\<lambda>p.
     let xs = dict_get_or [] outs (port_name p) in
     opt (xs \<noteq> []) \<lparr>destination = GraphOutputAddress s (port_name p), sources = map src_address xs\<rparr>) (outputs g))"

definition unused_pins :: "compilation \<Rightarrow> fault list" where
  "unused_pins c = (case lock c of None \<Rightarrow> []
     | Some pins \<Rightarrow> map (\<lambda>s. let p = the (map_of pins s) in UnusedPin s (pin_component p) (pin_version p))
         (sorted_set (filter (\<lambda>s. s \<notin> set (consumed_pins c)) (dict_keys pins))))"

definition world_digest :: "(nat list \<Rightarrow> string) \<Rightarrow> compilation \<Rightarrow> digest" where
  "world_digest sha c = digest_of sha ''world'' 1 (jobj
     [(''components'', JList (map (\<lambda>r. jobj [(''scope'', JList (map jstr (res_scope r))),
         (''component'', jstr (res_component r)), (''version'', jstr (resolved_version r))]) (resolutions c))),
      (''capabilities'', JList (map (\<lambda>b. jobj [(''scope'', JList (map jstr (bind_scope b))), (''binding'', jstr (binding b)),
         (''capability'', jstr (bound_capability b)), (''revision'', jstr (bound_revision b))]) (cap_bindings c)))])"

definition seal :: "(nat list \<Rightarrow> string) \<Rightarrow> graph \<Rightarrow> json \<Rightarrow> compilation \<Rightarrow> admit_error + manifest" where
  "seal sha g given c =
     (let m = \<lparr>schema_version = (if binds_channel (cap_bindings c) then MANIFEST_CHANNEL_SCHEMA_VERSION else MANIFEST_SCHEMA_VERSION),
               source_graph = g, source_graph_hash = graph_hash c, resolved_components = resolutions c,
               resolved_connections = bindings c, capability_bindings = cap_bindings c, resolved_loops = loops c,
               input_hash = digest_of sha ''inputs'' 1 given, world_hash = world_digest sha c,
               manifest_hash = digest_of sha ''manifest-placeholder'' 1 (jobj [])\<rparr>
      in case declared_version_check m of
           Inl e \<Rightarrow> Inl (VersionErr e)
         | Inr m \<Rightarrow> Inr (m\<lparr>manifest_hash := manifest_hash_for sha m\<rparr>))"

definition admit_compiled ::
  "(nat list \<Rightarrow> string) \<Rightarrow> nat \<Rightarrow> graph \<Rightarrow> world \<Rightarrow> effective_grants \<Rightarrow> ustr list \<Rightarrow> admit_error + compilation" where
  "admit_compiled sha fuel g w root given =
     (let s = [graph_name g];
          c = add_faults (unique_port_faults (inputs g) (graph_name g @ '' graph inputs'')
                @ unique_port_faults (outputs g) (graph_name g @ '' graph outputs'') @ input_faults g given)
                (start_compilation sha w g)
      in rbind (compile_graph sha fuel g \<lparr>lv_scope = s, lv_inputs = root_inputs g s given, lv_grants = root,
                  lv_depth = 0, lv_location = root_location\<rparr> c) (\<lambda>(c1, outs).
         let c2 = c1\<lparr>bindings := bindings c1 @ output_bindings g s outs\<rparr>;
             c3 = add_faults (unused_pins c2) c2
         in if faults c3 \<noteq> [] then Inl (AdmissionErr (faults c3)) else Inr c3))"

definition admit ::
  "(nat list \<Rightarrow> string) \<Rightarrow> nat \<Rightarrow> graph \<Rightarrow> world \<Rightarrow> effective_grants \<Rightarrow> pyvalue \<Rightarrow> admit_error + manifest" where
  "admit sha fuel g w root run_inputs =
     (case json_value run_inputs of
        Inl e \<Rightarrow> Inl (ValueErr e)
      | Inr (JObj given) \<Rightarrow>
          rbind (admit_compiled sha fuel g w root (dict_keys given)) (seal sha g (JObj given))
      | Inr _ \<Rightarrow> Inl (AdmissionErr [InputsNotObject]))"

end
