(* ===== verification/Admission_Laws.thy ===== *)
theory Admission_Laws
  imports Admission
begin

text \<open>
  Laws of the admission compiler. The locale \<open>compile_law\<close> is an induction principle: a relation
  between the state before and after, indexed by the grants, the loop depth and the scope in force, that
  is closed under the compiler's elementary updates holds of every compilation that returns. Each
  property of the sealed manifest is an interpretation of it with its own relation.
\<close>

section \<open>The induction principle\<close>

definition graph_law ::
  "(effective_grants \<Rightarrow> nat \<Rightarrow> scope \<Rightarrow> compilation \<Rightarrow> compilation \<Rightarrow> bool) \<Rightarrow> graph_compiler \<Rightarrow> bool" where
  "graph_law R cg \<longleftrightarrow> (\<forall>g lv c c' o'. cg g lv c = Inr (c', o') \<longrightarrow> R (lv_grants lv) (lv_depth lv) (lv_scope lv) c c')"

definition node_law ::
  "(effective_grants \<Rightarrow> nat \<Rightarrow> scope \<Rightarrow> compilation \<Rightarrow> compilation \<Rightarrow> bool) \<Rightarrow> node_compiler \<Rightarrow> bool" where
  "node_law R cn \<longleftrightarrow> (\<forall>n ctx c c' o'. cn n ctx c = Inr (c', o') \<longrightarrow>
     R (nc_grants ctx) (nc_depth ctx) (child (nc_scope ctx) (node_id n)) c c')"

definition loop_law ::
  "(effective_grants \<Rightarrow> nat \<Rightarrow> scope \<Rightarrow> compilation \<Rightarrow> compilation \<Rightarrow> bool) \<Rightarrow> loop_compiler \<Rightarrow> bool" where
  "loop_law R cl \<longleftrightarrow> (\<forall>i l ctx c c' o'. cl i l ctx c = Inr (c', o') \<longrightarrow> R (nc_grants ctx) 0 (child (nc_scope ctx) i) c c')"

text \<open>What the compiler knows of a loop it seals after compiling the body from \<open>c\<close> to \<open>c1\<close>, with the
  faults \<open>fs\<close> it records.\<close>

definition loop_sealed :: "scope \<Rightarrow> compilation \<Rightarrow> compilation \<Rightarrow> fault list \<Rightarrow> loop_resolution \<Rightarrow> bool" where
  "loop_sealed s c c1 fs l \<longleftrightarrow> loop_scope l = s \<and> body_scope l = child s LOOP_BODY_SEGMENT
     \<and> member_order l = drop (length (atomic_scopes c)) (atomic_scopes c1)
     \<and> (member_order l = [] \<longrightarrow> fs \<noteq> [])
     \<and> list_all (\<lambda>b. length (sources b) = 1 \<and> addr_scope (destination b) = body_scope l) (feedback_bindings l)
     \<and> list_all (\<lambda>b. addr_scope (destination b) = body_scope l) (initial_bindings l)"

lemma faults_add [simp]: "faults (add_faults fs c) = faults c @ fs"
  by (simp add: add_faults_def)

lemma add_faults_simps [simp]:
  "snap (add_faults fs c) = snap c" "catalog (add_faults fs c) = catalog c" "capabilities (add_faults fs c) = capabilities c"
  "graph_hash (add_faults fs c) = graph_hash c" "resolutions (add_faults fs c) = resolutions c"
  "bindings (add_faults fs c) = bindings c" "cap_bindings (add_faults fs c) = cap_bindings c" "loops (add_faults fs c) = loops c"
  "atomic_scopes (add_faults fs c) = atomic_scopes c" "lock (add_faults fs c) = lock c" "consumed_pins (add_faults fs c) = consumed_pins c"
  "add_faults [] c = c" "add_faults gs (add_faults fs c) = add_faults (fs @ gs) c"
  by (simp_all add: add_faults_def)

lemma resolve_ref_cases:
  assumes "resolve_ref c r s = (c', stored)"
  obtains fs where "c' = add_faults fs c" | fs where "c' = add_faults fs (c\<lparr>consumed_pins := consumed_pins c @ [s]\<rparr>)"
  using assms unfolding resolve_ref_def Let_def
  by (auto split: option.splits if_splits) (metis add_faults_simps(12))+

lemma resolve_ref_Some:
  assumes "resolve_ref c r s = (c', Some v)"
  shows "select_version (snap c) r s (lock c) = Some v \<and> snap c' = snap c \<and> lock c' = lock c"
  using assms unfolding resolve_ref_def Let_def by (auto split: option.splits if_splits)

lemma boundary_lies_cases: "\<exists>fs. fst (boundary_lies sha v s c) = add_faults fs c"
  unfolding boundary_lies_def Let_def by (auto split: comp_body.splits intro: exI [of _ "[]"])

lemma bind_inputs_cases: "\<exists>fs. fst (bind_inputs ports fb ctx i c) = add_faults fs c"
  unfolding bind_inputs_def Let_def by (auto split: prod.splits)

lemma grant_step_cases:
  "\<exists>fs g. grant_step s parent request c = (add_faults fs c, g) \<and> narrower g parent"
proof -
  have "narrower (snd (compile_grants parent request)) parent" by (rule compile_grants_narrower)
  then show ?thesis unfolding grant_step_def by (auto split: prod.splits)
qed


lemma graph_step_cases:
  assumes "graph_step n cn g lv c = Inr (c', o')"
  obtains fs up ns c4 outs where "endpoint_faults g (lv_scope lv) (lv_location lv) = []"
    "cycle_faults g (lv_scope lv) (lv_location lv) = []" "upstream_closure n g = Inr up" "ordered_nodes n g up = Inr ns"
    "rfold (compile_member cn g lv up) ns (add_faults fs c, []) = Inr (c4, outs)"
    "fold (bind_output lv (concat (map (\<lambda>(_, per_node). all_sources per_node) outs)) (all_sources (lv_inputs lv)))
        (enumerate 0 (outputs g)) (c4, []) = (c', o')"
  using assms unfolding graph_step_def Let_def
  by (auto simp: rbind_eq_Inr split: if_splits option.splits sum.splits prod.splits)

lemma feedback_fold:
  "list_all (\<lambda>b. length (sources b) = 1 \<and> addr_scope (destination b) = bs) (snd st) \<Longrightarrow>
     list_all (\<lambda>b. length (sources b) = 1 \<and> addr_scope (destination b) = bs) (snd (fold (bind_feedback s bs ins outs pr) ios st))"
  by (induction ios arbitrary: st) (auto simp: bind_feedback_def Let_def split: prod.splits)

lemma boundary_fold:
  "list_all (\<lambda>b. addr_scope (destination b) = bs) (fst st) \<Longrightarrow>
     list_all (\<lambda>b. addr_scope (destination b) = bs) (fst (fold (bind_boundary bs bound) ports st))"
  by (induction ports arbitrary: st) (auto simp: bind_boundary_def Let_def split: option.splits)

lemma loop_boundary_cases:
  assumes "loop_boundary sha b s c = (c', bd)"
  obtains fs where "c' = add_faults fs c" | fs p where "c' = add_faults fs (c\<lparr>consumed_pins := consumed_pins c @ [p]\<rparr>)"
proof (cases b)
  case (LoopRef r)
  obtain c1 stored where 1: "resolve_ref c r s = (c1, stored)" by (cases "resolve_ref c r s")
  have "\<exists>fs. c' = add_faults fs c1"
  proof (cases stored)
    case None
    then show ?thesis using assms by (auto simp: loop_boundary_def LoopRef 1 intro: exI [of _ "[]"])
  next
    case (Some v)
    then show ?thesis
      using assms boundary_lies_cases [of sha v s c1]
      by (auto simp: loop_boundary_def LoopRef 1 Let_def split: prod.splits if_splits)
  qed
  then show ?thesis using resolve_ref_cases [OF 1] that by (metis add_faults_simps(13))
next
  case (LoopGraph g)
  then show ?thesis using assms that(1) [of "[]"] by (simp add: loop_boundary_def)
qed

text \<open>A loop that is sealed: its body compiled, and the record appended.\<close>

lemma loop_step_cases:
  assumes "loop_step sha cn cg i l ctx c = Inr (c', o')"
  obtains (absent) "loop_boundary sha (loop_body l) (child (child (child (nc_scope ctx) i) LOOP_BODY_SEGMENT) ''$body'') c = (c', None)"
  | (sealed) c1 ins outs fs c3 bsrc c4 pr gs lr where
      "loop_boundary sha (loop_body l) (child (child (child (nc_scope ctx) i) LOOP_BODY_SEGMENT) ''$body'') c = (c1, Some (ins, outs))"
      "c3 = add_faults fs c1"
      "compile_loop_body cn cg (loop_body l) (child (child (nc_scope ctx) i) LOOP_BODY_SEGMENT) bsrc ctx c3 = Inr (c4, pr)"
      "loop_sealed (child (nc_scope ctx) i) c3 c4 gs lr"
      "c' = (add_faults gs c4)\<lparr>loops := loops c4 @ [lr]\<rparr>"
proof -
  let ?s = "child (nc_scope ctx) i" let ?bs = "child ?s LOOP_BODY_SEGMENT"
  obtain c1 bd where 1: "loop_boundary sha (loop_body l) (child ?bs ''$body'') c = (c1, bd)"
    by (cases "loop_boundary sha (loop_body l) (child ?bs ''$body'') c")
  show thesis
  proof (cases bd)
    case None
    then show ?thesis using assms that(1) by (simp add: loop_step_def Let_def 1)
  next
    case (Some io)
    obtain ins outs where io: "io = (ins, outs)" by (cases io)
    define c2 where "c2 = add_faults (unique_port_faults ins (render ?s @ '' body inputs'')
                         @ unique_port_faults outs (render ?s @ '' body outputs'')
                         @ concat (map (feedback_faults ?s (by_name ins) (by_name outs)) (feedback l))
                         @ continue_faults sha ?s (by_name outs) (continue_from l)) c1"
    obtain c3 bound where 3: "bind_inputs ins (set (dict_keys (feedback l))) ctx i c2 = (c3, bound)"
      by (cases "bind_inputs ins (set (dict_keys (feedback l))) ctx i c2")
    obtain fs where fs: "c3 = add_faults fs c1"
      using bind_inputs_cases [of ins "set (dict_keys (feedback l))" ctx i c2] 3 unfolding c2_def by (metis add_faults_simps(13) fst_conv)
    obtain initial bsrc where b: "fold (bind_boundary ?bs bound) ins ([], []) = (initial, bsrc)"
      by (cases "fold (bind_boundary ?bs bound) ins ([], [])")
    have body: "\<exists>c4 pr. compile_loop_body cn cg (loop_body l) ?bs bsrc ctx c3 = Inr (c4, pr)"
      using assms by (auto simp: loop_step_def Let_def 1 Some io 3 [unfolded c2_def set_map] b rbind_eq_Inr)
    then obtain c4 pr where 4: "compile_loop_body cn cg (loop_body l) ?bs bsrc ctx c3 = Inr (c4, pr)" by blast
    obtain ff fb where f: "fold (bind_feedback ?s ?bs (by_name ins) (by_name outs) pr) (feedback l) ([], []) = (ff, fb)"
      by (cases "fold (bind_feedback ?s ?bs (by_name ins) (by_name outs) pr) (feedback l) ([], [])")
    obtain cf cont where cc: "continue_of ?s ?bs (by_name outs) pr (continue_from l) = (cf, cont)"
      by (cases "continue_of ?s ?bs (by_name outs) pr (continue_from l)")
    obtain exps outer where e: "fold (bind_export (nc_scope ctx) i (continue_from l) pr) outs ([], []) = (exps, outer)"
      by (cases "fold (bind_export (nc_scope ctx) i (continue_from l) pr) outs ([], [])")
    let ?members = "drop (length (atomic_scopes c3)) (atomic_scopes c4)"
    let ?gs = "opt (?members = []) (EmptyLoopBody ?s) @ ff @ cf"
    let ?lr = "\<lparr>loop_scope = ?s, body_scope = ?bs, loop_max = max_iterations l, input_ports = ins,
                 initial_bindings = initial, feedback_bindings = fb, continue_source = cont, exports = exps, member_order = ?members\<rparr>"
    have "loop_sealed ?s c3 c4 ?gs ?lr"
      using feedback_fold [of ?bs "([], [])" ?s "by_name ins" "by_name outs" pr "feedback l"]
        boundary_fold [of ?bs "([], [])" bound ins]
      by (simp add: loop_sealed_def f b)
    moreover have "c' = (add_faults ?gs c4)\<lparr>loops := loops c4 @ [?lr]\<rparr>"
      using assms by (simp add: loop_step_def Let_def 1 Some io 3 [unfolded c2_def set_map] b 4 f cc e)
    ultimately show ?thesis using that(2) 1 Some io fs 4 by blast
  qed
qed

locale compile_law =
  fixes R :: "effective_grants \<Rightarrow> nat \<Rightarrow> scope \<Rightarrow> compilation \<Rightarrow> compilation \<Rightarrow> bool"
    and sha :: "nat list \<Rightarrow> string"
  assumes trans: "R g d s c c' \<Longrightarrow> R g d s c' c'' \<Longrightarrow> R g d s c c''"
    and narrow: "narrower g' g \<Longrightarrow> R g' d s c c' \<Longrightarrow> R g d s c c'"
    and widen_scope: "R g d (child s i) c c' \<Longrightarrow> R g d s c c'"
    and faults_recorded: "R g d s c (add_faults fs c)"
    and pin_consumed: "R g d s c (c\<lparr>consumed_pins := consumed_pins c @ [p]\<rparr>)"
    and composite: "comp_body (definition_of v) = Composite body \<Longrightarrow> select_version (snap c) r s (lock c) = Some v \<Longrightarrow>
      R g d s c (record_resolution sha (definition_of v) v r s c)"
    and atomic: "comp_body (definition_of v) = Atomic impl \<Longrightarrow> select_version (snap c) r s (lock c) = Some v \<Longrightarrow>
      s = child (nc_scope ctx) i \<Longrightarrow>
      bind_inputs (comp_inputs (definition_of v)) {} ctx i (record_resolution sha (definition_of v) v r s c) = (c', bound) \<Longrightarrow>
      R g d s c (fst (register_atomic i (definition_of v) s (nc_scope ctx) bound r g c'))"
    and loop: "R g 1 (child s LOOP_BODY_SEGMENT) c c1 \<Longrightarrow> loop_sealed s c c1 fs l \<Longrightarrow>
      R g 0 s c ((add_faults fs c1)\<lparr>loops := loops c1 @ [l]\<rparr>)"
begin

lemma refl: "R g d s c c"
  using faults_recorded [of g d s c "[]"] by simp

lemma resolve: "resolve_ref c r t = (c', stored) \<Longrightarrow> R g d s c c'"
  by (elim resolve_ref_cases) (auto intro: trans faults_recorded pin_consumed)

lemma lies: "R g d s c (fst (boundary_lies sha v t c))"
  using boundary_lies_cases [of sha v t c] faults_recorded by metis

lemma inputs_bound: "R g d s c (fst (bind_inputs ports fb ctx i c))"
  using bind_inputs_cases [of ports fb ctx i c] faults_recorded by metis

lemma member_law:
  assumes "node_law R cn" "compile_member cn g lv up node (c, outs) = Inr (c', outs')"
  shows "R (lv_grants lv) (lv_depth lv) (lv_scope lv) c c'"
  using assms widen_scope unfolding compile_member_def node_law_def Let_def
  by (fastforce simp: rbind_eq_Inr split: prod.splits)

lemma outputs_law: "R g d s c (fst (fold (bind_output lv pl ql) ips (c, outs)))"
proof (induction ips arbitrary: c outs)
  case (Cons ip ips)
  obtain c1 outs1 where 1: "bind_output lv pl ql ip (c, outs) = (c1, outs1)"
    by (cases "bind_output lv pl ql ip (c, outs)")
  then have "\<exists>fs. c1 = add_faults fs c" by (auto simp: bind_output_def Let_def split: prod.splits)
  then have "R g d s c c1" using faults_recorded by blast
  then show ?case using Cons.IH trans 1 by (metis fold_simps(2))
qed (simp add: refl)

lemma graph_step_law: "node_law R cn \<Longrightarrow> graph_law R (graph_step n cn)"
  unfolding graph_law_def
proof (intro allI impI)
  fix g lv c c' o' assume cn: "node_law R cn" and eq: "graph_step n cn g lv c = Inr (c', o')"
  let ?R = "R (lv_grants lv) (lv_depth lv) (lv_scope lv)"
  obtain fs up ns c4 outs pl ql ips where
    m: "rfold (compile_member cn g lv up) ns (add_faults fs c, []) = Inr (c4, outs)"
    and out: "fold (bind_output lv pl ql) ips (c4, []) = (c', o')"
    using graph_step_cases [OF eq] by metis
  have "?R c (fst (add_faults fs c, []))" using faults_recorded by simp
  then have "?R c (fst (c4, outs))"
  proof (rule rfold_invariant [OF m, where P = "\<lambda>st. ?R c (fst st)"])
    fix x u v assume u: "?R c (fst u)" and v: "compile_member cn g lv up x u = Inr v"
    obtain cu ou cv ov where "u = (cu, ou)" "v = (cv, ov)" by (cases u; cases v)
    then show "?R c (fst v)" using trans [OF u member_law [OF cn, of g lv up x "fst u" "snd u" "fst v" "snd v"]] v by simp
  qed
  then show "?R c c'" using out outputs_law trans by (metis fst_conv)
qed

lemma ref_step_law:
  assumes "graph_law R cg" "ref_step sha cg i r ctx c = Inr (c', o')"
  shows "R (nc_grants ctx) (nc_depth ctx) (child (nc_scope ctx) i) c c'"
proof -
  let ?s = "child (nc_scope ctx) i" let ?R = "R (nc_grants ctx) (nc_depth ctx) ?s"
  obtain c1 stored where 1: "resolve_ref c r ?s = (c1, stored)" by (cases "resolve_ref c r ?s")
  have r1: "?R c c1" using resolve [OF 1] .
  show ?thesis
  proof (cases stored)
    case None
    then show ?thesis using assms(2) r1 by (simp add: ref_step_def Let_def 1)
  next
    case (Some v)
    let ?d = "definition_of v"
    obtain c2 g fs where 2: "grant_step ?s (nc_grants ctx) (grants r) c1 = (c2, g)" "c2 = add_faults fs c1" "narrower g (nc_grants ctx)"
      using grant_step_cases by metis
    have r2: "?R c c2" using trans [OF r1] faults_recorded 2(2) by blast
    have sel: "select_version (snap c2) r ?s (lock c2) = Some v"
      using resolve_ref_Some 1 Some by (simp add: 2(2))
    let ?c3 = "record_resolution sha ?d v r ?s c2"
    obtain c4 bound where 4: "bind_inputs (comp_inputs ?d) {} ctx i ?c3 = (c4, bound)" by (cases "bind_inputs (comp_inputs ?d) {} ctx i ?c3")
    show ?thesis
    proof (cases "comp_body ?d")
      case (Atomic b)
      then have "c' = fst (register_atomic i ?d ?s (nc_scope ctx) bound r g c4)"
        using assms(2) by (simp add: ref_step_def Let_def 1 Some 2(1) 4)
      then show ?thesis using trans [OF r2] narrow [OF 2(3)] atomic [OF Atomic sel HOL.refl 4] by blast
    next
      case (Composite body)
      obtain c5 lie where 5: "boundary_lies sha v ?s c4 = (c5, lie)" by (cases "boundary_lies sha v ?s c4")
      have r4: "?R c c4" using trans [OF trans [OF r2 composite [OF Composite sel]]] inputs_bound 4 by (metis fst_conv)
      have r5: "?R c c5" using trans [OF r4] lies 5 by (metis fst_conv)
      show ?thesis
      proof (cases lie)
        case True
        then show ?thesis using assms(2) r5 by (simp add: ref_step_def Let_def 1 Some 2(1) 4 5 Composite)
      next
        case False
        then have "R g (nc_depth ctx) ?s c5 c'"
          using assms unfolding graph_law_def
          by (fastforce simp: ref_step_def Let_def 1 Some 2(1) 4 5 Composite)
        then show ?thesis using trans [OF r5] narrow [OF 2(3)] by blast
      qed
    qed
  qed
qed

lemma node_step_law: "graph_law R cg \<Longrightarrow> loop_law R cl \<Longrightarrow> node_law R (node_step sha cg cl)"
  unfolding node_law_def
proof (intro allI impI)
  fix n ctx c c' o' assume cg: "graph_law R cg" and cl: "loop_law R cl" and eq: "node_step sha cg cl n ctx c = Inr (c', o')"
  let ?i = "node_id n"
  show "R (nc_grants ctx) (nc_depth ctx) (child (nc_scope ctx) ?i) c c'"
  proof (cases "node_body n")
    case (RefBody r)
    then show ?thesis using eq ref_step_law [OF cg] by (simp add: node_step_def Let_def)
  next
    case (GraphBody g)
    obtain c1 bound where 1: "bind_inputs (inputs g) {} ctx ?i c = (c1, bound)" by (cases "bind_inputs (inputs g) {} ctx ?i c")
    have "R (nc_grants ctx) (nc_depth ctx) (child (nc_scope ctx) ?i) c c1" using inputs_bound 1 by (metis fst_conv)
    moreover have "R (nc_grants ctx) (nc_depth ctx) (child (nc_scope ctx) ?i) c1 c'"
      using cg eq unfolding graph_law_def by (fastforce simp: node_step_def Let_def GraphBody 1)
    ultimately show ?thesis by (rule trans)
  next
    case (LoopBody l)
    then show ?thesis
      using eq cl faults_recorded unfolding loop_law_def by (fastforce simp: node_step_def Let_def split: if_splits)
  qed
qed

lemma loop_step_law: "node_law R cn \<Longrightarrow> graph_law R cg \<Longrightarrow> loop_law R (loop_step sha cn cg)"
  unfolding loop_law_def
proof (intro allI impI)
  fix i l ctx c c' o'
  assume cn: "node_law R cn" and cg: "graph_law R cg" and eq: "loop_step sha cn cg i l ctx c = Inr (c', o')"
  let ?s = "child (nc_scope ctx) i" let ?bs = "child ?s LOOP_BODY_SEGMENT"
  have boundary: "R g d s c c1" if "loop_boundary sha (loop_body l) (child ?bs ''$body'') c = (c1, bd)" for g d s c1 bd
    using that by (rule loop_boundary_cases) (auto intro: trans faults_recorded pin_consumed)
  show "R (nc_grants ctx) 0 ?s c c'"
    using eq
  proof (cases rule: loop_step_cases)
    case absent
    then show ?thesis using boundary by blast
  next
    case (sealed c1 ins outs fs c3 bsrc c4 pr gs lr)
    have "R (nc_grants ctx) 1 ?bs c3 c4"
    proof (cases "loop_body l")
      case (LoopRef r)
      then have "R (nc_grants ctx) 1 (child ?bs ''$body'') c3 c4"
        using cn sealed(3) unfolding node_law_def by (fastforce simp: compile_loop_body_def)
      then show ?thesis by (rule widen_scope)
    next
      case (LoopGraph g)
      then show ?thesis using cg sealed(3) unfolding graph_law_def by (fastforce simp: compile_loop_body_def)
    qed
    then have "R (nc_grants ctx) 0 ?s c3 c'" using loop sealed(4,5) by blast
    then show ?thesis using trans [OF trans [OF boundary [OF sealed(1)] faults_recorded]] sealed(2) by blast
  qed
qed

lemma compile_laws: "graph_law R (compile_graph sha n) \<and> node_law R (compile_node sha n) \<and> loop_law R (compile_loop sha n)"
proof (induction n)
  case 0
  then show ?case by (simp add: graph_law_def node_law_def loop_law_def)
next
  case (Suc n)
  then show ?case by (simp add: graph_step_law node_step_law loop_step_law)
qed

lemma compile_graph_law: "compile_graph sha n g lv c = Inr (c', o') \<Longrightarrow> R (lv_grants lv) (lv_depth lv) (lv_scope lv) c c'"
  using compile_laws unfolding graph_law_def by blast

end


section \<open>What a manifest carries\<close>

definition within :: "scope \<Rightarrow> scope \<Rightarrow> bool" where
  "within s t \<longleftrightarrow> take (length s) t = s"

lemma within_refl [simp]: "within s s"
  by (simp add: within_def)

lemma within_child: "within (child s i) t \<Longrightarrow> within s t"
proof -
  assume "within (child s i) t"
  then have "take (length s) (take (length (child s i)) t) = take (length s) (child s i)" by (simp add: within_def)
  then show ?thesis by (simp add: within_def child_def min_def)
qed

lemma record_resolution_simps [simp]:
  "faults (record_resolution sha d v r s c) = faults c" "loops (record_resolution sha d v r s c) = loops c"
  "cap_bindings (record_resolution sha d v r s c) = cap_bindings c" "bindings (record_resolution sha d v r s c) = bindings c"
  "atomic_scopes (record_resolution sha d v r s c) = atomic_scopes c" "snap (record_resolution sha d v r s c) = snap c"
  "lock (record_resolution sha d v r s c) = lock c" "graph_hash (record_resolution sha d v r s c) = graph_hash c"
  by (simp_all add: record_resolution_def)

text \<open>A capability step records faults and at most one binding, with the instance's own grants.\<close>

lemma bind_capability_cases:
  "(\<exists>fs. bind_capability d s g ac c = add_faults fs c)
   \<or> (\<exists>fs b. bind_capability d s g ac c = (add_faults fs c)\<lparr>cap_bindings := cap_bindings c @ [b]\<rparr>
        \<and> effective_grants b = g \<and> bind_scope b = s)"
proof (cases "map_of (catalog c) (snd ac)")
  case None
  then show ?thesis by (cases ac) (auto simp: bind_capability_def)
next
  case (Some desc)
  obtain fs ch where "compiled_channel c d s (fst ac) desc = (fs, ch)" by (cases "compiled_channel c d s (fst ac) desc")
  then show ?thesis using Some by (cases ac) (force simp: bind_capability_def Let_def)
qed

text \<open>Registering an instance adds its self binding, bindings of its own scope and grants, and its scope.\<close>

lemma bind_capabilities:
  "\<exists>fs cs. fold (bind_capability d s g) acs c = (add_faults fs c)\<lparr>cap_bindings := cap_bindings c @ cs\<rparr>
     \<and> list_all (\<lambda>b. effective_grants b = g \<and> bind_scope b = s) cs"
proof (induction acs arbitrary: c)
  case Nil
  show ?case by (intro exI [of _ "[]"]) simp
next
  case (Cons ac acs)
  consider (1) fs where "bind_capability d s g ac c = add_faults fs c"
    | (2) fs b where "bind_capability d s g ac c = (add_faults fs c)\<lparr>cap_bindings := cap_bindings c @ [b]\<rparr>"
        "effective_grants b = g" "bind_scope b = s"
    using bind_capability_cases by blast
  then show ?case
  proof cases
    case (1 fs)
    obtain gs cs where "fold (bind_capability d s g) acs (add_faults fs c) = (add_faults gs (add_faults fs c))\<lparr>cap_bindings := cap_bindings (add_faults fs c) @ cs\<rparr>"
        "list_all (\<lambda>b. effective_grants b = g \<and> bind_scope b = s) cs" using Cons.IH by blast
    then show ?thesis by (intro exI [of _ "fs @ gs"] exI [of _ cs]) (simp add: 1)
  next
    case (2 fs b)
    let ?c = "(add_faults fs c)\<lparr>cap_bindings := cap_bindings c @ [b]\<rparr>"
    obtain gs cs where gs: "fold (bind_capability d s g) acs ?c = (add_faults gs ?c)\<lparr>cap_bindings := cap_bindings ?c @ cs\<rparr>"
        "list_all (\<lambda>b. effective_grants b = g \<and> bind_scope b = s) cs" using Cons.IH by blast
    have "(add_faults gs ?c)\<lparr>cap_bindings := cap_bindings ?c @ cs\<rparr> = (add_faults (fs @ gs) c)\<lparr>cap_bindings := cap_bindings c @ (b # cs)\<rparr>"
      by (simp add: add_faults_def)
    then show ?thesis using gs 2 by (intro exI [of _ "fs @ gs"] exI [of _ "b # cs"]) simp
  qed
qed

lemma register_atomic_cases:
  "\<exists>fs cs. fst (register_atomic i d s lv bound r g c) = (add_faults fs c)
       \<lparr>bindings := bindings c @ map (\<lambda>(p, xs). \<lparr>destination = NodePortAddress lv i p, sources = map src_address xs\<rparr>) bound,
        cap_bindings := cap_bindings c @ self_binding s g # cs, atomic_scopes := atomic_scopes c @ [s]\<rparr>
     \<and> list_all (\<lambda>b. effective_grants b = g \<and> bind_scope b = s) cs"
proof -
  let ?c1 = "c\<lparr>bindings := bindings c @ map (\<lambda>(p, xs). \<lparr>destination = NodePortAddress lv i p, sources = map src_address xs\<rparr>) bound,
                cap_bindings := cap_bindings c @ [self_binding s g]\<rparr>"
  obtain fs cs where "fold (bind_capability d s g) (sort_key fst (bind r)) ?c1 = (add_faults fs ?c1)\<lparr>cap_bindings := cap_bindings ?c1 @ cs\<rparr>"
      "list_all (\<lambda>b. effective_grants b = g \<and> bind_scope b = s) cs" using bind_capabilities by blast
  then show ?thesis
    by (intro exI [of _ fs] exI [of _ cs]) (simp add: register_atomic_def Let_def add_faults_def)
qed

text \<open>The state after one atomic instance.\<close>

definition instance_row :: "(nat list \<Rightarrow> string) \<Rightarrow> component_def \<Rightarrow> stored_version \<Rightarrow> ref \<Rightarrow> scope \<Rightarrow> resolution" where
  "instance_row sha d v r s = \<lparr>res_scope = s, res_component = comp_name d, requested_version = version r,
     resolved_version = stored_hash v, res_contract_hash = contract_digest sha d,
     implementation_digest = (case comp_body d of Composite _ \<Rightarrow> None | Atomic b \<Rightarrow> source_digest b)\<rparr>"

lemma atomic_state:
  assumes "bind_inputs ports {} ctx i (record_resolution sha d v r s c) = (c', bound)"
  obtains fs fs' cs where
    "bind_node_inputs ports (nc_explicit ctx) {} (nc_pool ctx) (nc_location ctx) (child (nc_scope ctx) i) (nc_site ctx) = (fs, bound)"
    "fst (register_atomic i d s (nc_scope ctx) bound r g c') = (add_faults (fs @ fs') c)
       \<lparr>resolutions := resolutions c @ [instance_row sha d v r s],
        bindings := bindings c @ map (\<lambda>(p, xs). \<lparr>destination = NodePortAddress (nc_scope ctx) i p, sources = map src_address xs\<rparr>) bound,
        cap_bindings := cap_bindings c @ self_binding s g # cs, atomic_scopes := atomic_scopes c @ [s]\<rparr>"
    "list_all (\<lambda>b. effective_grants b = g \<and> bind_scope b = s) cs"
proof -
  obtain fs where fs: "bind_node_inputs ports (nc_explicit ctx) {} (nc_pool ctx) (nc_location ctx) (child (nc_scope ctx) i) (nc_site ctx) = (fs, bound)"
      "c' = add_faults fs (record_resolution sha d v r s c)"
    using assms by (auto simp: bind_inputs_def Let_def split: prod.splits)
  obtain fs' cs where a: "fst (register_atomic i d s (nc_scope ctx) bound r g c') = (add_faults fs' c')
       \<lparr>bindings := bindings c' @ map (\<lambda>(p, xs). \<lparr>destination = NodePortAddress (nc_scope ctx) i p, sources = map src_address xs\<rparr>) bound,
        cap_bindings := cap_bindings c' @ self_binding s g # cs, atomic_scopes := atomic_scopes c' @ [s]\<rparr>"
      and cs: "list_all (\<lambda>b. effective_grants b = g \<and> bind_scope b = s) cs"
    using register_atomic_cases [of i d s "nc_scope ctx" bound r g c'] by blast
  show ?thesis
    by (rule that [OF fs(1) _ cs, of fs']) (subst a, simp add: fs(2) record_resolution_def instance_row_def add_faults_def)
qed

subsection \<open>Authority\<close>

definition authority_law :: "effective_grants \<Rightarrow> nat \<Rightarrow> scope \<Rightarrow> compilation \<Rightarrow> compilation \<Rightarrow> bool" where
  "authority_law g d s c c' \<longleftrightarrow> (\<exists>cs. cap_bindings c' = cap_bindings c @ cs
     \<and> list_all (\<lambda>b. narrower (effective_grants b) g \<and> within s (bind_scope b)) cs)"

interpretation authority: compile_law authority_law sha for sha
proof
  fix g g' d s i c c' c'' fs p v body impl r ctx bound c1 l
  show "authority_law g d s c c' \<Longrightarrow> authority_law g d s c' c'' \<Longrightarrow> authority_law g d s c c''"
    unfolding authority_law_def by fastforce
  show "narrower g' g \<Longrightarrow> authority_law g' d s c c' \<Longrightarrow> authority_law g d s c c'"
    unfolding authority_law_def using narrower_trans by (fastforce simp: list_all_iff)
  show "authority_law g d (child s i) c c' \<Longrightarrow> authority_law g d s c c'"
    unfolding authority_law_def using within_child by (fastforce simp: list_all_iff)
  show "authority_law g d s c (add_faults fs c)" "authority_law g d s c (c\<lparr>consumed_pins := consumed_pins c @ [p]\<rparr>)"
    "authority_law g d s c (record_resolution sha (definition_of v) v r s c)"
    by (simp_all add: authority_law_def)
  show "authority_law g 0 s c ((add_faults fs c1)\<lparr>loops := loops c1 @ [l]\<rparr>)"
    if "authority_law g 1 (child s LOOP_BODY_SEGMENT) c c1"
    using that within_child unfolding authority_law_def by (fastforce simp: list_all_iff)
  show "authority_law g d s c (fst (register_atomic i (definition_of v) s (nc_scope ctx) bound r g c'))"
    if b: "bind_inputs (comp_inputs (definition_of v)) {} ctx i (record_resolution sha (definition_of v) v r s c) = (c', bound)"
    using b by (rule atomic_state [of _ _ _ _ _ _ _ _ _ _ _ g]) (auto simp: authority_law_def self_binding_def list_all_iff)
qed

subsection \<open>Loops\<close>

text \<open>A sealed loop is a complete program: it has members, all inside its body; feedback takes one
  value from one source; every binding of its boundary addresses its body.\<close>

definition loop_wf :: "loop_resolution \<Rightarrow> bool" where
  "loop_wf l \<longleftrightarrow> body_scope l = child (loop_scope l) LOOP_BODY_SEGMENT \<and> member_order l \<noteq> []
     \<and> list_all (within (body_scope l)) (member_order l)
     \<and> list_all (\<lambda>b. length (sources b) = 1 \<and> addr_scope (destination b) = body_scope l) (feedback_bindings l)
     \<and> list_all (\<lambda>b. addr_scope (destination b) = body_scope l) (initial_bindings l)"

definition loops_law :: "effective_grants \<Rightarrow> nat \<Rightarrow> scope \<Rightarrow> compilation \<Rightarrow> compilation \<Rightarrow> bool" where
  "loops_law g d s c c' \<longleftrightarrow> (\<exists>fs ls as. faults c' = faults c @ fs \<and> loops c' = loops c @ ls
     \<and> atomic_scopes c' = atomic_scopes c @ as \<and> list_all (within s) as \<and> (d \<noteq> 0 \<longrightarrow> ls = [])
     \<and> (fs = [] \<longrightarrow> list_all loop_wf ls) \<and> list_all (\<lambda>l. set (member_order l) \<subseteq> set as) ls)"

lemma loops_law_trans: "loops_law g d s c c' \<Longrightarrow> loops_law g d s c' c'' \<Longrightarrow> loops_law g d s c c''"
  unfolding loops_law_def
proof (elim exE conjE)
  fix fs ls as fs' ls' as'
  assume "faults c' = faults c @ fs" "loops c' = loops c @ ls" "atomic_scopes c' = atomic_scopes c @ as" "list_all (within s) as"
    "d \<noteq> 0 \<longrightarrow> ls = []" "fs = [] \<longrightarrow> list_all loop_wf ls" "list_all (\<lambda>l. set (member_order l) \<subseteq> set as) ls"
    "faults c'' = faults c' @ fs'" "loops c'' = loops c' @ ls'" "atomic_scopes c'' = atomic_scopes c' @ as'" "list_all (within s) as'"
    "d \<noteq> 0 \<longrightarrow> ls' = []" "fs' = [] \<longrightarrow> list_all loop_wf ls'" "list_all (\<lambda>l. set (member_order l) \<subseteq> set as') ls'"
  then show "\<exists>fs ls as. faults c'' = faults c @ fs \<and> loops c'' = loops c @ ls \<and> atomic_scopes c'' = atomic_scopes c @ as
      \<and> list_all (within s) as \<and> (d \<noteq> 0 \<longrightarrow> ls = []) \<and> (fs = [] \<longrightarrow> list_all loop_wf ls) \<and> list_all (\<lambda>l. set (member_order l) \<subseteq> set as) ls"
    by (intro exI [of _ "fs @ fs'"] exI [of _ "ls @ ls'"] exI [of _ "as @ as'"]) (auto simp: list_all_iff)
qed

interpretation loop_programs: compile_law loops_law sha for sha
proof
  fix g g' d s i c c' c'' fs p v body impl r ctx bound c1 l
  show "loops_law g d s c c' \<Longrightarrow> loops_law g d s c' c'' \<Longrightarrow> loops_law g d s c c''" by (rule loops_law_trans)
  show "loops_law g' d s c c' \<Longrightarrow> loops_law g d s c c'" by (simp add: loops_law_def)
  show "loops_law g d (child s i) c c' \<Longrightarrow> loops_law g d s c c'"
    unfolding loops_law_def using within_child by (fastforce simp: list_all_iff)
  show "loops_law g d s c (add_faults fs c)" "loops_law g d s c (c\<lparr>consumed_pins := consumed_pins c @ [p]\<rparr>)"
    "loops_law g d s c (record_resolution sha (definition_of v) v r s c)"
    by (simp_all add: loops_law_def)
  show "loops_law g 0 s c ((add_faults fs c1)\<lparr>loops := loops c1 @ [l]\<rparr>)"
    if body: "loops_law g 1 (child s LOOP_BODY_SEGMENT) c c1" and l: "loop_sealed s c c1 fs l"
  proof -
    obtain gs as where b: "faults c1 = faults c @ gs" "loops c1 = loops c" "atomic_scopes c1 = atomic_scopes c @ as"
        "list_all (within (child s LOOP_BODY_SEGMENT)) as"
      using body by (auto simp: loops_law_def)
    have m: "member_order l = as" using l by (simp add: loop_sealed_def b(3))
    have "list_all (within s) as" using b(4) within_child by (auto simp: list_all_iff)
    moreover have "fs = [] \<longrightarrow> loop_wf l" using l b(4) by (auto simp: loop_sealed_def loop_wf_def m)
    ultimately show ?thesis
      unfolding loops_law_def
      by (intro exI [of _ "gs @ fs"] exI [of _ "[l]"] exI [of _ as]) (simp add: b m)
  qed
  show "loops_law g d s c (fst (register_atomic i (definition_of v) s (nc_scope ctx) bound r g c'))"
    if b: "bind_inputs (comp_inputs (definition_of v)) {} ctx i (record_resolution sha (definition_of v) v r s c) = (c', bound)"
    using b by (rule atomic_state [of _ _ _ _ _ _ _ _ _ _ _ g]) (simp add: loops_law_def)
qed

subsection \<open>Instances\<close>

text \<open>The inputs of an atomic instance in a list of sealed port bindings.\<close>

definition inputs_sealed :: "scope \<Rightarrow> component_def \<Rightarrow> port_binding list \<Rightarrow> bool" where
  "inputs_sealed s d bs = list_all (\<lambda>p. cardinality p = Optional
     \<or> list_ex (\<lambda>b. destination b = NodePortAddress (butlast s) (last s) (port_name p) \<and> sources b \<noteq> []) bs) (comp_inputs d)"

text \<open>A resolution is the version the resolution law selects at its scope; if it is atomic, its scope is
  an instance with its own sealed grants and its required inputs are bound.\<close>

definition row_sealed :: "snapshot \<Rightarrow> (scope, pin) dict option \<Rightarrow> port_binding list \<Rightarrow> capability_binding list \<Rightarrow> resolution \<Rightarrow> bool" where
  "row_sealed sn lk bs cs row \<longleftrightarrow> (\<exists>v r. select_version sn r (res_scope row) lk = Some v
     \<and> res_component row = comp_name (definition_of v) \<and> requested_version row = version r \<and> resolved_version row = stored_hash v
     \<and> (case comp_body (definition_of v) of Composite _ \<Rightarrow> True
        | Atomic _ \<Rightarrow> inputs_sealed (res_scope row) (definition_of v) bs
            \<and> list_ex (\<lambda>b. bind_scope b = res_scope row \<and> binding b = SELF_BINDING \<and> bound_capability b = SELF_CAPABILITY) cs))"

definition instances_law :: "effective_grants \<Rightarrow> nat \<Rightarrow> scope \<Rightarrow> compilation \<Rightarrow> compilation \<Rightarrow> bool" where
  "instances_law g d s c c' \<longleftrightarrow> snap c' = snap c \<and> lock c' = lock c \<and> graph_hash c' = graph_hash c
     \<and> (\<exists>fs rs bs cs. faults c' = faults c @ fs \<and> resolutions c' = resolutions c @ rs \<and> bindings c' = bindings c @ bs
          \<and> cap_bindings c' = cap_bindings c @ cs
          \<and> (fs = [] \<longrightarrow> list_all (row_sealed (snap c) (lock c) bs cs) rs))"

lemma row_sealed_mono:
  "row_sealed sn lk bs cs row \<Longrightarrow> set bs \<subseteq> set bs' \<Longrightarrow> set cs \<subseteq> set cs' \<Longrightarrow> row_sealed sn lk bs' cs' row"
  unfolding row_sealed_def inputs_sealed_def by (fastforce simp: list_all_iff list_ex_iff split: comp_body.splits)

lemma instances_law_trans: "instances_law g d s c c' \<Longrightarrow> instances_law g d s c' c'' \<Longrightarrow> instances_law g d s c c''"
  unfolding instances_law_def
proof (elim exE conjE, intro conjI)
  fix fs rs bs cs fs' rs' bs' cs'
  assume *: "snap c' = snap c" "lock c' = lock c" "graph_hash c' = graph_hash c" "snap c'' = snap c'" "lock c'' = lock c'" "graph_hash c'' = graph_hash c'"
    "faults c' = faults c @ fs" "resolutions c' = resolutions c @ rs" "bindings c' = bindings c @ bs" "cap_bindings c' = cap_bindings c @ cs"
    "fs = [] \<longrightarrow> list_all (row_sealed (snap c) (lock c) bs cs) rs"
    "faults c'' = faults c' @ fs'" "resolutions c'' = resolutions c' @ rs'" "bindings c'' = bindings c' @ bs'" "cap_bindings c'' = cap_bindings c' @ cs'"
    "fs' = [] \<longrightarrow> list_all (row_sealed (snap c') (lock c') bs' cs') rs'"
  then show "snap c'' = snap c" "lock c'' = lock c" "graph_hash c'' = graph_hash c" by simp_all
  have "list_all (row_sealed (snap c) (lock c) (bs @ bs') (cs @ cs')) (rs @ rs')" if "fs @ fs' = []"
    using that * by (auto simp: list_all_iff intro: row_sealed_mono)
  then show "\<exists>fs rs bs cs. faults c'' = faults c @ fs \<and> resolutions c'' = resolutions c @ rs \<and> bindings c'' = bindings c @ bs
      \<and> cap_bindings c'' = cap_bindings c @ cs \<and> (fs = [] \<longrightarrow> list_all (row_sealed (snap c) (lock c) bs cs) rs)"
    using * by (intro exI [of _ "fs @ fs'"] exI [of _ "rs @ rs'"] exI [of _ "bs @ bs'"] exI [of _ "cs @ cs'"]) simp
qed

lemma bound_inputs_sealed:
  assumes "bind_node_inputs (comp_inputs d) ex {} pool loc (child lv i) site = ([], bound)"
  shows "inputs_sealed (child lv i) d (map (\<lambda>(p, xs). \<lparr>destination = NodePortAddress lv i p, sources = map src_address xs\<rparr>) bound)"
proof -
  have ok: "inputs_ok (comp_inputs d) ([], bound)"
    using bind_node_inputs_inv [of "comp_inputs d" ex "{}" pool loc "child lv i" site] assms by simp
  have "\<exists>xs. (port_name p, xs) \<in> set bound \<and> xs \<noteq> []" if p: "p \<in> set (comp_inputs d)" "cardinality p \<noteq> Optional" for p
  proof -
    have "port_name p \<in> fst ` set bound" using ok p by (auto simp: inputs_ok_def list_all_iff)
    then obtain xs where "(port_name p, xs) \<in> set bound" by auto
    then show ?thesis using ok by (fastforce simp: inputs_ok_def list_all_iff list_ex_iff well_bound_def)
  qed
  then show ?thesis
    by (fastforce simp: inputs_sealed_def list_all_iff list_ex_iff child_def)
qed

interpretation instances: compile_law instances_law sha for sha
proof
  fix g g' d s i c c' c'' fs p v body impl r ctx bound c1 l
  show "instances_law g d s c c' \<Longrightarrow> instances_law g d s c' c'' \<Longrightarrow> instances_law g d s c c''" by (rule instances_law_trans)
  show "instances_law g' d s c c' \<Longrightarrow> instances_law g d s c c'" "instances_law g d (child s i) c c' \<Longrightarrow> instances_law g d s c c'"
    by (simp_all add: instances_law_def)
  show "instances_law g d s c (add_faults fs c)" "instances_law g d s c (c\<lparr>consumed_pins := consumed_pins c @ [p]\<rparr>)"
    by (simp_all add: instances_law_def)
  show "instances_law g 0 s c ((add_faults fs c1)\<lparr>loops := loops c1 @ [l]\<rparr>)"
    if "instances_law g 1 (child s LOOP_BODY_SEGMENT) c c1" using that by (auto simp: instances_law_def)
  show "instances_law g d s c (record_resolution sha (definition_of v) v r s c)"
    if "comp_body (definition_of v) = Composite body" "select_version (snap c) r s (lock c) = Some v"
    unfolding instances_law_def record_resolution_def using that
    by (auto simp: row_sealed_def intro!: exI [of _ v] exI [of _ r])
  show "instances_law g d s c (fst (register_atomic i (definition_of v) s (nc_scope ctx) bound r g c'))"
    if "comp_body (definition_of v) = Atomic impl" and sel: "select_version (snap c) r s (lock c) = Some v"
      and s: "s = child (nc_scope ctx) i"
      and b: "bind_inputs (comp_inputs (definition_of v)) {} ctx i (record_resolution sha (definition_of v) v r s c) = (c', bound)"
    using b
  proof (rule atomic_state [of _ _ _ _ _ _ _ _ _ _ _ g])
    fix gs gs' cs
    let ?bs = "map (\<lambda>(p, xs). \<lparr>destination = NodePortAddress (nc_scope ctx) i p, sources = map src_address xs\<rparr>) bound"
    assume bn: "bind_node_inputs (comp_inputs (definition_of v)) (nc_explicit ctx) {} (nc_pool ctx) (nc_location ctx) (child (nc_scope ctx) i) (nc_site ctx) = (gs, bound)"
      and st: "fst (register_atomic i (definition_of v) s (nc_scope ctx) bound r g c') = (add_faults (gs @ gs') c)
       \<lparr>resolutions := resolutions c @ [instance_row sha (definition_of v) v r s], bindings := bindings c @ ?bs,
        cap_bindings := cap_bindings c @ self_binding s g # cs, atomic_scopes := atomic_scopes c @ [s]\<rparr>"
    have "row_sealed (snap c) (lock c) ?bs (self_binding s g # cs) (instance_row sha (definition_of v) v r s)" if "gs = []"
      unfolding row_sealed_def using sel \<open>comp_body (definition_of v) = Atomic impl\<close> bound_inputs_sealed bn that s
      by (intro exI [of _ v] exI [of _ r]) (simp add: instance_row_def self_binding_def)
    then show ?thesis unfolding instances_law_def st
      by (intro conjI exI [of _ "gs @ gs'"] exI [of _ "[instance_row sha (definition_of v) v r s]"] exI [of _ ?bs] exI [of _ "self_binding s g # cs"]) simp_all
  qed
qed


section \<open>The admitted manifest\<close>

lemma admit_cases:
  assumes "admit sha n g w root run_inputs = Inr m"
  obtains given c where "json_value run_inputs = Inr (JObj given)"
    "admit_compiled sha n g w root (dict_keys given) = Inr c" "seal sha g (JObj given) c = Inr m"
  using assms unfolding admit_def by (auto simp: rbind_eq_Inr split: sum.splits json.splits)

lemma admit_compiled_cases:
  assumes "admit_compiled sha n g w root given = Inr c"
  obtains c0 c1 outs where "c0 = start_compilation sha w g" "input_faults g given = []"
    "compile_graph sha n g \<lparr>lv_scope = [graph_name g], lv_inputs = root_inputs g [graph_name g] given, lv_grants = root,
       lv_depth = 0, lv_location = root_location\<rparr> c0 = Inr (c1, outs)"
    "faults c1 = []" "c = c1\<lparr>bindings := bindings c1 @ output_bindings g [graph_name g] outs\<rparr>"
proof -
  let ?lv = "\<lparr>lv_scope = [graph_name g], lv_inputs = root_inputs g [graph_name g] given, lv_grants = root,
       lv_depth = 0, lv_location = root_location\<rparr>"
  let ?fs = "unique_port_faults (inputs g) (graph_name g @ '' graph inputs'')
                @ unique_port_faults (outputs g) (graph_name g @ '' graph outputs'') @ input_faults g given"
  obtain c1 outs where 1: "compile_graph sha n g ?lv (add_faults ?fs (start_compilation sha w g)) = Inr (c1, outs)"
    and c: "c = add_faults (unused_pins (c1\<lparr>bindings := bindings c1 @ output_bindings g [graph_name g] outs\<rparr>))
                  (c1\<lparr>bindings := bindings c1 @ output_bindings g [graph_name g] outs\<rparr>)" "faults c = []"
    using assms unfolding admit_compiled_def Let_def by (auto simp: rbind_eq_Inr split: prod.splits if_splits)
  have f: "faults c1 = []" "unused_pins (c1\<lparr>bindings := bindings c1 @ output_bindings g [graph_name g] outs\<rparr>) = []"
    using c by simp_all
  have "\<exists>fs. faults c1 = faults (add_faults ?fs (start_compilation sha w g)) @ fs"
    using loop_programs.compile_graph_law [OF 1] unfolding loops_law_def by blast
  then have "?fs = []" using f(1) by simp
  then show ?thesis using that 1 f c(1) by simp
qed

lemma seal_simps:
  assumes "seal sha g given c = Inr m"
  shows "capability_bindings m = cap_bindings c \<and> resolved_loops m = loops c \<and> resolved_components m = resolutions c
    \<and> resolved_connections m = bindings c \<and> source_graph m = g \<and> source_graph_hash m = graph_hash c
    \<and> manifest_hash m = manifest_hash_for sha m
    \<and> schema_version m = (if binds_channel (cap_bindings c) then MANIFEST_CHANNEL_SCHEMA_VERSION else MANIFEST_SCHEMA_VERSION)"
  using assms unfolding seal_def Let_def declared_version_check_def
  by (auto simp: manifest_hash_for_def manifest_identity_payload_def split: sum.splits if_splits)

lemma start_simps [simp]:
  "faults (start_compilation sha w g) = []" "cap_bindings (start_compilation sha w g) = []" "loops (start_compilation sha w g) = []"
  "resolutions (start_compilation sha w g) = []" "bindings (start_compilation sha w g) = []" "snap (start_compilation sha w g) = w_snapshot w"
  "graph_hash (start_compilation sha w g) = source_graph_hash_for sha g" "atomic_scopes (start_compilation sha w g) = []"
  by (simp_all add: start_compilation_def)

definition world_lock :: "world \<Rightarrow> (scope, pin) dict option" where
  "world_lock w = map_option (\<lambda>pins. dict_of (map (\<lambda>p. (pin_scope p, p)) pins)) (w_pins w)"

lemma start_lock [simp]: "lock (start_compilation sha w g) = world_lock w"
  by (simp add: start_compilation_def world_lock_def)

subsection \<open>A small world\<close>

definition tiny_component :: component_def where
  "tiny_component = \<lparr>comp_name = ''c'', role = NodeRole,
     comp_body = Atomic \<lparr>package = ''p'', py_module = ''m'', qualname = ''f'', contract_hash = ''h'', source_digest = Some ''src''\<rparr>,
     comp_inputs = [plain_port ''x'' ''T'' One], comp_outputs = [plain_port ''y'' ''T'' One],
     metadata = \<lparr>learning = None, metadata_lineage = None, labels = []\<rparr>, requirements = None\<rparr>"

definition tiny_world :: world where
  "tiny_world = \<lparr>w_snapshot = \<lparr>snap_revision = \<lparr>registration_seq = 1, promotion_seq = 1\<rparr>,
       versions = [(''c'', [(''v1'', \<lparr>definition_of = tiny_component, stored_hash = ''v1'', registered_at = 0\<rparr>)])],
       order = [(''c'', [''v1''])], stable = [(''c'', ''v1'')], history = []\<rparr>,
     w_catalog = [], w_capabilities = [], w_pins = None\<rparr>"

definition tiny_grants :: effective_grants where
  "tiny_grants = \<lparr>posture = READ, model_selection = \<lparr>selection_kind = BackendDefault, selection_model = None\<rparr>, effort = None,
     allowed_tools = [], env_allowlist = [], network = NoNetwork, timeout_s = 60\<rparr>"

definition tiny_ref :: ref where
  "tiny_ref = \<lparr>component = ''c'', version = None, bind = [], grants = None\<rparr>"

definition tiny_graph :: graph where
  "tiny_graph = Graph ''g'' [GNode ''n'' (RefBody tiny_ref)] [] [plain_port ''x'' ''T'' One] [plain_port ''y'' ''T'' One]"

definition tiny_inputs :: pyvalue where
  "tiny_inputs = PDict [(KStr (ustr_of ''x''), PInt 1)]"

abbreviation toy_sha :: "nat list \<Rightarrow> string" where
  "toy_sha \<equiv> (\<lambda>_. ''00'')"

lemmas topology_eval =
  endpoint_faults_def cycle_faults_def cycle_reports_def outgoing_def node_ids_def scan_from_def dict_get_or_def
  upstream_closure_def direct_parents_def merge_parent_def ordered_nodes_def dict_of_def

lemmas binding_eval =
  unique_port_faults_def entries_for_def explicit_maps_def node_pool_def all_sources_def bind_inputs_def bind_node_inputs_def
  bind_input_def group_entries_def unused_maps_def bind_port_def source_matches_def ports_same_contract_def bind_output_def

lemmas compile_eval =
  compile_member_def graph_step_def node_step_def ref_step_def resolve_ref_def select_version_def stable_version_def present_def
  get_version_def grant_step_def compile_grants_def record_resolution_def register_atomic_def add_faults_def child_def

lemma tiny_admitted: "\<exists>m. admit toy_sha 3 tiny_graph tiny_world tiny_grants tiny_inputs = Inr m \<and> length (capability_bindings m) = 1"
  by (simp add: admit_def tiny_inputs_def unicode_scalar_def is_surrogate_def ustr_of_def admit_compiled_def
      start_compilation_def input_faults_def root_inputs_def output_bindings_def unused_pins_def seal_def declared_version_check_def
      binds_channel_def self_binding_def MANIFEST_SCHEMA_VERSION_def MANIFEST_CHANNEL_SCHEMA_VERSION_def
      tiny_graph_def tiny_ref_def tiny_world_def tiny_component_def plain_port_def Let_def numeral_3_eq_3
      topology_eval binding_eval compile_eval)

end
