(* ===== verification/Admitted.thy ===== *)
theory Admitted
  imports Admission_Laws
begin

text \<open>
  The guarantees of an admitted manifest: what \<open>admit\<close> promises to the run machinery that executes what
  it sealed. Each is an instance of the compiler's induction principle, and each is shown on a small
  world whose admission is evaluated.
\<close>

section \<open>What a sealed manifest guarantees\<close>

lemma admitted_compilation:
  assumes "admit sha n g w root run_inputs = Inr m"
  obtains given c1 outs where "json_value run_inputs = Inr (JObj given)" "input_faults g (dict_keys given) = []"
    "compile_graph sha n g \<lparr>lv_scope = [graph_name g], lv_inputs = root_inputs g [graph_name g] (dict_keys given), lv_grants = root,
       lv_depth = 0, lv_location = root_location\<rparr> (start_compilation sha w g) = Inr (c1, outs)"
    "faults c1 = []"
    "seal sha g (JObj given) (c1\<lparr>bindings := bindings c1 @ output_bindings g [graph_name g] outs\<rparr>) = Inr m"
  using assms by (elim admit_cases admit_compiled_cases) simp

text \<open>C5. Admission never widens authority: every capability binding of an admitted manifest, however
  deeply its instance is nested in composites and loops, carries grants no wider than the run's root
  grants and belongs to an instance inside the run's root scope.\<close>

theorem admission_never_widens:
  assumes "admit sha n g w root run_inputs = Inr m"
  shows "list_all (\<lambda>b. narrower (effective_grants b) root \<and> within [graph_name g] (bind_scope b)) (capability_bindings m)"
  using assms
proof (rule admitted_compilation)
  fix given c1 outs
  assume c: "compile_graph sha n g \<lparr>lv_scope = [graph_name g], lv_inputs = root_inputs g [graph_name g] (dict_keys given), lv_grants = root,
       lv_depth = 0, lv_location = root_location\<rparr> (start_compilation sha w g) = Inr (c1, outs)"
    and s: "seal sha g (JObj given) (c1\<lparr>bindings := bindings c1 @ output_bindings g [graph_name g] outs\<rparr>) = Inr m"
  show ?thesis using authority.compile_graph_law [OF c] seal_simps [OF s] by (auto simp: authority_law_def)
qed

theorem admission_never_widens_witness:
  "\<exists>m. admit toy_sha 3 tiny_graph tiny_world tiny_grants tiny_inputs = Inr m
     \<and> list_all (\<lambda>b. narrower (effective_grants b) tiny_grants \<and> within [graph_name tiny_graph] (bind_scope b)) (capability_bindings m)
     \<and> capability_bindings m \<noteq> []"
  using tiny_admitted admission_never_widens [of toy_sha 3 tiny_graph tiny_world tiny_grants tiny_inputs] by fastforce

text \<open>C9. Every loop of an admitted manifest is a complete program: it has members, all of them inside
  its body scope; each feedback edge carries exactly one source into the body; and every boundary
  binding addresses the body.\<close>

theorem admitted_loops_complete:
  assumes "admit sha n g w root run_inputs = Inr m"
  shows "list_all loop_wf (resolved_loops m)"
  using assms
proof (rule admitted_compilation)
  fix given c1 outs
  assume c: "compile_graph sha n g \<lparr>lv_scope = [graph_name g], lv_inputs = root_inputs g [graph_name g] (dict_keys given), lv_grants = root,
       lv_depth = 0, lv_location = root_location\<rparr> (start_compilation sha w g) = Inr (c1, outs)"
    and s: "seal sha g (JObj given) (c1\<lparr>bindings := bindings c1 @ output_bindings g [graph_name g] outs\<rparr>) = Inr m"
    and f: "faults c1 = []"
  show ?thesis using loop_programs.compile_graph_law [OF c] seal_simps [OF s] f by (auto simp: loops_law_def)
qed

text \<open>C6. Every resolution row of an admitted manifest is the version the resolution law selects at its
  scope under the run's lock, and every atomic instance has its own sealed grant row and a nonempty sealed
  source list for each of its required inputs.\<close>

theorem admitted_instances_sealed:
  assumes "admit sha n g w root run_inputs = Inr m"
  shows "list_all (row_sealed (w_snapshot w) (world_lock w) (resolved_connections m) (capability_bindings m)) (resolved_components m)"
  using assms
proof (rule admitted_compilation)
  fix given c1 outs
  assume c: "compile_graph sha n g \<lparr>lv_scope = [graph_name g], lv_inputs = root_inputs g [graph_name g] (dict_keys given), lv_grants = root,
       lv_depth = 0, lv_location = root_location\<rparr> (start_compilation sha w g) = Inr (c1, outs)"
    and s: "seal sha g (JObj given) (c1\<lparr>bindings := bindings c1 @ output_bindings g [graph_name g] outs\<rparr>) = Inr m"
    and f: "faults c1 = []"
  have "list_all (row_sealed (w_snapshot w) (world_lock w) (bindings c1) (cap_bindings c1)) (resolutions c1)"
    using instances.compile_graph_law [OF c] f by (auto simp: instances_law_def)
  then show ?thesis using seal_simps [OF s] by (auto simp: list_all_iff intro: row_sealed_mono)
qed

theorem admitted_instances_sealed_witness:
  "\<exists>m. admit toy_sha 3 tiny_graph tiny_world tiny_grants tiny_inputs = Inr m
     \<and> list_all (row_sealed (w_snapshot tiny_world) (world_lock tiny_world) (resolved_connections m) (capability_bindings m)) (resolved_components m)"
  using tiny_admitted admitted_instances_sealed [of toy_sha 3 tiny_graph tiny_world tiny_grants tiny_inputs] by blast

text \<open>C8. The manifest admission seals is one the stored-manifest reader accepts: its graph is the
  submitted graph under its own hash, its declared schema version is supported and agrees with the channels it binds, and
  its identity is the hash of its content.\<close>

theorem admitted_manifest_revalidates:
  assumes "admit sha n g w root run_inputs = Inr m"
  shows "source_graph m = g \<and> source_graph_hash m = source_graph_hash_for sha g \<and> manifest_hash m = manifest_hash_for sha m
    \<and> declared_version_check m = Inr m \<and> validated_manifest_identity sha m = Inr m \<and> read_manifest sha m = Inr m"
  using assms
proof (rule admitted_compilation)
  fix given c1 outs
  assume c: "compile_graph sha n g \<lparr>lv_scope = [graph_name g], lv_inputs = root_inputs g [graph_name g] (dict_keys given), lv_grants = root,
       lv_depth = 0, lv_location = root_location\<rparr> (start_compilation sha w g) = Inr (c1, outs)"
    and s: "seal sha g (JObj given) (c1\<lparr>bindings := bindings c1 @ output_bindings g [graph_name g] outs\<rparr>) = Inr m"
  have "graph_hash c1 = source_graph_hash_for sha g"
    using instances.compile_graph_law [OF c] by (auto simp: instances_law_def)
  then show ?thesis
    using seal_simps [OF s]
    by (auto simp: Let_def declared_version_check_def validated_manifest_identity_def read_manifest_def MANIFEST_SCHEMA_VERSION_def MANIFEST_CHANNEL_SCHEMA_VERSION_def)
qed

theorem admitted_manifest_revalidates_witness:
  "\<exists>m. admit toy_sha 3 tiny_graph tiny_world tiny_grants tiny_inputs = Inr m \<and> source_graph m = tiny_graph
     \<and> read_manifest toy_sha m = Inr m"
  using tiny_admitted admitted_manifest_revalidates [of toy_sha 3 tiny_graph tiny_world tiny_grants tiny_inputs] by blast

subsection \<open>A world with a loop\<close>

definition loop_component :: component_def where
  "loop_component = tiny_component\<lparr>comp_outputs := [plain_port ''x'' ''T'' One,
     (plain_port ''go'' CONTINUE_TYPE One)\<lparr>schema_hash := CONTINUE_SCHEMA_HASH toy_sha\<rparr>]\<rparr>"

definition loop_world :: world where
  "loop_world = tiny_world\<lparr>w_snapshot := (w_snapshot tiny_world)
     \<lparr>versions := [(''c'', [(''v1'', \<lparr>definition_of = loop_component, stored_hash = ''v1'', registered_at = 0\<rparr>)])]\<rparr>\<rparr>"

definition loop_graph :: graph where
  "loop_graph = Graph ''g'' [GNode ''l'' (LoopBody (Loop (LoopRef tiny_ref) [(''x'', ''x'')] ''go'' 3))] []
     [plain_port ''x'' ''T'' One] [plain_port ''x'' ''T'' One]"

lemmas loop_eval =
  loop_step_def loop_boundary_def boundary_lies_def feedback_faults_def continue_faults_def by_name_def bind_boundary_def
  compile_loop_body_def bind_feedback_def continue_of_def bind_export_def

lemma loop_admitted:
  "\<exists>m. admit toy_sha (Suc (Suc (Suc (Suc 0)))) loop_graph loop_world tiny_grants tiny_inputs = Inr m \<and> length (resolved_loops m) = 1"
  by (simp add: admit_def tiny_inputs_def unicode_scalar_def is_surrogate_def ustr_of_def admit_compiled_def
      start_compilation_def input_faults_def root_inputs_def output_bindings_def unused_pins_def seal_def declared_version_check_def
      binds_channel_def self_binding_def MANIFEST_SCHEMA_VERSION_def MANIFEST_CHANNEL_SCHEMA_VERSION_def
      loop_graph_def tiny_ref_def loop_world_def tiny_world_def loop_component_def tiny_component_def plain_port_def Let_def
      topology_eval binding_eval compile_eval loop_eval)

theorem admitted_loops_complete_witness:
  "\<exists>m. admit toy_sha (Suc (Suc (Suc (Suc 0)))) loop_graph loop_world tiny_grants tiny_inputs = Inr m \<and> length (resolved_loops m) = 1
     \<and> list_all loop_wf (resolved_loops m)"
  using loop_admitted admitted_loops_complete [of toy_sha "Suc (Suc (Suc (Suc 0)))" loop_graph loop_world tiny_grants tiny_inputs] by blast

end
