(* ===== verification/Compiler_Depth.thy ===== *)
theory Compiler_Depth
  imports Admitted
begin

text \<open>
  The stack of the admission compiler. \<^verbatim>\<open>_compile_graph\<close>, \<^verbatim>\<open>_compile_node\<close> and \<^verbatim>\<open>_compile_loop\<close>
  recurse through composite components, and \<^verbatim>\<open>_upstream_closure\<close> and \<^verbatim>\<open>_ordered_nodes\<close> through the connections of
  a level, without a guard, so the model counts their frames. This theory shows
  that a result never depends on the stack it was computed on, that a library whose composites refer only
  to lower ranks compiles within an explicit number of frames, which the longest level takes part in, and that a composite that refers
  to itself exhausts every stack.
\<close>

section \<open>More depth never changes a result\<close>

definition below :: "admit_error + 'a \<Rightarrow> admit_error + 'a \<Rightarrow> bool" where
  "below x y \<longleftrightarrow> x = Inl RecursionErr \<or> x = y"

lemma below_refl [simp]: "below x x"
  by (simp add: below_def)

lemma below_bottom [simp]: "below (Inl RecursionErr) y"
  by (simp add: below_def)

lemma below_rbind: "below x y \<Longrightarrow> (\<And>a. below (f a) (h a)) \<Longrightarrow> below (rbind x f) (rbind y h)"
  unfolding below_def by (cases x; cases y) auto

lemma below_rfold: "(\<And>x s. below (f x s) (h x s)) \<Longrightarrow> below (rfold f xs s) (rfold h xs s)"
  by (induction xs arbitrary: s) (auto intro: below_rbind)

lemma below_trans: "below x y \<Longrightarrow> below y z \<Longrightarrow> below x z"
  by (auto simp: below_def)

lemma below_member:
  "(\<And>n ctx c. below (cn n ctx c) (cn' n ctx c)) \<Longrightarrow> below (compile_member cn g lv up node st) (compile_member cn' g lv up node st)"
  unfolding compile_member_def by (auto simp: Let_def intro!: below_rbind split: prod.splits)

lemma below_level:
  "stack_below x y \<Longrightarrow> (\<And>a. below (f a) (h a)) \<Longrightarrow>
   below (case x of Inl e \<Rightarrow> Inl (raised_by_level e) | Inr a \<Rightarrow> f a) (case y of Inl e \<Rightarrow> Inl (raised_by_level e) | Inr a \<Rightarrow> h a)"
  by (auto simp: stack_below_def raised_by_level_def split: sum.splits)

lemma below_graph_step:
  assumes "\<And>n ctx c. below (cn n ctx c) (cn' n ctx c)" "n \<le> k"
  shows "below (graph_step n cn g lv c) (graph_step k cn' g lv c)"
  unfolding graph_step_def Let_def
  by (auto intro!: below_level closure_below ordered_below below_rbind below_rfold below_member assms)

lemma below_ref_step:
  "(\<And>g lv c. below (cg g lv c) (cg' g lv c)) \<Longrightarrow> below (ref_step sha cg i r ctx c) (ref_step sha cg' i r ctx c)"
  unfolding ref_step_def Let_def by (auto split: prod.splits option.splits comp_body.splits)

lemma below_node_step:
  assumes "\<And>g lv c. below (cg g lv c) (cg' g lv c)" "\<And>i l ctx c. below (cl i l ctx c) (cl' i l ctx c)"
  shows "below (node_step sha cg cl n ctx c) (node_step sha cg' cl' n ctx c)"
  unfolding node_step_def Let_def using assms by (auto intro: below_ref_step split: body.splits prod.splits)

lemma below_loop_body:
  assumes "\<And>n ctx c. below (cn n ctx c) (cn' n ctx c)" "\<And>g lv c. below (cg g lv c) (cg' g lv c)"
  shows "below (compile_loop_body cn cg b bs start ctx c) (compile_loop_body cn' cg' b bs start ctx c)"
  unfolding compile_loop_body_def using assms by (auto split: loop_body.splits)

lemma below_loop_step:
  assumes "\<And>n ctx c. below (cn n ctx c) (cn' n ctx c)" "\<And>g lv c. below (cg g lv c) (cg' g lv c)"
  shows "below (loop_step sha cn cg i l ctx c) (loop_step sha cn' cg' i l ctx c)"
  unfolding loop_step_def Let_def
  by (auto intro!: below_rbind below_loop_body assms split: prod.splits option.splits)

lemma compile_below_Suc:
  "below (compile_graph sha n g lv c) (compile_graph sha (Suc n) g lv c)"
  "below (compile_node sha n node ctx c) (compile_node sha (Suc n) node ctx c)"
  "below (compile_loop sha n i l ctx c) (compile_loop sha (Suc n) i l ctx c)"
proof (induction n arbitrary: g lv c node ctx i l)
  case (Suc n)
  show "below (compile_graph sha (Suc n) g lv c) (compile_graph sha (Suc (Suc n)) g lv c)" for g lv c
    unfolding compile_graph.simps(2) by (rule below_graph_step) (rule Suc, simp)
  show "below (compile_node sha (Suc n) node ctx c) (compile_node sha (Suc (Suc n)) node ctx c)" for node ctx c
    unfolding compile_node.simps(2) by (rule below_node_step) (rule Suc)+
  show "below (compile_loop sha (Suc n) i l ctx c) (compile_loop sha (Suc (Suc n)) i l ctx c)" for i l ctx c
    unfolding compile_loop.simps(2) by (rule below_loop_step) (rule Suc)+
qed simp_all

lemma compile_below: "n \<le> k \<Longrightarrow> below (compile_graph sha n g lv c) (compile_graph sha k g lv c)"
  by (induction rule: dec_induct) (simp, blast intro: below_trans compile_below_Suc(1))

text \<open>
  The verdict of admission does not depend on the stack it ran on: unless the stack was
  exhausted, every deeper stack gives the same manifest, the same faults or the same error.\<close>

theorem admission_depth_irrelevant:
  assumes "admit sha n g w root run_inputs \<noteq> Inl RecursionErr" "n \<le> k"
  shows "admit sha k g w root run_inputs = admit sha n g w root run_inputs"
proof -
  have "below (admit_compiled sha n g w root given) (admit_compiled sha k g w root given)" for given
    unfolding admit_compiled_def Let_def by (intro below_rbind compile_below assms(2)) simp
  then have "below (admit sha n g w root run_inputs) (admit sha k g w root run_inputs)"
    unfolding admit_def by (auto intro!: below_rbind split: sum.splits json.splits)
  then show ?thesis using assms(1) by (auto simp: below_def)
qed

theorem admission_depth_irrelevant_witness:
  "admit toy_sha 1000 tiny_graph tiny_world tiny_grants tiny_inputs = admit toy_sha 3 tiny_graph tiny_world tiny_grants tiny_inputs"
  by (rule admission_depth_irrelevant) (use tiny_admitted in auto)

section \<open>A ranked library compiles within a bounded depth\<close>

primrec graph_refs :: "graph \<Rightarrow> ref list"
and gnode_refs :: "gnode \<Rightarrow> ref list"
and body_refs :: "body \<Rightarrow> ref list"
and loop_refs :: "loop \<Rightarrow> ref list"
and loop_body_refs :: "loop_body \<Rightarrow> ref list"
where
  "graph_refs (Graph name ns cs ins outs) = concat (map gnode_refs ns)"
| "gnode_refs (GNode i b) = body_refs b"
| "body_refs (RefBody r) = [r]"
| "body_refs (GraphBody g) = graph_refs g"
| "body_refs (LoopBody l) = loop_refs l"
| "loop_refs (Loop b fb cont n) = loop_body_refs b"
| "loop_body_refs (LoopRef r) = [r]"
| "loop_body_refs (LoopGraph g) = graph_refs g"

text \<open>
  The frames a graph takes without the composites it refers to: of one level the closure or the placement, which take a frame
  and one for each node, or the compilation of a node.
\<close>

primrec graph_height :: "graph \<Rightarrow> nat"
and gnode_height :: "gnode \<Rightarrow> nat"
and body_height :: "body \<Rightarrow> nat"
and loop_height :: "loop \<Rightarrow> nat"
and loop_body_height :: "loop_body \<Rightarrow> nat"
where
  "graph_height (Graph name ns cs ins outs) = Suc (Max (insert (Suc (length ns)) (set (map gnode_height ns))))"
| "gnode_height (GNode i b) = Suc (body_height b)"
| "body_height (RefBody r) = 0"
| "body_height (GraphBody g) = graph_height g"
| "body_height (LoopBody l) = loop_height l"
| "loop_height (Loop b fb cont n) = Suc (loop_body_height b)"
| "loop_body_height (LoopRef r) = 1"
| "loop_body_height (LoopGraph g) = graph_height g"

text \<open>Every stored composite takes at most \<open>h\<close> frames and refers only to components of a lower rank.\<close>

definition ranked_library :: "(string \<Rightarrow> nat) \<Rightarrow> nat \<Rightarrow> snapshot \<Rightarrow> bool" where
  "ranked_library rank h sn = list_all (\<lambda>(name, vs). list_all (\<lambda>(_, v).
     case comp_body (definition_of v) of Atomic _ \<Rightarrow> True
     | Composite g \<Rightarrow> graph_height g \<le> h \<and> list_all (\<lambda>r. rank (component r) < rank name) (graph_refs g)) vs) (versions sn)"

lemma node_height_less: "n \<in> set (nodes g) \<Longrightarrow> gnode_height n < graph_height g"
  by (cases g) (auto simp: less_Suc_eq_le intro: Max_ge)

lemma level_height: "Suc (length (nodes g)) < graph_height g"
  by (cases g) (simp add: less_Suc_eq_le)

lemma node_refs_subset: "n \<in> set (nodes g) \<Longrightarrow> set (gnode_refs n) \<subseteq> set (graph_refs g)"
  by (cases g) auto

lemma selected_version_stored:
  assumes "select_version sn r s lk = Some v"
  obtains vs h where "(component r, vs) \<in> set (versions sn)" "(h, v) \<in> set vs"
  using assms unfolding select_version_def get_version_def dict_get_or_def
  by (auto split: option.splits if_splits dest!: map_of_SomeD)

lemma ordered_nodes_declared:
  assumes "endpoint_faults g s l = []" "cycle_faults g s l = []" "upstream_closure n g = Inr up" "ordered_nodes n g up = Inr ns"
  shows "set ns = set (nodes g)"
proof -
  let ?d = "dict_of (map (\<lambda>n. (node_id n, n)) (nodes g))"
  have "length ?d = length (nodes g)" using assms(4) by (auto simp: ordered_nodes_def Let_def split: if_splits)
  moreover have "card (set (map fst ?d)) = length ?d" using distinct_card [OF distinct_keys_dict_of] by (metis length_map)
  moreover have "set (map fst ?d) = set (node_ids g)" by (simp add: keys_dict_of node_ids_def image_image)
  ultimately have "distinct (node_ids g)" by (intro card_distinct) (simp add: node_ids_def)
  then have "level_admissible g"
    using assms(1,2) by (simp add: level_admissible_def endpoint_faults_Nil cycle_faults_def)
  then show ?thesis using order_scheduled [OF _ assms(3,4)] by (simp add: scheduled_def)
qed

lemma rfold_raises:
  assumes "rfold f xs s = Inl e" "P s" "\<And>x s s'. x \<in> set xs \<Longrightarrow> P s \<Longrightarrow> f x s = Inr s' \<Longrightarrow> P s'"
  shows "\<exists>x\<in>set xs. \<exists>s. P s \<and> f x s = Inl e"
  using assms
proof (induction xs arbitrary: s)
  case (Cons x xs)
  show ?case
  proof (cases "f x s")
    case (Inl e')
    then show ?thesis using Cons.prems by auto
  next
    case (Inr s')
    then have "rfold f xs s' = Inl e" "P s'" using Cons.prems by auto
    then show ?thesis using Cons.IH Cons.prems(3) by (meson list.set_intros(2))
  qed
qed simp

text \<open>Two states of one compilation resolve references alike.\<close>

definition same_world :: "compilation \<Rightarrow> compilation \<Rightarrow> bool" where
  "same_world c c' \<longleftrightarrow> snap c' = snap c \<and> lock c' = lock c"

lemma same_world_simps [simp]: "same_world c c" "same_world c (add_faults fs c)" "same_world c (fst (grant_step s p q c))"
  "same_world c (record_resolution sha d v r s c)" "same_world c (fst (bind_inputs ports fb ctx i c))"
  "same_world c (fst (boundary_lies sha v s c))"
  using bind_inputs_cases [of ports fb ctx i c] boundary_lies_cases [of sha v s c]
  by (auto simp: same_world_def grant_step_def split: prod.splits)

lemma same_world_trans [trans]: "same_world a b \<Longrightarrow> same_world b c \<Longrightarrow> same_world a c"
  by (simp add: same_world_def)

lemma compile_keeps_world:
  "compile_node sha n node ctx c = Inr (c', o') \<Longrightarrow> same_world c c'"
  using instances.compile_laws [of sha n] unfolding node_law_def instances_law_def same_world_def by blast

text \<open>A level raises the recursion error itself only when it is longer than the stack.\<close>

lemma order_enough:
  assumes "endpoint_faults g s l = []" "cycle_faults g s l = []" "length (nodes g) < n"
  shows "upstream_closure n g \<noteq> Inl StackExhausted" "upstream_closure n g = Inr up \<Longrightarrow> ordered_nodes n g up \<noteq> Inl StackExhausted"
proof -
  have e: "endpoints_declared g" "acyclic (edges g)"
    using assms(1,2) cycle_search_decides [OF assms(1)] by (simp_all add: endpoint_faults_Nil)
  show "upstream_closure n g \<noteq> Inl StackExhausted" using upstream_closure_ok [OF e assms(3)] by auto
  assume up: "upstream_closure n g = Inr up"
  show "ordered_nodes n g up \<noteq> Inl StackExhausted"
  proof (cases "distinct (node_ids g)")
    case True
    then show ?thesis using ordered_nodes_ok [OF e _ assms(3) up] by auto
  next
    case False
    let ?d = "dict_of (map (\<lambda>n. (node_id n, n)) (nodes g))"
    have "set (map fst ?d) = set (node_ids g)" by (simp add: keys_dict_of node_ids_def image_image)
    moreover have "card (set (map fst ?d)) = length ?d" using distinct_card [OF distinct_keys_dict_of] by (metis length_map)
    ultimately have "length ?d \<noteq> length (nodes g)" using False card_distinct [of "node_ids g"] by (auto simp: node_ids_def)
    then show ?thesis by (simp add: ordered_nodes_def Let_def)
  qed
qed

lemma graph_step_raises:
  assumes "graph_step n (compile_node sha n) g lv c = Inl RecursionErr" "length (nodes g) < n"
  obtains node ctx c' where "node \<in> set (nodes g)" "compile_node sha n node ctx c' = Inl RecursionErr" "same_world c c'"
    "nc_scope ctx = lv_scope lv"
proof -
  let ?f = "compile_member (compile_node sha n) g lv"
  have e: "endpoint_faults g (lv_scope lv) (lv_location lv) = []" "cycle_faults g (lv_scope lv) (lv_location lv) = []"
    using assms(1) unfolding graph_step_def Let_def by (auto split: if_splits)
  obtain fs up ns where ns: "upstream_closure n g = Inr up" "ordered_nodes n g up = Inr ns"
      and r: "rfold (?f up) ns (add_faults fs c, []) = Inl RecursionErr"
    using assms(1) order_enough [OF e assms(2)] unfolding graph_step_def Let_def
    by (auto simp: rbind_eq_Inl raised_by_level_def split: if_splits sum.splits prod.splits level_error.splits)
  have "\<exists>x\<in>set ns. \<exists>s. same_world c (fst s) \<and> ?f up x s = Inl RecursionErr"
    using r
  proof (rule rfold_raises)
    show "same_world c (fst s')" if "same_world c (fst s)" "?f up x s = Inr s'" for x s s'
      using that compile_keeps_world unfolding compile_member_def Let_def same_world_def
      by (fastforce simp: rbind_eq_Inr split: prod.splits)
  qed simp
  then show ?thesis
    using that ordered_nodes_declared [OF e ns]
    unfolding compile_member_def Let_def by (auto simp: rbind_eq_Inl split: prod.splits)
qed

lemma ref_step_raises:
  assumes "ref_step sha cg i r ctx c = Inl RecursionErr"
  obtains v g lv c' where "select_version (snap c) r (child (nc_scope ctx) i) (lock c) = Some v"
    "comp_body (definition_of v) = Composite g" "cg g lv c' = Inl RecursionErr" "same_world c c'" "lv_scope lv = child (nc_scope ctx) i"
proof -
  let ?s = "child (nc_scope ctx) i"
  obtain c1 stored where 1: "resolve_ref c r ?s = (c1, stored)" by (cases "resolve_ref c r ?s")
  obtain v where v: "stored = Some v" using assms by (cases stored) (auto simp: ref_step_def Let_def 1)
  have sel: "select_version (snap c) r ?s (lock c) = Some v" "same_world c c1" using resolve_ref_Some 1 v by (auto simp: same_world_def)
  obtain c2 g2 where 2: "grant_step ?s (nc_grants ctx) (grants r) c1 = (c2, g2)"
    by (cases "grant_step ?s (nc_grants ctx) (grants r) c1")
  define c3 where "c3 = record_resolution sha (definition_of v) v r ?s c2"
  obtain c4 bound where 4: "bind_inputs (comp_inputs (definition_of v)) {} ctx i c3 = (c4, bound)"
    by (cases "bind_inputs (comp_inputs (definition_of v)) {} ctx i c3")
  obtain g where g: "comp_body (definition_of v) = Composite g"
    using assms by (cases "comp_body (definition_of v)") (auto simp: ref_step_def Let_def 1 v 2 4 [unfolded c3_def])
  obtain c5 lies where 5: "boundary_lies sha v ?s c4 = (c5, lies)" by (cases "boundary_lies sha v ?s c4")
  note sel(2)
  also have "same_world c1 c2" using same_world_simps(3) [of c1 ?s "nc_grants ctx" "grants r"] by (simp add: 2)
  also have "same_world c2 c3" by (simp add: c3_def)
  also have "same_world c3 c4" using same_world_simps(5) [of c3 "comp_inputs (definition_of v)" "{}" ctx i] by (simp add: 4)
  also have "same_world c4 c5" using same_world_simps(6) [of c4 sha v ?s] by (simp add: 5)
  finally have "same_world c c5" .
  moreover have "\<exists>lv. cg g lv c5 = Inl RecursionErr \<and> lv_scope lv = ?s"
    using assms by (auto simp: ref_step_def Let_def 1 v 2 4 [unfolded c3_def] g 5 split: if_splits)
  ultimately show ?thesis using that sel(1) g by blast
qed

lemma loop_step_raises:
  assumes "loop_step sha cn cg i l ctx c = Inl RecursionErr"
  obtains r ctx' c' where "loop_body l = LoopRef r" "cn (GNode ''$body'' (RefBody r)) ctx' c' = Inl RecursionErr" "same_world c c'"
      "nc_scope ctx' = child (child (nc_scope ctx) i) LOOP_BODY_SEGMENT"
  | g lv c' where "loop_body l = LoopGraph g" "cg g lv c' = Inl RecursionErr" "same_world c c'"
      "lv_scope lv = child (child (nc_scope ctx) i) LOOP_BODY_SEGMENT"
proof -
  let ?s = "child (nc_scope ctx) i" let ?bs = "child ?s LOOP_BODY_SEGMENT"
  obtain c1 bd where 1: "loop_boundary sha (loop_body l) (child ?bs ''$body'') c = (c1, bd)"
    by (cases "loop_boundary sha (loop_body l) (child ?bs ''$body'') c")
  obtain ins outs where bd: "bd = Some (ins, outs)"
    using assms by (cases bd) (auto simp: loop_step_def Let_def 1)
  define c2 where "c2 = add_faults (unique_port_faults ins (render ?s @ '' body inputs'')
                         @ unique_port_faults outs (render ?s @ '' body outputs'')
                         @ concat (map (feedback_faults ?s (by_name ins) (by_name outs)) (feedback l))
                         @ continue_faults sha ?s (by_name outs) (continue_from l)) c1"
  obtain c3 bound where 3: "bind_inputs ins (set (dict_keys (feedback l))) ctx i c2 = (c3, bound)"
    by (cases "bind_inputs ins (set (dict_keys (feedback l))) ctx i c2")
  obtain initial bsrc where b: "fold (bind_boundary ?bs bound) ins ([], []) = (initial, bsrc)"
    by (cases "fold (bind_boundary ?bs bound) ins ([], [])")
  have body: "compile_loop_body cn cg (loop_body l) ?bs bsrc ctx c3 = Inl RecursionErr"
    using assms by (auto simp: loop_step_def Let_def 1 bd 3 [unfolded c2_def set_map] b rbind_eq_Inl case_prod_unfold)
  have "same_world c c1" using 1 by (elim loop_boundary_cases) (auto simp: same_world_def)
  also have "same_world c1 c2" by (simp add: c2_def)
  also have "same_world c2 c3" using same_world_simps(5) [of c2 ins "set (dict_keys (feedback l))" ctx i] by (simp only: 3 fst_conv)
  finally have "same_world c c3" .
  then show ?thesis using body that by (cases "loop_body l") (auto simp: compile_loop_body_def)
qed

lemma node_step_raises:
  assumes "node_step sha cg cl node ctx c = Inl RecursionErr"
  obtains r where "node_body node = RefBody r" "ref_step sha cg (node_id node) r ctx c = Inl RecursionErr"
  | g lv c' where "node_body node = GraphBody g" "cg g lv c' = Inl RecursionErr" "same_world c c'" "lv_scope lv = child (nc_scope ctx) (node_id node)"
  | l where "node_body node = LoopBody l" "cl (node_id node) l ctx c = Inl RecursionErr"
proof (cases "node_body node")
  case (GraphBody g)
  obtain c1 bound where b: "bind_inputs (inputs g) {} ctx (node_id node) c = (c1, bound)"
    by (cases "bind_inputs (inputs g) {} ctx (node_id node) c")
  then have "same_world c c1" using same_world_simps(5) [of c "inputs g" "{}" ctx "node_id node"] by simp
  then show ?thesis using assms that(2) [OF GraphBody] by (auto simp: node_step_def Let_def GraphBody b)
qed (use assms that in \<open>auto simp: node_step_def Let_def split: if_splits\<close>)

definition ranks_below :: "(string \<Rightarrow> nat) \<Rightarrow> nat \<Rightarrow> ref list \<Rightarrow> bool" where
  "ranks_below rank k rs = list_all (\<lambda>r. rank (component r) < k) rs"

lemma ranks_below_subset: "ranks_below rank k rs \<Longrightarrow> set qs \<subseteq> set rs \<Longrightarrow> ranks_below rank k qs"
  by (auto simp: ranks_below_def list_all_iff)

lemma depth_suffices:
  assumes "ranked_library rank h sn"
  shows "snap c = sn \<Longrightarrow> ranks_below rank k (graph_refs g) \<Longrightarrow> graph_height g + k * h \<le> n \<Longrightarrow> compile_graph sha n g lv c \<noteq> Inl RecursionErr"
    and "snap c = sn \<Longrightarrow> ranks_below rank k (gnode_refs node) \<Longrightarrow> gnode_height node + k * h \<le> n \<Longrightarrow> compile_node sha n node ctx c \<noteq> Inl RecursionErr"
    and "snap c = sn \<Longrightarrow> ranks_below rank k (loop_refs l) \<Longrightarrow> loop_height l + k * h \<le> n \<Longrightarrow> compile_loop sha n i l ctx c \<noteq> Inl RecursionErr"
proof (induction n arbitrary: k c g lv node ctx l i)
  case 0
  { case 1 then show ?case by (cases g) simp }
  { case 2 then show ?case by (cases node) simp }
  { case 3 then show ?case by (cases l) simp }
next
  case (Suc n)
  { case 1
    show ?case
    proof
      assume "compile_graph sha (Suc n) g lv c = Inl RecursionErr"
      then have "graph_step n (compile_node sha n) g lv c = Inl RecursionErr" by simp
      moreover have "length (nodes g) < n" using level_height [of g] 1(3) by simp
      ultimately obtain node ctx c' where n: "node \<in> set (nodes g)" "compile_node sha n node ctx c' = Inl RecursionErr" "snap c' = snap c"
        by (rule graph_step_raises) (simp add: that same_world_def)
      have "gnode_height node + k * h \<le> n" using node_height_less [OF n(1)] 1(3) by simp
      moreover have "ranks_below rank k (gnode_refs node)" using ranks_below_subset [OF 1(2)] node_refs_subset [OF n(1)] by simp
      ultimately show False using Suc.IH(2) n(2,3) 1(1) by blast
    qed }
  { case 2
    obtain i b where node: "node = GNode i b" by (cases node)
    show ?case
    proof
      assume "compile_node sha (Suc n) node ctx c = Inl RecursionErr"
      then have "node_step sha (compile_graph sha n) (compile_loop sha n) node ctx c = Inl RecursionErr" by simp
      then show False
      proof (rule node_step_raises)
        fix r assume r: "node_body node = RefBody r" "ref_step sha (compile_graph sha n) (node_id node) r ctx c = Inl RecursionErr"
        obtain v g lv c' s lk where v: "select_version (snap c) r s lk = Some v" "comp_body (definition_of v) = Composite g"
            "compile_graph sha n g lv c' = Inl RecursionErr" "snap c' = snap c"
          using r(2) by (rule ref_step_raises) (simp add: that same_world_def)
        obtain vs hh where "(component r, vs) \<in> set (versions (snap c))" "(hh, v) \<in> set vs"
          using selected_version_stored [OF v(1)] by blast
        then have g: "graph_height g \<le> h" "ranks_below rank (rank (component r)) (graph_refs g)"
          using assms 2(1) v(2) by (fastforce simp: ranked_library_def ranks_below_def list_all_iff)+
        have "Suc (rank (component r)) \<le> k" using 2(2) r(1) node by (simp add: ranks_below_def)
        then have "Suc (rank (component r)) * h \<le> k * h" by (rule mult_le_mono1)
        then have "graph_height g + rank (component r) * h \<le> n" using g(1) 2(3) node r(1) by simp
        then show False using Suc.IH(1) g(2) v(3,4) 2(1) by metis
      next
        fix g lv c' assume g: "node_body node = GraphBody g" "compile_graph sha n g lv c' = Inl RecursionErr" "same_world c c'"
        then show False using Suc.IH(1) [of c' k g lv] 2 node by (simp add: same_world_def)
      next
        fix l assume l: "node_body node = LoopBody l" "compile_loop sha n (node_id node) l ctx c = Inl RecursionErr"
        then show False using Suc.IH(3) [of c k l "node_id node" ctx] 2 node by simp
      qed
    qed }
  { case 3
    obtain b fb cont m where l: "l = Loop b fb cont m" by (cases l)
    show ?case
    proof
      assume "compile_loop sha (Suc n) i l ctx c = Inl RecursionErr"
      then have "loop_step sha (compile_node sha n) (compile_graph sha n) i l ctx c = Inl RecursionErr" by simp
      then show False
      proof (rule loop_step_raises)
        fix r ctx' c' assume "loop_body l = LoopRef r" "compile_node sha n (GNode ''$body'' (RefBody r)) ctx' c' = Inl RecursionErr" "same_world c c'"
        then show False using Suc.IH(2) [of c' k "GNode ''$body'' (RefBody r)" ctx'] 3 l by (simp add: same_world_def)
      next
        fix g lv c' assume "loop_body l = LoopGraph g" "compile_graph sha n g lv c' = Inl RecursionErr" "same_world c c'"
        then show False using Suc.IH(1) [of c' k g lv] 3 l by (simp add: same_world_def)
      qed
    qed }
qed

text \<open>C29. Admission ends within an explicit stack on every ranked library: if each stored composite refers only to
  components of a lower rank and takes at most \<open>h\<close> frames by itself, and the submitted graph refers to ranks below
  \<open>k\<close>, then the graph's own frames and \<open>k * h\<close> more are never exhausted by the compiler's recursion. The frames of a graph
  count the calls between \<^verbatim>\<open>_compile_graph\<close>, \<^verbatim>\<open>_compile_node\<close> and \<^verbatim>\<open>_compile_loop\<close>, and for each level the recursion of
  \<^verbatim>\<open>_upstream_closure\<close> and \<^verbatim>\<open>_ordered_nodes\<close>, which goes as deep as the level has nodes.\<close>

theorem admission_depth_bound:
  assumes "ranked_library rank h (w_snapshot w)" "ranks_below rank k (graph_refs g)" "graph_height g + k * h \<le> n"
  shows "admit sha n g w root run_inputs \<noteq> Inl RecursionErr"
proof -
  have "admit_compiled sha n g w root given \<noteq> Inl RecursionErr" for given
    using depth_suffices(1) [OF assms(1) _ assms(2,3)] unfolding admit_compiled_def Let_def
    by (auto simp: rbind_eq_Inl split: prod.splits if_splits)
  then show ?thesis
    unfolding admit_def seal_def Let_def by (auto simp: rbind_eq_Inl split: sum.splits json.splits)
qed

theorem admission_depth_bound_witness:
  "ranked_library (\<lambda>_. 0) 0 (w_snapshot loop_world) \<and> admit toy_sha 4 loop_graph loop_world tiny_grants tiny_inputs \<noteq> Inl RecursionErr"
proof -
  have "ranked_library (\<lambda>_. 0) 0 (w_snapshot loop_world)" "ranks_below (\<lambda>_. 0) 1 (graph_refs loop_graph)" "graph_height loop_graph + 1 * 0 \<le> 4"
    by (simp_all add: ranked_library_def loop_world_def tiny_world_def loop_component_def tiny_component_def ranks_below_def loop_graph_def)
  then show ?thesis using admission_depth_bound [of "\<lambda>_. 0" 0 loop_world 1 loop_graph 4 toy_sha tiny_grants tiny_inputs] by blast
qed

section \<open>A composite that refers to itself\<close>

definition knot_graph :: graph where
  "knot_graph = Graph ''g'' [GNode ''n'' (RefBody tiny_ref)] [] [] []"

definition knot_world :: world where
  "knot_world = tiny_world\<lparr>w_snapshot := (w_snapshot tiny_world)\<lparr>versions := [(''c'', [(''v1'',
     \<lparr>definition_of = tiny_component\<lparr>comp_body := Composite knot_graph, comp_inputs := [], comp_outputs := []\<rparr>,
      stored_hash = ''v1'', registered_at = 0\<rparr>)])]\<rparr>\<rparr>"

lemma knot_raises:
  "snap c = w_snapshot knot_world \<Longrightarrow> lock c = None \<Longrightarrow> compile_graph sha n knot_graph lv c = Inl RecursionErr"
proof (induction n arbitrary: lv c rule: less_induct)
  case (less n)
  consider "n = 0" | "n = 1" | "n = 2" | k where "n = Suc (Suc (Suc k))" by (metis One_nat_def Suc_1 not0_implies_Suc)
  then show ?case
  proof cases
    case (4 k)
    have k: "compile_graph sha (Suc k) knot_graph lv c = Inl RecursionErr" if "snap c = w_snapshot knot_world" "lock c = None" for lv c
      using less.IH [of "Suc k"] that 4 by simp
    define cg where "cg = compile_graph sha (Suc k)"
    have c: "compile_graph sha n = graph_step (Suc (Suc k)) (node_step sha cg (compile_loop sha (Suc k)))" by (simp add: 4 cg_def)
    note k = k [folded cg_def]
    have "inputs knot_graph = []" "outputs knot_graph = []" by (simp_all add: knot_graph_def)
    then show ?thesis
      unfolding c using less.prems
      by (subst knot_graph_def)
         (simp add: Let_def topology_eval binding_eval compile_eval boundary_lies_def embedded_schema_faults_def same_boundary_def
           tiny_ref_def tiny_component_def knot_world_def tiny_world_def k)
  qed (simp_all add: knot_graph_def Let_def raised_by_level_def numeral_2_eq_2 topology_eval binding_eval compile_eval)
qed

text \<open>
  A stored composite that refers to itself makes admission raise the interpreter's recursion
  error, whatever the depth of its stack, where every other rejection is a typed list of faults.\<close>

theorem self_reference_exhausts_the_stack:
  "admit sha n knot_graph knot_world tiny_grants (PDict []) = Inl RecursionErr"
proof -
  have "input_faults knot_graph [] = []" by (simp add: input_faults_def knot_graph_def)
  then show ?thesis
    using knot_raises [of "start_compilation sha knot_world knot_graph" sha n]
    by (simp add: admit_def admit_compiled_def knot_world_def tiny_world_def world_lock_def unique_port_faults_def knot_graph_def)
qed
end
