(* ===== verification/Panel.thy ===== *)
theory Panel
  imports Exchange "HOL-Library.Multiset"
begin

text \<open>
  Panels (\<^verbatim>\<open>core/panel.py\<close>): the contracts a panel's members and its aggregator speak, and the one
  deterministic law that concludes a panel from its members' reports. A result is self-verifying: its
  validator derives the seating, the tally and the outcome again from the members it carries.

  Member payloads reach the law through their validated models; \<open>member_check\<close>, \<open>ballot_check\<close> and
  \<open>quorum_check\<close> are those validators. A comparison of two seatings in the source is Python equality of
  models; members sit at distinct paths, so it coincides with equality of the records here.
\<close>

section \<open>Model\<close>

datatype member_outcome = Responded | Declined | Unavailable | TimedOut

datatype ballot = Approve | Reject | Abstain

datatype panel_verdict = Approved | Rejected | InsufficientResponses | ImpossibleQuorum

definition PANEL_MEMBER_RESULT_CONTRACT :: contract where
  "PANEL_MEMBER_RESULT_CONTRACT = \<lparr>contract_type = ''constructicon.std/PanelMemberResult'', contract_schema = ''panel-member-result-1''\<rparr>"

definition PANEL_QUORUM_CONTRACT :: contract where
  "PANEL_QUORUM_CONTRACT = \<lparr>contract_type = ''constructicon.std/PanelQuorum'', contract_schema = ''panel-quorum-1''\<rparr>"

definition PANEL_RESULT_CONTRACT :: contract where
  "PANEL_RESULT_CONTRACT = \<lparr>contract_type = ''constructicon.std/PanelResult'', contract_schema = ''panel-result-1''\<rparr>"

definition PANEL_BALLOT_CONTRACT :: contract where
  "PANEL_BALLOT_CONTRACT = \<lparr>contract_type = ''constructicon.std/PanelBallot'', contract_schema = ''panel-ballot-1''\<rparr>"

datatype panel_error =
    BallotShape
  | QuorumNotPositive
  | RootAggregator
  | AggregatorFrames execution_path
  | ForeignRun execution_path string
  | NotSibling execution_path
  | OwnSeat execution_path
  | TwoResults string
  | UnknownBucket
  | Contradicts

record ballot_payload =
  ballot_outcome :: member_outcome
  cast_ballot :: "ballot option"
  ballot_rationale :: "json option"

definition ballot_check :: "ballot_payload \<Rightarrow> panel_error + ballot_payload" where
  "ballot_check b = (if (ballot_outcome b = Responded) \<noteq> (cast_ballot b \<noteq> None) then Inl BallotShape else Inr b)"

record member_result =
  result_run :: string
  member :: execution_path
  outcome :: member_outcome
  ballot :: "ballot option"
  rationale :: "json option"
  result_actor :: "string option"
  result_message :: "digest option"

definition member_check :: "member_result \<Rightarrow> panel_error + member_result" where
  "member_check r = (if (outcome r = Responded) \<noteq> (ballot r \<noteq> None) then Inl BallotShape else Inr r)"

record quorum =
  required_approvals :: int

definition quorum_check :: "quorum \<Rightarrow> panel_error + quorum" where
  "quorum_check q = (if required_approvals q \<le> 0 then Inl QuorumNotPositive else Inr q)"

record tally =
  approve :: nat
  reject :: nat
  abstain :: nat
  declined :: nat
  unavailable :: nat
  timed_out :: nat

definition responded :: "tally \<Rightarrow> nat" where
  "responded t = approve t + reject t + abstain t"

definition tally_members :: "tally \<Rightarrow> nat" where
  "tally_members t = responded t + declined t + unavailable t + timed_out t"

record member_summary =
  seat :: string
  summary_result :: member_result

record panel_result =
  panel_run :: string
  aggregator :: execution_path
  panel_quorum :: quorum
  verdict :: panel_verdict
  panel_tally :: tally
  panel_members :: "member_summary list"

definition panel_outcome :: "tally \<Rightarrow> quorum \<Rightarrow> panel_verdict" where
  "panel_outcome t q =
     (if required_approvals q > int (tally_members t) then ImpossibleQuorum
      else if int (approve t) \<ge> required_approvals q then Approved
      else if int (responded t) < required_approvals q then InsufficientResponses
      else Rejected)"

definition member_key :: "member_result \<Rightarrow> ustr" where
  "member_key r = canonical_json (path_json (member r))"

definition frames_writable :: "iteration_frame list \<Rightarrow> scope \<Rightarrow> bool" where
  "frames_writable frames invocation \<longleftrightarrow> length frames \<le> 1 \<and> list_all (\<lambda>f.
     let loop = frame_loop f; beneath = take 1 (drop (length loop) invocation) in
     loop \<noteq> [] \<and> take (length loop) invocation = loop \<and> beneath = [LOOP_BODY_SEGMENT]) frames"

definition sibling :: "execution_path \<Rightarrow> member_result \<Rightarrow> bool" where
  "sibling agg r =
     (let parent = butlast (path_scope agg); depth = length parent; frames = iterations agg;
          segments = path_scope (member r); own_seat = take (depth + 1) segments
      in take depth segments = parent \<and> length segments > depth
         \<and> take (length frames) (iterations (member r)) = frames
         \<and> frames_writable (iterations (member r)) segments
         \<and> list_all (\<lambda>f. take (length own_seat) (frame_loop f) = own_seat) (drop (length frames) (iterations (member r))))"

definition seat_member ::
  "execution_path \<Rightarrow> string \<Rightarrow> member_result \<Rightarrow> string set \<times> member_summary list \<Rightarrow> panel_error + string set \<times> member_summary list" where
  "seat_member agg run r st =
     (let (seen, summaries) = st; node = path_scope (member r) ! length (butlast (path_scope agg)) in
      if result_run r \<noteq> run then Inl (ForeignRun (member r) (result_run r))
      else if \<not> sibling agg r then Inl (NotSibling (member r))
      else if node = last (path_scope agg) then Inl (OwnSeat (member r))
      else if node \<in> seen then Inl (TwoResults node)
      else Inr (insert node seen, summaries @ [\<lparr>seat = node, summary_result = r\<rparr>]))"

definition place_members :: "member_result list \<Rightarrow> execution_path \<Rightarrow> string \<Rightarrow> panel_error + member_summary list" where
  "place_members votes agg run =
     (if path_scope agg = [] then Inl RootAggregator
      else if \<not> frames_writable (iterations agg) (path_scope agg) then Inl (AggregatorFrames agg)
      else rbind (rfold (seat_member agg run) (sort_key member_key votes) ({}, [])) (\<lambda>(seen, summaries). Inr summaries))"

text \<open>The bucket of a member is its ballot when it has one and its outcome otherwise; there is no bucket
  for a response without a ballot.\<close>

definition count_member :: "member_summary \<Rightarrow> tally \<Rightarrow> panel_error + tally" where
  "count_member s t =
     (case ballot (summary_result s) of
        Some Approve \<Rightarrow> Inr (t\<lparr>approve := approve t + 1\<rparr>)
      | Some Reject \<Rightarrow> Inr (t\<lparr>reject := reject t + 1\<rparr>)
      | Some Abstain \<Rightarrow> Inr (t\<lparr>abstain := abstain t + 1\<rparr>)
      | None \<Rightarrow> (case outcome (summary_result s) of
            Responded \<Rightarrow> Inl UnknownBucket
          | Declined \<Rightarrow> Inr (t\<lparr>declined := declined t + 1\<rparr>)
          | Unavailable \<Rightarrow> Inr (t\<lparr>unavailable := unavailable t + 1\<rparr>)
          | TimedOut \<Rightarrow> Inr (t\<lparr>timed_out := timed_out t + 1\<rparr>)))"

definition tally_of :: "member_summary list \<Rightarrow> panel_error + tally" where
  "tally_of ms = rfold count_member ms
     \<lparr>approve = 0, reject = 0, abstain = 0, declined = 0, unavailable = 0, timed_out = 0\<rparr>"

definition panel_result_check :: "panel_result \<Rightarrow> panel_error + panel_result" where
  "panel_result_check r =
     rbind (place_members (map summary_result (panel_members r)) (aggregator r) (panel_run r)) (\<lambda>placed.
     rbind (tally_of placed) (\<lambda>t.
     if panel_members r = placed \<and> panel_tally r = t \<and> verdict r = panel_outcome t (panel_quorum r)
     then Inr r else Inl Contradicts))"

definition aggregate_panel :: "member_result list \<Rightarrow> quorum \<Rightarrow> execution_path \<Rightarrow> string \<Rightarrow> panel_error + panel_result" where
  "aggregate_panel votes q agg run =
     rbind (place_members votes agg run) (\<lambda>members.
     rbind (tally_of members) (\<lambda>t.
     panel_result_check \<lparr>panel_run = run, aggregator = agg, panel_quorum = q, verdict = panel_outcome t q,
                         panel_tally = t, panel_members = members\<rparr>))"

section \<open>Laws\<close>

lemma member_key_inj: "member_key r = member_key r' \<Longrightarrow> member r = member r'"
  using canonical_json_inj [OF wire_path_json wire_path_json] path_norm_eq unfolding member_key_def by blast

text \<open>Seating a list of votes appends one summary per vote, in order, at pairwise different seats.\<close>

lemma seat_members:
  assumes "rfold (seat_member agg run) votes (seen, ss) = Inr (seen', ss')"
  shows "\<exists>new. ss' = ss @ new \<and> map summary_result new = votes \<and> distinct (map seat new)
    \<and> set (map seat new) \<inter> seen = {}
    \<and> list_all (\<lambda>s. seat s = path_scope (member (summary_result s)) ! length (butlast (path_scope agg))
         \<and> seat s \<noteq> last (path_scope agg) \<and> sibling agg (summary_result s) \<and> result_run (summary_result s) = run) new"
  using assms
proof (induction votes arbitrary: seen ss)
  case (Cons v votes)
  let ?n = "path_scope (member v) ! length (butlast (path_scope agg))"
  obtain st where st: "seat_member agg run v (seen, ss) = Inr st" and r: "rfold (seat_member agg run) votes st = Inr (seen', ss')"
    using Cons.prems by (auto simp: rbind_eq_Inr)
  have v: "result_run v = run" "sibling agg v" "?n \<noteq> last (path_scope agg)" "?n \<notin> seen"
    and eq: "st = (insert ?n seen, ss @ [\<lparr>seat = ?n, summary_result = v\<rparr>])"
    using st by (auto simp: seat_member_def Let_def split: if_splits)
  obtain new where n: "ss' = (ss @ [\<lparr>seat = ?n, summary_result = v\<rparr>]) @ new" "map summary_result new = votes" "distinct (map seat new)"
      "set (map seat new) \<inter> insert ?n seen = {}"
      "list_all (\<lambda>s. seat s = path_scope (member (summary_result s)) ! length (butlast (path_scope agg))
         \<and> seat s \<noteq> last (path_scope agg) \<and> sibling agg (summary_result s) \<and> result_run (summary_result s) = run) new"
    using Cons.IH [OF r [unfolded eq]] by blast
  show ?case
    by (rule exI [of _ "\<lparr>seat = ?n, summary_result = v\<rparr> # new"]) (use n v in auto)
qed simp

lemma place_members_cases:
  assumes "place_members votes agg run = Inr ms"
  shows "map summary_result ms = sort_key member_key votes" "distinct (map seat ms)"
    "list_all (\<lambda>s. seat s = path_scope (member (summary_result s)) ! length (butlast (path_scope agg))
       \<and> seat s \<noteq> last (path_scope agg) \<and> sibling agg (summary_result s) \<and> result_run (summary_result s) = run) ms"
proof -
  obtain seen where "rfold (seat_member agg run) (sort_key member_key votes) ({}, []) = Inr (seen, ms)"
    using assms unfolding place_members_def by (auto simp: rbind_eq_Inr split: if_splits)
  from seat_members [OF this] show "map summary_result ms = sort_key member_key votes" "distinct (map seat ms)"
    "list_all (\<lambda>s. seat s = path_scope (member (summary_result s)) ! length (butlast (path_scope agg))
       \<and> seat s \<noteq> last (path_scope agg) \<and> sibling agg (summary_result s) \<and> result_run (summary_result s) = run) ms"
    by auto
qed

lemma place_members_keys_distinct:
  assumes "place_members votes agg run = Inr ms"
  shows "inj_on member_key (set votes)" "distinct votes"
proof -
  note p = place_members_cases [OF assms]
  have s: "seat s = path_scope (member (summary_result s)) ! length (butlast (path_scope agg))" if "s \<in> set ms" for s
    using p(3) that by (auto simp: list_all_iff)
  have "s = t" if "s \<in> set ms" "t \<in> set ms" "member_key (summary_result s) = member_key (summary_result t)" for s t
  proof -
    have "seat s = seat t" using s that member_key_inj by metis
    then show ?thesis using p(2) that(1,2) by (auto simp: distinct_map inj_on_def)
  qed
  moreover have "set votes = summary_result ` set ms" using p(1) by (metis set_map set_sort)
  ultimately show "inj_on member_key (set votes)" by (auto simp: inj_on_def)
  have "inj_on summary_result (set ms)" using \<open>\<And>s t. _ \<Longrightarrow> _ \<Longrightarrow> _ \<Longrightarrow> s = t\<close> by (auto simp: inj_on_def)
  then have "distinct (sort_key member_key votes)" using p(1,2) by (metis distinct_map)
  then show "distinct votes" by simp
qed

lemma sort_key_mset_cong:
  assumes "mset xs = mset ys" "inj_on f (set xs)"
  shows "sort_key f xs = sort_key f ys"
proof -
  have "set xs = set ys" using assms(1) mset_eq_setD by blast
  have "sort (map f zs) = map f (sort_key f zs)" for zs
    by (rule properties_for_sort) simp_all
  moreover have "sort (map f xs) = sort (map f ys)"
    using assms(1) by (intro properties_for_sort) (simp_all add: assms(1))
  ultimately have "map f (sort_key f xs) = map f (sort_key f ys)" by simp
  then show ?thesis using assms(2) \<open>set xs = set ys\<close> by (metis map_inj_on set_sort sup.idem)
qed

lemma place_members_mset:
  assumes "place_members votes agg run = Inr ms" "mset votes = mset votes'"
  shows "place_members votes' agg run = Inr ms"
  using assms(1) unfolding place_members_def sort_key_mset_cong [OF assms(2) place_members_keys_distinct(1) [OF assms(1)]] .

lemma place_members_again:
  assumes "place_members votes agg run = Inr ms"
  shows "place_members (map summary_result ms) agg run = Inr ms"
  using place_members_mset [OF assms] place_members_cases(1) [OF assms] by (metis mset_sort)

lemma aggregate_panel_eq:
  "aggregate_panel votes q agg run = rbind (place_members votes agg run) (\<lambda>ms. rbind (tally_of ms) (\<lambda>t.
     Inr \<lparr>panel_run = run, aggregator = agg, panel_quorum = q, verdict = panel_outcome t q, panel_tally = t, panel_members = ms\<rparr>))"
  unfolding aggregate_panel_def panel_result_check_def
  by (cases "place_members votes agg run")
     (auto simp: place_members_again rbind_def split: sum.splits)

definition bucket_count :: "(member_result \<Rightarrow> bool) \<Rightarrow> member_summary list \<Rightarrow> nat" where
  "bucket_count P ms = length (filter (\<lambda>s. P (summary_result s)) ms)"

lemma count_members:
  "rfold count_member ms t = Inr t' \<Longrightarrow>
     tally_members t' = tally_members t + length ms
     \<and> approve t' = approve t + bucket_count (\<lambda>r. ballot r = Some Approve) ms
     \<and> responded t' = responded t + bucket_count (\<lambda>r. ballot r \<noteq> None) ms"
proof (induction ms arbitrary: t)
  case (Cons s ms)
  obtain u where u: "count_member s t = Inr u" "rfold count_member ms u = Inr t'" using Cons.prems by (auto simp: rbind_eq_Inr)
  have "tally_members u = tally_members t + 1 \<and> approve u = approve t + (if ballot (summary_result s) = Some Approve then 1 else 0)
     \<and> responded u = responded t + (if ballot (summary_result s) \<noteq> None then 1 else 0)"
    using u(1) by (auto simp: count_member_def tally_members_def responded_def split: option.splits ballot.splits member_outcome.splits)
  then show ?case using Cons.IH [OF u(2)] by (auto simp: bucket_count_def)
qed (simp add: bucket_count_def)

lemma count_total:
  "list_all (\<lambda>s. member_check (summary_result s) = Inr (summary_result s)) ms \<Longrightarrow> \<exists>t'. rfold count_member ms t = Inr t'"
  by (induction ms arbitrary: t)
     (auto simp: member_check_def count_member_def split: option.splits ballot.splits member_outcome.splits if_splits)

section \<open>Properties\<close>

text \<open>
  A stored panel result is accepted exactly when it is the one the law concludes from the members it
  carries: its seating, tally and outcome can contradict its members in no way that validation misses.\<close>

theorem panel_result_self_verifying:
  "panel_result_check r = Inr r \<longleftrightarrow>
     aggregate_panel (map summary_result (panel_members r)) (panel_quorum r) (aggregator r) (panel_run r) = Inr r"
proof
  assume "panel_result_check r = Inr r"
  then show "aggregate_panel (map summary_result (panel_members r)) (panel_quorum r) (aggregator r) (panel_run r) = Inr r"
    by (auto simp: panel_result_check_def aggregate_panel_eq rbind_eq_Inr split: if_splits)
next
  assume "aggregate_panel (map summary_result (panel_members r)) (panel_quorum r) (aggregator r) (panel_run r) = Inr r"
  then obtain ms t where 1: "place_members (map summary_result (panel_members r)) (aggregator r) (panel_run r) = Inr ms" "tally_of ms = Inr t"
    and r: "r = \<lparr>panel_run = panel_run r, aggregator = aggregator r, panel_quorum = panel_quorum r,
      verdict = panel_outcome t (panel_quorum r), panel_tally = t, panel_members = ms\<rparr>"
    by (auto simp: aggregate_panel_eq rbind_eq_Inr)
  have "panel_members r = ms" "panel_tally r = t" "verdict r = panel_outcome t (panel_quorum r)"
    using arg_cong [OF r, of panel_members] arg_cong [OF r, of panel_tally] arg_cong [OF r, of verdict] by simp_all
  then show "panel_result_check r = Inr r" using 1 by (simp add: panel_result_check_def)
qed

text \<open>C39. A panel's conclusion depends on what its members reported and not on the order of the reports, and
  counts every report exactly once: the members of the result are the votes, each at a seat of its own
  that is not the aggregator's, the tally's total is their number, and the panel is approved only on at
  least the required number of approving ballots.\<close>

theorem panel_concludes_from_all_votes:
  assumes "aggregate_panel votes q agg run = Inr r" "mset votes' = mset votes"
  shows "aggregate_panel votes' q agg run = Inr r \<and> mset (map summary_result (panel_members r)) = mset votes
    \<and> distinct (last (path_scope agg) # map seat (panel_members r))
    \<and> tally_members (panel_tally r) = length votes
    \<and> (verdict r = Approved \<longleftrightarrow> required_approvals q \<le> int (length (filter (\<lambda>v. ballot v = Some Approve) votes)))"
proof -
  obtain ms t where p: "place_members votes agg run = Inr ms" and t: "tally_of ms = Inr t"
    and r: "r = \<lparr>panel_run = run, aggregator = agg, panel_quorum = q, verdict = panel_outcome t q, panel_tally = t, panel_members = ms\<rparr>"
    using assms(1) by (auto simp: aggregate_panel_eq rbind_eq_Inr)
  note c = place_members_cases [OF p]
  have m: "mset (map summary_result ms) = mset votes" using c(1) by (metis mset_sort)
  have "place_members votes' agg run = Inr ms" using place_members_mset [OF p] assms(2) by simp
  then have 1: "aggregate_panel votes' q agg run = Inr r" by (simp add: aggregate_panel_eq t r)
  have 2: "distinct (last (path_scope agg) # map seat ms)" using c(2,3) by (auto simp: list_all_iff)
  have l: "length ms = length votes" using m by (metis length_map size_mset)
  have n: "bucket_count (\<lambda>v. ballot v = Some Approve) ms = length (filter (\<lambda>v. ballot v = Some Approve) votes)"
  proof -
    have "length (filter (\<lambda>v. ballot v = Some Approve) (map summary_result ms)) = length (filter (\<lambda>v. ballot v = Some Approve) votes)"
      using m by (metis mset_filter size_mset)
    then show ?thesis by (simp add: bucket_count_def filter_map comp_def)
  qed
  have k: "tally_members t = length votes" "approve t = length (filter (\<lambda>v. ballot v = Some Approve) votes)"
    using count_members [OF t [unfolded tally_of_def]] l n by (simp_all add: tally_members_def responded_def)
  have "length (filter (\<lambda>v. ballot v = Some Approve) votes) \<le> length votes" by simp
  then have 3: "panel_outcome t q = Approved \<longleftrightarrow> required_approvals q \<le> int (length (filter (\<lambda>v. ballot v = Some Approve) votes))"
    by (auto simp: panel_outcome_def k simp del: length_filter_le)
  show ?thesis using 1 2 3 m k(1) by (simp add: r)
qed

definition sample_aggregator :: execution_path where
  "sample_aggregator = \<lparr>path_scope = [''g'', ''sum''], iterations = []\<rparr>"

definition sample_vote :: "string \<Rightarrow> ballot option \<Rightarrow> member_result" where
  "sample_vote node b = \<lparr>result_run = ''run'', member = \<lparr>path_scope = [''g'', node], iterations = []\<rparr>,
     outcome = (if b = None then Declined else Responded), ballot = b, rationale = None, result_actor = None, result_message = None\<rparr>"

theorem panel_concludes_from_all_votes_witness:
  "\<exists>r. aggregate_panel [sample_vote ''b'' (Some Approve), sample_vote ''a'' None] \<lparr>required_approvals = 1\<rparr> sample_aggregator ''run'' = Inr r
     \<and> aggregate_panel [sample_vote ''a'' None, sample_vote ''b'' (Some Approve)] \<lparr>required_approvals = 1\<rparr> sample_aggregator ''run'' = Inr r
     \<and> verdict r = Approved \<and> tally_members (panel_tally r) = 2"
proof -
  let ?a = "sample_vote ''a'' None" and ?b = "sample_vote ''b'' (Some Approve)"
  have k: "sort_key member_key [?b, ?a] = [?a, ?b] \<or> sort_key member_key [?b, ?a] = [?b, ?a]"
    by (simp add: insort_key.simps)
  then obtain r where r: "aggregate_panel [?b, ?a] \<lparr>required_approvals = 1\<rparr> sample_aggregator ''run'' = Inr r"
    by (elim disjE) (simp_all add: aggregate_panel_eq place_members_def tally_of_def count_member_def seat_member_def sibling_def
        frames_writable_def sample_vote_def sample_aggregator_def Let_def)
  show ?thesis
    using panel_concludes_from_all_votes [OF r, of "[?a, ?b]"] r by (intro exI [of _ r]) (simp add: sample_vote_def)
qed

end
