(* ===== verification/Channel_Message.thy ===== *)
theory Channel_Message
  imports Exchange
begin

text \<open>
  Channel messages (\<^verbatim>\<open>core/channel.py\<close>): what a request and a reply are, independently of the transport
  that stores them, and the independent proof of a reply's payload (\<^verbatim>\<open>core/human.py\<close>, \<^verbatim>\<open>channel_reply_proof\<close>).
  Messages are compared by canonical bytes. A timestamp is its rendering in the dump.
\<close>

section \<open>Model\<close>

datatype message_kind = Request | Reply

record send_intent =
  intent_id :: digest
  intent_channel :: string
  intent_revision :: string
  intent_lane :: string
  intent_interaction :: interaction
  intent_recipient :: "string option"
  intent_contract :: contract
  intent_reply_contract :: contract
  intent_run :: string
  intent_path :: execution_path
  intent_port :: string
  intent_reply_port :: string
  intent_payload :: pyvalue

record envelope =
  env_run :: string
  env_path :: execution_path
  env_port :: string
  created_at :: string
  provenance :: "execution_path list"
  payload :: json

record message =
  message_id :: digest
  msg_channel :: string
  msg_lane :: string
  msg_interaction :: interaction
  msg_kind :: message_kind
  reply_to :: "digest option"
  msg_recipient :: "string option"
  msg_sender :: "string option"
  msg_contract :: contract
  reply_contract :: "contract option"
  reply_port :: "string option"
  msg_envelope :: envelope

record reply_proof =
  proof_channel :: string
  proof_request :: digest
  proof_interaction :: interaction
  proof_actor :: string
  proof_reply :: digest
  proof_port :: string
  proof_payload :: json
  proof_run :: string

datatype damage =
    NotAReply digest
  | DoesNotAnswer digest digest
  | ContradictsRequest digest
  | IncompleteExchange digest
  | ContradictsProof digest
  | NoGoverningRequest digest
  | MessageHistory
  | RequestHistory
  | ReplyHistory
  | AckHistory
  | NotARequest digest
  | NoIntentProof digest
  | ContradictsIntent digest
  | DifferentIntent digest
  | NoReplyPort digest
  | AckMissing digest
  | NoPayloadProof digest
  | NamesNoRequest digest
  | RequestNotStored digest digest
  | RepliedElsewhere string
  | AckedElsewhere string
  | InvalidOwnedReply string
  | AckWithoutReply string

datatype channel_error =
    NonPositiveBatch
  | BadLimit int
  | Shape
  | BadActor string
  | BadPayload value_error
  | NotDerived digest digest
  | WrongChannel string string
  | OnlyRequests
  | NothingPinned
  | NotRecipient digest string
  | NoRequest digest
  | NoMessage digest
  | ApprovalOnly
  | IncoherentExchange digest exchange_fault
  | ReplyConflict digest
  | AckConflict digest string
  | BadRevision
  | Damaged damage

definition request_message_id ::
  "(nat list \<Rightarrow> string) \<Rightarrow> string \<Rightarrow> execution_path \<Rightarrow> string \<Rightarrow> string \<Rightarrow> string \<Rightarrow> interaction \<Rightarrow> string \<Rightarrow> digest" where
  "request_message_id sha run path ch chrev ln i port = digest_of sha ''channel-message'' 1 (jobj
     [(''invocation_id'', jstr (invocation_id sha run path)), (''channel_id'', jstr ch), (''channel_revision'', jstr chrev),
      (''lane'', jstr ln), (''interaction'', interaction_json i), (''port'', jstr port), (''kind'', jstr ''request'')])"

definition reply_message_id :: "(nat list \<Rightarrow> string) \<Rightarrow> digest \<Rightarrow> string \<Rightarrow> digest" where
  "reply_message_id sha request port =
     digest_of sha ''channel-reply'' 1 (jobj [(''request_id'', jstr request), (''port'', jstr port)])"

definition derived_id :: "(nat list \<Rightarrow> string) \<Rightarrow> send_intent \<Rightarrow> digest" where
  "derived_id sha i = request_message_id sha (intent_run i) (intent_path i) (intent_channel i) (intent_revision i)
     (intent_lane i) (intent_interaction i) (intent_port i)"

text \<open>The validators of \<^verbatim>\<open>ChannelSendIntent\<close> and \<^verbatim>\<open>ChannelMessage\<close>; actor fields hold canonical identifiers.\<close>

definition intent_check :: "(nat list \<Rightarrow> string) \<Rightarrow> send_intent \<Rightarrow> channel_error + send_intent" where
  "intent_check sha i = (if intent_id i \<noteq> derived_id sha i then Inl (NotDerived (intent_id i) (derived_id sha i)) else Inr i)"

definition canonical_actor :: "string option \<Rightarrow> bool" where
  "canonical_actor a = (case a of None \<Rightarrow> True | Some x \<Rightarrow> actor_id_is_canonical x)"

definition message_check :: "message \<Rightarrow> channel_error + message" where
  "message_check m =
     (if \<not> canonical_actor (msg_recipient m) then Inl (BadActor (the (msg_recipient m)))
      else if \<not> canonical_actor (msg_sender m) then Inl (BadActor (the (msg_sender m)))
      else case msg_kind m of
        Request \<Rightarrow>
          if reply_to m \<noteq> None \<or> msg_sender m \<noteq> None then Inl Shape
          else if reply_contract m = None \<or> reply_port m = None then Inl Shape
          else Inr m
      | Reply \<Rightarrow>
          if reply_to m = None \<or> msg_sender m = None then Inl Shape
          else if msg_recipient m \<noteq> None then Inl Shape
          else if reply_contract m \<noteq> None \<or> reply_port m \<noteq> None then Inl Shape
          else Inr m)"

definition kind_json :: "message_kind \<Rightarrow> json" where
  "kind_json k = jstr (case k of Request \<Rightarrow> ''request'' | Reply \<Rightarrow> ''reply'')"

definition envelope_json :: "envelope \<Rightarrow> json" where
  "envelope_json e = jobj [(''run_id'', jstr (env_run e)), (''path'', path_json (env_path e)), (''port'', jstr (env_port e)),
     (''created_at'', jstr (created_at e)), (''provenance'', JList (map path_json (provenance e))), (''payload'', payload e)]"

definition message_json :: "message \<Rightarrow> json" where
  "message_json m = jobj [(''schema_version'', JInt 1), (''message_id'', jstr (message_id m)), (''channel_id'', jstr (msg_channel m)),
     (''lane'', jstr (msg_lane m)), (''interaction'', interaction_json (msg_interaction m)), (''kind'', kind_json (msg_kind m)),
     (''reply_to'', jopt jstr (reply_to m)), (''recipient_actor_id'', jopt jstr (msg_recipient m)),
     (''sender_actor_id'', jopt jstr (msg_sender m)), (''contract'', contract_json (msg_contract m)),
     (''reply_contract'', jopt contract_json (reply_contract m)), (''reply_port'', jopt jstr (reply_port m)),
     (''envelope'', envelope_json (msg_envelope m))]"

definition same_message :: "message \<Rightarrow> message \<Rightarrow> bool" where
  "same_message left right \<longleftrightarrow> canonical_json (message_json left) = canonical_json (message_json right)"

definition normal_payload :: "pyvalue \<Rightarrow> channel_error + json" where
  "normal_payload v = (case json_value v of Inl e \<Rightarrow> Inl (BadPayload e) | Inr j \<Rightarrow> Inr j)"

definition message_for_intent :: "(nat list \<Rightarrow> string) \<Rightarrow> send_intent \<Rightarrow> string \<Rightarrow> channel_error + message" where
  "message_for_intent sha i now =
     (if derived_id sha i \<noteq> intent_id i then Inl (NotDerived (intent_id i) (derived_id sha i))
      else rbind (normal_payload (intent_payload i)) (\<lambda>j. message_check
        \<lparr>message_id = intent_id i, msg_channel = intent_channel i, msg_lane = intent_lane i, msg_interaction = intent_interaction i,
         msg_kind = Request, reply_to = None, msg_recipient = intent_recipient i, msg_sender = None, msg_contract = intent_contract i,
         reply_contract = Some (intent_reply_contract i), reply_port = Some (intent_reply_port i),
         msg_envelope = \<lparr>env_run = intent_run i, env_path = intent_path i, env_port = intent_port i, created_at = now,
                         provenance = [], payload = j\<rparr>\<rparr>))"

definition message_for_reply :: "(nat list \<Rightarrow> string) \<Rightarrow> message \<Rightarrow> string \<Rightarrow> pyvalue \<Rightarrow> string \<Rightarrow> channel_error + message" where
  "message_for_reply sha request actor v now =
     (if msg_kind request \<noteq> Request then Inl OnlyRequests
      else case (reply_contract request, reply_port request) of
        (Some rc, Some port) \<Rightarrow>
          if msg_recipient request \<noteq> None \<and> Some actor \<noteq> msg_recipient request then Inl (NotRecipient (message_id request) actor)
          else rbind (normal_payload v) (\<lambda>j. message_check
            \<lparr>message_id = reply_message_id sha (message_id request) port, msg_channel = msg_channel request, msg_lane = msg_lane request,
             msg_interaction = msg_interaction request, msg_kind = Reply, reply_to = Some (message_id request), msg_recipient = None,
             msg_sender = Some actor, msg_contract = rc, reply_contract = None, reply_port = None,
             msg_envelope = \<lparr>env_run = env_run (msg_envelope request), env_path = env_path (msg_envelope request), env_port = port,
                             created_at = now, provenance = [], payload = j\<rparr>\<rparr>)
      | _ \<Rightarrow> Inl NothingPinned)"

definition validated_reply :: "(nat list \<Rightarrow> string) \<Rightarrow> message \<Rightarrow> message \<Rightarrow> channel_error + message" where
  "validated_reply sha request reply =
     (case (msg_kind reply, msg_sender reply) of
        (Reply, Some actor) \<Rightarrow>
          if reply_to reply \<noteq> Some (message_id request) then Inl (Damaged (DoesNotAnswer (message_id reply) (message_id request)))
          else rbind (message_for_reply sha request actor (py_of_json (payload (msg_envelope reply))) (created_at (msg_envelope reply)))
            (\<lambda>expected. if \<not> same_message reply expected then Inl (Damaged (ContradictsRequest (message_id reply))) else Inr reply)
      | _ \<Rightarrow> Inl (Damaged (NotAReply (message_id reply))))"

definition discoverable_by :: "message \<Rightarrow> string \<Rightarrow> bool" where
  "discoverable_by m actor = (case msg_recipient m of Some r \<Rightarrow> r = actor | None \<Rightarrow> msg_kind m = Request)"

definition governing_request :: "(nat list \<Rightarrow> string) \<Rightarrow> message \<Rightarrow> message option \<Rightarrow> channel_error + message" where
  "governing_request sha m request =
     (if msg_kind m = Request then Inr m
      else case request of
        None \<Rightarrow> Inl (Damaged (NoGoverningRequest (message_id m)))
      | Some q \<Rightarrow> rbind (validated_reply sha q m) (\<lambda>_. Inr q))"

definition channel_reply_proof :: "(nat list \<Rightarrow> string) \<Rightarrow> message \<Rightarrow> message \<Rightarrow> channel_error + reply_proof" where
  "channel_reply_proof sha request reply = rbind (validated_reply sha request reply) (\<lambda>_.
     case (reply_port request, msg_sender reply) of
       (Some port, Some actor) \<Rightarrow> rbind (normal_payload (py_of_json (payload (msg_envelope reply)))) (\<lambda>j.
          Inr \<lparr>proof_channel = msg_channel request, proof_request = message_id request, proof_interaction = msg_interaction request,
               proof_actor = actor, proof_reply = message_id reply, proof_port = port, proof_payload = j,
               proof_run = env_run (msg_envelope request)\<rparr>)
     | _ \<Rightarrow> Inl (Damaged (IncompleteExchange (message_id reply))))"

definition proof_json :: "reply_proof \<Rightarrow> json" where
  "proof_json p = jobj [(''channel_id'', jstr (proof_channel p)), (''request_id'', jstr (proof_request p)),
     (''interaction'', interaction_json (proof_interaction p)), (''actor_id'', jstr (proof_actor p)), (''reply_id'', jstr (proof_reply p)),
     (''reply_port'', jstr (proof_port p)), (''payload'', proof_payload p), (''run_id'', jstr (proof_run p))]"

definition validated_channel_reply_proof ::
  "(nat list \<Rightarrow> string) \<Rightarrow> reply_proof \<Rightarrow> message \<Rightarrow> message \<Rightarrow> channel_error + reply_proof" where
  "validated_channel_reply_proof sha p request reply = rbind (channel_reply_proof sha request reply) (\<lambda>expected.
     if canonical_json (proof_json p) \<noteq> canonical_json (proof_json expected)
     then Inl (Damaged (ContradictsProof (message_id reply))) else Inr p)"

section \<open>Laws\<close>

lemma normal_payload_again: "normal_payload v = Inr j \<Longrightarrow> normal_payload (py_of_json j) = Inr j"
  using json_value_scalar(1) json_value_of_json unfolding normal_payload_def by (auto split: sum.splits)

lemma same_message_refl [simp]: "same_message m m"
  by (simp add: same_message_def)

lemma message_for_intent_fields:
  assumes "message_for_intent sha i now = Inr m"
  shows "message_id m = intent_id i \<and> msg_kind m = Request \<and> created_at (msg_envelope m) = now \<and> intent_id i = derived_id sha i
    \<and> reply_contract m = Some (intent_reply_contract i) \<and> reply_port m = Some (intent_reply_port i)
    \<and> msg_recipient m = intent_recipient i \<and> msg_channel m = intent_channel i"
  using assms unfolding message_for_intent_def message_check_def by (auto simp: rbind_eq_Inr split: if_splits)

lemma message_for_reply_fields:
  assumes "message_for_reply sha q actor v now = Inr m"
  obtains port rc j where "msg_kind q = Request" "reply_port q = Some port" "reply_contract q = Some rc" "normal_payload v = Inr j"
    "msg_recipient q \<noteq> None \<longrightarrow> msg_recipient q = Some actor"
    "message_id m = reply_message_id sha (message_id q) port" "msg_kind m = Reply" "reply_to m = Some (message_id q)"
    "msg_sender m = Some actor" "payload (msg_envelope m) = j" "created_at (msg_envelope m) = now" "msg_recipient m = None"
    "msg_contract m = rc" "env_run (msg_envelope m) = env_run (msg_envelope q)" "env_path (msg_envelope m) = env_path (msg_envelope q)"
  using assms unfolding message_for_reply_def message_check_def
  by (auto simp: rbind_eq_Inr split: if_splits option.splits)

lemma reply_validates:
  assumes "message_for_reply sha q actor v now = Inr m"
  shows "validated_reply sha q m = Inr m"
  using assms
proof (rule message_for_reply_fields)
  fix port rc j
  assume f: "msg_kind m = Reply" "reply_to m = Some (message_id q)" "msg_sender m = Some actor" "payload (msg_envelope m) = j"
    "created_at (msg_envelope m) = now" "normal_payload v = Inr j"
  have "message_for_reply sha q actor (py_of_json j) now = message_for_reply sha q actor v now"
    unfolding message_for_reply_def normal_payload_again [OF f(6)] f(6) ..
  then show ?thesis using assms by (simp add: validated_reply_def f)
qed

lemma reply_proof_exists:
  assumes "message_for_reply sha q actor v now = Inr m"
  shows "\<exists>p. channel_reply_proof sha q m = Inr p \<and> validated_channel_reply_proof sha p q m = Inr p"
  using assms
proof (rule message_for_reply_fields)
  fix port rc j
  assume f: "reply_port q = Some port" "msg_sender m = Some actor" "payload (msg_envelope m) = j" "normal_payload v = Inr j"
  show ?thesis
    by (simp add: channel_reply_proof_def validated_channel_reply_proof_def reply_validates [OF assms] f normal_payload_again [OF f(4)])
qed

lemma validated_reply_fields:
  assumes "validated_reply sha q m = Inr r"
  shows "r = m \<and> msg_kind m = Reply \<and> reply_to m = Some (message_id q) \<and> msg_kind q = Request
    \<and> (\<exists>actor. msg_sender m = Some actor \<and> (msg_recipient q \<noteq> None \<longrightarrow> msg_recipient q = Some actor))"
  using assms unfolding validated_reply_def
  by (auto simp: rbind_eq_Inr message_for_reply_def split: message_kind.splits option.splits if_splits)

end
