(* ===== verification/In_Process.thy ===== *)
theory In_Process
  imports Channel_Message
begin

text \<open>
  The in-process channel (\<^verbatim>\<open>substrate/channels/in_process.py\<close>). \<open>channel\<close> is the object's state; every
  operation takes the state and returns it with its result, or raises and leaves it as it was (the source
  builds every value before it appends anything). The lock makes each operation atomic. A clock reading
  is an argument. Retained messages never leave the object except as copies, so the identity test
  \<^verbatim>\<open>is not message\<close> of \<^verbatim>\<open>_validate_history\<close> is inequality here.
\<close>

section \<open>Model\<close>

definition REPLY_CONSUMES :: "interaction list" where
  "REPLY_CONSUMES = [Advice]"

record ack =
  ack_message :: digest
  ack_actor :: string
  acked_at :: string

record channel_revision =
  message_seq :: nat
  ack_seq :: nat

record delivery =
  delivery_seq :: nat
  delivered :: message
  acknowledged :: bool

record channel =
  channel_id :: string
  batch :: int
  messages :: "message list"
  acks :: "ack list"
  by_id :: "(digest, message) dict"
  seq_by_id :: "(digest, nat) dict"
  attestations :: "(digest, string) dict"
  intents :: "(digest, send_intent) dict"
  ack_by_key :: "(digest \<times> string, ack) dict"
  ack_commands :: "(string, digest \<times> string) dict"
  reply_command :: "(digest, string) dict"
  reply_of_command :: "(string, digest) dict"
  reply_proofs :: "(digest, reply_proof) dict"

definition new_channel :: "string \<Rightarrow> int \<Rightarrow> channel_error + channel" where
  "new_channel ch n =
     (if n \<le> 0 then Inl NonPositiveBatch
      else Inr \<lparr>channel_id = ch, batch = n, messages = [], acks = [], by_id = [], seq_by_id = [], attestations = [], intents = [],
                ack_by_key = [], ack_commands = [], reply_command = [], reply_of_command = [], reply_proofs = []\<rparr>)"

definition append_message :: "message \<Rightarrow> channel \<Rightarrow> channel" where
  "append_message m c = c\<lparr>messages := messages c @ [m], by_id := dict_set (message_id m) m (by_id c),
     seq_by_id := dict_set (message_id m) (length (messages c) + 1) (seq_by_id c)\<rparr>"

definition append_ack :: "digest \<times> string \<Rightarrow> ack \<Rightarrow> string \<Rightarrow> channel \<Rightarrow> channel" where
  "append_ack key a cmd c = c\<lparr>acks := acks c @ [a], ack_by_key := dict_set key a (ack_by_key c),
     ack_commands := dict_set cmd key (ack_commands c)\<rparr>"

definition ack_key_of :: "ack \<Rightarrow> digest \<times> string" where
  "ack_key_of a = (ack_message a, ack_actor a)"

definition message_history_ok :: "channel \<Rightarrow> bool" where
  "message_history_ok c =
     (let ids = map message_id (messages c) in
      distinct ids \<and> set ids = set (dict_keys (by_id c)) \<and> set ids = set (dict_keys (seq_by_id c))
      \<and> list_all (\<lambda>(k, m). map_of (by_id c) (message_id m) = Some m \<and> map_of (seq_by_id c) (message_id m) = Some k)
          (enumerate 1 (messages c)))"

definition request_ids :: "channel \<Rightarrow> digest list" where
  "request_ids c = map message_id (filter (\<lambda>m. msg_kind m = Request) (messages c))"

definition reply_ids :: "channel \<Rightarrow> digest list" where
  "reply_ids c = filter (\<lambda>i. i \<notin> set (request_ids c)) (map message_id (messages c))"

definition request_history_ok :: "channel \<Rightarrow> bool" where
  "request_history_ok c \<longleftrightarrow> set (request_ids c) = set (dict_keys (attestations c)) \<and> set (request_ids c) = set (dict_keys (intents c))"

definition reply_history_ok :: "channel \<Rightarrow> bool" where
  "reply_history_ok c \<longleftrightarrow> set (reply_ids c) = set (dict_keys (reply_command c)) \<and> set (reply_ids c) = set (dict_keys (reply_proofs c))
     \<and> set (reply_ids c) = set (dict_values (reply_of_command c)) \<and> length (reply_of_command c) = card (set (reply_ids c))
     \<and> list_all (\<lambda>(rid, cmd). map_of (reply_of_command c) cmd = Some rid) (reply_command c)"

definition ack_history_ok :: "channel \<Rightarrow> bool" where
  "ack_history_ok c =
     (let keys = map ack_key_of (acks c) in
      distinct keys \<and> set keys = set (dict_keys (ack_by_key c)) \<and> set keys = set (dict_values (ack_commands c))
      \<and> length (ack_commands c) = length keys
      \<and> list_all (\<lambda>a. map_of (ack_by_key c) (ack_key_of a) = Some a \<and> map_of (by_id c) (ack_message a) \<noteq> None) (acks c))"

definition validate_history :: "channel \<Rightarrow> channel_error + unit" where
  "validate_history c =
     (if \<not> message_history_ok c then Inl (Damaged MessageHistory)
      else if \<not> request_history_ok c then Inl (Damaged RequestHistory)
      else if \<not> reply_history_ok c then Inl (Damaged ReplyHistory)
      else if \<not> ack_history_ok c then Inl (Damaged AckHistory)
      else Inr ())"

definition complete_request :: "(nat list \<Rightarrow> string) \<Rightarrow> channel \<Rightarrow> message \<Rightarrow> channel_error + message" where
  "complete_request sha c q =
     (if msg_kind q \<noteq> Request then Inl (Damaged (NotARequest (message_id q)))
      else case map_of (intents c) (message_id q) of
        None \<Rightarrow> Inl (Damaged (NoIntentProof (message_id q)))
      | Some i \<Rightarrow> rbind (message_for_intent sha i (created_at (msg_envelope q))) (\<lambda>expected.
          if \<not> same_message q expected then Inl (Damaged (ContradictsIntent (message_id q))) else Inr q))"

definition complete_reply :: "(nat list \<Rightarrow> string) \<Rightarrow> channel \<Rightarrow> message \<Rightarrow> message \<Rightarrow> channel_error + message" where
  "complete_reply sha c q r =
     rbind (complete_request sha c q) (\<lambda>q. rbind (validated_reply sha q r) (\<lambda>v.
     case msg_sender v of
       None \<Rightarrow> Inl (Damaged (AckMissing (message_id v)))
     | Some actor \<Rightarrow>
         if map_of (ack_by_key c) (message_id q, actor) = None then Inl (Damaged (AckMissing (message_id v)))
         else case map_of (reply_proofs c) (message_id v) of
           None \<Rightarrow> Inl (Damaged (NoPayloadProof (message_id v)))
         | Some p \<Rightarrow> rbind (validated_channel_reply_proof sha p q v) (\<lambda>_. Inr v)))"

definition complete_message :: "(nat list \<Rightarrow> string) \<Rightarrow> channel \<Rightarrow> message \<Rightarrow> channel_error + message" where
  "complete_message sha c m =
     (if msg_kind m = Request then complete_request sha c m
      else case reply_to m of
        None \<Rightarrow> Inl (Damaged (NamesNoRequest (message_id m)))
      | Some qid \<Rightarrow> (case map_of (by_id c) qid of
            None \<Rightarrow> Inl (Damaged (RequestNotStored (message_id m) qid))
          | Some q \<Rightarrow> complete_reply sha c q m))"

definition append_request :: "(nat list \<Rightarrow> string) \<Rightarrow> send_intent \<Rightarrow> string \<Rightarrow> string \<Rightarrow> channel \<Rightarrow> channel_error + message \<times> channel" where
  "append_request sha i attestation now c =
     (if intent_channel i \<noteq> channel_id c then Inl (WrongChannel (intent_channel i) (channel_id c))
      else rbind (validate_history c) (\<lambda>_.
        case map_of (by_id c) (intent_id i) of
          Some stored \<Rightarrow>
            rbind (complete_request sha c stored) (\<lambda>stored.
            rbind (message_for_intent sha i (created_at (msg_envelope stored))) (\<lambda>expected.
            if \<not> same_message stored expected \<or> map_of (attestations c) (intent_id i) \<noteq> Some attestation
            then Inl (Damaged (DifferentIntent (intent_id i))) else Inr (stored, c)))
        | None \<Rightarrow>
            rbind (message_for_intent sha i now) (\<lambda>m.
            Inr (m, (append_message m c)\<lparr>attestations := dict_set (message_id m) attestation (attestations c),
                                         intents := dict_set (message_id m) i (intents c)\<rparr>))))"

definition message_of :: "(nat list \<Rightarrow> string) \<Rightarrow> digest \<Rightarrow> channel \<Rightarrow> channel_error + message option" where
  "message_of sha mid c = rbind (validate_history c) (\<lambda>_.
     case map_of (by_id c) mid of None \<Rightarrow> Inr None | Some m \<Rightarrow> rbind (complete_message sha c m) (\<lambda>m. Inr (Some m)))"

definition reply_for :: "(nat list \<Rightarrow> string) \<Rightarrow> digest \<Rightarrow> channel \<Rightarrow> channel_error + message option" where
  "reply_for sha qid c = rbind (validate_history c) (\<lambda>_.
     case map_of (by_id c) qid of
       None \<Rightarrow> Inr None
     | Some q \<Rightarrow> rbind (complete_request sha c q) (\<lambda>q.
         case reply_port q of
           None \<Rightarrow> Inl (Damaged (NoReplyPort qid))
         | Some port \<Rightarrow> (case map_of (by_id c) (reply_message_id sha (message_id q) port) of
               None \<Rightarrow> Inr None
             | Some r \<Rightarrow> rbind (complete_reply sha c q r) (\<lambda>r. Inr (Some r)))))"

definition ack_key :: "channel \<Rightarrow> digest \<Rightarrow> string \<Rightarrow> string \<Rightarrow> channel_error + digest \<times> string" where
  "ack_key c mid actor cmd =
     (if map_of (by_id c) mid = None then Inl (NoMessage mid)
      else let key = (mid, actor) in
        rbind (case map_of (reply_of_command c) cmd of
                 None \<Rightarrow> Inr ()
               | Some rid \<Rightarrow>
                   (case map_of (by_id c) rid of
                      None \<Rightarrow> Inl (Damaged (InvalidOwnedReply cmd))
                    | Some r \<Rightarrow>
                        (case (reply_to r, msg_sender r) of
                           (Some q, Some s) \<Rightarrow> if (q, s) \<noteq> key then Inl (Damaged (RepliedElsewhere cmd)) else Inr ()
                         | _ \<Rightarrow> Inl (Damaged (InvalidOwnedReply cmd))))) (\<lambda>_.
        case map_of (ack_commands c) cmd of
          Some owner \<Rightarrow> if owner \<noteq> key then Inl (Damaged (AckedElsewhere cmd)) else Inr key
        | None \<Rightarrow> Inr key))"

definition make_ack :: "digest \<Rightarrow> string \<Rightarrow> string \<Rightarrow> channel_error + ack" where
  "make_ack mid actor now =
     (if \<not> actor_id_is_canonical actor then Inl (BadActor actor) else Inr \<lparr>ack_message = mid, ack_actor = actor, acked_at = now\<rparr>)"

definition store_reply :: "message \<Rightarrow> string \<Rightarrow> reply_proof \<Rightarrow> channel \<Rightarrow> channel" where
  "store_reply r cmd p c = (append_message r c)
     \<lparr>reply_command := dict_set (message_id r) cmd (reply_command c), reply_of_command := dict_set cmd (message_id r) (reply_of_command c),
      reply_proofs := dict_set (message_id r) p (reply_proofs c)\<rparr>"

text \<open>The first reply to a request, and a repeated one.\<close>

definition first_reply ::
  "(nat list \<Rightarrow> string) \<Rightarrow> message \<Rightarrow> string \<Rightarrow> pyvalue \<Rightarrow> string \<Rightarrow> string \<Rightarrow> channel \<Rightarrow> channel_error + message \<times> channel" where
  "first_reply sha q actor v cmd now c =
     (let held = (message_id q, actor) in
      if map_of (ack_by_key c) held \<noteq> None \<and> map_of (ack_commands c) cmd = Some held then Inl (Damaged (AckWithoutReply cmd))
      else rbind (ack_key c (message_id q) actor cmd) (\<lambda>key.
           rbind (message_for_reply sha q actor v now) (\<lambda>r.
           rbind (channel_reply_proof sha q r) (\<lambda>p.
           if map_of (ack_by_key c) key \<noteq> None then Inr (r, store_reply r cmd p c)
           else rbind (make_ack (message_id q) actor now) (\<lambda>a. Inr (r, append_ack key a cmd (store_reply r cmd p c)))))))"

definition repeated_reply ::
  "(nat list \<Rightarrow> string) \<Rightarrow> message \<Rightarrow> digest \<Rightarrow> message \<Rightarrow> string \<Rightarrow> pyvalue \<Rightarrow> string \<Rightarrow> channel
     \<Rightarrow> channel_error + message \<times> channel" where
  "repeated_reply sha q rid stored actor v cmd c =
     rbind (complete_reply sha c q stored) (\<lambda>whole.
     if map_of (reply_command c) rid \<noteq> Some cmd then Inl (ReplyConflict (message_id q))
     else rbind (message_for_reply sha q actor v (created_at (msg_envelope stored))) (\<lambda>candidate.
       if \<not> same_message stored candidate then Inl (ReplyConflict (message_id q)) else Inr (whole, c)))"

definition reply ::
  "(nat list \<Rightarrow> string) \<Rightarrow> digest \<Rightarrow> string \<Rightarrow> pyvalue \<Rightarrow> string \<Rightarrow> string \<Rightarrow> channel \<Rightarrow> channel_error + message \<times> channel" where
  "reply sha qid actor v cmd now c = rbind (validate_history c) (\<lambda>_.
     case map_of (by_id c) qid of
       None \<Rightarrow> Inl (NoRequest qid)
     | Some q \<Rightarrow> rbind (complete_request sha c q) (\<lambda>q.
         case (reply_port q, reply_contract q) of
           (Some port, Some rc) \<Rightarrow>
             if msg_interaction q \<notin> set REPLY_CONSUMES then Inl ApprovalOnly
             else (case canonical_exchange_fault (msg_contract q) rc (msg_interaction q) of
                 Some f \<Rightarrow> Inl (IncoherentExchange qid f)
               | None \<Rightarrow>
                   (let rid = reply_message_id sha (message_id q) port; owned = map_of (reply_of_command c) cmd in
                    if owned \<noteq> None \<and> owned \<noteq> Some rid then Inl (Damaged (RepliedElsewhere cmd))
                    else case map_of (by_id c) rid of
                      Some stored \<Rightarrow> repeated_reply sha q rid stored actor v cmd c
                    | None \<Rightarrow> first_reply sha q actor v cmd now c))
         | _ \<Rightarrow> Inl (NoRequest qid)))"

definition claim_acknowledgement :: "digest \<Rightarrow> string \<Rightarrow> string \<Rightarrow> string \<Rightarrow> channel \<Rightarrow> channel_error + ack \<times> channel" where
  "claim_acknowledgement mid actor cmd now c =
     rbind (ack_key c mid actor cmd) (\<lambda>key.
     case map_of (ack_by_key c) key of
       Some stored \<Rightarrow> if map_of (ack_commands c) cmd \<noteq> Some key then Inl (AckConflict mid actor) else Inr (stored, c)
     | None \<Rightarrow> rbind (make_ack mid actor now) (\<lambda>a. Inr (a, append_ack key a cmd c)))"

definition acknowledge :: "(nat list \<Rightarrow> string) \<Rightarrow> digest \<Rightarrow> string \<Rightarrow> string \<Rightarrow> string \<Rightarrow> channel \<Rightarrow> channel_error + ack \<times> channel" where
  "acknowledge sha mid actor cmd now c = rbind (validate_history c) (\<lambda>_.
     rbind (case map_of (by_id c) mid of
              None \<Rightarrow> Inr ()
            | Some q \<Rightarrow>
                if msg_kind q \<noteq> Request then Inr ()
                else rbind (complete_request sha c q) (\<lambda>q.
                  case reply_port q of
                    None \<Rightarrow> Inl (Damaged (NoReplyPort mid))
                  | Some port \<Rightarrow> (case map_of (by_id c) (reply_message_id sha (message_id q) port) of
                        None \<Rightarrow> Inr ()
                      | Some r \<Rightarrow> rbind (complete_reply sha c q r) (\<lambda>_. Inr ())))) (\<lambda>_.
     claim_acknowledgement mid actor cmd now c))"

definition latest_revision :: "channel \<Rightarrow> channel_error + channel_revision" where
  "latest_revision c = rbind (validate_history c) (\<lambda>_. Inr \<lparr>message_seq = length (messages c), ack_seq = length (acks c)\<rparr>)"

definition passed :: "nat \<Rightarrow> digest \<Rightarrow> (nat \<times> string) option \<Rightarrow> bool" where
  "passed s mid aft = (case aft of None \<Rightarrow> False | Some (t, u) \<Rightarrow> s < t \<or> (s = t \<and> mid \<le> u))"

fun inbox_page ::
  "(nat list \<Rightarrow> string) \<Rightarrow> channel \<Rightarrow> string \<Rightarrow> (digest \<times> string) set \<Rightarrow> (nat \<times> string) option \<Rightarrow> nat \<Rightarrow> (nat \<times> message) list
     \<Rightarrow> channel_error + delivery list" where
  "inbox_page sha c actor acked aft n [] = Inr []"
| "inbox_page sha c actor acked aft n ((s, m) # ms) =
     rbind (complete_message sha c m) (\<lambda>m.
     if \<not> discoverable_by m actor \<or> passed s (message_id m) aft then inbox_page sha c actor acked aft n ms
     else let d = \<lparr>delivery_seq = s, delivered = m, acknowledged = (message_id m, actor) \<in> acked\<rparr> in
       if n = 1 then Inr [d]
       else rbind (inbox_page sha c actor acked aft (n - 1) ms) (\<lambda>rest. Inr (d # rest)))"

definition inbox ::
  "(nat list \<Rightarrow> string) \<Rightarrow> string \<Rightarrow> channel_revision \<Rightarrow> (nat \<times> string) option \<Rightarrow> int \<Rightarrow> channel \<Rightarrow> channel_error + delivery list" where
  "inbox sha actor at aft limit c =
     (if limit \<le> 0 \<or> limit > batch c then Inl (BadLimit limit)
      else rbind (validate_history c) (\<lambda>_.
        if message_seq at > length (messages c) \<or> ack_seq at > length (acks c) then Inl BadRevision
        else if list_ex (\<lambda>a. dict_get_or 0 (seq_by_id c) (ack_message a) > message_seq at) (take (ack_seq at) (acks c))
        then Inl BadRevision
        else inbox_page sha c actor (set (map ack_key_of (take (ack_seq at) (acks c)))) aft (nat limit)
               (enumerate 1 (take (message_seq at) (messages c)))))"

end
