(* ===== verification/Channel_Laws.thy ===== *)
theory Channel_Laws
  imports In_Process
begin

text \<open>
  Laws of the in-process channel. \<open>chan_ok\<close> is the invariant of its state: the indices are exactly the
  projections of the two append-only lists, and every retained message passes its own completeness check.
  Each operation keeps it and only extends the state (\<open>extends\<close>), so no sequence of calls makes the
  channel report damage, an answer is final, and a cut of an inbox never changes.
\<close>

section \<open>The invariant\<close>

definition msgs_ok :: "channel \<Rightarrow> bool" where
  "msgs_ok c \<longleftrightarrow> distinct (map message_id (messages c)) \<and> by_id c = map (\<lambda>m. (message_id m, m)) (messages c)
     \<and> seq_by_id c = map (\<lambda>(k, m). (message_id m, k)) (enumerate 1 (messages c))"

definition ids_of :: "message_kind \<Rightarrow> channel \<Rightarrow> digest list" where
  "ids_of k c = map message_id (filter (\<lambda>m. msg_kind m = k) (messages c))"

definition requests_ok :: "channel \<Rightarrow> bool" where
  "requests_ok c \<longleftrightarrow> dict_keys (attestations c) = ids_of Request c \<and> dict_keys (intents c) = ids_of Request c"

definition replies_ok :: "channel \<Rightarrow> bool" where
  "replies_ok c \<longleftrightarrow> dict_keys (reply_command c) = ids_of Reply c \<and> dict_keys (reply_proofs c) = ids_of Reply c
     \<and> reply_of_command c = map (\<lambda>(rid, cmd). (cmd, rid)) (reply_command c) \<and> distinct (dict_values (reply_command c))"

definition acks_ok :: "channel \<Rightarrow> bool" where
  "acks_ok c \<longleftrightarrow> distinct (map ack_key_of (acks c)) \<and> ack_by_key c = map (\<lambda>a. (ack_key_of a, a)) (acks c)
     \<and> dict_values (ack_commands c) = map ack_key_of (acks c) \<and> distinct (dict_keys (ack_commands c))
     \<and> list_all (\<lambda>a. ack_message a \<in> set (map message_id (messages c))) (acks c)"

definition complete_ok :: "(nat list \<Rightarrow> string) \<Rightarrow> channel \<Rightarrow> bool" where
  "complete_ok sha c \<longleftrightarrow> list_all (\<lambda>m. complete_message sha c m = Inr m) (messages c)"

definition chan_ok :: "(nat list \<Rightarrow> string) \<Rightarrow> channel \<Rightarrow> bool" where
  "chan_ok sha c \<longleftrightarrow> msgs_ok c \<and> requests_ok c \<and> replies_ok c \<and> acks_ok c \<and> complete_ok sha c"

text \<open>A later state of the same channel.\<close>

definition extends :: "channel \<Rightarrow> channel \<Rightarrow> bool" where
  "extends c c' \<longleftrightarrow> (\<exists>ms as. messages c' = messages c @ ms \<and> acks c' = acks c @ as) \<and> channel_id c' = channel_id c \<and> batch c' = batch c
     \<and> map_of (by_id c) \<subseteq>\<^sub>m map_of (by_id c') \<and> map_of (intents c) \<subseteq>\<^sub>m map_of (intents c')
     \<and> map_of (attestations c) \<subseteq>\<^sub>m map_of (attestations c') \<and> map_of (ack_by_key c) \<subseteq>\<^sub>m map_of (ack_by_key c')
     \<and> map_of (reply_proofs c) \<subseteq>\<^sub>m map_of (reply_proofs c') \<and> map_of (reply_command c) \<subseteq>\<^sub>m map_of (reply_command c')
     \<and> map_of (seq_by_id c) \<subseteq>\<^sub>m map_of (seq_by_id c')"

lemma extends_refl [simp]: "extends c c"
  by (simp add: extends_def)

lemma extends_trans: "extends a b \<Longrightarrow> extends b c \<Longrightarrow> extends a c"
  unfolding extends_def by (elim exE conjE, intro conjI exI) (simp_all, (blast intro: map_le_trans)+)

lemma map_le_append: "map_of d \<subseteq>\<^sub>m map_of (d @ e)"
  unfolding map_of_append by (rule map_le_map_add)

lemma map_of_append_new: "k \<notin> set (dict_keys d) \<Longrightarrow> map_of (d @ [(k, v)]) k = Some v"
  using map_of_eq_None_iff [of d k] by (simp add: map_add_def)

lemma map_leD: "f \<subseteq>\<^sub>m g \<Longrightarrow> f k = Some v \<Longrightarrow> g k = Some v"
  by (metis domI map_le_def)

subsection \<open>Completeness only grows\<close>

lemma complete_request_mono:
  "map_of (intents c) \<subseteq>\<^sub>m map_of (intents c') \<Longrightarrow> complete_request sha c q = Inr r \<Longrightarrow> complete_request sha c' q = Inr r"
  unfolding complete_request_def by (auto split: if_splits option.splits dest: map_leD)

lemma complete_reply_mono:
  assumes "map_of (intents c) \<subseteq>\<^sub>m map_of (intents c')" "map_of (ack_by_key c) \<subseteq>\<^sub>m map_of (ack_by_key c')"
    "map_of (reply_proofs c) \<subseteq>\<^sub>m map_of (reply_proofs c')" "complete_reply sha c q m = Inr r"
  shows "complete_reply sha c' q m = Inr r"
proof -
  obtain v actor a p where q: "complete_request sha c q = Inr q" and v: "validated_reply sha q m = Inr v" "msg_sender v = Some actor"
      and a: "map_of (ack_by_key c) (message_id q, actor) = Some a" and p: "map_of (reply_proofs c) (message_id v) = Some p"
      "validated_channel_reply_proof sha p q v = Inr p" "r = v"
    using assms(4) unfolding complete_reply_def complete_request_def validated_channel_reply_proof_def
    by (auto simp: rbind_eq_Inr split: option.splits if_splits)
  show ?thesis
    using complete_request_mono [OF assms(1) q] map_leD [OF assms(2) a] map_leD [OF assms(3) p(1)] v p(2,3)
    by (simp add: complete_reply_def)
qed

lemma complete_message_mono:
  assumes "extends c c'" "complete_message sha c m = Inr r"
  shows "complete_message sha c' m = Inr r"
  using assms complete_request_mono [of c c' sha m r] complete_reply_mono [of c c' sha]
  unfolding extends_def complete_message_def by (auto split: if_splits option.splits dest: map_leD)


section \<open>Validation passes\<close>

lemma by_id_keys: "msgs_ok c \<Longrightarrow> dict_keys (by_id c) = map message_id (messages c)"
  by (simp add: msgs_ok_def comp_def)

lemma by_id_Some: "msgs_ok c \<Longrightarrow> map_of (by_id c) k = Some m \<longleftrightarrow> m \<in> set (messages c) \<and> message_id m = k"
  unfolding msgs_ok_def by (subst map_of_eq_Some_iff) (auto simp: comp_def)

lemma by_id_None: "msgs_ok c \<Longrightarrow> map_of (by_id c) k = None \<longleftrightarrow> k \<notin> message_id ` set (messages c)"
  by (auto simp: map_of_eq_None_iff msgs_ok_def image_image)

lemma message_history: "msgs_ok c \<Longrightarrow> message_history_ok c"
proof -
  assume ok: "msgs_ok c"
  have k: "dict_keys (seq_by_id c) = map message_id (messages c)"
    using ok unfolding msgs_ok_def by (simp add: comp_def case_prod_unfold flip: map_map [of message_id snd, unfolded comp_def])
  have "map_of (seq_by_id c) (message_id m) = Some k" if "(k, m) \<in> set (enumerate 1 (messages c))" for k m
  proof -
    have "(message_id m, k) \<in> set (seq_by_id c)" using that ok unfolding msgs_ok_def by force
    then show ?thesis using k ok by (simp add: msgs_ok_def)
  qed
  moreover have "map_of (by_id c) (message_id m) = Some m" if "(k, m) \<in> set (enumerate 1 (messages c))" for k m
    using that by (auto simp: by_id_Some [OF ok] enumerate_eq_zip dest: set_zip_rightD)
  moreover have "distinct (map message_id (messages c))" using ok by (simp add: msgs_ok_def)
  ultimately show "message_history_ok c"
    unfolding message_history_ok_def Let_def by_id_keys [OF ok] k by (auto simp: list_all_iff)
qed

lemma reply_ids_eq: "msgs_ok c \<Longrightarrow> reply_ids c = ids_of Reply c"
proof -
  assume ok: "msgs_ok c"
  have e: "(message_id m \<notin> set (request_ids c)) = (msg_kind m = Reply)" if "m \<in> set (messages c)" for m
  proof -
    have "n = m" if "n \<in> set (messages c)" "message_id n = message_id m" for n
      using ok that \<open>m \<in> set (messages c)\<close> by (auto simp: msgs_ok_def distinct_map inj_on_def)
    then show ?thesis using that by (cases "msg_kind m") (auto simp: request_ids_def)
  qed
  show ?thesis unfolding reply_ids_def ids_of_def filter_map comp_def
    by (rule arg_cong [of _ _ "map message_id"], rule filter_cong) (use e in auto)
qed

lemma distinct_ids_of: "msgs_ok c \<Longrightarrow> distinct (ids_of k c)"
  unfolding msgs_ok_def ids_of_def by (simp add: distinct_map_filter)

lemma reply_history: "msgs_ok c \<Longrightarrow> replies_ok c \<Longrightarrow> reply_history_ok c"
proof -
  assume ok: "msgs_ok c" "replies_ok c"
  have v: "dict_values (reply_of_command c) = ids_of Reply c"
    using ok(2) by (auto simp: replies_ok_def comp_def case_prod_unfold)
  have "map_of (reply_of_command c) cmd = Some rid" if "(rid, cmd) \<in> set (reply_command c)" for rid cmd
  proof (rule map_of_is_SomeI)
    show "distinct (dict_keys (reply_of_command c))" using ok(2) by (auto simp: replies_ok_def comp_def case_prod_unfold)
    show "(cmd, rid) \<in> set (reply_of_command c)" using ok(2) that by (force simp: replies_ok_def)
  qed
  then show ?thesis
    using ok(2) v distinct_card [OF distinct_ids_of [OF ok(1), of Reply]]
    unfolding reply_history_ok_def reply_ids_eq [OF ok(1)] replies_ok_def
    by (auto simp: list_all_iff) (metis length_map)
qed

lemma ack_history: "msgs_ok c \<Longrightarrow> acks_ok c \<Longrightarrow> ack_history_ok c"
proof -
  assume ok: "msgs_ok c" "acks_ok c"
  have "map_of (ack_by_key c) (ack_key_of a) = Some a" if "a \<in> set (acks c)" for a
    using ok(2) that by (intro map_of_is_SomeI) (auto simp: acks_ok_def comp_def)
  moreover have "map_of (by_id c) (ack_message a) \<noteq> None" if "a \<in> set (acks c)" for a
    using ok that unfolding by_id_None [OF ok(1)] by (auto simp: acks_ok_def list_all_iff)
  moreover have "length (ack_commands c) = length (acks c)" using ok(2) unfolding acks_ok_def by (metis length_map)
  ultimately show ?thesis
    using ok(2) by (auto simp: ack_history_ok_def Let_def list_all_iff acks_ok_def image_image comp_def)
qed

lemma validate_ok: "chan_ok sha c \<Longrightarrow> validate_history c = Inr ()"
  unfolding validate_history_def chan_ok_def
  by (simp add: message_history reply_history ack_history request_history_ok_def requests_ok_def request_ids_def ids_of_def)


section \<open>Every operation keeps the invariant\<close>

lemma append_message_ok:
  assumes "msgs_ok c" "message_id m \<notin> set (map message_id (messages c))"
  shows "msgs_ok (append_message m c)" "by_id (append_message m c) = by_id c @ [(message_id m, m)]"
    "seq_by_id (append_message m c) = seq_by_id c @ [(message_id m, length (messages c) + 1)]"
proof -
  have k: "dict_keys (seq_by_id c) = map message_id (messages c)"
    using assms(1) unfolding msgs_ok_def by (simp add: comp_def case_prod_unfold flip: map_map [of message_id snd, unfolded comp_def])
  show b: "by_id (append_message m c) = by_id c @ [(message_id m, m)]"
    "seq_by_id (append_message m c) = seq_by_id c @ [(message_id m, length (messages c) + 1)]"
    using assms(2) by (simp_all add: append_message_def update_new k flip: by_id_keys [OF assms(1)] set_map)
  show "msgs_ok (append_message m c)"
    using assms unfolding msgs_ok_def b by (simp add: append_message_def enumerate_append_eq)
qed

lemma append_message_simps [simp]:
  "messages (append_message m c) = messages c @ [m]" "acks (append_message m c) = acks c" "intents (append_message m c) = intents c"
  "attestations (append_message m c) = attestations c" "ack_by_key (append_message m c) = ack_by_key c"
  "ack_commands (append_message m c) = ack_commands c" "reply_command (append_message m c) = reply_command c"
  "reply_of_command (append_message m c) = reply_of_command c" "reply_proofs (append_message m c) = reply_proofs c"
  "channel_id (append_message m c) = channel_id c" "batch (append_message m c) = batch c"
  by (simp_all add: append_message_def)

lemma ids_of_append: "messages c' = messages c @ [m] \<Longrightarrow> ids_of k c' = ids_of k c @ (if msg_kind m = k then [message_id m] else [])"
  by (simp add: ids_of_def)

lemma set_ids_of: "set (ids_of k c) \<subseteq> set (map message_id (messages c))"
  by (auto simp: ids_of_def)

text \<open>A new request.\<close>

lemma new_request_ok:
  assumes ok: "chan_ok sha c" and new: "map_of (by_id c) (intent_id i) = None" and m: "message_for_intent sha i now = Inr m"
    and c': "c' = (append_message m c)\<lparr>attestations := dict_set (message_id m) att (attestations c),
                                       intents := dict_set (message_id m) i (intents c)\<rparr>"
  shows "chan_ok sha c' \<and> extends c c'"
proof -
  have f: "message_id m = intent_id i" "msg_kind m = Request" "created_at (msg_envelope m) = now" using message_for_intent_fields [OF m] by auto
  have msgs: "msgs_ok c" and req: "requests_ok c" using ok by (simp_all add: chan_ok_def)
  have fresh: "message_id m \<notin> set (map message_id (messages c))" using new by (simp add: by_id_None [OF msgs] f)
  note a = append_message_ok [OF msgs fresh]
  have keys: "message_id m \<notin> set (dict_keys (attestations c))" "message_id m \<notin> set (dict_keys (intents c))"
    using fresh set_ids_of [of Request c] req by (auto simp: requests_ok_def)
  have u: "attestations c' = attestations c @ [(message_id m, att)]" "intents c' = intents c @ [(message_id m, i)]"
    using keys by (simp_all add: c' update_new flip: set_map)
  have g: "messages c' = messages c @ [m]" "by_id c' = by_id c @ [(message_id m, m)]"
    "seq_by_id c' = seq_by_id c @ [(message_id m, length (messages c) + 1)]" "acks c' = acks c" "ack_by_key c' = ack_by_key c"
    "ack_commands c' = ack_commands c" "reply_command c' = reply_command c" "reply_of_command c' = reply_of_command c"
    "reply_proofs c' = reply_proofs c" "channel_id c' = channel_id c" "batch c' = batch c"
    by (simp_all add: c' a)
  have e: "extends c c'" unfolding extends_def g u by (auto intro: map_le_append)
  have "msgs_ok c'" using a(1) by (simp add: msgs_ok_def c')
  moreover have "requests_ok c'" using req by (simp add: requests_ok_def u ids_of_append [OF g(1)] f)
  moreover have "replies_ok c'" using ok by (simp add: chan_ok_def replies_ok_def g ids_of_append [OF g(1)] f)
  moreover have "acks_ok c'" using ok by (auto simp: chan_ok_def acks_ok_def g list_all_iff)
  moreover have "complete_message sha c' m = Inr m"
  proof -
    have "map_of (intents c') (message_id m) = Some i"
      unfolding u by (rule map_of_append_new [OF keys(2)])
    then show ?thesis using m f by (simp add: complete_message_def complete_request_def)
  qed
  then have "complete_ok sha c'"
    using ok complete_message_mono [OF e] by (auto simp: chan_ok_def complete_ok_def g(1) list_all_iff)
  ultimately show ?thesis using e by (simp add: chan_ok_def)
qed


text \<open>A new acknowledgement, of a retained message and by a command that owns no other.\<close>

lemma new_ack_ok:
  assumes ok: "chan_ok sha c" and key: "ack_key c mid actor cmd = Inr key" and new: "map_of (ack_by_key c) key = None"
    and a: "make_ack mid actor now = Inr a"
  shows "chan_ok sha (append_ack key a cmd c) \<and> extends c (append_ack key a cmd c)"
proof -
  let ?c = "append_ack key a cmd c"
  have acks: "acks_ok c" and msgs: "msgs_ok c" using ok by (simp_all add: chan_ok_def)
  have k: "key = (mid, actor)" "map_of (by_id c) mid \<noteq> None" "map_of (ack_commands c) cmd = None \<or> map_of (ack_commands c) cmd = Some key"
    using key unfolding ack_key_def Let_def by (auto simp: rbind_eq_Inr split: if_splits option.splits)
  have aa: "ack_key_of a = key" "ack_message a = mid" using a by (auto simp: make_ack_def ack_key_of_def k(1) split: if_splits)
  have fresh: "key \<notin> set (map ack_key_of (acks c))"
    using new acks by (auto simp: acks_ok_def map_of_eq_None_iff image_image)
  have "cmd \<notin> set (dict_keys (ack_commands c))"
  proof
    assume "cmd \<in> set (dict_keys (ack_commands c))"
    then have "map_of (ack_commands c) cmd = Some key" using k(3) by (auto simp: map_of_eq_None_iff)
    then have "key \<in> set (dict_values (ack_commands c))" by (force dest: map_of_SomeD)
    moreover have "dict_values (ack_commands c) = map ack_key_of (acks c)" using acks by (simp add: acks_ok_def)
    ultimately show False using fresh by metis
  qed
  then have g: "acks ?c = acks c @ [a]" "ack_by_key ?c = ack_by_key c @ [(key, a)]" "ack_commands ?c = ack_commands c @ [(cmd, key)]"
    using new by (simp_all add: append_ack_def update_new map_of_eq_None_iff flip: set_map)
  have h: "messages ?c = messages c" "by_id ?c = by_id c" "seq_by_id ?c = seq_by_id c" "attestations ?c = attestations c" "intents ?c = intents c"
    "reply_command ?c = reply_command c" "reply_of_command ?c = reply_of_command c" "reply_proofs ?c = reply_proofs c"
    "channel_id ?c = channel_id c" "batch ?c = batch c"
    by (simp_all add: append_ack_def)
  have ids: "ids_of kd ?c = ids_of kd c" for kd by (simp add: ids_of_def h)
  have e: "extends c ?c" unfolding extends_def g h by (auto intro: map_le_append)
  have "mid \<in> message_id ` set (messages c)"
    using k(2) by (rule contrapos_np) (rule by_id_None [OF msgs, THEN iffD2])
  moreover have o: "distinct (map ack_key_of (acks c))" "ack_by_key c = map (\<lambda>a. (ack_key_of a, a)) (acks c)"
    "dict_values (ack_commands c) = map ack_key_of (acks c)" "distinct (dict_keys (ack_commands c))"
    "list_all (\<lambda>a. ack_message a \<in> set (map message_id (messages c))) (acks c)"
    using acks unfolding acks_ok_def by blast+
  ultimately have "acks_ok ?c"
    using fresh \<open>cmd \<notin> set (dict_keys (ack_commands c))\<close> unfolding acks_ok_def g h o(2) by (simp add: o(1,3-5) [simplified] aa)
  moreover have "complete_ok sha ?c"
    using ok complete_message_mono [OF e] by (auto simp: chan_ok_def complete_ok_def h(1) list_all_iff)
  moreover have "msgs_ok ?c" "requests_ok ?c" "replies_ok ?c"
    using ok unfolding chan_ok_def msgs_ok_def requests_ok_def replies_ok_def h ids by blast+
  ultimately show ?thesis using e by (simp add: chan_ok_def)
qed


text \<open>A new reply to a retained request whose acknowledgement by the same actor is retained.\<close>

lemma new_reply_ok:
  assumes ok: "chan_ok sha c" and q: "q \<in> set (messages c)" and r: "message_for_reply sha q actor v now = Inr r"
    and new: "map_of (by_id c) (message_id r) = None" and p: "channel_reply_proof sha q r = Inr p"
    and ack: "map_of (ack_by_key c) (message_id q, actor) \<noteq> None"
    and owned: "map_of (reply_of_command c) cmd = None \<or> map_of (reply_of_command c) cmd = Some (message_id r)"
  shows "chan_ok sha (store_reply r cmd p c) \<and> extends c (store_reply r cmd p c)"
proof -
  let ?c = "store_reply r cmd p c"
  have msgs: "msgs_ok c" and rep: "replies_ok c" using ok by (simp_all add: chan_ok_def)
  have fresh: "message_id r \<notin> set (map message_id (messages c))" using new by (simp add: by_id_None [OF msgs])
  note a = append_message_ok [OF msgs fresh]
  have f: "msg_kind q = Request" "msg_kind r = Reply" "msg_sender r = Some actor" "reply_to r = Some (message_id q)"
    using message_for_reply_fields [OF r] by metis+
  have o: "dict_keys (reply_command c) = ids_of Reply c" "dict_keys (reply_proofs c) = ids_of Reply c"
    "reply_of_command c = map (\<lambda>(rid, cmd). (cmd, rid)) (reply_command c)" "distinct (dict_values (reply_command c))"
    using rep unfolding replies_ok_def by blast+
  have keys: "message_id r \<notin> set (dict_keys (reply_command c))" "message_id r \<notin> set (dict_keys (reply_proofs c))"
    unfolding o(1,2) using fresh set_ids_of by blast+
  have "map_of (reply_of_command c) cmd \<noteq> Some (message_id r)"
    using keys(1) by (force simp: o(3) dest!: map_of_SomeD)
  then have "map_of (reply_of_command c) cmd = None" using owned by blast
  then have cmd: "cmd \<notin> set (dict_keys (reply_of_command c))" "cmd \<notin> set (dict_values (reply_command c))"
    by (force simp: map_of_eq_None_iff o(3))+
  have g: "messages ?c = messages c @ [r]" "by_id ?c = by_id c @ [(message_id r, r)]"
    "seq_by_id ?c = seq_by_id c @ [(message_id r, length (messages c) + 1)]" "acks ?c = acks c" "ack_by_key ?c = ack_by_key c"
    "ack_commands ?c = ack_commands c" "attestations ?c = attestations c" "intents ?c = intents c"
    "reply_command ?c = reply_command c @ [(message_id r, cmd)]" "reply_of_command ?c = reply_of_command c @ [(cmd, message_id r)]"
    "reply_proofs ?c = reply_proofs c @ [(message_id r, p)]" "channel_id ?c = channel_id c" "batch ?c = batch c"
    using keys cmd by (simp_all add: store_reply_def a update_new flip: set_map)
  have e: "extends c ?c" unfolding extends_def g by (auto intro: map_le_append)
  have "msgs_ok ?c" using a(1) by (simp add: msgs_ok_def store_reply_def)
  moreover have "requests_ok ?c" using ok by (simp add: chan_ok_def requests_ok_def g ids_of_append [OF g(1)] f)
  moreover have "replies_ok ?c"
    using cmd(2) unfolding replies_ok_def g ids_of_append [OF g(1)] o(3) by (simp add: o(1,2,4) f)
  moreover have "acks_ok ?c" using ok unfolding chan_ok_def acks_ok_def g by (auto simp: list_all_iff)
  moreover have "complete_message sha ?c r = Inr r"
  proof -
    have "complete_message sha c q = Inr q" using ok q by (auto simp: chan_ok_def complete_ok_def list_all_iff)
    then have cq: "complete_request sha ?c q = Inr q" using complete_request_mono [of c ?c] f(1) by (simp add: complete_message_def g)
    have "map_of (by_id c) (message_id q) = Some q" using q by_id_Some [OF msgs] by blast
    then have "map_of (by_id ?c) (message_id q) = Some q" using e unfolding extends_def by (blast dest: map_leD)
    moreover have "map_of (reply_proofs ?c) (message_id r) = Some p" unfolding g by (rule map_of_append_new [OF keys(2)])
    moreover have "validated_channel_reply_proof sha p q r = Inr p" using reply_proof_exists [OF r] p by auto
    ultimately show ?thesis
      using cq reply_validates [OF r] ack f by (auto simp: complete_message_def complete_reply_def g(5))
  qed
  then have "complete_ok sha ?c"
    using ok complete_message_mono [OF e] by (auto simp: chan_ok_def complete_ok_def g(1) list_all_iff)
  ultimately show ?thesis using e by (simp add: chan_ok_def)
qed

lemma store_reply_ack_commute: "append_ack key a cmd (store_reply r cmd' p c) = store_reply r cmd' p (append_ack key a cmd c)"
  by (simp add: append_ack_def store_reply_def append_message_def)

lemma complete_request_self: "complete_request sha c q = Inr r \<Longrightarrow> r = q \<and> msg_kind q = Request"
  unfolding complete_request_def by (auto simp: rbind_eq_Inr split: if_splits option.splits)

lemma append_request_step:
  assumes "chan_ok sha c" "append_request sha i att now c = Inr (m, c')"
  shows "chan_ok sha c' \<and> extends c c' \<and> m \<in> set (messages c') \<and> message_id m = intent_id i"
proof (cases "map_of (by_id c) (intent_id i)")
  case None
  then have m: "message_for_intent sha i now = Inr m" and c': "c' = (append_message m c)\<lparr>attestations := dict_set (message_id m) att (attestations c),
                                       intents := dict_set (message_id m) i (intents c)\<rparr>"
    using assms unfolding append_request_def by (auto simp: rbind_eq_Inr split: if_splits)
  then show ?thesis using new_request_ok [OF assms(1) None m c'] message_for_intent_fields [OF m] by simp
next
  case (Some stored)
  then have "m = stored" "c' = c"
    using assms complete_request_self unfolding append_request_def by (auto simp: rbind_eq_Inr split: if_splits)
  then show ?thesis using Some by_id_Some assms(1) by (auto simp: chan_ok_def)
qed

lemma acknowledge_step:
  assumes "chan_ok sha c" "acknowledge sha mid actor cmd now c = Inr (a, c')"
  shows "chan_ok sha c' \<and> extends c c'"
proof -
  have "claim_acknowledgement mid actor cmd now c = Inr (a, c')"
    using assms(2) unfolding acknowledge_def by (auto simp: rbind_eq_Inr)
  then obtain key where k: "ack_key c mid actor cmd = Inr key"
    and cl: "(case map_of (ack_by_key c) key of
       Some stored \<Rightarrow> if map_of (ack_commands c) cmd \<noteq> Some key then Inl (AckConflict mid actor) else Inr (stored, c)
     | None \<Rightarrow> rbind (make_ack mid actor now) (\<lambda>a. Inr (a, append_ack key a cmd c))) = Inr (a, c')"
    unfolding claim_acknowledgement_def by (auto simp: rbind_eq_Inr)
  show ?thesis
  proof (cases "map_of (ack_by_key c) key")
    case None
    then show ?thesis using cl new_ack_ok [OF assms(1) k None] by (auto simp: rbind_eq_Inr)
  qed (use cl assms(1) in \<open>auto split: if_splits\<close>)
qed

lemma complete_reply_self: "complete_reply sha c q m = Inr r \<Longrightarrow> r = m \<and> validated_reply sha q m = Inr m"
proof -
  assume "complete_reply sha c q m = Inr r"
  note eq = this
  then obtain q' where q': "complete_request sha c q = Inr q'" by (cases "complete_request sha c q") (auto simp: complete_reply_def)
  then have "q' = q" using complete_request_self by blast
  note q' = q' [unfolded this]
  obtain v where v: "validated_reply sha q m = Inr v" using eq q' by (cases "validated_reply sha q m") (auto simp: complete_reply_def)
  have "r = v" using eq q' v by (auto simp: complete_reply_def rbind_eq_Inr split: option.splits if_splits)
  then show ?thesis using v validated_reply_fields [OF v] by simp
qed

lemma first_reply_step:
  assumes ok: "chan_ok sha c" and q: "q \<in> set (messages c)" and port: "reply_port q = Some port"
    and new: "map_of (by_id c) (reply_message_id sha (message_id q) port) = None"
    and owned: "map_of (reply_of_command c) cmd = None \<or> map_of (reply_of_command c) cmd = Some (reply_message_id sha (message_id q) port)"
    and eq: "first_reply sha q actor v cmd now c = Inr (r, c')"
  shows "chan_ok sha c' \<and> extends c c' \<and> r \<in> set (messages c') \<and> message_id r = reply_message_id sha (message_id q) port
    \<and> msg_kind r = Reply \<and> reply_to r = Some (message_id q)"
proof -
  obtain key p where k: "ack_key c (message_id q) actor cmd = Inr key" and r: "message_for_reply sha q actor v now = Inr r"
      and p: "channel_reply_proof sha q r = Inr p"
      and c': "(if map_of (ack_by_key c) key \<noteq> None then Inr (r, store_reply r cmd p c)
         else rbind (make_ack (message_id q) actor now) (\<lambda>a. Inr (r, append_ack key a cmd (store_reply r cmd p c))))
         = (Inr (r, c') :: channel_error + message \<times> channel)"
    using eq unfolding first_reply_def Let_def by (auto simp: rbind_eq_Inr split: if_splits)
  have key: "key = (message_id q, actor)"
    using k unfolding ack_key_def Let_def by (auto simp: rbind_eq_Inr split: if_splits option.splits)
  have rid: "message_id r = reply_message_id sha (message_id q) port" "msg_kind r = Reply" "reply_to r = Some (message_id q)"
    using port by (rule_tac message_for_reply_fields [OF r], simp)+
  have o: "map_of (by_id c) (message_id r) = None" "map_of (reply_of_command c) cmd = None \<or> map_of (reply_of_command c) cmd = Some (message_id r)"
    using new owned rid by auto
  show ?thesis
  proof (cases "map_of (ack_by_key c) key")
    case (Some a)
    then have c'': "c' = store_reply r cmd p c" using c' by simp
    have "chan_ok sha c' \<and> extends c c'"
      unfolding c'' by (rule new_reply_ok [OF ok q r o(1) p _ o(2)]) (use Some key in simp)
    then show ?thesis using rid by (simp add: c'' store_reply_def)
  next
    case None
    then obtain a where a: "make_ack (message_id q) actor now = Inr a" and c'': "c' = store_reply r cmd p (append_ack key a cmd c)"
      using c' by (auto simp: rbind_eq_Inr store_reply_ack_commute)
    let ?c = "append_ack key a cmd c"
    have 1: "chan_ok sha ?c \<and> extends c ?c" by (rule new_ack_ok [OF ok k None a])
    have "chan_ok sha c' \<and> extends ?c c'"
      unfolding c''
    proof (rule new_reply_ok [OF _ _ r _ p])
      show "q \<in> set (messages ?c)" using q by (simp add: append_ack_def)
      show "map_of (by_id ?c) (message_id r) = None" using o(1) by (simp add: append_ack_def)
      show "map_of (ack_by_key ?c) (message_id q, actor) \<noteq> None" by (simp add: append_ack_def key)
      show "map_of (reply_of_command ?c) cmd = None \<or> map_of (reply_of_command ?c) cmd = Some (message_id r)" using o(2) by (simp add: append_ack_def)
    qed (use 1 in simp)
    then show ?thesis using 1 extends_trans rid by (auto simp: c'' store_reply_def append_ack_def)
  qed
qed


lemma reply_cases:
  assumes "reply sha qid actor v cmd now c = Inr (r, c')"
  obtains q port where "map_of (by_id c) qid = Some q" "complete_request sha c q = Inr q" "reply_port q = Some port"
    "map_of (reply_of_command c) cmd = None \<or> map_of (reply_of_command c) cmd = Some (reply_message_id sha (message_id q) port)"
    "msg_interaction q = Advice"
    "(case map_of (by_id c) (reply_message_id sha (message_id q) port) of
        Some stored \<Rightarrow> repeated_reply sha q (reply_message_id sha (message_id q) port) stored actor v cmd c
      | None \<Rightarrow> first_reply sha q actor v cmd now c) = Inr (r, c')"
proof -
  obtain q where q: "map_of (by_id c) qid = Some q" using assms unfolding reply_def by (auto simp: rbind_eq_Inr split: option.splits)
  obtain q' where q': "complete_request sha c q = Inr q'" using assms q unfolding reply_def by (auto simp: rbind_eq_Inr)
  have "q' = q" using complete_request_self [OF q'] by simp
  with q' have cq: "complete_request sha c q = Inr q" by simp
  obtain port rc where p: "reply_port q = Some port" "reply_contract q = Some rc"
    using assms q cq unfolding reply_def by (auto simp: rbind_eq_Inr split: option.splits)
  have "msg_interaction q = Advice"
    using assms q cq p unfolding reply_def by (cases "msg_interaction q") (auto simp: rbind_eq_Inr REPLY_CONSUMES_def)
  then show ?thesis
    using that [OF q cq p(1)] assms q cq p unfolding reply_def Let_def
    by (auto simp: rbind_eq_Inr split: option.splits if_splits)
qed

text \<open>The request \<open>qid\<close> carries the complete reply \<open>r\<close>.\<close>

definition answered :: "(nat list \<Rightarrow> string) \<Rightarrow> channel \<Rightarrow> digest \<Rightarrow> message \<Rightarrow> bool" where
  "answered sha c qid r \<longleftrightarrow> (\<exists>q port. map_of (by_id c) qid = Some q \<and> message_id q = qid \<and> complete_request sha c q = Inr q
     \<and> reply_port q = Some port \<and> map_of (by_id c) (reply_message_id sha qid port) = Some r \<and> complete_reply sha c q r = Inr r)"

lemma reply_for_iff_answered: "chan_ok sha c \<Longrightarrow> reply_for sha qid c = Inr (Some r) \<longleftrightarrow> answered sha c qid r"
proof -
  assume ok: "chan_ok sha c"
  then have msgs: "msgs_ok c" by (simp add: chan_ok_def)
  have "message_id q = qid" if "map_of (by_id c) qid = Some q" for q using that by_id_Some [OF msgs] by simp
  then show ?thesis
    using validate_ok [OF ok] complete_request_self [of sha c] complete_reply_self [of sha c]
    unfolding reply_for_def answered_def by (fastforce simp: rbind_eq_Inr split: option.splits)
qed

lemma answered_later: "extends c c' \<Longrightarrow> answered sha c qid r \<Longrightarrow> answered sha c' qid r"
  unfolding answered_def extends_def by (blast intro: complete_request_mono complete_reply_mono map_leD)

lemma reply_step:
  assumes ok: "chan_ok sha c" and eq: "reply sha qid actor v cmd now c = Inr (r, c')"
  shows "chan_ok sha c' \<and> extends c c' \<and> answered sha c' qid r \<and> (\<exists>q. map_of (by_id c) qid = Some q \<and> msg_interaction q = Advice)"
  using eq
proof (rule reply_cases)
  fix q :: message and port
  let ?rid = "reply_message_id sha (message_id q) port"
  assume q: "map_of (by_id c) qid = Some q" "complete_request sha c q = Inr q" "reply_port q = Some port"
    and o: "map_of (reply_of_command c) cmd = None \<or> map_of (reply_of_command c) cmd = Some ?rid" and adv: "msg_interaction q = Advice"
    and c: "(case map_of (by_id c) ?rid of Some stored \<Rightarrow> repeated_reply sha q ?rid stored actor v cmd c
       | None \<Rightarrow> first_reply sha q actor v cmd now c) = Inr (r, c')"
  have msgs: "msgs_ok c" using ok by (simp add: chan_ok_def)
  have qq: "q \<in> set (messages c)" "message_id q = qid" using q(1) by_id_Some [OF msgs] by auto
  show ?thesis
  proof (cases "map_of (by_id c) ?rid")
    case None
    then have f: "chan_ok sha c' \<and> extends c c' \<and> r \<in> set (messages c') \<and> message_id r = ?rid \<and> msg_kind r = Reply \<and> reply_to r = Some qid"
      using first_reply_step [OF ok qq(1) q(3) None o] c qq(2) by simp
    then have l: "map_of (by_id c') qid = Some q" "complete_request sha c' q = Inr q"
      using q(1,2) unfolding extends_def by (blast dest: map_leD intro: complete_request_mono)+
    have "complete_message sha c' r = Inr r" using f by (auto simp: chan_ok_def complete_ok_def list_all_iff)
    then have "complete_reply sha c' q r = Inr r" using f l by (simp add: complete_message_def)
    moreover have "map_of (by_id c') ?rid = Some r" using f by_id_Some [of c'] by (auto simp: chan_ok_def)
    ultimately show ?thesis using f l q qq adv unfolding answered_def by auto
  next
    case (Some stored)
    then obtain w where w: "complete_reply sha c q stored = Inr w" "c' = c" "r = w"
      using c unfolding repeated_reply_def by (auto simp: rbind_eq_Inr split: if_splits)
    then have "w = stored" using complete_reply_self by blast
    then show ?thesis using w Some q qq adv ok unfolding answered_def by auto
  qed
qed

section \<open>The transport contract\<close>

text \<open>What a participant relies on in a transport (\<^verbatim>\<open>Channel\<close> in \<^verbatim>\<open>core/channel.py\<close>): a successful reply is what
  \<^verbatim>\<open>reply_for\<close> shows from then on.\<close>

locale answering =
  fixes good :: "'s \<Rightarrow> bool" and later :: "'s \<Rightarrow> 's \<Rightarrow> bool" and answer_of :: "'s \<Rightarrow> 'i \<Rightarrow> 'm option"
    and answer :: "'i \<Rightarrow> 'a \<Rightarrow> 'v \<Rightarrow> 'c \<Rightarrow> 't \<Rightarrow> 's \<Rightarrow> 'e + 'm \<times> 's"
  assumes answer_good: "good s \<Longrightarrow> answer q a v k t s = Inr (r, s') \<Longrightarrow> good s' \<and> later s s' \<and> answer_of s' q = Some r"
    and answer_kept: "good s \<Longrightarrow> good s' \<Longrightarrow> later s s' \<Longrightarrow> answer_of s q = Some r \<Longrightarrow> answer_of s' q = Some r"
begin

lemma answered_once:
  assumes "good s" "answer q a v k t s = Inr (r, s1)" "good s2" "later s1 s2" "answer q a' v' k' t' s2 = Inr (r', s3)"
  shows "r' = r \<and> answer_of s3 q = Some r"
proof -
  have 1: "good s1" "answer_of s1 q = Some r" using answer_good [OF assms(1,2)] by auto
  have 2: "answer_of s2 q = Some r" using answer_kept [OF 1(1) assms(3,4) 1(2)] .
  have 3: "good s3" "later s2 s3" "answer_of s3 q = Some r'" using answer_good [OF assms(3,5)] by auto
  then show ?thesis using answer_kept [OF assms(3) 3(1,2) 2] by simp
qed

end

definition answer_in :: "(nat list \<Rightarrow> string) \<Rightarrow> channel \<Rightarrow> digest \<Rightarrow> message option" where
  "answer_in sha c qid = (case reply_for sha qid c of Inr x \<Rightarrow> x | Inl _ \<Rightarrow> None)"

lemma answer_in_iff: "chan_ok sha c \<Longrightarrow> answer_in sha c qid = Some r \<longleftrightarrow> answered sha c qid r"
  unfolding answer_in_def by (cases "reply_for sha qid c") (auto simp flip: reply_for_iff_answered)

interpretation in_process: answering "chan_ok sha" extends "answer_in sha" "reply sha" for sha
proof
  show "chan_ok sha s' \<and> extends s s' \<and> answer_in sha s' q = Some r"
    if "chan_ok sha s" "reply sha q a v k t s = Inr (r, s')" for s s' q a v k t r
    using reply_step [OF that] answer_in_iff by blast
  show "answer_in sha s' q = Some r" if "chan_ok sha s" "chan_ok sha s'" "extends s s'" "answer_in sha s q = Some r" for s s' q r
    using that answer_in_iff answered_later by blast
qed

section \<open>Runs of a channel\<close>

inductive channel_step :: "(nat list \<Rightarrow> string) \<Rightarrow> channel \<Rightarrow> channel \<Rightarrow> bool" for sha where
  sends: "append_request sha i att now c = Inr (m, c') \<Longrightarrow> channel_step sha c c'"
| replies: "reply sha qid actor v cmd now c = Inr (r, c') \<Longrightarrow> channel_step sha c c'"
| acknowledges: "acknowledge sha mid actor cmd now c = Inr (a, c') \<Longrightarrow> channel_step sha c c'"

inductive channel_reachable :: "(nat list \<Rightarrow> string) \<Rightarrow> channel \<Rightarrow> bool" for sha where
  opened: "new_channel ch n = Inr c \<Longrightarrow> channel_reachable sha c"
| stepped: "channel_reachable sha c \<Longrightarrow> channel_step sha c c' \<Longrightarrow> channel_reachable sha c'"

inductive_simps channel_step_iff: "channel_step sha c c'"

lemma step_ok: "channel_step sha c c' \<Longrightarrow> chan_ok sha c \<Longrightarrow> chan_ok sha c' \<and> extends c c'"
  by (induction rule: channel_step.induct) (auto dest: append_request_step reply_step acknowledge_step)

lemma channel_reachable_ok: "channel_reachable sha c \<Longrightarrow> chan_ok sha c"
proof (induction rule: channel_reachable.induct)
  case (opened ch n c)
  then show ?case
    by (auto simp: new_channel_def chan_ok_def msgs_ok_def requests_ok_def replies_ok_def acks_ok_def complete_ok_def ids_of_def split: if_splits)
qed (use step_ok in blast)

lemma steps_ok:
  "(channel_step sha)\<^sup>*\<^sup>* c c' \<Longrightarrow> chan_ok sha c \<Longrightarrow> chan_ok sha c' \<and> extends c c'"
  by (induction rule: rtranclp_induct) (use step_ok extends_trans in \<open>blast | simp\<close>)+

section \<open>Inbox pages\<close>

definition visible :: "string \<Rightarrow> (nat \<times> string) option \<Rightarrow> nat \<times> message \<Rightarrow> bool" where
  "visible actor aft sm \<longleftrightarrow> discoverable_by (snd sm) actor \<and> \<not> passed (fst sm) (message_id (snd sm)) aft"

definition deliver :: "string \<Rightarrow> (digest \<times> string) set \<Rightarrow> nat \<times> message \<Rightarrow> delivery" where
  "deliver actor acked sm = \<lparr>delivery_seq = fst sm, delivered = snd sm, acknowledged = (message_id (snd sm), actor) \<in> acked\<rparr>"

lemma inbox_page_exact:
  assumes "\<And>s m. (s, m) \<in> set ms \<Longrightarrow> complete_message sha c m = Inr m" "n > 0"
  shows "inbox_page sha c actor acked aft n ms = Inr (take n (map (deliver actor acked) (filter (visible actor aft) ms)))"
  using assms
proof (induction ms arbitrary: n)
  case (Cons sm ms)
  obtain s m where sm: "sm = (s, m)" by (cases sm)
  have m: "complete_message sha c m = Inr m" using Cons.prems(1) [of s m] sm by simp
  have IH: "inbox_page sha c actor acked aft k ms = Inr (take k (map (deliver actor acked) (filter (visible actor aft) ms)))" if "k > 0" for k
    by (rule Cons.IH) (use Cons.prems(1) that in auto)
  show ?case
  proof (cases "n = 1")
    case True
    then show ?thesis using IH [of 1] by (simp add: sm m visible_def [of actor aft "(s, m)"] deliver_def [of actor acked "(s, m)"] Let_def)
  next
    case False
    then obtain k where k: "n = Suc (Suc k)" using Cons.prems(2) by (metis One_nat_def gr0_conv_Suc not0_implies_Suc)
    then show ?thesis using IH [of n] IH [of "Suc k"] by (simp add: sm m visible_def [of actor aft "(s, m)"] deliver_def [of actor acked "(s, m)"] Let_def)
  qed
qed simp

lemma inbox_exact:
  assumes "chan_ok sha c" "inbox sha actor at aft limit c = Inr page"
  shows "0 < limit \<and> limit \<le> batch c \<and> message_seq at \<le> length (messages c) \<and> ack_seq at \<le> length (acks c)
    \<and> list_all (\<lambda>a. dict_get_or 0 (seq_by_id c) (ack_message a) \<le> message_seq at) (take (ack_seq at) (acks c))
    \<and> page = take (nat limit) (map (deliver actor (set (map ack_key_of (take (ack_seq at) (acks c)))))
        (filter (visible actor aft) (enumerate 1 (take (message_seq at) (messages c)))))"
proof -
  have c: "complete_message sha c m = Inr m" if "(s, m) \<in> set (enumerate 1 (take (message_seq at) (messages c)))" for s m
    using that assms(1) by (auto simp: chan_ok_def complete_ok_def list_all_iff enumerate_eq_zip dest!: set_zip_rightD in_set_takeD)
  have l: "0 < limit" "limit \<le> batch c" using assms(2) by (auto simp: inbox_def split: if_splits)
  then show ?thesis
    using assms(2) inbox_page_exact [where n = "nat limit", OF c] validate_ok [OF assms(1)]
    by (auto simp: inbox_def not_less list_all_iff list_ex_iff split: if_splits)
qed

lemma inbox_stable:
  assumes "chan_ok sha c" "chan_ok sha c'" "extends c c'" "inbox sha actor at aft limit c = Inr page"
  shows "inbox sha actor at aft limit c' = Inr page"
proof -
  note x = inbox_exact [OF assms(1,4)]
  obtain ms as where e: "messages c' = messages c @ ms" "acks c' = acks c @ as" "batch c' = batch c"
      "map_of (seq_by_id c) \<subseteq>\<^sub>m map_of (seq_by_id c')"
    using assms(3) unfolding extends_def by blast
  have t: "take (message_seq at) (messages c') = take (message_seq at) (messages c)" "take (ack_seq at) (acks c') = take (ack_seq at) (acks c)"
    using x by (simp_all add: e)
  have k: "dict_keys (seq_by_id c) = map message_id (messages c)"
    using assms(1) unfolding chan_ok_def msgs_ok_def by (simp add: comp_def case_prod_unfold flip: map_map [of message_id snd, unfolded comp_def])
  have s: "dict_get_or 0 (seq_by_id c') (ack_message a) = dict_get_or 0 (seq_by_id c) (ack_message a)" if "a \<in> set (take (ack_seq at) (acks c))" for a
  proof -
    have "ack_message a \<in> set (map message_id (messages c))"
      using that assms(1) by (auto simp: chan_ok_def acks_ok_def list_all_iff dest: in_set_takeD)
    then obtain n where "map_of (seq_by_id c) (ack_message a) = Some n" unfolding k [symmetric] by (metis map_of_eq_None_iff not_None_eq set_map)
    then show ?thesis using map_leD [OF e(4)] by (simp add: dict_get_or_def)
  qed
  have c: "complete_message sha c' m = Inr m" if "(s, m) \<in> set (enumerate 1 (take (message_seq at) (messages c')))" for s m
    using that assms(2) by (auto simp: chan_ok_def complete_ok_def list_all_iff enumerate_eq_zip dest!: set_zip_rightD in_set_takeD)
  show ?thesis
    using x s inbox_page_exact [where n = "nat limit", OF c] validate_ok [OF assms(2)]
    by (auto simp: inbox_def t e list_all_iff list_ex_iff not_less)
qed

section \<open>Properties\<close>

lemma inbox_total:
  assumes "chan_ok sha c"
  shows "inbox sha actor at aft limit c = Inl e \<Longrightarrow> e = BadLimit limit \<or> e = BadRevision"
proof -
  have c: "complete_message sha c m = Inr m" if "(s, m) \<in> set (enumerate 1 (take (message_seq at) (messages c)))" for s m
    using that assms(1) by (auto simp: chan_ok_def complete_ok_def list_all_iff enumerate_eq_zip dest!: set_zip_rightD in_set_takeD)
  show "inbox sha actor at aft limit c = Inl e \<Longrightarrow> e = BadLimit limit \<or> e = BadRevision"
    using inbox_page_exact [where n = "nat limit", OF c] validate_ok [OF assms] by (auto simp: inbox_def split: if_splits)
qed


text \<open>C34. One request, one answer: once a reply to a request has been accepted, whatever happens to the channel
  afterwards, \<^verbatim>\<open>reply_for\<close> shows that reply and every further accepted reply to the request is that
  same message. The answer's sender is the recipient the request is sealed to, when it is sealed to one.\<close>

theorem one_reply_per_request:
  assumes "channel_reachable sha c" "reply sha qid actor v cmd now c = Inr (r, c1)" "(channel_step sha)\<^sup>*\<^sup>* c1 c2"
  shows "reply_for sha qid c2 = Inr (Some r)
    \<and> (\<forall>actor' v' cmd' now' r' c3. reply sha qid actor' v' cmd' now' c2 = Inr (r', c3) \<longrightarrow> r' = r)
    \<and> (\<forall>q. map_of (by_id c) qid = Some q \<longrightarrow> msg_recipient q = None \<or> msg_recipient q = msg_sender r)"
proof (intro conjI allI impI)
  have ok: "chan_ok sha c" using channel_reachable_ok [OF assms(1)] .
  have 1: "chan_ok sha c1" "extends c c1" "answered sha c1 qid r" using reply_step [OF ok assms(2)] by auto
  have 2: "chan_ok sha c2" "extends c1 c2" using steps_ok [OF assms(3) 1(1)] by auto
  show "reply_for sha qid c2 = Inr (Some r)" using 2 1(3) answered_later reply_for_iff_answered by blast
  show "r' = r" if "reply sha qid actor' v' cmd' now' c2 = Inr (r', c3)" for actor' v' cmd' now' r' c3
    using in_process.answered_once [OF ok assms(2) 2 that] by blast
  show "msg_recipient q = None \<or> msg_recipient q = msg_sender r" if q: "map_of (by_id c) qid = Some q" for q
  proof -
    have "map_of (by_id c1) qid = Some q" using q 1(2) unfolding extends_def by (blast dest: map_leD)
    then have v: "validated_reply sha q r = Inr r" using 1(3) complete_reply_self unfolding answered_def by auto
    show ?thesis using validated_reply_fields [OF v] by auto
  qed
qed

text \<open>
  A cut of an inbox is immutable and shows only what the actor may see: a page read at a revision is the
  page any later state returns for the same revision, continuation and limit; its messages are
  discoverable by the actor, in the order of their sequence numbers and after the continuation.\<close>

theorem inbox_cut_immutable:
  assumes "channel_reachable sha c" "inbox sha actor at aft limit c = Inr page" "(channel_step sha)\<^sup>*\<^sup>* c c'"
  shows "inbox sha actor at aft limit c' = Inr page
    \<and> list_all (\<lambda>d. discoverable_by (delivered d) actor \<and> \<not> passed (delivery_seq d) (message_id (delivered d)) aft) page
    \<and> sorted_wrt (<) (map delivery_seq page) \<and> length page \<le> nat limit"
proof -
  have ok: "chan_ok sha c" using channel_reachable_ok [OF assms(1)] .
  let ?xs = "filter (visible actor aft) (enumerate 1 (take (message_seq at) (messages c)))"
  obtain acked where p: "page = take (nat limit) (map (deliver actor acked) ?xs)" using inbox_exact [OF ok assms(2)] by blast
  have "sorted_wrt (<) (map fst (enumerate 1 (take (message_seq at) (messages c))))" unfolding map_fst_enumerate by (rule sorted_wrt_upt)
  then have "sorted_wrt (<) (map fst ?xs)" unfolding sorted_wrt_map by (rule sorted_wrt_filter)
  then have "sorted_wrt (<) (map delivery_seq page)"
    by (simp add: p deliver_def take_map [symmetric] comp_def sorted_wrt_take flip: take_map)
  moreover have "list_all (\<lambda>d. discoverable_by (delivered d) actor \<and> \<not> passed (delivery_seq d) (message_id (delivered d)) aft) page"
    by (auto simp: p list_all_iff deliver_def visible_def dest!: in_set_takeD)
  ultimately show ?thesis using inbox_stable [OF ok _ _ assms(2)] steps_ok [OF assms(3) ok] by (simp add: p)
qed


section \<open>A small channel\<close>

definition two_hash :: "nat list \<Rightarrow> string" where
  "two_hash bs = (if bs ! 22 = 114 then ''1'' else ''0'')"

lemma two_hash_ids [simp]:
  "request_message_id two_hash run path ch chrev ln i port = ''sha256:0''"
  "reply_message_id two_hash q port = ''sha256:1''"
  by (simp_all add: request_message_id_def reply_message_id_def digest_of_def material_def utf8_def ustr_of_def utf8_char_def two_hash_def)

definition sample_intent :: send_intent where
  "sample_intent = \<lparr>intent_id = ''sha256:0'', intent_channel = ''ch'', intent_revision = ''1'', intent_lane = ''lane'', intent_interaction = Advice,
       intent_recipient = Some ''u:ann'', intent_contract = ADVICE_REQUEST_CONTRACT, intent_reply_contract = ADVICE_REPLY_CONTRACT,
       intent_run = ''run'', intent_path = \<lparr>path_scope = [''g'', ''n''], iterations = []\<rparr>, intent_port = ''ask'', intent_reply_port = ''answer'',
       intent_payload = PInt 1\<rparr>"

definition sample_request :: message where
  "sample_request = \<lparr>message_id = ''sha256:0'', msg_channel = ''ch'', msg_lane = ''lane'', msg_interaction = Advice, msg_kind = Request,
     reply_to = None, msg_recipient = Some ''u:ann'', msg_sender = None, msg_contract = ADVICE_REQUEST_CONTRACT,
     reply_contract = Some ADVICE_REPLY_CONTRACT, reply_port = Some ''answer'',
     msg_envelope = \<lparr>env_run = ''run'', env_path = \<lparr>path_scope = [''g'', ''n''], iterations = []\<rparr>, env_port = ''ask'', created_at = ''t'',
                     provenance = [], payload = JInt 1\<rparr>\<rparr>"

definition sample_channel :: channel where
  "sample_channel = \<lparr>channel_id = ''ch'', batch = 10, messages = [sample_request], acks = [], by_id = [(''sha256:0'', sample_request)],
     seq_by_id = [(''sha256:0'', 1)], attestations = [(''sha256:0'', ''att'')], intents = [(''sha256:0'', sample_intent)],
     ack_by_key = [], ack_commands = [], reply_command = [], reply_of_command = [], reply_proofs = []\<rparr>"

lemma ann_canonical [simp]: "actor_id_is_canonical ''u:ann''"
  by (simp add: actor_id_is_canonical_def actor_id_fault_def strip_def is_space_def Let_def)

lemma sample_rebuilds: "message_for_intent two_hash sample_intent ''t'' = Inr sample_request"
  by (simp add: message_for_intent_def sample_intent_def sample_request_def derived_id_def normal_payload_def message_check_def canonical_actor_def)

lemma sample_reachable: "channel_reachable two_hash sample_channel"
proof -
  let ?c = "sample_channel\<lparr>messages := [], by_id := [], seq_by_id := [], attestations := [], intents := []\<rparr>"
  have o: "new_channel ''ch'' 10 = Inr ?c" by (simp add: new_channel_def sample_channel_def)
  then have r: "channel_reachable two_hash ?c" by (rule channel_reachable.opened)
  have f: "intent_channel sample_intent = ''ch''" "message_id sample_request = ''sha256:0''" by (simp_all add: sample_intent_def sample_request_def)
  have "append_request two_hash sample_intent ''att'' ''t'' ?c = Inr (sample_request, sample_channel)"
    using validate_ok [OF channel_reachable_ok [OF r]] sample_rebuilds
    by (simp add: append_request_def append_message_def f) (simp add: sample_channel_def)
  then show ?thesis using channel_reachable.stepped [OF r channel_step.sends] by blast
qed

lemma sample_reply: "\<exists>r c. reply two_hash ''sha256:0'' ''u:ann'' (PInt 2) ''cmd'' ''t'' sample_channel = Inr (r, c)"
proof -
  have ok: "chan_ok two_hash sample_channel" using channel_reachable_ok [OF sample_reachable] .
  have "complete_message two_hash sample_channel sample_request = Inr sample_request"
    using ok by (auto simp: chan_ok_def complete_ok_def sample_channel_def)
  then have q: "complete_request two_hash sample_channel sample_request = Inr sample_request"
    by (simp add: complete_message_def sample_request_def)
  obtain r where r: "message_for_reply two_hash sample_request ''u:ann'' (PInt 2) ''t'' = Inr r"
    by (simp add: message_for_reply_def sample_request_def normal_payload_def message_check_def canonical_actor_def)
  obtain p where p: "channel_reply_proof two_hash sample_request r = Inr p" using reply_proof_exists [OF r] by blast
  have f: "reply_port sample_request = Some ''answer''" "reply_contract sample_request = Some ADVICE_REPLY_CONTRACT"
    "msg_interaction sample_request = Advice" "msg_contract sample_request = ADVICE_REQUEST_CONTRACT" "message_id sample_request = ''sha256:0''"
    by (simp_all add: sample_request_def)
  have x: "canonical_exchange_fault ADVICE_REQUEST_CONTRACT ADVICE_REPLY_CONTRACT Advice = None"
    by (simp add: canonical_exchange_fault_def CANONICAL_EXCHANGES_def)
  have c: "by_id sample_channel = [(''sha256:0'', sample_request)]" "reply_of_command sample_channel = []" "ack_by_key sample_channel = []"
    "ack_commands sample_channel = []"
    by (simp_all add: sample_channel_def)
  show ?thesis
    by (simp add: reply_def validate_ok [OF ok] c q f x REPLY_CONSUMES_def first_reply_def ack_key_def r p make_ack_def)
qed


theorem one_reply_per_request_witness:
  "\<exists>r c. reply two_hash ''sha256:0'' ''u:ann'' (PInt 2) ''cmd'' ''t'' sample_channel = Inr (r, c)
     \<and> reply_for two_hash ''sha256:0'' c = Inr (Some r)"
  using sample_reply one_reply_per_request [OF sample_reachable _ rtranclp.rtrancl_refl] by blast

theorem inbox_cut_immutable_witness:
  "\<exists>page c. inbox two_hash ''u:ann'' \<lparr>message_seq = 1, ack_seq = 0\<rparr> None 5 sample_channel = Inr page
     \<and> channel_step two_hash sample_channel c \<and> inbox two_hash ''u:ann'' \<lparr>message_seq = 1, ack_seq = 0\<rparr> None 5 c = Inr page"
proof -
  have ok: "chan_ok two_hash sample_channel" using channel_reachable_ok [OF sample_reachable] .
  obtain r c where "reply two_hash ''sha256:0'' ''u:ann'' (PInt 2) ''cmd'' ''t'' sample_channel = Inr (r, c)" using sample_reply by blast
  then have s: "channel_step two_hash sample_channel c" by (rule channel_step.replies)
  have "complete_message two_hash sample_channel sample_request = Inr sample_request"
    using ok by (auto simp: chan_ok_def complete_ok_def sample_channel_def)
  moreover have "messages sample_channel = [sample_request]" "acks sample_channel = []" "batch sample_channel = 10"
    by (simp_all add: sample_channel_def)
  ultimately have "\<exists>page. inbox two_hash ''u:ann'' \<lparr>message_seq = 1, ack_seq = 0\<rparr> None 5 sample_channel = Inr page"
    using validate_ok [OF ok] by (simp add: inbox_def Let_def)
  then obtain page where p: "inbox two_hash ''u:ann'' \<lparr>message_seq = 1, ack_seq = 0\<rparr> None 5 sample_channel = Inr page" by blast
  show ?thesis using inbox_cut_immutable [OF sample_reachable p r_into_rtranclp [of "channel_step two_hash", OF s]] p s by blast
qed

end
