(* ===== verification/Attestation.thy ===== *)
theory Attestation
  imports Channel_Message
begin

text \<open>
  Attestations (\<^verbatim>\<open>core/effect.py\<close>): the drafts trusted code seals, their identities, and the two laws that read a
  minted proof, the promotion of a component and the sending of a channel message. Evidence references appear
  with their JSON dump; a duration is the rendering of its float.
\<close>

section \<open>Model\<close>

datatype check_status = Passed | CheckFailed | Conflict | Timeout | CheckCancelled | InfrastructureError

record check_result =
  check_name :: string
  check_status :: check_status
  check_ok :: bool
  check_detail :: string
  check_elapsed :: ustr

text \<open>
  \<^verbatim>\<open>_sync_status_and_ok\<close>: the pair of fields a caller gave, either of which may be missing; \<^term>\<open>None\<close> is a
  contradiction, and a missing status with a missing flag is left to the field's own validation.
\<close>

definition sync_status_and_ok :: "check_status option \<Rightarrow> bool option \<Rightarrow> (check_status option \<times> bool option) option" where
  "sync_status_and_ok st ok =
     (case (st, ok) of
        (None, None) \<Rightarrow> Some (None, None)
      | (None, Some b) \<Rightarrow> Some (Some (if b then Passed else CheckFailed), Some b)
      | (Some s, None) \<Rightarrow> Some (Some s, Some (s = Passed))
      | (Some s, Some b) \<Rightarrow> if b \<noteq> (s = Passed) then None else Some (Some s, Some b))"

record merge_subject =
  merge_repository :: string
  merge_target :: string
  merge_candidate :: string
  merge_base :: string
  merge_commit :: string
  merge_tree :: string

record component_subject =
  subject_component :: string
  subject_version :: digest
  subject_baseline :: "digest option"

record send_subject =
  send_message :: digest
  send_channel :: string
  send_revision :: string
  send_lane :: string
  send_interaction :: interaction
  send_recipient :: "string option"
  send_run :: string
  send_path :: execution_path
  send_port :: string
  send_contract :: contract
  send_reply_port :: string
  send_reply_contract :: contract
  send_payload_digest :: digest

datatype proof_subject = MergeProof merge_subject | ComponentProof component_subject | SendProof send_subject

datatype effect_action = MergeAction | PromoteAction | SendAction

record attestation_draft =
  draft_action :: effect_action
  draft_subject :: proof_subject
  draft_checks :: "check_result list"
  draft_check_set :: digest
  draft_evidence :: "json list"
  draft_manifest :: digest
  draft_workspace :: "string option"

record attestation =
  att_id :: string
  att_draft :: attestation_draft
  att_run :: "string option"

definition check_status_json :: "check_status \<Rightarrow> json" where
  "check_status_json s = jstr (case s of Passed \<Rightarrow> ''passed'' | CheckFailed \<Rightarrow> ''failed'' | Conflict \<Rightarrow> ''conflict''
     | Timeout \<Rightarrow> ''timeout'' | CheckCancelled \<Rightarrow> ''cancelled'' | InfrastructureError \<Rightarrow> ''infrastructure_error'')"

definition check_result_json :: "check_result \<Rightarrow> json" where
  "check_result_json c = jobj [(''name'', jstr (check_name c)), (''status'', check_status_json (check_status c)),
     (''ok'', JBool (check_ok c)), (''detail'', jstr (check_detail c)), (''elapsed_s'', JFloat (check_elapsed c))]"

definition send_subject_json :: "send_subject \<Rightarrow> json" where
  "send_subject_json s = jobj
     [(''kind'', jstr ''channel_send''), (''message_id'', jstr (send_message s)), (''channel_id'', jstr (send_channel s)),
      (''channel_revision'', jstr (send_revision s)), (''lane'', jstr (send_lane s)),
      (''interaction'', interaction_json (send_interaction s)), (''recipient_actor_id'', jopt jstr (send_recipient s)),
      (''run_id'', jstr (send_run s)), (''path'', path_json (send_path s)), (''port'', jstr (send_port s)),
      (''contract'', contract_json (send_contract s)), (''reply_port'', jstr (send_reply_port s)),
      (''reply_contract'', contract_json (send_reply_contract s)), (''payload_digest'', jstr (send_payload_digest s))]"

fun subject_json :: "proof_subject \<Rightarrow> json" where
  "subject_json (MergeProof m) = jobj
     [(''kind'', jstr ''git_merge''), (''repository'', jstr (merge_repository m)), (''target_ref'', jstr (merge_target m)),
      (''candidate'', jstr (merge_candidate m)), (''expected_base'', jstr (merge_base m)),
      (''merge_commit'', jstr (merge_commit m)), (''tested_tree'', jstr (merge_tree m))]"
| "subject_json (ComponentProof c) = jobj
     [(''kind'', jstr ''component''), (''component'', jstr (subject_component c)), (''version'', jstr (subject_version c)),
      (''baseline_version'', jopt jstr (subject_baseline c))]"
| "subject_json (SendProof s) = send_subject_json s"

definition action_json :: "effect_action \<Rightarrow> json" where
  "action_json a = jstr (case a of MergeAction \<Rightarrow> ''merge'' | PromoteAction \<Rightarrow> ''promote'' | SendAction \<Rightarrow> ''send'')"

definition draft_json :: "attestation_draft \<Rightarrow> json" where
  "draft_json d = jobj
     [(''action'', action_json (draft_action d)), (''subject'', subject_json (draft_subject d)),
      (''checks'', JList (map check_result_json (draft_checks d))), (''check_set_hash'', jstr (draft_check_set d)),
      (''evidence'', JList (draft_evidence d)), (''manifest_hash'', jstr (draft_manifest d)),
      (''workspace_id'', jopt jstr (draft_workspace d))]"

definition attestation_id_for :: "(nat list \<Rightarrow> string) \<Rightarrow> attestation_draft \<Rightarrow> string" where
  "attestation_id_for sha d = ''att-'' @ drop (length ''sha256:'') (digest_of sha ''attestation'' 1 (draft_json d))"

definition attestation_id_for_run :: "(nat list \<Rightarrow> string) \<Rightarrow> attestation_draft \<Rightarrow> string \<Rightarrow> string" where
  "attestation_id_for_run sha d run = ''att-'' @ drop (length ''sha256:'')
     (digest_of sha ''attestation'' 2 (jobj [(''draft'', draft_json d), (''created_by_run'', jstr run)]))"

text \<open>\<^verbatim>\<open>Attestation.ok\<close>.\<close>

definition attestation_ok :: "attestation \<Rightarrow> bool" where
  "attestation_ok a \<longleftrightarrow> draft_checks (att_draft a) \<noteq> [] \<and> list_all check_ok (draft_checks (att_draft a))"

datatype promotion_fault =
    NotAPromotion effect_action
  | NoComponentSubject
  | SubjectComponent string string
  | SubjectVersion digest digest
  | SubjectBaseline "digest option" "digest option"
  | FailingChecks "string list"
  | SourceRun "string option" "string option"

definition promotion_attestation_faults ::
  "attestation \<Rightarrow> string \<Rightarrow> digest \<Rightarrow> digest option \<Rightarrow> string option \<Rightarrow> promotion_fault list" where
  "promotion_attestation_faults a name v baseline source_run =
     opt (draft_action (att_draft a) \<noteq> PromoteAction) (NotAPromotion (draft_action (att_draft a)))
     @ (case draft_subject (att_draft a) of
          ComponentProof c \<Rightarrow>
            opt (subject_component c \<noteq> name) (SubjectComponent (subject_component c) name)
            @ opt (subject_version c \<noteq> v) (SubjectVersion (subject_version c) v)
            @ opt (subject_baseline c \<noteq> baseline) (SubjectBaseline (subject_baseline c) baseline)
        | _ \<Rightarrow> [NoComponentSubject])
     @ opt (\<not> attestation_ok a)
         (FailingChecks (case filter (\<lambda>c. \<not> check_ok c) (draft_checks (att_draft a)) of
            [] \<Rightarrow> [''<none>''] | failing \<Rightarrow> map check_name failing))
     @ opt (att_run a \<noteq> source_run) (SourceRun (att_run a) source_run)"

definition channel_send_subject :: "(nat list \<Rightarrow> string) \<Rightarrow> send_intent \<Rightarrow> json \<Rightarrow> send_subject" where
  "channel_send_subject sha i v =
     \<lparr>send_message = intent_id i, send_channel = intent_channel i, send_revision = intent_revision i,
      send_lane = intent_lane i, send_interaction = intent_interaction i, send_recipient = intent_recipient i,
      send_run = intent_run i, send_path = intent_path i, send_port = intent_port i, send_contract = intent_contract i,
      send_reply_port = intent_reply_port i, send_reply_contract = intent_reply_contract i,
      send_payload_digest = digest_of sha ''channel-payload'' 1 v\<rparr>"

text \<open>
  \<^verbatim>\<open>validated_channel_send_attestation\<close> of an intent whose payload is the JSON value given.
\<close>

datatype send_fault = DoesNotAuthorize | DifferentSend

definition validated_channel_send_attestation ::
  "(nat list \<Rightarrow> string) \<Rightarrow> attestation \<Rightarrow> send_intent \<Rightarrow> json \<Rightarrow> digest \<Rightarrow> send_fault + attestation" where
  "validated_channel_send_attestation sha a i v mh =
     (case draft_subject (att_draft a) of
        SendProof s \<Rightarrow>
          if draft_action (att_draft a) \<noteq> SendAction \<or> \<not> attestation_ok a \<or> att_run a \<noteq> Some (intent_run i)
             \<or> draft_manifest (att_draft a) \<noteq> mh
          then Inl DoesNotAuthorize
          else if canonical_json (send_subject_json s) \<noteq> canonical_json (send_subject_json (channel_send_subject sha i v))
          then Inl DifferentSend
          else Inr a
      | _ \<Rightarrow> Inl DoesNotAuthorize)"

end
