(* ===== verification/Run_Journal.thy ===== *)
theory Run_Journal
  imports Manifest Attestation
begin

text \<open>
  The execution journal (\<^verbatim>\<open>core/run.py\<close>, \<^verbatim>\<open>core/effect.py\<close>, the execution half of
  \<^verbatim>\<open>substrate/journal\<close>): runs and their fenced ownership, the event log, write-once completions,
  capability leases and prepared effects. \<open>journal\<close> holds the tables; every operation is one transaction,
  so it returns the new tables or raises and leaves the old ones.

  A clock reading is a natural number and an argument of the operations that decide on it; timestamps that
  are only recorded are left out. Reading a row back also proves its seals against tampering outside these
  operations; the tables of the model hold only what the operations wrote, so a seal check is never a
  branch here. An exception carries a label of its raise site in place of its formatted text.
\<close>

section \<open>Model\<close>

subsection \<open>Run vocabulary\<close>

datatype invocation_status =
    Queued | RunningInvocation | Completed | FailedInvocation | CancelledInvocation | Lost | Blocked | Skipped | ParkedInvocation

datatype run_status = Pending | Running | Succeeded | Failed | Cancelled | Parked

datatype wait_reason = AwaitingAdvisor | AwaitingApproval

datatype exc =
    ContractViolation string
  | JournalDamaged string
  | OwnershipLost string
  | CheckpointConflict string
  | RunAttemptSuperseded string
  | CleanupUnresolved nat
  | InvocationParked digest wait_reason
  | CancelRequested
  | CleanupFailure exc "exc option"
  | ExceptionGroup "exc list"
  | Raised string string

text \<open>\<^verbatim>\<open>TERMINAL_STATUS_EVENTS\<close>.\<close>

definition TERMINAL_STATUSES :: "run_status list" where
  "TERMINAL_STATUSES = [Succeeded, Failed, Parked, Cancelled]"

record run_lease =
  lease_of :: string
  lease_owner :: string
  lease_epoch :: nat

subsection \<open>Rows\<close>

datatype effect_mode = Live | Simulated

datatype capability_mode = NormalCapabilities | DiscardCapabilities

record run_origin =
  origin_command :: string
  origin_effects :: effect_mode
  origin_capabilities :: capability_mode

record run_row =
  run_manifest :: digest
  run_input_hash :: digest
  run_inputs :: "(string, json) dict"
  run_origin :: "run_origin option"
  run_status :: run_status
  owner_id :: "string option"
  owner_epoch :: nat
  lease_expires_at :: "nat option"
  cancel_requested :: bool
  next_event_seq :: nat

record event =
  event_run :: string
  event_seq :: nat
  event_kind :: string
  event_path :: "execution_path option"
  event_payload :: "json option"

text \<open>An output envelope repeats the run, path and port it is stored under; what remains is its payload.\<close>

record checkpoint =
  cp_run :: string
  cp_path :: execution_path
  cp_input_hash :: digest
  cp_version :: "digest option"
  cp_outputs :: "(string, json) dict"

datatype lease_state = ActiveLease | ClosedLease | LostLease

datatype closure = Released | Discarded

record capability_lease =
  cl_id :: string
  cl_epoch :: nat
  cl_run :: string
  cl_binding :: string
  cl_path :: execution_path
  cl_state :: lease_state
  cl_disposition :: "closure option"
  cl_resource :: "string option"

record effect_request =
  er_run :: string
  er_manifest :: digest
  er_path :: execution_path
  er_kind :: string
  er_subject :: "(ustr \<times> json) list"
  er_key :: digest
  er_attestation :: "string option"
  er_mode :: effect_mode

datatype receipt_status = Committed | RejectedEffect | UnknownEffect | SimulatedEffect

record effect_receipt =
  rc_request :: digest
  rc_status :: receipt_status
  rc_reference :: "string option"
  rc_observed :: "(ustr \<times> json) list option"

record effect_row =
  ef_request :: effect_request
  ef_receipt :: "effect_receipt option"
  ef_outcome :: "(string \<times> nat) option"

record journal =
  manifests :: "(digest, manifest) dict"
  runs :: "(string, run_row) dict"
  events :: "event list"
  checkpoints :: "(string \<times> ustr, checkpoint) dict"
  leases :: "(string \<times> nat, capability_lease) dict"
  effects :: "(digest, effect_row) dict"
  attestations :: "(string, attestation) dict"

definition empty_journal :: journal where
  "empty_journal = \<lparr>manifests = [], runs = [], events = [], checkpoints = [], leases = [], effects = [], attestations = []\<rparr>"

subsection \<open>Identities\<close>

text \<open>\<^verbatim>\<open>_path_key\<close>.\<close>

definition path_key :: "execution_path \<Rightarrow> ustr" where
  "path_key p = canonical_json (path_json p)"

definition checkpoint_identity :: "(nat list \<Rightarrow> string) \<Rightarrow> checkpoint \<Rightarrow> digest" where
  "checkpoint_identity sha c = digest_of sha ''checkpoint-identity'' 1
     (jobj [(''input_hash'', jstr (cp_input_hash c)), (''resolved_version'', jopt jstr (cp_version c)),
            (''outputs'', jobj (sort_key fst (cp_outputs c)))])"

definition lease_id_for :: "(nat list \<Rightarrow> string) \<Rightarrow> string \<Rightarrow> execution_path \<Rightarrow> string \<Rightarrow> string" where
  "lease_id_for sha run p b = ''lease-'' @ take 32 (drop (length ''sha256:'') (digest_of sha ''capability-lease'' 2
     (jobj [(''run_id'', jstr run), (''path'', path_json p), (''binding'', jstr b)])))"

definition idempotency_key ::
  "(nat list \<Rightarrow> string) \<Rightarrow> digest \<Rightarrow> execution_path \<Rightarrow> string \<Rightarrow> (ustr \<times> json) list \<Rightarrow> effect_mode \<Rightarrow> digest" where
  "idempotency_key sha mh p k subject mode =
     digest_of sha (case mode of Live \<Rightarrow> ''idempotency'' | Simulated \<Rightarrow> ''idempotency-simulated'') 1
       (jobj [(''manifest_hash'', jstr mh), (''path'', path_json p), (''kind'', jstr k), (''subject'', JObj subject)])"

definition effect_request_json :: "effect_request \<Rightarrow> json" where
  "effect_request_json r = jobj
     [(''run_id'', jstr (er_run r)), (''manifest_hash'', jstr (er_manifest r)), (''path'', path_json (er_path r)),
      (''kind'', jstr (er_kind r)), (''subject'', JObj (er_subject r)), (''idempotency_key'', jstr (er_key r)),
      (''attestation_id'', jopt jstr (er_attestation r)),
      (''mode'', jstr (case er_mode r of Live \<Rightarrow> ''live'' | Simulated \<Rightarrow> ''simulated''))]"

definition request_hash :: "(nat list \<Rightarrow> string) \<Rightarrow> effect_request \<Rightarrow> digest" where
  "request_hash sha r = digest_of sha ''effect-request'' 1 (effect_request_json r)"

text \<open>\<^verbatim>\<open>_effect_request_key\<close>.\<close>

definition effect_request_key :: "(nat list \<Rightarrow> string) \<Rightarrow> effect_request \<Rightarrow> digest" where
  "effect_request_key sha r = idempotency_key sha (er_manifest r) (er_path r) (er_kind r) (er_subject r) (er_mode r)"

definition receipt_status_json :: "receipt_status \<Rightarrow> json" where
  "receipt_status_json s = jstr (case s of Committed \<Rightarrow> ''committed'' | RejectedEffect \<Rightarrow> ''rejected''
     | UnknownEffect \<Rightarrow> ''unknown'' | SimulatedEffect \<Rightarrow> ''simulated'')"

definition effect_receipt_json :: "effect_receipt \<Rightarrow> json" where
  "effect_receipt_json r = jobj [(''request_hash'', jstr (rc_request r)), (''status'', receipt_status_json (rc_status r)),
     (''external_reference'', jopt jstr (rc_reference r)), (''observed_state'', jopt JObj (rc_observed r))]"

text \<open>\<^verbatim>\<open>_effect_event_kind\<close>.\<close>

definition effect_event_kind :: "receipt_status \<Rightarrow> string" where
  "effect_event_kind s = (case s of Committed \<Rightarrow> ''EffectCommitted'' | RejectedEffect \<Rightarrow> ''EffectRejected''
     | SimulatedEffect \<Rightarrow> ''EffectSimulated'' | UnknownEffect \<Rightarrow> ''EffectUnresolved'')"

subsection \<open>Runs\<close>

text \<open>\<^verbatim>\<open>create_run\<close>: the manifest, the pending run, its exact inputs and its origin in one transaction.\<close>

definition create_run ::
  "(nat list \<Rightarrow> string) \<Rightarrow> string \<Rightarrow> manifest \<Rightarrow> digest \<Rightarrow> digest \<Rightarrow> (string, json) dict \<Rightarrow> run_origin option \<Rightarrow> journal
     \<Rightarrow> exc + journal" where
  "create_run sha run m mh ih ins origin j =
     (if manifest_hash m \<noteq> mh \<or> input_hash m \<noteq> ih \<or> digest_of sha ''inputs'' 1 (jobj ins) \<noteq> ih
      then Inl (ContractViolation ''creation contradicts'')
      else rbind (case map_of (manifests j) mh of
                    None \<Rightarrow> Inr (j\<lparr>manifests := dict_set mh m (manifests j)\<rparr>)
                  | Some m' \<Rightarrow> if m' = m then Inr j else Inl (JournalDamaged ''manifest semantics''))
        (\<lambda>j. case map_of (runs j) run of
           Some r \<Rightarrow>
             if run_manifest r \<noteq> mh \<or> run_input_hash r \<noteq> ih
                \<or> canonical_json (jobj (run_inputs r)) \<noteq> canonical_json (jobj ins)
             then Inl (CheckpointConflict ''run exists'')
             else if run_origin r \<noteq> origin then Inl (JournalDamaged ''run origin'')
             else Inr j
         | None \<Rightarrow> Inr (j\<lparr>runs := dict_set run
             \<lparr>run_manifest = mh, run_input_hash = ih, run_inputs = ins, run_origin = origin, run_status = Pending,
              owner_id = None, owner_epoch = 0, lease_expires_at = None, cancel_requested = False,
              next_event_seq = 0\<rparr> (runs j)\<rparr>)))"

definition set_run :: "string \<Rightarrow> run_row \<Rightarrow> journal \<Rightarrow> journal" where
  "set_run run r j = j\<lparr>runs := dict_set run r (runs j)\<rparr>"

definition holds :: "run_lease \<Rightarrow> run_row \<Rightarrow> bool" where
  "holds l r \<longleftrightarrow> owner_id r = Some (lease_owner l) \<and> owner_epoch r = lease_epoch l"

definition claimable :: "nat \<Rightarrow> run_row \<Rightarrow> bool" where
  "claimable now r \<longleftrightarrow> run_status r \<in> {Pending, Running, Failed, Parked}
     \<and> (owner_id r = None \<or> (case lease_expires_at r of None \<Rightarrow> True | Some t \<Rightarrow> t \<le> now))"

definition claim_run ::
  "string \<Rightarrow> string \<Rightarrow> nat \<Rightarrow> nat \<Rightarrow> nat option \<Rightarrow> run_status set option \<Rightarrow> journal \<Rightarrow> exc + run_lease \<times> journal" where
  "claim_run run owner ttl now seq statuses j =
     (case map_of (runs j) run of
        None \<Rightarrow> Inl (ContractViolation ''unknown run'')
      | Some r \<Rightarrow>
          if (case seq of None \<Rightarrow> False | Some n \<Rightarrow> next_event_seq r \<noteq> n)
             \<or> (case statuses of None \<Rightarrow> False | Some S \<Rightarrow> run_status r \<notin> S)
          then Inl (RunAttemptSuperseded run)
          else if run_status r \<in> {Succeeded, Cancelled} then Inl (ContractViolation ''nothing to claim'')
          else if \<not> claimable now r then Inl (OwnershipLost ''claim refused'')
          else Inr (\<lparr>lease_of = run, lease_owner = owner, lease_epoch = owner_epoch r + 1\<rparr>,
                    set_run run (r\<lparr>owner_id := Some owner, owner_epoch := owner_epoch r + 1,
                                    lease_expires_at := Some (now + ttl)\<rparr>) j))"

definition heartbeat :: "run_lease \<Rightarrow> nat \<Rightarrow> nat \<Rightarrow> journal \<Rightarrow> exc + journal" where
  "heartbeat l ttl now j =
     (case map_of (runs j) (lease_of l) of
        None \<Rightarrow> Inl (OwnershipLost ''heartbeat: run is missing'')
      | Some r \<Rightarrow>
          if holds l r then Inr (set_run (lease_of l) (r\<lparr>lease_expires_at := Some (now + ttl)\<rparr>) j)
          else Inl (OwnershipLost ''heartbeat''))"

definition release_run :: "run_lease \<Rightarrow> journal \<Rightarrow> exc + journal" where
  "release_run l j =
     (case map_of (runs j) (lease_of l) of
        None \<Rightarrow> Inl (OwnershipLost ''release: run is missing'')
      | Some r \<Rightarrow>
          if holds l r then Inr (set_run (lease_of l) (r\<lparr>owner_id := None, lease_expires_at := None\<rparr>) j)
          else Inl (OwnershipLost ''release''))"

definition request_cancel :: "string \<Rightarrow> run_lease option \<Rightarrow> journal \<Rightarrow> exc + journal" where
  "request_cancel run lease j =
     (if (case lease of None \<Rightarrow> False | Some l \<Rightarrow> lease_of l \<noteq> run) then Inl (ContractViolation ''lease names a different run'')
      else case map_of (runs j) run of
        None \<Rightarrow> Inl (ContractViolation ''unknown run'')
      | Some r \<Rightarrow>
          if (case lease of None \<Rightarrow> False | Some l \<Rightarrow> \<not> holds l r) then Inl (OwnershipLost ''cancellation'')
          else Inr (set_run run (r\<lparr>cancel_requested := True\<rparr>) j))"

definition cancel_is_requested :: "journal \<Rightarrow> string \<Rightarrow> bool" where
  "cancel_is_requested j run = (case map_of (runs j) run of None \<Rightarrow> False | Some r \<Rightarrow> cancel_requested r)"

subsection \<open>Fenced writes\<close>

text \<open>\<^verbatim>\<open>_allocate_seq\<close>, the fence of every owner-side write.\<close>

definition allocate_seq :: "run_lease \<Rightarrow> run_status set \<Rightarrow> journal \<Rightarrow> exc + nat \<times> journal" where
  "allocate_seq l expected j =
     (case map_of (runs j) (lease_of l) of
        None \<Rightarrow> Inl (OwnershipLost ''the run no longer exists'')
      | Some r \<Rightarrow>
          if run_status r \<notin> expected then Inl (ContractViolation ''event allocation status'')
          else if \<not> holds l r then Inl (OwnershipLost ''a higher epoch owns this run'')
          else Inr (next_event_seq r + 1,
                    set_run (lease_of l) (r\<lparr>next_event_seq := next_event_seq r + 1\<rparr>) j))"

definition METERING_EVENT :: string where
  "METERING_EVENT = ''ExecutorMetering''"

definition insert_event ::
  "string \<Rightarrow> nat \<Rightarrow> string \<Rightarrow> execution_path option \<Rightarrow> json option \<Rightarrow> journal \<Rightarrow> exc + journal" where
  "insert_event run seq k p d j =
     (if k = METERING_EVENT then Inl (ContractViolation ''metering has its own writer'')
      else Inr (j\<lparr>events := events j @
        [\<lparr>event_run = run, event_seq = seq, event_kind = k, event_path = p, event_payload = d\<rparr>]\<rparr>))"

definition append_event ::
  "run_lease \<Rightarrow> string \<Rightarrow> execution_path option \<Rightarrow> json option \<Rightarrow> journal \<Rightarrow> exc + journal" where
  "append_event l k p d j =
     rbind (allocate_seq l {Running} j) (\<lambda>(seq, j). insert_event (lease_of l) seq k p d j)"

definition active_leases :: "string \<Rightarrow> journal \<Rightarrow> capability_lease list" where
  "active_leases run j = filter (\<lambda>c. cl_run c = run \<and> cl_state c = ActiveLease) (dict_values (leases j))"

definition transition_run ::
  "run_lease \<Rightarrow> run_status set \<Rightarrow> run_status \<Rightarrow> string \<Rightarrow> json option \<Rightarrow> journal \<Rightarrow> exc + journal" where
  "transition_run l expected target k d j =
     rbind (allocate_seq l expected j) (\<lambda>(seq, j).
       if target \<in> set TERMINAL_STATUSES \<and> active_leases (lease_of l) j \<noteq> []
       then Inl (CleanupUnresolved (length (active_leases (lease_of l) j)))
       else case map_of (runs j) (lease_of l) of
         None \<Rightarrow> Inl (ContractViolation ''transition'')
       | Some r \<Rightarrow>
           if run_status r \<notin> expected then Inl (ContractViolation ''transition'')
           else insert_event (lease_of l) seq k None d (set_run (lease_of l) (r\<lparr>run_status := target\<rparr>) j))"

definition stored_checkpoint :: "journal \<Rightarrow> string \<Rightarrow> execution_path \<Rightarrow> checkpoint option" where
  "stored_checkpoint j run p = map_of (checkpoints j) (run, path_key p)"

definition record_completion :: "(nat list \<Rightarrow> string) \<Rightarrow> run_lease \<Rightarrow> checkpoint \<Rightarrow> journal \<Rightarrow> exc + journal" where
  "record_completion sha l c j =
     (if cp_run c \<noteq> lease_of l then Inl (ContractViolation ''checkpoint contradicts run lease'')
      else case stored_checkpoint j (cp_run c) (cp_path c) of
        Some existing \<Rightarrow>
          if checkpoint_identity sha existing = checkpoint_identity sha c then Inr j
          else Inl (CheckpointConflict ''a different completion is already durable'')
      | None \<Rightarrow>
          rbind (allocate_seq l {Running} j) (\<lambda>(seq, j).
            insert_event (cp_run c) seq ''NodeCompleted'' (Some (cp_path c))
              (Some (jobj [(''input_hash'', jstr (cp_input_hash c))]))
              (j\<lparr>checkpoints := dict_set (cp_run c, path_key (cp_path c)) c (checkpoints j)\<rparr>)))"

subsection \<open>Effects\<close>

definition record_effect_prepared ::
  "(nat list \<Rightarrow> string) \<Rightarrow> (effect_request \<Rightarrow> exc option) \<Rightarrow> run_lease \<Rightarrow> effect_request \<Rightarrow> journal
     \<Rightarrow> exc + effect_request \<times> journal" where
  "record_effect_prepared sha sent_fault l q j =
     (if er_run q \<noteq> lease_of l \<or> er_key q \<noteq> effect_request_key sha q
      then Inl (ContractViolation ''effect request contradicts its run or identity'')
      else case map_of (runs j) (lease_of l) of
        None \<Rightarrow> Inl (OwnershipLost ''effect preparation'')
      | Some r \<Rightarrow>
          if \<not> holds l r then Inl (OwnershipLost ''effect preparation'')
          else if er_manifest q \<noteq> run_manifest r then Inl (ContractViolation ''effect request contradicts its run manifest'')
          else case map_of (effects j) (er_key q) of
            Some e \<Rightarrow> Inr (ef_request e, j)
          | None \<Rightarrow>
              (case sent_fault q of
                 Some e \<Rightarrow> Inl e
               | None \<Rightarrow> Inr (q, j\<lparr>effects := dict_set (er_key q)
                                    \<lparr>ef_request = q, ef_receipt = None, ef_outcome = None\<rparr> (effects j)\<rparr>)))"

datatype disposition = Recorded | AlreadyRecorded

definition effect_outcome_payload :: "(nat list \<Rightarrow> string) \<Rightarrow> effect_request \<Rightarrow> effect_receipt \<Rightarrow> json" where
  "effect_outcome_payload sha q rc = jobj
     [(''kind'', jstr (er_kind q)), (''idempotency_key'', jstr (er_key q)), (''request_hash'', jstr (request_hash sha q)),
      (''receipt_hash'', jstr (digest_of sha ''effect-receipt'' 1 (effect_receipt_json rc)))]"

definition record_effect_outcome ::
  "(nat list \<Rightarrow> string) \<Rightarrow> run_lease \<Rightarrow> effect_request \<Rightarrow> effect_receipt \<Rightarrow> string \<Rightarrow> journal \<Rightarrow> exc + disposition \<times> journal" where
  "record_effect_outcome sha l q rc k j =
     (if er_key q \<noteq> effect_request_key sha q \<or> rc_request rc \<noteq> request_hash sha q
      then Inl (ContractViolation ''effect outcome contradicts its request identity'')
      else if k \<notin> {effect_event_kind (rc_status rc), ''EffectReconciled''}
      then Inl (ContractViolation ''effect outcome event kind'')
      else case map_of (effects j) (er_key q) of
        None \<Rightarrow> Inl (JournalDamaged ''effect has no durable preparation'')
      | Some e \<Rightarrow>
          if canonical_json (effect_request_json (ef_request e)) \<noteq> canonical_json (effect_request_json q)
          then Inl (JournalDamaged ''outcome contradicts its canonical preparation'')
          else case ef_receipt e of
            Some prior \<Rightarrow>
              if canonical_json (effect_receipt_json prior) = canonical_json (effect_receipt_json rc)
              then Inr (AlreadyRecorded, j)
              else Inl (JournalDamaged ''effect already has a different receipt'')
          | None \<Rightarrow>
              rbind (allocate_seq l {Running} j) (\<lambda>(seq, j).
              rbind (insert_event (lease_of l) seq k (Some (er_path q)) (Some (effect_outcome_payload sha q rc))
                       (j\<lparr>effects := dict_set (er_key q) (e\<lparr>ef_receipt := Some rc, ef_outcome := Some (lease_of l, seq)\<rparr>) (effects j)\<rparr>))
                (\<lambda>j. Inr (Recorded, j))))"

definition receipt_for :: "journal \<Rightarrow> digest \<Rightarrow> effect_receipt option" where
  "receipt_for j key = (case map_of (effects j) key of None \<Rightarrow> None | Some e \<Rightarrow> ef_receipt e)"

subsection \<open>Attestations\<close>

text \<open>
  \<^verbatim>\<open>_stored_attestation_for_draft\<close>: a run's proof is stored under the identity of its draft and run, a policy's under
  that of the draft alone.
\<close>

fun stored_proof :: "(nat list \<Rightarrow> string) \<Rightarrow> attestation_draft \<Rightarrow> string option \<Rightarrow> string list \<Rightarrow> journal \<Rightarrow> exc + attestation option" where
  "stored_proof sha d creator [] j = Inr None"
| "stored_proof sha d creator (i # ids) j =
     (case map_of (attestations j) i of
        None \<Rightarrow> stored_proof sha d creator ids j
      | Some a \<Rightarrow>
          if att_id a \<noteq> i \<or> att_draft a \<noteq> d then Inl (JournalDamaged ''attestation already minted with different content'')
          else if att_run a = creator then Inr (Some a)
          else if i \<noteq> attestation_id_for sha d then Inl (JournalDamaged ''run-scoped attestation identity contradicts its creator'')
          else stored_proof sha d creator ids j)"

definition stored_attestation_for_draft ::
  "(nat list \<Rightarrow> string) \<Rightarrow> attestation_draft \<Rightarrow> string option \<Rightarrow> journal \<Rightarrow> exc + attestation option" where
  "stored_attestation_for_draft sha d creator j = stored_proof sha d creator
     (case creator of None \<Rightarrow> [attestation_id_for sha d]
      | Some run \<Rightarrow> [attestation_id_for_run sha d run, attestation_id_for sha d]) j"

definition insert_attestation :: "attestation \<Rightarrow> journal \<Rightarrow> exc + journal" where
  "insert_attestation a j =
     (case map_of (attestations j) (att_id a) of
        Some prior \<Rightarrow> if prior = a then Inr j else Inl (JournalDamaged ''attestation already minted with different content'')
      | None \<Rightarrow> Inr (j\<lparr>attestations := dict_set (att_id a) a (attestations j)\<rparr>))"

definition minted :: "attestation \<Rightarrow> attestation option \<Rightarrow> journal \<Rightarrow> exc + attestation \<times> journal" where
  "minted a stored j =
     (case stored of
        Some prior \<Rightarrow> Inr (prior, j)
      | None \<Rightarrow> rbind (insert_attestation a j) (\<lambda>j. Inr (a, j)))"

definition mint_attestation ::
  "(nat list \<Rightarrow> string) \<Rightarrow> run_lease \<Rightarrow> attestation_draft \<Rightarrow> journal \<Rightarrow> exc + attestation \<times> journal" where
  "mint_attestation sha l d j =
     (case map_of (runs j) (lease_of l) of
        None \<Rightarrow> Inl (OwnershipLost ''attestation minting'')
      | Some r \<Rightarrow>
          if \<not> holds l r then Inl (OwnershipLost ''attestation minting'')
          else if draft_manifest d \<noteq> run_manifest r then Inl (ContractViolation ''attestation contradicts its run manifest'')
          else if draft_action d = SendAction \<and> (case draft_subject d of SendProof s \<Rightarrow> send_run s \<noteq> lease_of l | _ \<Rightarrow> True)
          then Inl (ContractViolation ''send attestation names another run'')
          else rbind (stored_attestation_for_draft sha d (Some (lease_of l)) j)
            (\<lambda>stored. minted \<lparr>att_id = attestation_id_for_run sha d (lease_of l), att_draft = d, att_run = Some (lease_of l)\<rparr> stored j))"

definition mint_policy_attestation ::
  "(nat list \<Rightarrow> string) \<Rightarrow> attestation_draft \<Rightarrow> journal \<Rightarrow> exc + attestation \<times> journal" where
  "mint_policy_attestation sha d j =
     (if draft_action d \<noteq> PromoteAction \<or> (case draft_subject d of ComponentProof _ \<Rightarrow> False | _ \<Rightarrow> True)
      then Inl (ContractViolation ''run-less policy attestations authorize component promotion only'')
      else rbind (stored_attestation_for_draft sha d None j)
        (\<lambda>stored. minted \<lparr>att_id = attestation_id_for sha d, att_draft = d, att_run = None\<rparr> stored j))"

subsection \<open>Capability leases\<close>

definition record_capability_lease ::
  "(nat list \<Rightarrow> string) \<Rightarrow> run_lease \<Rightarrow> capability_lease \<Rightarrow> journal \<Rightarrow> exc + journal" where
  "record_capability_lease sha l c j =
     (if cl_run c \<noteq> lease_of l \<or> cl_epoch c \<noteq> lease_epoch l
         \<or> cl_id c \<noteq> lease_id_for sha (cl_run c) (cl_path c) (cl_binding c)
         \<or> cl_state c \<noteq> ActiveLease \<or> cl_disposition c \<noteq> None
      then Inl (ContractViolation ''capability lease contradicts run lease'')
      else if map_of (runs j) (lease_of l) = None then Inl (ContractViolation ''capability acquisition has no retained run'')
      else case map_of (leases j) (cl_id c, cl_epoch c) of
        Some stored \<Rightarrow>
          if stored = c then Inr j
          else Inl (CheckpointConflict ''capability lease already recorded with different content'')
      | None \<Rightarrow>
          rbind (allocate_seq l {Running} j) (\<lambda>(seq, j).
            insert_event (lease_of l) seq ''LeaseAcquired'' None
              (Some (jobj [(''lease_id'', jstr (cl_id c)), (''acquisition_epoch'', jnat (cl_epoch c)),
                           (''binding'', jstr (cl_binding c)), (''resource_ref'', jopt jstr (cl_resource c))]))
              (j\<lparr>leases := dict_set (cl_id c, cl_epoch c) c (leases j)\<rparr>)))"

definition lease_state_json :: "lease_state \<Rightarrow> json" where
  "lease_state_json s = jstr (case s of ActiveLease \<Rightarrow> ''active'' | ClosedLease \<Rightarrow> ''closed'' | LostLease \<Rightarrow> ''lost'')"

definition closure_json :: "closure \<Rightarrow> json" where
  "closure_json d = jstr (case d of Released \<Rightarrow> ''released'' | Discarded \<Rightarrow> ''discarded'')"

text \<open>A lease becomes \<open>lost\<close> only through administrative accounting, outside the worker operations here.\<close>

definition transition_capability_lease ::
  "run_lease \<Rightarrow> string \<Rightarrow> nat \<Rightarrow> lease_state set \<Rightarrow> lease_state \<Rightarrow> closure option \<Rightarrow> journal \<Rightarrow> exc + journal" where
  "transition_capability_lease l lid epoch expected target d j =
     (case map_of (leases j) (lid, epoch) of
        None \<Rightarrow> Inl (ContractViolation ''capability lease is not recorded'')
      | Some c \<Rightarrow>
          if cl_run c \<noteq> lease_of l then Inl (JournalDamaged ''capability lease names another run'')
          else if cl_state c = target \<and> cl_disposition c = d then Inr j
          else if target = LostLease then Inl (ContractViolation ''worker cannot mint lost accounting'')
          else if cl_state c = LostLease \<and> target = ActiveLease
          then Inl (ContractViolation ''worker cannot reactivate lost accounting'')
          else if cl_state c \<notin> expected then Inl (ContractViolation ''capability lease state'')
          else rbind (allocate_seq l {Running} j) (\<lambda>(seq, j).
            insert_event (lease_of l) seq ''LeaseTransition'' None
              (Some (jobj [(''lease_id'', jstr lid), (''acquisition_epoch'', jnat epoch), (''from'', lease_state_json (cl_state c)),
                           (''to'', lease_state_json target), (''disposition'', jopt closure_json d)]))
              (j\<lparr>leases := dict_set (lid, epoch) (c\<lparr>cl_state := target, cl_disposition := d\<rparr>) (leases j)\<rparr>)))"

definition capability_leases :: "string \<Rightarrow> journal \<Rightarrow> capability_lease list" where
  "capability_leases run j = filter (\<lambda>c. cl_run c = run) (dict_values (leases j))"

end
