(* ===== verification/Journal_Laws.thy ===== *)
theory Journal_Laws
  imports Run_Journal
begin

text \<open>
  The laws of the execution journal. Every operation is put into one of a few shapes (\<open>\<dots>_cases\<close>):
  nothing, a new row of one run, or a \<open>logged\<close> write of the owner, which advances the run's sequence and appends
  one event. \<open>journal_step\<close> is any operation by any connection; \<open>journal_ok\<close> is the invariant of
  the reachable tables and \<open>grows\<close> what no step ever takes back.
\<close>

section \<open>The shapes of the operations\<close>

definition fenced :: "run_lease \<Rightarrow> run_status set \<Rightarrow> journal \<Rightarrow> run_row \<Rightarrow> bool" where
  "fenced l S j r \<longleftrightarrow> map_of (runs j) (lease_of l) = Some r \<and> run_status r \<in> S \<and> holds l r"

definition logged ::
  "run_lease \<Rightarrow> run_row \<Rightarrow> string \<Rightarrow> execution_path option \<Rightarrow> json option \<Rightarrow> journal \<Rightarrow> journal" where
  "logged l r k p d j = (set_run (lease_of l) (r\<lparr>next_event_seq := Suc (next_event_seq r)\<rparr>) j)\<lparr>events := events j @
     [\<lparr>event_run = lease_of l, event_seq = Suc (next_event_seq r), event_kind = k, event_path = p, event_payload = d\<rparr>]\<rparr>"

lemma set_run_simps [simp]:
  "runs (set_run run r j) = dict_set run r (runs j)" "events (set_run run r j) = events j"
  "checkpoints (set_run run r j) = checkpoints j" "leases (set_run run r j) = leases j"
  "effects (set_run run r j) = effects j" "attestations (set_run run r j) = attestations j" "manifests (set_run run r j) = manifests j"
  by (simp_all add: set_run_def)

lemma logged_simps [simp]:
  "runs (logged l r k p d j) = dict_set (lease_of l) (r\<lparr>next_event_seq := Suc (next_event_seq r)\<rparr>) (runs j)"
  "checkpoints (logged l r k p d j) = checkpoints j" "leases (logged l r k p d j) = leases j"
  "effects (logged l r k p d j) = effects j" "attestations (logged l r k p d j) = attestations j" "manifests (logged l r k p d j) = manifests j"
  by (simp_all add: logged_def)

lemma set_run_update [simp]:
  "set_run run r (j\<lparr>checkpoints := x\<rparr>) = (set_run run r j)\<lparr>checkpoints := x\<rparr>"
  "set_run run r (j\<lparr>leases := y\<rparr>) = (set_run run r j)\<lparr>leases := y\<rparr>"
  "set_run run r (j\<lparr>effects := z\<rparr>) = (set_run run r j)\<lparr>effects := z\<rparr>"
  by (simp_all add: set_run_def)

lemma allocate_seq_cases:
  assumes "allocate_seq l S j = Inr (n, j')"
  obtains r where "fenced l S j r" "n = Suc (next_event_seq r)"
    "j' = set_run (lease_of l) (r\<lparr>next_event_seq := Suc (next_event_seq r)\<rparr>) j"
  using assms by (auto simp: allocate_seq_def fenced_def split: option.splits if_splits)

lemma insert_event_cases:
  "insert_event run n k p d j = Inr j' \<longleftrightarrow> k \<noteq> METERING_EVENT
     \<and> j' = j\<lparr>events := events j @ [\<lparr>event_run = run, event_seq = n, event_kind = k, event_path = p, event_payload = d\<rparr>]\<rparr>"
  by (auto simp: insert_event_def)

lemma append_event_cases:
  assumes "append_event l k p d j = Inr j'"
  obtains r where "fenced l {Running} j r" "j' = logged l r k p d j"
  using assms by (auto simp: append_event_def result_simps insert_event_cases logged_def elim!: allocate_seq_cases)

lemma record_completion_cases:
  assumes "record_completion sha l c j = Inr j'"
  obtains (same) old where "j' = j" "stored_checkpoint j (cp_run c) (cp_path c) = Some old"
      "checkpoint_identity sha old = checkpoint_identity sha c" "cp_run c = lease_of l"
    | (new) r k p d where "stored_checkpoint j (cp_run c) (cp_path c) = None" "fenced l {Running} j r" "cp_run c = lease_of l"
      "j' = logged l r k p d (j\<lparr>checkpoints := dict_set (cp_run c, path_key (cp_path c)) c (checkpoints j)\<rparr>)"
  using assms
  by (auto simp: record_completion_def result_simps insert_event_cases logged_def
           elim!: allocate_seq_cases split: option.splits if_splits)

lemma record_effect_prepared_cases:
  assumes "record_effect_prepared sha f l q j = Inr (q', j')"
  obtains (old) e where "j' = j" "map_of (effects j) (er_key q) = Some e" "q' = ef_request e"
    | (new) "map_of (effects j) (er_key q) = None" "q' = q" "er_key q = effect_request_key sha q"
      "j' = j\<lparr>effects := dict_set (er_key q) \<lparr>ef_request = q, ef_receipt = None, ef_outcome = None\<rparr> (effects j)\<rparr>"
  using assms by (auto simp: record_effect_prepared_def split: option.splits if_splits)

lemma record_effect_outcome_cases:
  assumes "record_effect_outcome sha l q rc k j = Inr (x, j')"
  obtains (old) e prior where "x = AlreadyRecorded" "j' = j" "map_of (effects j) (er_key q) = Some e" "ef_receipt e = Some prior"
      "canonical_json (effect_receipt_json prior) = canonical_json (effect_receipt_json rc)"
    | (new) r e p d n where "x = Recorded" "fenced l {Running} j r" "map_of (effects j) (er_key q) = Some e" "ef_receipt e = None"
      "rc_request rc = request_hash sha q" "canonical_json (effect_request_json (ef_request e)) = canonical_json (effect_request_json q)"
      "j' = logged l r k p d (j\<lparr>effects := dict_set (er_key q)
               (e\<lparr>ef_receipt := Some rc, ef_outcome := Some (lease_of l, n)\<rparr>) (effects j)\<rparr>)"
proof (cases "map_of (effects j) (er_key q)")
  case None
  then show ?thesis using assms by (auto simp: record_effect_outcome_def split: if_splits)
next
  case (Some e)
  show ?thesis
  proof (cases "ef_receipt e")
    case (Some prior)
    then show ?thesis using assms \<open>map_of (effects j) (er_key q) = Some e\<close>
      by (intro old [of e prior]) (auto simp: record_effect_outcome_def split: if_splits)
  next
    case None
    obtain n j1 where a: "allocate_seq l {Running} j = Inr (n, j1)"
      and b: "insert_event (lease_of l) n k (Some (er_path q)) (Some (effect_outcome_payload sha q rc))
        (j1\<lparr>effects := dict_set (er_key q) (e\<lparr>ef_receipt := Some rc, ef_outcome := Some (lease_of l, n)\<rparr>) (effects j1)\<rparr>) = Inr j'"
      and c: "x = Recorded" "rc_request rc = request_hash sha q"
        "canonical_json (effect_request_json (ef_request e)) = canonical_json (effect_request_json q)"
      using assms Some None by (auto simp: record_effect_outcome_def result_simps split: if_splits)
    from a obtain r where r: "fenced l {Running} j r" "n = Suc (next_event_seq r)"
      "j1 = set_run (lease_of l) (r\<lparr>next_event_seq := Suc (next_event_seq r)\<rparr>) j" by (rule allocate_seq_cases)
    show ?thesis
      using b by (intro new [OF c(1) r(1) Some None c(2,3)]) (simp add: insert_event_cases logged_def r(2,3))
  qed
qed

lemma minted_cases:
  assumes "minted a x j = Inr (b, j')"
  obtains (old) "j' = j" | (new) "map_of (attestations j) (att_id a) = None" "b = a"
      "j' = j\<lparr>attestations := dict_set (att_id a) a (attestations j)\<rparr>"
proof (cases "x = None \<and> map_of (attestations j) (att_id a) = None")
  case True
  then show ?thesis using assms by (intro new) (auto simp: minted_def insert_attestation_def)
next
  case False
  then have "j' = j" using assms by (auto simp: minted_def insert_attestation_def split: option.splits if_splits)
  then show ?thesis by (rule old)
qed

lemma mint_attestation_cases:
  assumes "mint_attestation sha l d j = Inr (a, j')"
  obtains (old) "j' = j" | (new) k where "map_of (attestations j) k = None" "j' = j\<lparr>attestations := dict_set k a (attestations j)\<rparr>"
proof -
  from assms obtain b x where "minted b x j = Inr (a, j')"
    by (auto simp: mint_attestation_def result_simps split: option.splits if_splits)
  then show ?thesis by (rule minted_cases) (auto intro: old new)
qed

lemma mint_policy_attestation_cases:
  assumes "mint_policy_attestation sha d j = Inr (a, j')"
  obtains (old) "j' = j" | (new) k where "map_of (attestations j) k = None" "j' = j\<lparr>attestations := dict_set k a (attestations j)\<rparr>"
proof -
  from assms obtain b x where "minted b x j = Inr (a, j')"
    by (auto simp: mint_policy_attestation_def result_simps split: option.splits if_splits)
  then show ?thesis by (rule minted_cases) (auto intro: old new)
qed

lemma record_capability_lease_cases:
  assumes "record_capability_lease sha l c j = Inr j'"
  obtains (same) "j' = j" "map_of (leases j) (cl_id c, cl_epoch c) = Some c" "cl_run c = lease_of l"
    | (new) r k p d where "map_of (leases j) (cl_id c, cl_epoch c) = None" "fenced l {Running} j r" "cl_run c = lease_of l"
      "j' = logged l r k p d (j\<lparr>leases := dict_set (cl_id c, cl_epoch c) c (leases j)\<rparr>)"
  using assms
  by (auto simp: record_capability_lease_def result_simps insert_event_cases logged_def
           elim!: allocate_seq_cases split: option.splits if_splits)

lemma transition_capability_lease_cases:
  assumes "transition_capability_lease l lid ep S target d j = Inr j'"
  obtains (same) "j' = j"
    | (new) r c k p x where "map_of (leases j) (lid, ep) = Some c" "cl_run c = lease_of l" "fenced l {Running} j r"
      "j' = logged l r k p x (j\<lparr>leases := dict_set (lid, ep) (c\<lparr>cl_state := target, cl_disposition := d\<rparr>) (leases j)\<rparr>)"
proof (cases "j' = j")
  case False
  then obtain c n j1 y where c: "map_of (leases j) (lid, ep) = Some c" "cl_run c = lease_of l"
    and a: "allocate_seq l {Running} j = Inr (n, j1)"
    and b: "insert_event (lease_of l) n ''LeaseTransition'' None y
      (j1\<lparr>leases := dict_set (lid, ep) (c\<lparr>cl_state := target, cl_disposition := d\<rparr>) (leases j1)\<rparr>) = Inr j'"
    using assms by (auto simp: transition_capability_lease_def result_simps split: option.splits if_splits)
  from a obtain r where r: "fenced l {Running} j r" "n = Suc (next_event_seq r)"
    "j1 = set_run (lease_of l) (r\<lparr>next_event_seq := Suc (next_event_seq r)\<rparr>) j" by (rule allocate_seq_cases)
  show ?thesis
    using b by (intro new [OF c r(1)]) (simp add: insert_event_cases logged_def r(2,3))
qed (rule same)

lemma transition_run_cases:
  assumes "transition_run l S target k d j = Inr j'"
  obtains r where "fenced l S j r" "target \<in> set TERMINAL_STATUSES \<Longrightarrow> active_leases (lease_of l) j = []"
    "j' = set_run (lease_of l) (r\<lparr>next_event_seq := Suc (next_event_seq r), run_status := target\<rparr>) (logged l r k None d j)"
proof -
  obtain n j1 where a: "allocate_seq l S j = Inr (n, j1)" using assms by (auto simp: transition_run_def result_simps)
  then obtain r where r: "fenced l S j r" "n = Suc (next_event_seq r)"
    "j1 = set_run (lease_of l) (r\<lparr>next_event_seq := Suc (next_event_seq r)\<rparr>) j" by (rule allocate_seq_cases)
  have al: "active_leases (lease_of l) j1 = active_leases (lease_of l) j" by (simp add: r(3) active_leases_def)
  show thesis
    by (rule that [OF r(1)])
       (use assms in \<open>auto simp: transition_run_def a al [unfolded r(3) set_run_def] r(2,3) insert_event_cases logged_def set_run_def split: if_splits\<close>)
qed

lemma claim_run_cases:
  assumes "claim_run run owner ttl now n S j = Inr (l, j')"
  obtains r where "map_of (runs j) run = Some r" "claimable now r"
    "l = \<lparr>lease_of = run, lease_owner = owner, lease_epoch = Suc (owner_epoch r)\<rparr>"
    "j' = set_run run (r\<lparr>owner_id := Some owner, owner_epoch := Suc (owner_epoch r), lease_expires_at := Some (now + ttl)\<rparr>) j"
  using assms by (auto simp: claim_run_def split: option.splits if_splits)

lemma heartbeat_cases:
  assumes "heartbeat l ttl now j = Inr j'"
  obtains r where "map_of (runs j) (lease_of l) = Some r" "holds l r"
    "j' = set_run (lease_of l) (r\<lparr>lease_expires_at := Some (now + ttl)\<rparr>) j"
  using assms by (auto simp: heartbeat_def split: option.splits if_splits)

lemma release_run_cases:
  assumes "release_run l j = Inr j'"
  obtains r where "map_of (runs j) (lease_of l) = Some r" "holds l r"
    "j' = set_run (lease_of l) (r\<lparr>owner_id := None, lease_expires_at := None\<rparr>) j"
  using assms by (auto simp: release_run_def split: option.splits if_splits)

lemma request_cancel_cases:
  assumes "request_cancel run x j = Inr j'"
  obtains r where "map_of (runs j) run = Some r" "j' = set_run run (r\<lparr>cancel_requested := True\<rparr>) j"
  using assms by (auto simp: request_cancel_def split: option.splits if_splits)

lemma create_run_cases:
  assumes "create_run sha run m mh ih ins x j = Inr j'"
  obtains (same) ms where "map_of (manifests j) \<subseteq>\<^sub>m map_of ms" "j' = j\<lparr>manifests := ms\<rparr>"
    | (new) ms r where "map_of (manifests j) \<subseteq>\<^sub>m map_of ms" "map_of (runs j) run = None" "run_status r = Pending"
      "next_event_seq r = 0" "j' = j\<lparr>manifests := ms, runs := dict_set run r (runs j)\<rparr>"
proof -
  define ms where "ms = (if map_of (manifests j) mh = None then dict_set mh m (manifests j) else manifests j)"
  have le: "map_of (manifests j) \<subseteq>\<^sub>m map_of ms" by (auto simp: ms_def map_le_def)
  have j1: "(case map_of (manifests j) mh of None \<Rightarrow> Inr (j\<lparr>manifests := dict_set mh m (manifests j)\<rparr>)
      | Some m' \<Rightarrow> if m' = m then Inr j else Inl (JournalDamaged ''manifest semantics'')) = Inr j1
      \<Longrightarrow> j1 = j\<lparr>manifests := ms\<rparr>" for j1 :: journal
    by (auto simp: ms_def split: option.splits if_splits)
  obtain j1 where a: "j1 = j\<lparr>manifests := ms\<rparr>"
    and b: "(case map_of (runs j1) run of
           Some r \<Rightarrow>
             if run_manifest r \<noteq> mh \<or> run_input_hash r \<noteq> ih
                \<or> canonical_json (jobj (run_inputs r)) \<noteq> canonical_json (jobj ins)
             then Inl (CheckpointConflict ''run exists'')
             else if run_row.run_origin r \<noteq> x then Inl (JournalDamaged ''run origin'')
             else Inr j1
         | None \<Rightarrow> Inr (j1\<lparr>runs := dict_set run
             \<lparr>run_manifest = mh, run_input_hash = ih, run_inputs = ins, run_origin = x, run_status = Pending,
              owner_id = None, owner_epoch = 0, lease_expires_at = None, cancel_requested = False,
              next_event_seq = 0\<rparr> (runs j1)\<rparr>)) = Inr j'"
    using assms j1 by (auto simp: create_run_def result_simps split: if_splits)
  show thesis
  proof (cases "map_of (runs j) run")
    case None
    then show ?thesis using b by (intro that(2) [OF le None, rotated 2]) (auto simp: a)
  qed (use b in \<open>auto simp: a intro: that(1) [OF le] split: if_splits\<close>)
qed

section \<open>Steps of the journal\<close>

text \<open>
  One rule for each transaction. \<^verbatim>\<open>transition_run\<close> moves a run out of any status its caller expects, the finished ones
  included; \<open>F\<close> holds the sets of statuses that callers expect. The only caller is the walker, which expects one of three.
\<close>

inductive owner_op :: "(nat list \<Rightarrow> string) \<Rightarrow> run_status set set \<Rightarrow> run_lease \<Rightarrow> journal \<Rightarrow> journal \<Rightarrow> bool" for sha F l where
  beat: "heartbeat l ttl now j = Inr j' \<Longrightarrow> owner_op sha F l j j'"
| release: "release_run l j = Inr j' \<Longrightarrow> owner_op sha F l j j'"
| intent: "request_cancel run (Some l) j = Inr j' \<Longrightarrow> owner_op sha F l j j'"
| log: "append_event l k p d j = Inr j' \<Longrightarrow> owner_op sha F l j j'"
| move: "transition_run l S target k d j = Inr j' \<Longrightarrow> S \<in> F \<Longrightarrow> owner_op sha F l j j'"
| complete: "record_completion sha l c j = Inr j' \<Longrightarrow> owner_op sha F l j j'"
| prepare: "record_effect_prepared sha f l q j = Inr (q', j') \<Longrightarrow> owner_op sha F l j j'"
| outcome: "record_effect_outcome sha l q rc k j = Inr (x, j') \<Longrightarrow> owner_op sha F l j j'"
| mint: "mint_attestation sha l ad j = Inr (a, j') \<Longrightarrow> owner_op sha F l j j'"
| acquire: "record_capability_lease sha l cl j = Inr j' \<Longrightarrow> owner_op sha F l j j'"
| close: "transition_capability_lease l lid ep T st d' j = Inr j' \<Longrightarrow> owner_op sha F l j j'"

inductive journal_op :: "(nat list \<Rightarrow> string) \<Rightarrow> run_status set set \<Rightarrow> journal \<Rightarrow> journal \<Rightarrow> bool" for sha F where
  own: "owner_op sha F l j j' \<Longrightarrow> journal_op sha F j j'"
| create: "create_run sha run m mh ih ins x j = Inr j' \<Longrightarrow> journal_op sha F j j'"
| claim: "claim_run run owner ttl now n S j = Inr (l, j') \<Longrightarrow> journal_op sha F j j'"
| cancel: "request_cancel run None j = Inr j' \<Longrightarrow> journal_op sha F j j'"
| policy: "mint_policy_attestation sha ad j = Inr (a, j') \<Longrightarrow> journal_op sha F j j'"

definition runtime_expectations :: "run_status set set" where
  "runtime_expectations = {{Pending}, {Failed, Parked}, {Running}}"

abbreviation owner_step :: "(nat list \<Rightarrow> string) \<Rightarrow> run_lease \<Rightarrow> journal \<Rightarrow> journal \<Rightarrow> bool" where
  "owner_step sha \<equiv> owner_op sha runtime_expectations"

abbreviation journal_step :: "(nat list \<Rightarrow> string) \<Rightarrow> journal \<Rightarrow> journal \<Rightarrow> bool" where
  "journal_step sha \<equiv> journal_op sha runtime_expectations"

definition spares_finished :: "run_status set set \<Rightarrow> bool" where
  "spares_finished F \<longleftrightarrow> (\<forall>S \<in> F. S \<inter> {Succeeded, Cancelled} = {})"

lemma runtime_spares_finished [simp]: "spares_finished runtime_expectations"
  by (simp add: spares_finished_def runtime_expectations_def)

abbreviation journal_steps :: "(nat list \<Rightarrow> string) \<Rightarrow> journal \<Rightarrow> journal \<Rightarrow> bool" where
  "journal_steps sha \<equiv> (journal_step sha)\<^sup>*\<^sup>*"

text \<open>What one step may do to the row of a run, and to the tables.\<close>

definition row_grows :: "run_row \<Rightarrow> run_row \<Rightarrow> bool" where
  "row_grows r r' \<longleftrightarrow> run_manifest r' = run_manifest r \<and> run_input_hash r' = run_input_hash r \<and> run_inputs r' = run_inputs r
     \<and> run_row.run_origin r' = run_row.run_origin r \<and> owner_epoch r \<le> owner_epoch r' \<and> next_event_seq r \<le> next_event_seq r'
     \<and> (cancel_requested r \<longrightarrow> cancel_requested r')
     \<and> (run_status r \<in> {Succeeded, Cancelled} \<longrightarrow> run_status r' = run_status r)"

definition effect_grows :: "effect_row \<Rightarrow> effect_row \<Rightarrow> bool" where
  "effect_grows e e' \<longleftrightarrow> ef_request e' = ef_request e \<and> (ef_receipt e \<noteq> None \<longrightarrow> e' = e)"

definition grows :: "journal \<Rightarrow> journal \<Rightarrow> bool" where
  "grows j j' \<longleftrightarrow>
     (\<forall>run r. map_of (runs j) run = Some r \<longrightarrow> (\<exists>r'. map_of (runs j') run = Some r' \<and> row_grows r r'))
     \<and> (\<exists>es. events j' = events j @ es) \<and> map_of (checkpoints j) \<subseteq>\<^sub>m map_of (checkpoints j')
     \<and> map_of (manifests j) \<subseteq>\<^sub>m map_of (manifests j') \<and> map_of (attestations j) \<subseteq>\<^sub>m map_of (attestations j')
     \<and> (\<forall>k e. map_of (effects j) k = Some e \<longrightarrow> (\<exists>e'. map_of (effects j') k = Some e' \<and> effect_grows e e'))"

lemma row_grows_refl [simp]: "row_grows r r" by (simp add: row_grows_def)

lemma effect_grows_refl [simp]: "effect_grows e e" by (simp add: effect_grows_def)

lemma grows_refl [simp]: "grows j j" by (auto simp: grows_def)

lemma row_grows_trans: "row_grows a b \<Longrightarrow> row_grows b c \<Longrightarrow> row_grows a c"
  by (auto simp: row_grows_def)

lemma effect_grows_trans: "effect_grows a b \<Longrightarrow> effect_grows b c \<Longrightarrow> effect_grows a c"
  by (auto simp: effect_grows_def)

lemma grows_trans: "grows a b \<Longrightarrow> grows b c \<Longrightarrow> grows a c"
  unfolding grows_def
  by (intro conjI allI impI; (elim conjE)?)
     (blast intro: row_grows_trans, force, blast intro: map_le_trans, blast intro: map_le_trans, blast intro: map_le_trans, blast intro: effect_grows_trans)

lemma grows_set_run:
  "map_of (runs j) run = Some r \<Longrightarrow> row_grows r r' \<Longrightarrow> grows j (set_run run r' j)"
  by (auto simp: grows_def)

lemma grows_logged: "fenced l S j r \<Longrightarrow> grows j (logged l r k p d j)"
  by (auto simp: grows_def fenced_def logged_def row_grows_def)

lemma grows_tables:
  "grows j j' \<Longrightarrow> map_of (checkpoints j') \<subseteq>\<^sub>m map_of x \<Longrightarrow> grows j (j'\<lparr>checkpoints := x\<rparr>)"
  "grows j j' \<Longrightarrow> grows j (j'\<lparr>leases := y\<rparr>)"
  "grows j j' \<Longrightarrow> map_of (attestations j') \<subseteq>\<^sub>m map_of w \<Longrightarrow> grows j (j'\<lparr>attestations := w\<rparr>)"
  "grows j j' \<Longrightarrow> (\<And>k e. map_of (effects j') k = Some e \<Longrightarrow> \<exists>e'. map_of z k = Some e' \<and> effect_grows e e') \<Longrightarrow> grows j (j'\<lparr>effects := z\<rparr>)"
  by (auto simp: grows_def intro: map_le_trans) (meson effect_grows_trans)

lemma logged_tables [simp]:
  "logged l r k p d (j\<lparr>checkpoints := x\<rparr>) = (logged l r k p d j)\<lparr>checkpoints := x\<rparr>"
  "logged l r k p d (j\<lparr>leases := y\<rparr>) = (logged l r k p d j)\<lparr>leases := y\<rparr>"
  "logged l r k p d (j\<lparr>effects := z\<rparr>) = (logged l r k p d j)\<lparr>effects := z\<rparr>"
  by (simp_all add: logged_def)

lemma map_le_update_new: "map_of d k = None \<Longrightarrow> map_of d \<subseteq>\<^sub>m map_of (dict_set k v d)"
  by (auto simp: map_le_def)

lemma owner_op_grows: "owner_op sha F l j j' \<Longrightarrow> spares_finished F \<Longrightarrow> grows j j'"
proof (induction rule: owner_op.induct)
  case (move S target k d j j')
  from move(1) show ?case
  proof (rule transition_run_cases)
    fix r assume r: "fenced l S j r"
      and j': "j' = set_run (lease_of l) (r\<lparr>next_event_seq := Suc (next_event_seq r), run_status := target\<rparr>) (logged l r k None d j)"
    have "row_grows (r\<lparr>next_event_seq := Suc (next_event_seq r)\<rparr>) (r\<lparr>next_event_seq := Suc (next_event_seq r), run_status := target\<rparr>)"
      using r move(2,3) by (auto simp: row_grows_def fenced_def spares_finished_def)
    then show ?thesis
      unfolding j' by (intro grows_trans [OF grows_logged [OF r] grows_set_run]) simp_all
  qed
qed (auto elim!: heartbeat_cases release_run_cases request_cancel_cases append_event_cases record_completion_cases
        record_effect_prepared_cases record_effect_outcome_cases mint_attestation_cases record_capability_lease_cases
        transition_capability_lease_cases
      intro!: grows_set_run grows_logged grows_tables map_le_update_new
      simp: row_grows_def stored_checkpoint_def effect_grows_def)

lemmas owner_step_grows = owner_op_grows [OF _ runtime_spares_finished]

lemma journal_op_grows: "journal_op sha F j j' \<Longrightarrow> spares_finished F \<Longrightarrow> grows j j'"
proof (induction rule: journal_op.induct)
  case (create run m mh ih ins x j j')
  from create(1) show ?case by (rule create_run_cases) (auto simp: grows_def)
qed (auto elim!: claim_run_cases request_cancel_cases mint_policy_attestation_cases intro: owner_op_grows
          intro!: grows_set_run grows_tables map_le_update_new
          simp: row_grows_def claimable_def)

lemmas journal_step_grows = journal_op_grows [OF _ runtime_spares_finished]

lemma journal_ops_grow: "(journal_op sha F)\<^sup>*\<^sup>* j j' \<Longrightarrow> spares_finished F \<Longrightarrow> grows j j'"
  by (induction rule: rtranclp_induct) (auto intro: journal_op_grows grows_trans)

lemmas journal_steps_grow = journal_ops_grow [OF _ runtime_spares_finished]

text \<open>Completions, effects and epochs need no care of the callers.\<close>

definition facts_grow :: "journal \<Rightarrow> journal \<Rightarrow> bool" where
  "facts_grow j j' \<longleftrightarrow> map_of (checkpoints j) \<subseteq>\<^sub>m map_of (checkpoints j')
     \<and> (\<forall>k e. map_of (effects j) k = Some e \<longrightarrow> (\<exists>e'. map_of (effects j') k = Some e' \<and> effect_grows e e'))
     \<and> (\<forall>run r. map_of (runs j) run = Some r \<longrightarrow> (\<exists>r'. map_of (runs j') run = Some r' \<and> owner_epoch r \<le> owner_epoch r'))"

lemma facts_grow_refl: "facts_grow j j"
  by (auto simp: facts_grow_def)

lemma facts_grow_trans: "facts_grow a b \<Longrightarrow> facts_grow b c \<Longrightarrow> facts_grow a c"
  unfolding facts_grow_def by (blast intro: map_le_trans effect_grows_trans le_trans)

lemma grows_facts: "grows j j' \<Longrightarrow> facts_grow j j'"
  unfolding grows_def facts_grow_def row_grows_def by blast

lemma transition_facts: "transition_run l S target k d j = Inr j' \<Longrightarrow> facts_grow j j'"
  by (erule transition_run_cases) (auto simp: facts_grow_def set_run_def logged_def fenced_def)

lemma owner_op_or_move:
  "owner_op sha F l j j' \<Longrightarrow> owner_step sha l j j' \<or> (\<exists>S target k d. transition_run l S target k d j = Inr j')"
  by (induction rule: owner_op.induct) (blast intro: owner_op.intros)+

lemma journal_op_facts: "journal_op sha F j j' \<Longrightarrow> facts_grow j j'"
proof (induction rule: journal_op.induct)
  case (own l j j')
  then show ?case using owner_op_or_move [OF own] owner_step_grows grows_facts transition_facts by blast
qed (blast intro: grows_facts journal_step_grows journal_op.intros)+

lemma journal_ops_facts: "(journal_op sha F)\<^sup>*\<^sup>* j j' \<Longrightarrow> facts_grow j j'"
  by (induction rule: rtranclp_induct) (auto intro: facts_grow_refl facts_grow_trans journal_op_facts)

lemma growsD:
  assumes "grows j j'"
  shows "map_of (runs j) run = Some r \<Longrightarrow> \<exists>r'. map_of (runs j') run = Some r' \<and> row_grows r r'"
    and "stored_checkpoint j run p = Some c \<Longrightarrow> stored_checkpoint j' run p = Some c"
    and "map_of (effects j) k = Some e \<Longrightarrow> \<exists>e'. map_of (effects j') k = Some e' \<and> effect_grows e e'"
    and "\<exists>es. events j' = events j @ es"
  using assms by (auto simp: grows_def stored_checkpoint_def map_le_def dom_def)

text \<open>An owner whose lease no longer holds the row changes nothing.\<close>

lemma stale_owner_op:
  "owner_op sha F l j j' \<Longrightarrow> map_of (runs j) (lease_of l) = Some r \<Longrightarrow> \<not> holds l r \<Longrightarrow> j' = j"
proof (induction rule: owner_op.induct)
  case (intent run j j')
  then show ?case by (auto simp: request_cancel_def split: if_splits)
next
  case (prepare f q j q' j')
  then show ?case by (auto simp: record_effect_prepared_def split: if_splits)
next
  case (mint ad j a j')
  then show ?case by (auto simp: mint_attestation_def split: if_splits)
qed (auto elim!: heartbeat_cases release_run_cases append_event_cases transition_run_cases record_completion_cases
        record_effect_outcome_cases record_capability_lease_cases transition_capability_lease_cases simp: fenced_def)



section \<open>The invariant of the reachable tables\<close>

definition run_events :: "string \<Rightarrow> journal \<Rightarrow> event list" where
  "run_events run j = filter (\<lambda>e. event_run e = run) (events j)"

definition sequence_of :: "string \<Rightarrow> journal \<Rightarrow> nat" where
  "sequence_of run j = (case map_of (runs j) run of None \<Rightarrow> 0 | Some r \<Rightarrow> next_event_seq r)"

definition journal_ok :: "journal \<Rightarrow> bool" where
  "journal_ok j \<longleftrightarrow>
     (\<forall>run. map event_seq (run_events run j) = [1..<Suc (sequence_of run j)])
     \<and> (\<forall>run r. map_of (runs j) run = Some r \<longrightarrow> run_status r \<in> set TERMINAL_STATUSES \<longrightarrow> active_leases run j = [])
     \<and> (\<forall>run k c. map_of (checkpoints j) (run, k) = Some c \<longrightarrow> cp_run c = run \<and> path_key (cp_path c) = k)"

abbreviation journal_reachable :: "(nat list \<Rightarrow> string) \<Rightarrow> journal \<Rightarrow> bool" where
  "journal_reachable sha \<equiv> journal_steps sha empty_journal"

lemma journal_ok_row:
  assumes "journal_ok j" "map_of (runs j) run = Some r" "next_event_seq r' = next_event_seq r" "run_status r' = run_status r"
  shows "journal_ok (set_run run r' j)"
  using assms by (auto simp: journal_ok_def run_events_def sequence_of_def active_leases_def)

lemma journal_ok_logged:
  assumes "journal_ok j" "fenced l S j r" "run_status r' = run_status r \<or> (run_status r' \<in> set TERMINAL_STATUSES \<longrightarrow> active_leases (lease_of l) j = [])"
    and "next_event_seq r' = Suc (next_event_seq r)"
  shows "journal_ok (set_run (lease_of l) r' (logged l r k p d j))"
proof -
  have "map event_seq (run_events run (set_run (lease_of l) r' (logged l r k p d j)))
      = [1..<Suc (sequence_of run (set_run (lease_of l) r' (logged l r k p d j)))]" for run
    using assms(1,2,4) by (auto simp: journal_ok_def run_events_def sequence_of_def fenced_def logged_def)
  moreover have "active_leases run (set_run (lease_of l) r' (logged l r k p d j)) = active_leases run j" for run
    by (simp add: active_leases_def)
  ultimately show ?thesis using assms by (auto simp: journal_ok_def fenced_def)
qed

lemma logged_set_run: "logged l r k p d j = set_run (lease_of l) (r\<lparr>next_event_seq := Suc (next_event_seq r)\<rparr>) (logged l r k p d j)"
  by (simp add: logged_def set_run_def)

lemma journal_ok_log: "journal_ok j \<Longrightarrow> fenced l S j r \<Longrightarrow> journal_ok (logged l r k p d j)"
  by (subst logged_set_run) (rule journal_ok_logged, simp_all)

lemma journal_ok_effects: "journal_ok (j\<lparr>effects := z\<rparr>) = journal_ok j" "journal_ok (j\<lparr>attestations := w\<rparr>) = journal_ok j"
  by (simp_all add: journal_ok_def run_events_def sequence_of_def active_leases_def)

lemma journal_ok_checkpoint:
  "journal_ok j \<Longrightarrow> cp_run c = run \<Longrightarrow> journal_ok (j\<lparr>checkpoints := dict_set (run, path_key (cp_path c)) c (checkpoints j)\<rparr>)"
  by (auto simp: journal_ok_def run_events_def sequence_of_def active_leases_def)

text \<open>Only a running run takes a lease row, so a stopped run never regains an active one.\<close>

lemma journal_ok_lease:
  assumes "journal_ok j" "map_of (runs j) run = Some r" "run_status r = Running" "cl_run c = run"
  shows "journal_ok (j\<lparr>leases := dict_set key c (leases j)\<rparr>)"
proof -
  have "active_leases run' (j\<lparr>leases := dict_set key c (leases j)\<rparr>) = []" if "active_leases run' j = []" "run' \<noteq> run" for run'
    using that set_update_subset [of key c "leases j"] assms(4) by (fastforce simp: active_leases_def filter_empty_conv)
  moreover have "run_status r' \<in> set TERMINAL_STATUSES \<Longrightarrow> map_of (runs j) run' = Some r' \<Longrightarrow> run' \<noteq> run" for run' r'
    using assms(2,3) by (auto simp: TERMINAL_STATUSES_def)
  ultimately show ?thesis using assms(1) by (auto simp: journal_ok_def run_events_def sequence_of_def)
qed

lemma owner_op_ok: "owner_op sha F l j j' \<Longrightarrow> journal_ok j \<Longrightarrow> journal_ok j'"
proof (induction rule: owner_op.induct)
  case (move S target k d j j')
  from move(1) show ?case by (rule transition_run_cases) (auto intro: journal_ok_logged [OF move(3)])
next
  case (complete c j j')
  from complete(1) show ?case
    by (rule record_completion_cases)
       (use complete(2) journal_ok_checkpoint [OF journal_ok_log [OF complete(2)]] in force)+
next
  case (outcome q rc k j x j')
  from outcome(1) show ?case
    by (rule record_effect_outcome_cases) (auto simp: outcome(2) journal_ok_effects intro: journal_ok_log)
next
  case (prepare f q j q' j')
  from prepare(1) show ?case by (rule record_effect_prepared_cases) (auto simp: prepare(2) journal_ok_effects)
next
  case (mint ad j a j')
  from mint(1) show ?case by (rule mint_attestation_cases) (auto simp: mint(2) journal_ok_effects)
next
  case (acquire cl j j')
  from acquire(1) show ?case
  proof (rule record_capability_lease_cases)
    fix r k p d assume a: "fenced l {Running} j r" "cl_run cl = lease_of l"
      "j' = logged l r k p d (j\<lparr>leases := dict_set (cl_id cl, cl_epoch cl) cl (leases j)\<rparr>)"
    show ?thesis using journal_ok_lease [OF journal_ok_log [OF acquire(2) a(1), of k p d] _ _ a(2)] a(1) by (simp add: a(3) fenced_def)
  qed (simp add: acquire(2))
next
  case (close lid ep T st d' j j')
  from close(1) show ?case
  proof (rule transition_capability_lease_cases)
    fix r c k p x assume a: "cl_run c = lease_of l" "fenced l {Running} j r"
      "j' = logged l r k p x (j\<lparr>leases := dict_set (lid, ep) (c\<lparr>cl_state := st, cl_disposition := d'\<rparr>) (leases j)\<rparr>)"
    show ?thesis
      using journal_ok_lease [OF journal_ok_log [OF close(2) a(2), of k p x], of "lease_of l" _ "c\<lparr>cl_state := st, cl_disposition := d'\<rparr>"] a(1,2)
      by (simp add: a(3) fenced_def)
  qed (simp add: close(2))
qed (auto elim!: heartbeat_cases release_run_cases request_cancel_cases append_event_cases
      intro: journal_ok_row journal_ok_log)

lemma journal_op_ok: "journal_op sha F j j' \<Longrightarrow> journal_ok j \<Longrightarrow> journal_ok j'"
proof (induction rule: journal_op.induct)
  case (create run m mh ih ins x j j')
  from create(1) show ?case
    by (rule create_run_cases)
       (use create(2) in \<open>auto simp: journal_ok_def run_events_def sequence_of_def active_leases_def TERMINAL_STATUSES_def\<close>)
qed (auto elim!: claim_run_cases request_cancel_cases mint_policy_attestation_cases simp: journal_ok_effects
      intro: owner_op_ok journal_ok_row)

lemma journal_ops_ok: "(journal_op sha F)\<^sup>*\<^sup>* empty_journal j \<Longrightarrow> journal_ok j"
proof (induction rule: rtranclp_induct)
  case base
  then show ?case by (simp add: journal_ok_def empty_journal_def run_events_def sequence_of_def)
qed (auto intro: journal_op_ok)


section \<open>Properties\<close>

definition sample_run :: run_row where
  "sample_run = \<lparr>run_manifest = ''m'', run_input_hash = ''i'', run_inputs = [], run_origin = None, run_status = Pending,
     owner_id = None, owner_epoch = 0, lease_expires_at = None, cancel_requested = False, next_event_seq = 0\<rparr>"

definition sample_completion :: checkpoint where
  "sample_completion = \<lparr>cp_run = ''r'', cp_path = sample_path, cp_input_hash = ''i'', cp_version = None, cp_outputs = []\<rparr>"

definition sample_journal :: journal where
  "sample_journal = empty_journal\<lparr>runs := [(''r'', sample_run)],
     checkpoints := [((''r'', path_key sample_path), sample_completion)]\<rparr>"

text \<open>
  C13. Ownership is fenced. When a run that one worker had claimed is later claimed again, whatever happened in
  between, the second lease has a higher epoch, and from then on no operation of the first worker
  (heartbeat, release, cancellation, event, transition, completion, effect or capability write) changes any table, whatever
  statuses the callers of \<^verbatim>\<open>transition_run\<close> expect.
\<close>

theorem superseded_owner_is_fenced:
  assumes "claim_run run a t n s S j0 = Inr (l, j1)" "(journal_op sha F)\<^sup>*\<^sup>* j1 j2"
    and "claim_run run b t' n' s' S' j2 = Inr (l', j3)" "(journal_op sha F)\<^sup>*\<^sup>* j3 j4"
    and "owner_op sha F l j4 j5"
  shows "lease_epoch l < lease_epoch l' \<and> j5 = j4"
proof -
  obtain r0 where l: "lease_of l = run" "lease_epoch l = Suc (owner_epoch r0)"
    and r1: "map_of (runs j1) run = Some (r0\<lparr>owner_id := Some a, owner_epoch := Suc (owner_epoch r0), lease_expires_at := Some (n + t)\<rparr>)"
    using assms(1) by (auto elim!: claim_run_cases)
  obtain r2 where r2: "map_of (runs j2) run = Some r2" "lease_epoch l \<le> owner_epoch r2"
    using journal_ops_facts [OF assms(2)] r1 l by (fastforce simp: facts_grow_def)
  obtain r3 where r3: "map_of (runs j3) run = Some r3" "owner_epoch r3 = Suc (owner_epoch r2)"
    and l': "lease_epoch l' = Suc (owner_epoch r2)"
    using assms(3) r2(1) by (auto elim!: claim_run_cases)
  obtain r4 where r4: "map_of (runs j4) run = Some r4" "owner_epoch r3 \<le> owner_epoch r4"
    using journal_ops_facts [OF assms(4)] r3(1) unfolding facts_grow_def by blast
  have "\<not> holds l r4" using r2(2) r3(2) r4(2) by (simp add: holds_def)
  from stale_owner_op [OF assms(5) _ this] r4(1) l(1) r2(2) l' show ?thesis by simp
qed

definition first_lease :: run_lease where
  "first_lease = \<lparr>lease_of = ''r'', lease_owner = ''w1'', lease_epoch = 1\<rparr>"

definition second_lease :: run_lease where
  "second_lease = \<lparr>lease_of = ''r'', lease_owner = ''w2'', lease_epoch = 2\<rparr>"

definition first_claim :: journal where
  "first_claim = set_run ''r'' (sample_run\<lparr>owner_id := Some ''w1'', owner_epoch := 1, lease_expires_at := Some 0\<rparr>) sample_journal"

definition second_claim :: journal where
  "second_claim = set_run ''r'' (sample_run\<lparr>owner_id := Some ''w2'', owner_epoch := 2, lease_expires_at := Some 9\<rparr>) sample_journal"

lemmas sample_defs = sample_run_def sample_journal_def empty_journal_def first_lease_def second_lease_def first_claim_def
  second_claim_def set_run_def claimable_def

lemma sample_claims:
  "claim_run ''r'' ''w1'' 0 0 None None sample_journal = Inr (first_lease, first_claim)"
  "claim_run ''r'' ''w2'' 8 1 None None first_claim = Inr (second_lease, second_claim)"
  by (simp_all add: claim_run_def sample_defs)

theorem superseded_owner_is_fenced_witness:
  "lease_epoch first_lease < lease_epoch second_lease
   \<and> record_completion (\<lambda>_. []) first_lease sample_completion second_claim = Inr second_claim"
proof -
  have "record_completion (\<lambda>_. []) first_lease sample_completion second_claim = Inr second_claim"
    by (simp add: record_completion_def stored_checkpoint_def sample_defs sample_completion_def)
  then have "owner_step (\<lambda>_. []) first_lease second_claim second_claim" by (rule owner_op.complete)
  from superseded_owner_is_fenced [OF sample_claims(1) rtranclp.rtrancl_refl sample_claims(2) rtranclp.rtrancl_refl this]
  show ?thesis by (simp add: record_completion_def stored_checkpoint_def sample_defs sample_completion_def)
qed

text \<open>
  C15. In every journal the operations can reach, the events of a run are numbered without gap from one to the
  run's sequence, a run that stopped holds no active capability lease, and a checkpoint is stored under its own run and
  path.
\<close>

theorem journal_consistent:
  assumes "(journal_op sha F)\<^sup>*\<^sup>* empty_journal j"
  shows "map event_seq (run_events run j) = [1..<Suc (sequence_of run j)]
    \<and> (\<forall>r. map_of (runs j) run = Some r \<longrightarrow> run_status r \<in> set TERMINAL_STATUSES \<longrightarrow> active_leases run j = [])
    \<and> (\<forall>p c. stored_checkpoint j run p = Some c \<longrightarrow> cp_run c = run \<and> cp_path c = p)"
proof -
  have "path_key p = path_key q \<Longrightarrow> p = q" for p q
    by (simp add: path_key_def canonical_json_inj path_norm_eq)
  then show ?thesis
    using journal_ops_ok [OF assms] by (auto simp: journal_ok_def stored_checkpoint_def)
qed

definition sample_manifest :: manifest where
  "sample_manifest = \<lparr>schema_version = 2, source_graph = Graph ''g'' [] [] [] [], source_graph_hash = [],
     resolved_components = [], resolved_connections = [], capability_bindings = [], resolved_loops = [],
     input_hash = digest_of (\<lambda>_. []) ''inputs'' 1 (jobj []), world_hash = [], manifest_hash = ''m''\<rparr>"

definition started_run :: run_row where
  "started_run = sample_run\<lparr>run_input_hash := input_hash sample_manifest, owner_id := Some ''w1'', owner_epoch := 1,
     lease_expires_at := Some 5, run_status := Running, next_event_seq := 1\<rparr>"

definition started_journal :: journal where
  "started_journal = empty_journal\<lparr>manifests := [(''m'', sample_manifest)], runs := [(''r'', started_run)],
     events := [\<lparr>event_run = ''r'', event_seq = 1, event_kind = ''RunStarted'', event_path = None, event_payload = None\<rparr>]\<rparr>"

lemma started_journal_reachable: "journal_reachable (\<lambda>_. []) started_journal"
proof -
  let ?row = "sample_run\<lparr>run_input_hash := input_hash sample_manifest\<rparr>"
  let ?j1 = "empty_journal\<lparr>manifests := [(''m'', sample_manifest)], runs := [(''r'', ?row)]\<rparr>"
  let ?j2 = "set_run ''r'' (?row\<lparr>owner_id := Some ''w1'', owner_epoch := 1, lease_expires_at := Some 5\<rparr>) ?j1"
  have "create_run (\<lambda>_. []) ''r'' sample_manifest ''m'' (input_hash sample_manifest) [] None empty_journal = Inr ?j1"
    by (simp add: create_run_def sample_manifest_def sample_defs)
  then have 1: "journal_step (\<lambda>_. []) empty_journal ?j1" by (rule journal_op.create)
  have "claim_run ''r'' ''w1'' 5 0 None None ?j1 = Inr (first_lease, ?j2)"
    by (simp add: claim_run_def sample_defs)
  then have 2: "journal_step (\<lambda>_. []) ?j1 ?j2" by (rule journal_op.claim)
  have "transition_run first_lease {Pending} Running ''RunStarted'' None ?j2 = Inr started_journal"
    by (simp add: transition_run_def allocate_seq_def holds_def insert_event_def METERING_EVENT_def TERMINAL_STATUSES_def
        started_journal_def started_run_def sample_defs)
  then have "owner_step (\<lambda>_. []) first_lease ?j2 started_journal" by (rule owner_op.move) (simp add: runtime_expectations_def)
  then have 3: "journal_step (\<lambda>_. []) ?j2 started_journal" by (rule journal_op.own)
  from 1 2 3 show ?thesis by (meson rtranclp.rtrancl_into_rtrancl rtranclp.rtrancl_refl)
qed

theorem journal_consistent_witness:
  "map event_seq (run_events ''r'' started_journal) = [1..<Suc (sequence_of ''r'' started_journal)]
   \<and> sequence_of ''r'' started_journal = 1"
  using journal_consistent [OF started_journal_reachable, of "''r''"]
  by (simp add: sequence_of_def started_journal_def started_run_def)




end
