(* ===== verification/Walk_Structure.thy ===== *)
theory Walk_Structure
  imports Run_Journal Registry
begin

text \<open>
  The pure half of the walker (\<^verbatim>\<open>runtime/walker.py\<close>): how a sealed manifest is read as a graph of execution units,
  the order in which they run, what a unit waits for, and how values travel between ports. Values live in a
  dictionary from rendered addresses to JSON values, as in the source. \<^verbatim>\<open>json_value\<close> applied to a value that is
  already on the wire returns that value, so it does not appear here.
\<close>

section \<open>Model\<close>

subsection \<open>Addresses and instances\<close>

type_synonym port_values = "(string, json) dict"
type_synonym binding_index = "(string, port_binding) dict"

text \<open>\<^verbatim>\<open>_address_key\<close>.\<close>

fun address_key :: "port_address \<Rightarrow> string" where
  "address_key (NodePortAddress s n p) = ''node:'' @ join ''/'' s @ '':'' @ n @ '':'' @ p"
| "address_key (GraphInputAddress s p) = ''in:'' @ join ''/'' s @ '':'' @ p"
| "address_key (GraphOutputAddress s p) = ''out:'' @ join ''/'' s @ '':'' @ p"

record node_instance =
  inst_scope :: scope
  inst_component :: string
  inst_version :: digest
  inst_definition :: component_def

datatype run_unit = AtomicUnit node_instance | LoopUnit loop_resolution

definition unit_scope :: "run_unit \<Rightarrow> scope" where
  "unit_scope u = (case u of AtomicUnit i \<Rightarrow> inst_scope i | LoopUnit l \<Rightarrow> loop_scope l)"

text \<open>What activation hands the walker for one resolved version; \<open>loaded\<close> says that an implementation is bound.\<close>

record bound_version =
  bound_stored :: stored_version
  bound_composite :: bool
  loaded :: bool

fun instances_of :: "(string \<Rightarrow> digest \<Rightarrow> bound_version) \<Rightarrow> resolution list \<Rightarrow> exc + node_instance list" where
  "instances_of bound [] = Inr []"
| "instances_of bound (r # rs) =
     (let b = bound (res_component r) (resolved_version r) in
      if bound_composite b then instances_of bound rs
      else if \<not> loaded b then Inl (ContractViolation ''activation returned no implementation'')
      else rbind (instances_of bound rs) (\<lambda>is. Inr
        (\<lparr>inst_scope = res_scope r, inst_component = res_component r, inst_version = resolved_version r,
          inst_definition = definition_of (bound_stored b)\<rparr> # is)))"

fun materialization_instances :: "snapshot \<Rightarrow> resolution list \<Rightarrow> exc + node_instance list" where
  "materialization_instances snap [] = Inr []"
| "materialization_instances snap (r # rs) =
     (case get_version snap (res_component r) (resolved_version r) of
        None \<Rightarrow> Inl (JournalDamaged ''exact component is missing'')
      | Some v \<Rightarrow>
          (case comp_body (definition_of v) of
             Composite g \<Rightarrow> materialization_instances snap rs
           | Atomic a \<Rightarrow> rbind (materialization_instances snap rs) (\<lambda>is. Inr
               (\<lparr>inst_scope = res_scope r, inst_component = res_component r, inst_version = resolved_version r,
                 inst_definition = definition_of v\<rparr> # is))))"

definition instances_by_scope :: "node_instance list \<Rightarrow> (scope, node_instance) dict" where
  "instances_by_scope is = dict_of (map (\<lambda>i. (inst_scope i, i)) is)"

definition bindings_of :: "manifest \<Rightarrow> binding_index" where
  "bindings_of m = dict_of (map (\<lambda>b. (address_key (destination b), b)) (resolved_connections m))"

subsection \<open>Units and their order\<close>

definition root_units :: "manifest \<Rightarrow> node_instance list \<Rightarrow> run_unit list" where
  "root_units m is =
     (let members = concat (map member_order (resolved_loops m)) in
      map AtomicUnit (filter (\<lambda>i. inst_scope i \<notin> set members) is) @ map LoopUnit (resolved_loops m))"

text \<open>An instance sits under its level with its node id; a sealed scope is never empty.\<close>

definition port_at :: "node_instance \<Rightarrow> string \<Rightarrow> port_address" where
  "port_at i p = NodePortAddress (butlast (inst_scope i)) (last (inst_scope i)) p"

definition atomic_output_address :: "node_instance \<Rightarrow> port \<Rightarrow> port_address" where
  "atomic_output_address i p = port_at i (port_name p)"

definition unit_output_addresses :: "run_unit \<Rightarrow> port_address list" where
  "unit_output_addresses u = (case u of
       AtomicUnit i \<Rightarrow> map (atomic_output_address i) (comp_outputs (inst_definition i))
     | LoopUnit l \<Rightarrow> map export_destination (exports l))"

definition unit_producer_index :: "run_unit list \<Rightarrow> (string, run_unit) dict" where
  "unit_producer_index us = dict_of (concat (map (\<lambda>u. map (\<lambda>a. (address_key a, u)) (unit_output_addresses u)) us))"

text \<open>\<^verbatim>\<open>_member_producer_index\<close>; a member with no instance is a \<^verbatim>\<open>KeyError\<close>.\<close>

fun member_instances :: "(scope, node_instance) dict \<Rightarrow> scope list \<Rightarrow> exc + node_instance list" where
  "member_instances by_scope [] = Inr []"
| "member_instances by_scope (s # ss) =
     (case map_of by_scope s of
        None \<Rightarrow> Inl (Raised ''KeyError'' (render s))
      | Some i \<Rightarrow> rbind (member_instances by_scope ss) (\<lambda>is. Inr (i # is)))"

definition member_producer_index :: "loop_resolution \<Rightarrow> (scope, node_instance) dict \<Rightarrow> exc + (string, node_instance) dict" where
  "member_producer_index l by_scope = rbind (member_instances by_scope (member_order l)) (\<lambda>is. Inr (dict_of
     (concat (map (\<lambda>i. map (\<lambda>p. (address_key (atomic_output_address i p), i)) (comp_outputs (inst_definition i))) is))))"

definition instance_input_bindings :: "node_instance \<Rightarrow> binding_index \<Rightarrow> port_binding list" where
  "instance_input_bindings i bs =
     List.map_filter (\<lambda>p. map_of bs (address_key (port_at i (port_name p)))) (comp_inputs (inst_definition i))"

definition unit_input_bindings :: "run_unit \<Rightarrow> binding_index \<Rightarrow> port_binding list" where
  "unit_input_bindings u bs = (case u of LoopUnit l \<Rightarrow> initial_bindings l | AtomicUnit i \<Rightarrow> instance_input_bindings i bs)"

definition unit_sources :: "run_unit \<Rightarrow> binding_index \<Rightarrow> port_address list" where
  "unit_sources u bs = concat (map sources (unit_input_bindings u bs))"

definition dependencies_of :: "run_unit \<Rightarrow> binding_index \<Rightarrow> (string, run_unit) dict \<Rightarrow> scope list" where
  "dependencies_of u bs producer_of =
     sorted_set (map unit_scope (List.map_filter (\<lambda>a. map_of producer_of (address_key a)) (unit_sources u bs)))"

text \<open>
  \<^verbatim>\<open>_ordered_units\<close>: \<open>deps\<close> maps a scope to what its units read, \<open>by_scope\<close> to its unit. A dependency outside the
  units would be a \<^verbatim>\<open>KeyError\<close>.
\<close>

definition unit_dependencies :: "run_unit list \<Rightarrow> binding_index \<Rightarrow> (string, run_unit) dict \<Rightarrow> scope \<Rightarrow> scope list" where
  "unit_dependencies us bs producer_of s =
     sorted_set (concat (map (\<lambda>u. dependencies_of u bs producer_of) (filter (\<lambda>u. unit_scope u = s) us)))"

type_synonym unit_placement = "scope set \<times> run_unit list"

function place_unit ::
  "(scope \<Rightarrow> scope list) \<Rightarrow> (scope, run_unit) dict \<Rightarrow> scope \<Rightarrow> scope list \<Rightarrow> unit_placement \<Rightarrow> exc + unit_placement" where
  "place_unit deps by_scope s trail (placed, ordered) =
     (if s \<in> placed then Inr (placed, ordered)
      else if s \<in> set trail then Inl (ContractViolation ''manifest contains a root dependency cycle'')
      else case map_of by_scope s of
        None \<Rightarrow> Inl (Raised ''KeyError'' (render s))
      | Some u \<Rightarrow>
          rbind (rfold (\<lambda>d. place_unit deps by_scope d (trail @ [s])) (deps s) (placed, ordered))
            (\<lambda>(placed, ordered). Inr (insert s placed, ordered @ [u])))"
  by pat_completeness auto
termination
proof (relation "measure (\<lambda>(deps, by_scope, s, trail, st). card (fst ` set by_scope - set trail))", goal_cases)
  case (2 deps by_scope s trail placed ordered u d t)
  have "s \<in> fst ` set by_scope" using 2(3) map_of_SomeD by force
  then have "fst ` set by_scope - set (trail @ [s]) \<subset> fst ` set by_scope - set trail" using 2(2) by auto
  then show ?case by (simp only: in_measure prod.case) (intro psubset_card_mono, auto)
qed simp

declare place_unit.simps [simp del]

definition ordered_units :: "run_unit list \<Rightarrow> binding_index \<Rightarrow> (string, run_unit) dict \<Rightarrow> exc + run_unit list" where
  "ordered_units us bs producer_of =
     (let by_scope = dict_of (map (\<lambda>u. (unit_scope u, u)) us) in
      rbind (rfold (\<lambda>u. place_unit (unit_dependencies us bs producer_of) by_scope (unit_scope u) [])
               (sort_key unit_scope us) ({}, []))
        (\<lambda>(_, ordered). Inr ordered))"

subsection \<open>Dependencies\<close>

record dependency_report =
  rep_destination :: execution_path
  rep_producers :: "(execution_path \<times> invocation_status) list"

definition path_of :: "scope \<Rightarrow> iteration_frame list \<Rightarrow> execution_path" where
  "path_of s fs = \<lparr>path_scope = s, iterations = fs\<rparr>"

definition producers_of ::
  "('p \<Rightarrow> scope) \<Rightarrow> iteration_frame list \<Rightarrow> (string, 'p) dict \<Rightarrow> (scope, invocation_status) dict \<Rightarrow> port_address list
     \<Rightarrow> (execution_path \<times> invocation_status) list" where
  "producers_of scope_of fs producer_of statuses srcs =
     map (\<lambda>s. (path_of s fs, dict_get_or Queued statuses s))
       (add_new [] (map scope_of (List.map_filter (\<lambda>a. map_of producer_of (address_key a)) srcs)))"

definition unit_dependency_report ::
  "run_unit \<Rightarrow> binding_index \<Rightarrow> (string, run_unit) dict \<Rightarrow> (scope, invocation_status) dict \<Rightarrow> dependency_report" where
  "unit_dependency_report u bs producer_of statuses =
     \<lparr>rep_destination = path_of (unit_scope u) [],
      rep_producers = producers_of unit_scope [] producer_of statuses (unit_sources u bs)\<rparr>"

definition member_dependency_report ::
  "node_instance \<Rightarrow> iteration_frame \<Rightarrow> binding_index \<Rightarrow> (string, node_instance) dict \<Rightarrow> (scope, invocation_status) dict
     \<Rightarrow> dependency_report" where
  "member_dependency_report i f bs producer_of statuses =
     \<lparr>rep_destination = path_of (inst_scope i) [f],
      rep_producers = producers_of inst_scope [f] producer_of statuses
        (concat (map sources (instance_input_bindings i bs)))\<rparr>"

definition report_blocked :: "dependency_report \<Rightarrow> bool" where
  "report_blocked r = list_ex (\<lambda>(_, st). st \<noteq> Completed) (rep_producers r)"

text \<open>What a walk collects beside the values: failed invocations, blocked destinations and parked units.\<close>

datatype parked_reason = WaitingFor wait_reason | PolicyExhausted

record parked_unit =
  parked_path :: execution_path
  parked_reason :: parked_reason
  completed_iterations :: "nat option"
  waiting_on :: "digest option"

record ledger =
  failures :: "(string, exc) dict"
  blocked :: "dependency_report list"
  parked :: "parked_unit list"

subsection \<open>Values\<close>

fun source_values :: "port_values \<Rightarrow> port_address list \<Rightarrow> exc + json list" where
  "source_values vs [] = Inr []"
| "source_values vs (a # as) =
     (case map_of vs (address_key a) of
        None \<Rightarrow> Inl (ContractViolation ''value is unavailable'')
      | Some v \<Rightarrow> rbind (source_values vs as) (\<lambda>xs. Inr (v # xs)))"

definition collect_value :: "port_values \<Rightarrow> port_address list \<Rightarrow> port \<Rightarrow> exc + json" where
  "collect_value vs srcs p = rbind (source_values vs srcs) (\<lambda>xs.
     if cardinality p = Many then Inr (JList xs)
     else if length xs \<noteq> 1 then Inl (ContractViolation ''sources sealed against the cardinality'')
     else Inr (hd xs))"

definition node_input :: "node_instance \<Rightarrow> port_values \<Rightarrow> binding_index \<Rightarrow> port \<Rightarrow> (string, json) dict \<Rightarrow> exc + (string, json) dict" where
  "node_input i vs bs p ins =
     (case map_of bs (address_key (port_at i (port_name p))) of
        None \<Rightarrow> if cardinality p = Optional then Inr (dict_set (port_name p) JNull ins)
                else Inl (ContractViolation ''input has no binding in the sealed manifest'')
      | Some b \<Rightarrow> rbind (collect_value vs (sources b) p) (\<lambda>v. Inr (dict_set (port_name p) v ins)))"

definition node_inputs :: "node_instance \<Rightarrow> port_values \<Rightarrow> binding_index \<Rightarrow> exc + (string, json) dict" where
  "node_inputs i vs bs = rfold (node_input i vs bs) (comp_inputs (inst_definition i)) []"

definition publish_atomic_outputs :: "node_instance \<Rightarrow> (string, json) dict \<Rightarrow> port_values \<Rightarrow> exc + port_values" where
  "publish_atomic_outputs i outs vs = rfold (\<lambda>p vs.
     case map_of outs (port_name p) of
       None \<Rightarrow> Inl (JournalDamaged ''durable outputs omit a port'')
     | Some v \<Rightarrow> Inr (dict_set (address_key (atomic_output_address i p)) v vs)) (comp_outputs (inst_definition i)) vs"

definition inputs_hash :: "(nat list \<Rightarrow> string) \<Rightarrow> (string, json) dict \<Rightarrow> digest" where
  "inputs_hash sha ins = digest_of sha ''inputs'' 1 (jobj ins)"

definition restore_checked_checkpoint ::
  "(nat list \<Rightarrow> string) \<Rightarrow> binding_index \<Rightarrow> node_instance \<Rightarrow> checkpoint \<Rightarrow> port_values \<Rightarrow> exc + port_values" where
  "restore_checked_checkpoint sha bs i c vs = rbind (node_inputs i vs bs) (\<lambda>ins.
     if cp_input_hash c \<noteq> inputs_hash sha ins \<or> cp_version c \<noteq> Some (inst_version i)
     then Inl (CheckpointConflict ''checkpoint contradicts the reconstructed input hash or version'')
     else publish_atomic_outputs i (cp_outputs c) vs)"

subsection \<open>Loops\<close>

definition graph_input_bindings :: "port_binding list \<Rightarrow> (string, port_binding) dict" where
  "graph_input_bindings bs = dict_of (List.map_filter
     (\<lambda>b. case destination b of GraphInputAddress s p \<Rightarrow> Some (p, b) | _ \<Rightarrow> None) bs)"

definition seed_loop_iteration ::
  "loop_resolution \<Rightarrow> nat \<Rightarrow> port_values \<Rightarrow> port_values option \<Rightarrow> exc + port_values" where
  "seed_loop_iteration l n outer previous =
     (let initial = graph_input_bindings (initial_bindings l); fb = graph_input_bindings (feedback_bindings l) in
      rfold (\<lambda>p vs.
        let use_feedback = n > 0 \<and> map_of fb (port_name p) \<noteq> None in
        case (if use_feedback then map_of fb (port_name p) else map_of initial (port_name p)) of
          None \<Rightarrow> Inr vs
        | Some b \<Rightarrow>
            (case (if use_feedback then previous else Some outer) of
               None \<Rightarrow> Inl (JournalDamaged ''feedback without a previous completed iteration'')
             | Some from \<Rightarrow> rbind (collect_value from (sources b) p) (\<lambda>v. Inr (dict_set (address_key (destination b)) v vs))))
        (input_ports l) [])"

definition loop_decision :: "loop_resolution \<Rightarrow> port_values \<Rightarrow> exc + bool" where
  "loop_decision l vs =
     (case map_of vs (address_key (continue_source l)) of
        None \<Rightarrow> Inl (ContractViolation ''continuation source is unavailable'')
      | Some (JBool b) \<Rightarrow> Inr b
      | Some _ \<Rightarrow> Inl (ContractViolation ''continuation must be exactly bool''))"

definition publish_loop_exports :: "loop_resolution \<Rightarrow> port_values \<Rightarrow> port_values \<Rightarrow> exc + port_values" where
  "publish_loop_exports l inner outer = rfold (\<lambda>e outer.
     rbind (collect_value inner (export_sources e) (export_port e))
       (\<lambda>v. Inr (dict_set (address_key (export_destination e)) v outer))) (exports l) outer"

subsection \<open>Boundary of the graph\<close>

definition root_values :: "manifest \<Rightarrow> (string, json) dict \<Rightarrow> port_values" where
  "root_values m ins = dict_of (map (\<lambda>(k, v). (address_key (GraphInputAddress [graph_name (source_graph m)] k), v)) ins)"

definition graph_outputs :: "manifest \<Rightarrow> port_values \<Rightarrow> binding_index \<Rightarrow> exc + (string, json) dict" where
  "graph_outputs m vs bs = rfold (\<lambda>p outs.
     case map_of bs (address_key (GraphOutputAddress [graph_name (source_graph m)] (port_name p))) of
       None \<Rightarrow> Inr outs
     | Some b \<Rightarrow> rbind (collect_value vs (sources b) p) (\<lambda>v. Inr (dict_set (port_name p) v outs)))
     (outputs (source_graph m)) []"

section \<open>Keys of addresses\<close>

text \<open>A colon in a node id or a port name makes two addresses of one level share their key.\<close>

lemma address_key_collides:
  "address_key (NodePortAddress s ''x'' ''y:z'') = address_key (NodePortAddress s ''x:y'' ''z'')"
  by simp

end
