(* ===== verification/Invocation.thy ===== *)
theory Invocation
  imports Walk_Structure
begin

text \<open>
  One atomic invocation (\<^verbatim>\<open>runtime/walker.py\<close>: \<^verbatim>\<open>_check_run_control\<close>, \<^verbatim>\<open>_effect_boundary\<close>, \<^verbatim>\<open>_BoundChannel\<close>,
  the capability leases, \<^verbatim>\<open>_invoke\<close>). A computation of the walker takes the state \<open>walk\<close> and returns a value with the
  new state, or an exception with the state it left behind: what was written before a raise stays written.

  \<open>world\<close> holds what the walker is given: component code, effect adapters, capability providers, stored replies,
  the clock, and what other connections and the heartbeat task do. All of it may depend on a tick, which counts
  the points where the walker yields. Component code is a \<open>program\<close>: its calls to \<^verbatim>\<open>ctx.effect\<close> and
  \<^verbatim>\<open>ctx.channel(alias).ask\<close> with what it does for each outcome, exceptions included, and how it ends. Cancellation of the
  asyncio task and the death of the process are not modelled; an exception raised twice by one object counts
  twice in a cleanup group.
\<close>

section \<open>Model\<close>

subsection \<open>What the walker is given\<close>

datatype capability_object = Transport | Service

datatype lease_disposition = ReleaseLease | DiscardLease

record acquisition =
  acq_lease :: string
  acq_object :: capability_object
  acq_ref :: string
  acq_deferred :: bool

record provider =
  implements_lease :: bool
  implements_relinquish :: bool
  provided :: capability_object
  acquire :: "nat \<Rightarrow> execution_path \<Rightarrow> string \<Rightarrow> exc + acquisition"
  materialize :: "nat \<Rightarrow> acquisition \<Rightarrow> exc option"
  close :: "nat \<Rightarrow> acquisition \<Rightarrow> lease_disposition \<Rightarrow> exc + closure"
  relinquish :: "nat \<Rightarrow> acquisition \<Rightarrow> exc option"
  reconcile_stale :: "nat \<Rightarrow> capability_lease \<Rightarrow> lease_disposition \<Rightarrow> exc option"

record adapter =
  simulation_supported :: bool
  adapter_execute :: "nat \<Rightarrow> effect_request \<Rightarrow> exc + effect_receipt"
  adapter_reconcile :: "nat \<Rightarrow> effect_request \<Rightarrow> exc + effect_receipt option"
  adapter_simulate :: "nat \<Rightarrow> effect_request \<Rightarrow> exc + effect_receipt"

datatype program =
    Return "(string \<times> pyvalue) list"
  | ReturnOther string
  | Throw exc
  | Effect string pyvalue "string option" "exc + effect_receipt \<Rightarrow> program"
  | Ask string pyvalue "exc + json \<Rightarrow> program"

record node_context =
  ctx_run :: string
  ctx_path :: execution_path
  ctx_capabilities :: "(string, capability_object) dict"
  ctx_grants :: effective_grants
  ctx_channels :: "(string, capability_binding) dict"

record world =
  w_sha :: "nat list \<Rightarrow> string"
  w_others :: "nat \<Rightarrow> journal \<Rightarrow> journal"
  w_beats :: "nat \<Rightarrow> bool"
  w_clock :: "nat \<Rightarrow> nat"
  w_ttl :: nat
  w_code :: "string \<Rightarrow> digest \<Rightarrow> node_context \<Rightarrow> (string, json) dict \<Rightarrow> program"
  w_adapters :: "string \<Rightarrow> adapter option"
  w_injected :: "string \<Rightarrow> provider option"
  w_leased :: "string \<Rightarrow> bool"
  w_replies :: "nat \<Rightarrow> string \<Rightarrow> digest \<Rightarrow> (contract \<times> json) option"
  w_sent_fault :: "effect_request \<Rightarrow> exc option"

record walk =
  wk_journal :: journal
  wk_tick :: nat
  wk_lost :: "exc option"
  wk_ledger :: ledger

type_synonym 'a walked = "exc \<times> walk + 'a"

definition jwrite :: "(journal \<Rightarrow> exc + journal) \<Rightarrow> walk \<Rightarrow> walk walked" where
  "jwrite f s = (case f (wk_journal s) of Inl e \<Rightarrow> Inl (e, s) | Inr j \<Rightarrow> Inr (s\<lparr>wk_journal := j\<rparr>))"

definition jcall :: "(journal \<Rightarrow> exc + 'a \<times> journal) \<Rightarrow> walk \<Rightarrow> ('a \<times> walk) walked" where
  "jcall f s = (case f (wk_journal s) of Inl e \<Rightarrow> Inl (e, s) | Inr (x, j) \<Rightarrow> Inr (x, s\<lparr>wk_journal := j\<rparr>))"

text \<open>
  At a tick other connections commit, and the heartbeat task may renew the lease. Its loss of ownership is remembered
  in the list \<^verbatim>\<open>lost\<close>.
\<close>

definition observe :: "world \<Rightarrow> run_lease \<Rightarrow> walk \<Rightarrow> walk" where
  "observe w l s =
     (let n = wk_tick s; j = w_others w n (wk_journal s); s = s\<lparr>wk_tick := Suc n, wk_journal := j\<rparr> in
      if wk_lost s = None \<and> w_beats w n
      then (case heartbeat l (w_ttl w) (w_clock w n) j of
              Inl e \<Rightarrow> s\<lparr>wk_lost := Some e\<rparr>
            | Inr j \<Rightarrow> s\<lparr>wk_journal := j\<rparr>)
      else s)"

definition external :: "world \<Rightarrow> run_lease \<Rightarrow> (nat \<Rightarrow> 'a) \<Rightarrow> walk \<Rightarrow> 'a \<times> walk" where
  "external w l f s = (f (wk_tick s), observe w l s)"

definition check_run_control :: "world \<Rightarrow> run_lease \<Rightarrow> walk \<Rightarrow> walk walked" where
  "check_run_control w l s =
     (let s = observe w l s in
      case wk_lost s of
        Some e \<Rightarrow> Inl (e, s)
      | None \<Rightarrow> if cancel_is_requested (wk_journal s) (lease_of l) then Inl (CancelRequested, s) else Inr s)"

subsection \<open>The effect boundary\<close>

definition terminal_receipts :: "effect_mode \<Rightarrow> receipt_status set" where
  "terminal_receipts mode = (case mode of Simulated \<Rightarrow> {SimulatedEffect} | Live \<Rightarrow> {Committed, RejectedEffect})"

definition deduplicated :: "run_lease \<Rightarrow> execution_path \<Rightarrow> string \<Rightarrow> walk \<Rightarrow> walk walked" where
  "deduplicated l p k = jwrite (append_event l ''EffectDeduplicated'' (Some p) (Some (jobj [(''kind'', jstr k)])))"

definition terminal_receipt ::
  "run_lease \<Rightarrow> execution_path \<Rightarrow> string \<Rightarrow> digest \<Rightarrow> effect_mode \<Rightarrow> walk \<Rightarrow> (effect_receipt option \<times> walk) walked" where
  "terminal_receipt l p k key mode s =
     (case receipt_for (wk_journal s) key of
        None \<Rightarrow> Inr (None, s)
      | Some rc \<Rightarrow>
          if rc_status rc \<notin> terminal_receipts mode then Inr (None, s)
          else rbind (deduplicated l p k s) (\<lambda>s. Inr (Some rc, s)))"

definition record_outcome ::
  "world \<Rightarrow> run_lease \<Rightarrow> execution_path \<Rightarrow> effect_request \<Rightarrow> effect_receipt \<Rightarrow> string \<Rightarrow> walk \<Rightarrow> (effect_receipt \<times> walk) walked" where
  "record_outcome w l p q rc k s =
     rbind (jcall (record_effect_outcome (w_sha w) l q rc k) s) (\<lambda>(d, s).
     rbind (if d = AlreadyRecorded then deduplicated l p (er_kind q) s else Inr s) (\<lambda>s. Inr (rc, s)))"

definition perform_effect ::
  "world \<Rightarrow> run_lease \<Rightarrow> execution_path \<Rightarrow> adapter \<Rightarrow> effect_mode \<Rightarrow> effect_request \<Rightarrow> walk \<Rightarrow> (effect_receipt \<times> walk) walked" where
  "perform_effect w l p a mode q s = rbind (check_run_control w l s) (\<lambda>s.
     if mode = Simulated \<and> \<not> simulation_supported a
     then Inl (ContractViolation ''effect does not support counterfactual simulation'', s)
     else case external w l (\<lambda>n. (case mode of Simulated \<Rightarrow> adapter_simulate a n q | Live \<Rightarrow> adapter_execute a n q)) s of
       (Inl e, s) \<Rightarrow> Inl (e, s)
     | (Inr rc, s) \<Rightarrow> record_outcome w l p q rc (effect_event_kind (rc_status rc)) s)"

definition settle_effect ::
  "world \<Rightarrow> run_lease \<Rightarrow> execution_path \<Rightarrow> adapter \<Rightarrow> effect_mode \<Rightarrow> effect_request \<Rightarrow> walk \<Rightarrow> (effect_receipt \<times> walk) walked" where
  "settle_effect w l p a mode q s =
     (if mode = Live
      then (case external w l (\<lambda>n. adapter_reconcile a n q) s of
              (Inl e, s) \<Rightarrow> Inl (e, s)
            | (Inr (Some rc), s) \<Rightarrow> record_outcome w l p q rc ''EffectReconciled'' s
            | (Inr None, s) \<Rightarrow> perform_effect w l p a mode q s)
      else perform_effect w l p a mode q s)"

definition effect_boundary ::
  "world \<Rightarrow> manifest \<Rightarrow> run_lease \<Rightarrow> execution_path \<Rightarrow> effect_mode \<Rightarrow> string \<Rightarrow> pyvalue \<Rightarrow> string option \<Rightarrow> walk
     \<Rightarrow> (effect_receipt \<times> walk) walked" where
  "effect_boundary w m l p mode k subject att s = rbind (check_run_control w l s) (\<lambda>s.
     case json_value subject of
       Inr (JObj subj) \<Rightarrow>
         (let key = idempotency_key (w_sha w) (manifest_hash m) p k subj mode in
          rbind (terminal_receipt l p k key mode s) (\<lambda>(existing, s).
            case existing of
              Some rc \<Rightarrow> Inr (rc, s)
            | None \<Rightarrow>
                (case w_adapters w k of
                   None \<Rightarrow> Inl (ContractViolation ''no effect adapter'', s)
                 | Some a \<Rightarrow> rbind (check_run_control w l s) (\<lambda>s.
                     rbind (jcall (record_effect_prepared (w_sha w) (w_sent_fault w) l
                       \<lparr>er_run = lease_of l, er_manifest = manifest_hash m, er_path = p, er_kind = k, er_subject = subj,
                        er_key = key, er_attestation = att, er_mode = mode\<rparr>) s) (\<lambda>(q, s).
                     rbind (terminal_receipt l p k key mode s) (\<lambda>(raced, s).
                       case raced of
                         Some rc \<Rightarrow> Inr (rc, s)
                       | None \<Rightarrow> settle_effect w l p a mode q s))))))
     | Inr _ \<Rightarrow> Inl (ContractViolation ''effect subject must be a JSON object'', s)
     | Inl e \<Rightarrow> Inl (Raised ''ValueError'' '''', s))"

subsection \<open>Channels\<close>

definition CHANNEL_SEND_EFFECT :: string where
  "CHANNEL_SEND_EFFECT = ''channel_send''"

definition wait_reason :: "interaction \<Rightarrow> wait_reason" where
  "wait_reason i = (case i of Advice \<Rightarrow> AwaitingAdvisor | Approval \<Rightarrow> AwaitingApproval)"

text \<open>\<^verbatim>\<open>_BoundChannel._intent\<close>.\<close>

definition send_intent_for :: "world \<Rightarrow> run_lease \<Rightarrow> execution_path \<Rightarrow> capability_binding \<Rightarrow> channel_binding \<Rightarrow> json \<Rightarrow> send_intent" where
  "send_intent_for w l p b cb v =
     (let e = cb_endpoint cb in
      \<lparr>intent_id = request_message_id (w_sha w) (lease_of l) p (bound_capability b) (bound_revision b) (lane e)
                     (interaction e) (cb_port cb),
       intent_channel = bound_capability b, intent_revision = bound_revision b, intent_lane = lane e,
       intent_interaction = interaction e, intent_recipient = recipient e, intent_contract = cb_contract cb,
       intent_reply_contract = cb_reply_contract cb, intent_run = lease_of l, intent_path = p, intent_port = cb_port cb,
       intent_reply_port = cb_reply_port cb, intent_payload = py_of_json v\<rparr>)"

definition send_intent_json :: "send_intent \<Rightarrow> json \<Rightarrow> json" where
  "send_intent_json i v = jobj
     [(''schema_version'', jnat 1), (''message_id'', jstr (intent_id i)), (''channel_id'', jstr (intent_channel i)),
      (''channel_revision'', jstr (intent_revision i)), (''lane'', jstr (intent_lane i)),
      (''interaction'', interaction_json (intent_interaction i)), (''recipient_actor_id'', jopt jstr (intent_recipient i)),
      (''contract'', contract_json (intent_contract i)), (''reply_contract'', contract_json (intent_reply_contract i)),
      (''run_id'', jstr (intent_run i)), (''path'', path_json (intent_path i)), (''port'', jstr (intent_port i)),
      (''reply_port'', jstr (intent_reply_port i)), (''payload'', v)]"

definition send_draft :: "world \<Rightarrow> manifest \<Rightarrow> send_intent \<Rightarrow> json \<Rightarrow> attestation_draft" where
  "send_draft w m i v =
     \<lparr>draft_action = SendAction, draft_subject = SendProof (channel_send_subject (w_sha w) i v),
      draft_checks = [\<lparr>check_name = ''channel-binding-sealed'', check_status = Passed, check_ok = True,
        check_detail = ''trusted runtime derived this message from an admitted binding and its compiled exchange'',
        check_elapsed = ustr_of ''0.0''\<rparr>],
      draft_check_set = digest_of (w_sha w) ''check-set'' 1 (jobj [(''policy'', jstr ''channel-send''), (''v'', jnat 1)]),
      draft_evidence = [], draft_manifest = manifest_hash m, draft_workspace = None\<rparr>"

definition ask ::
  "world \<Rightarrow> manifest \<Rightarrow> run_lease \<Rightarrow> execution_path \<Rightarrow> effect_mode \<Rightarrow> capability_binding \<Rightarrow> channel_binding \<Rightarrow> pyvalue \<Rightarrow> walk
     \<Rightarrow> (json \<times> walk) walked" where
  "ask w m l p mode b cb x s =
     (case json_value x of
        Inl e \<Rightarrow> Inl (Raised ''ValueError'' '''', s)
      | Inr v \<Rightarrow>
          (let i = send_intent_for w l p b cb v in
           rbind (jcall (mint_attestation (w_sha w) l (send_draft w m i v)) s) (\<lambda>(a, s).
           rbind (effect_boundary w m l p mode CHANNEL_SEND_EFFECT (py_of_json (send_intent_json i v)) (Some (att_id a)) s)
             (\<lambda>(_, s).
               case external w l (\<lambda>n. w_replies w n (bound_capability b) (intent_id i)) s of
                 (None, s) \<Rightarrow> Inl (InvocationParked (intent_id i) (wait_reason (interaction (cb_endpoint cb))), s)
               | (Some (c, reply), s) \<Rightarrow>
                   if c \<noteq> cb_reply_contract cb
                   then Inl (ContractViolation ''reply carries another contract than the request pinned'', s)
                   else Inr (reply, s)))))"

subsection \<open>Component code\<close>

primrec run_program ::
  "world \<Rightarrow> manifest \<Rightarrow> run_lease \<Rightarrow> execution_path \<Rightarrow> effect_mode \<Rightarrow> (string, capability_binding) dict \<Rightarrow> program \<Rightarrow> walk
     \<Rightarrow> ((string \<times> pyvalue) list \<times> walk) walked" where
  "run_program w m l p mode chans (Return outs) s = Inr (outs, s)"
| "run_program w m l p mode chans (ReturnOther t) s =
     Inl (ContractViolation ''implementation returned something else than a mapping'', s)"
| "run_program w m l p mode chans (Throw e) s = Inl (e, s)"
| "run_program w m l p mode chans (Effect k subject att c) s =
     (case effect_boundary w m l p mode k subject att s of
        Inl (e, s) \<Rightarrow> run_program w m l p mode chans (c (Inl e)) s
      | Inr (rc, s) \<Rightarrow> run_program w m l p mode chans (c (Inr rc)) s)"
| "run_program w m l p mode chans (Ask alias x c) s =
     (case map_of chans alias of
        None \<Rightarrow> run_program w m l p mode chans (c (Inl (ContractViolation ''node holds no channel binding''))) s
      | Some b \<Rightarrow>
          (case bound_channel b of
             None \<Rightarrow> run_program w m l p mode chans (c (Inl (ContractViolation ''node holds no channel binding''))) s
           | Some cb \<Rightarrow>
               (case ask w m l p mode b cb x s of
                  Inl (e, s) \<Rightarrow> run_program w m l p mode chans (c (Inl e)) s
                | Inr (v, s) \<Rightarrow> run_program w m l p mode chans (c (Inr v)) s)))"

subsection \<open>Capability leases\<close>

text \<open>\<^verbatim>\<open>_cleanup_error\<close>: nested groups are flattened, a single error stays itself.\<close>

fun flat_error :: "exc \<Rightarrow> exc list" where
  "flat_error (ExceptionGroup es) = concat (map flat_error es)"
| "flat_error e = [e]"

definition cleanup_error :: "exc list \<Rightarrow> exc option" where
  "cleanup_error es = (case concat (map flat_error es) of [] \<Rightarrow> None | [e] \<Rightarrow> Some e | es \<Rightarrow> Some (ExceptionGroup es))"

definition is_loss :: "exc \<Rightarrow> bool" where
  "is_loss e = (case e of OwnershipLost _ \<Rightarrow> True | _ \<Rightarrow> False)"

type_synonym custody = "provider \<times> acquisition"

fun relinquish_all :: "world \<Rightarrow> run_lease \<Rightarrow> custody list \<Rightarrow> walk \<Rightarrow> exc list \<times> walk" where
  "relinquish_all w l [] s = ([], s)"
| "relinquish_all w l ((v, a) # xs) s =
     (if \<not> implements_relinquish v then relinquish_all w l xs s
      else let (r, s) = external w l (\<lambda>n. relinquish v n a) s; (es, s) = relinquish_all w l xs s
           in ((case r of None \<Rightarrow> es | Some e \<Rightarrow> e # es), s))"

definition relinquish_acquired :: "world \<Rightarrow> run_lease \<Rightarrow> custody list \<Rightarrow> walk \<Rightarrow> exc option \<times> walk" where
  "relinquish_acquired w l xs s = (let (es, s) = relinquish_all w l xs s in (cleanup_error es, s))"

text \<open>The ownership check of the cleanup: a remembered loss first, then a heartbeat.\<close>

definition affirm_ownership :: "world \<Rightarrow> run_lease \<Rightarrow> walk \<Rightarrow> walk walked" where
  "affirm_ownership w l s =
     (case wk_lost s of
        Some e \<Rightarrow> Inl (e, s)
      | None \<Rightarrow> jwrite (heartbeat l (w_ttl w) (w_clock w (wk_tick s))) s)"

definition opt_list :: "'a option \<Rightarrow> 'a list" where
  "opt_list x = (case x of None \<Rightarrow> [] | Some a \<Rightarrow> [a])"

definition raise_cleanup :: "exc list \<Rightarrow> exc option \<Rightarrow> walk \<Rightarrow> walk walked" where
  "raise_cleanup errs node_error s =
     (case cleanup_error errs of None \<Rightarrow> Inr s | Some e \<Rightarrow> Inl (CleanupFailure e node_error, s))"

text \<open>An ownership check that raised: a loss is primary, anything else joins the cleanup errors.\<close>

definition ownership_raised ::
  "world \<Rightarrow> run_lease \<Rightarrow> exc option \<Rightarrow> custody list \<Rightarrow> exc list \<Rightarrow> exc \<Rightarrow> walk \<Rightarrow> walk walked" where
  "ownership_raised w l node_error rest errs e s =
     (let (f, s) = relinquish_acquired w l rest s in
      if is_loss e then Inl (e, s) else raise_cleanup (errs @ [e] @ opt_list f) node_error s)"

definition lease_closure :: "run_lease \<Rightarrow> acquisition \<Rightarrow> closure \<Rightarrow> walk \<Rightarrow> walk walked" where
  "lease_closure l a c = jwrite (transition_capability_lease l (acq_lease a) (lease_epoch l) {ActiveLease} ClosedLease (Some c))"

text \<open>
  One step of the cleanup loop: what it collected so far and the state to go on with, or what it raises. A close or a row
  write that failed relinquishes local custody and observes ownership again; \<open>held\<close> is what a loss leaves to relinquish.
\<close>

definition close_raised ::
  "world \<Rightarrow> run_lease \<Rightarrow> exc option \<Rightarrow> custody \<Rightarrow> custody list \<Rightarrow> custody list \<Rightarrow> exc list \<Rightarrow> exc \<Rightarrow> walk
     \<Rightarrow> (exc list \<times> walk) walked" where
  "close_raised w l node_error x held rest errs e s =
     (if is_loss e then (let (f, s) = relinquish_acquired w l held s in Inl (e, s))
      else (let (f, s) = relinquish_acquired w l [x] s; errs = errs @ [e] @ opt_list f
            in case affirm_ownership w l s of
                 Inl (e, s) \<Rightarrow> rbind (ownership_raised w l node_error rest errs e s) (\<lambda>s. Inr (errs, s))
               | Inr s \<Rightarrow> Inr (errs, s)))"

definition close_one ::
  "world \<Rightarrow> run_lease \<Rightarrow> lease_disposition \<Rightarrow> exc option \<Rightarrow> custody \<Rightarrow> custody list \<Rightarrow> exc list \<Rightarrow> walk
     \<Rightarrow> (exc list \<times> walk) walked" where
  "close_one w l d node_error x rest errs s =
     (case affirm_ownership w l s of
        Inl (e, s) \<Rightarrow> rbind (ownership_raised w l node_error (x # rest) errs e s) (\<lambda>s. Inr (errs, s))
      | Inr s \<Rightarrow>
          (case external w l (\<lambda>n. close (fst x) n (snd x) d) s of
             (Inl e, s) \<Rightarrow> close_raised w l node_error x (x # rest) rest errs e s
           | (Inr c, s) \<Rightarrow>
               (case lease_closure l (snd x) c s of
                  Inl (e, s) \<Rightarrow> close_raised w l node_error x rest rest errs e s
                | Inr s \<Rightarrow> Inr (errs, s))))"

fun close_all ::
  "world \<Rightarrow> run_lease \<Rightarrow> lease_disposition \<Rightarrow> exc option \<Rightarrow> custody list \<Rightarrow> exc list \<Rightarrow> walk \<Rightarrow> walk walked" where
  "close_all w l d node_error [] errs s = raise_cleanup errs node_error s"
| "close_all w l d node_error (x # rest) errs s =
     rbind (close_one w l d node_error x rest errs s) (\<lambda>(errs, s). close_all w l d node_error rest errs s)"

definition close_acquired ::
  "world \<Rightarrow> run_lease \<Rightarrow> lease_disposition \<Rightarrow> exc option \<Rightarrow> exc option \<Rightarrow> custody list \<Rightarrow> walk \<Rightarrow> walk walked" where
  "close_acquired w l d node_error prior xs s = close_all w l d node_error xs (opt_list prior) s"

definition discard_unrecorded :: "world \<Rightarrow> run_lease \<Rightarrow> provider \<Rightarrow> acquisition \<Rightarrow> walk \<Rightarrow> walk walked" where
  "discard_unrecorded w l v a s =
     (let (r, s) = external w l (\<lambda>n. close v n a DiscardLease) s in
      case r of
        Inr _ \<Rightarrow> Inr s
      | Inl e \<Rightarrow>
          (let (f, s) = relinquish_acquired w l [(v, a)] s in
           if is_loss e then Inl (e, s) else raise_cleanup ([e] @ opt_list f) None s))"

text \<open>A record that raised: the row may still be durable, and then it is closed like any recorded acquisition.\<close>

definition with_node_error :: "exc \<Rightarrow> exc \<Rightarrow> exc" where
  "with_node_error e x = (case x of CleanupFailure y _ \<Rightarrow> CleanupFailure y (Some e) | _ \<Rightarrow> x)"

definition unrecorded ::
  "world \<Rightarrow> run_lease \<Rightarrow> provider \<Rightarrow> acquisition \<Rightarrow> capability_lease \<Rightarrow> exc \<Rightarrow> walk \<Rightarrow> (acquisition \<times> walk) walked" where
  "unrecorded w l v a row e s =
     (if is_loss e
      then (case discard_unrecorded w l v a s of Inl (_, s) \<Rightarrow> Inl (e, s) | Inr s \<Rightarrow> Inl (e, s))
      else if row \<in> set (capability_leases (lease_of l) (wk_journal s))
      then (case jwrite (heartbeat l (w_ttl w) (w_clock w (wk_tick s))) s of
              Inl (x, s) \<Rightarrow> rbind (ownership_raised w l (Some e) [(v, a)] [] x s) (\<lambda>s. Inl (e, s))
            | Inr s \<Rightarrow> rbind (close_acquired w l DiscardLease (Some e) None [(v, a)] s) (\<lambda>s. Inl (e, s)))
      else (case discard_unrecorded w l v a s of
              Inl (x, s) \<Rightarrow> Inl (with_node_error e x, s)
            | Inr s \<Rightarrow> Inl (e, s)))"

definition acquire_capability ::
  "world \<Rightarrow> run_lease \<Rightarrow> execution_path \<Rightarrow> capability_binding \<Rightarrow> provider \<Rightarrow> walk \<Rightarrow> (acquisition \<times> walk) walked" where
  "acquire_capability w l p b v s =
     (let (r, s) = external w l (\<lambda>n. acquire v n p (binding b)) s in
      case r of
        Inl e \<Rightarrow> Inl (e, s)
      | Inr a \<Rightarrow>
          (let row = \<lparr>cl_id = acq_lease a, cl_epoch = lease_epoch l, cl_run = lease_of l, cl_binding = binding b, cl_path = p,
                      cl_state = ActiveLease, cl_disposition = None, cl_resource = Some (acq_ref a)\<rparr>
           in case jwrite (record_capability_lease (w_sha w) l row) s of
                Inr s \<Rightarrow> Inr (a, s)
              | Inl (e, s) \<Rightarrow> unrecorded w l v a row e s))"

fun reconcile_rows :: "world \<Rightarrow> manifest \<Rightarrow> run_lease \<Rightarrow> capability_mode \<Rightarrow> capability_lease list \<Rightarrow> walk \<Rightarrow> walk walked" where
  "reconcile_rows w m l mode [] s = Inr s"
| "reconcile_rows w m l mode (row # rows) s =
     (let bs = dict_of (map (\<lambda>b. ((bind_scope b, binding b), b)) (capability_bindings m));
          d = (if mode = DiscardCapabilities then DiscardLease
               else if stored_checkpoint (wk_journal s) (lease_of l) (cl_path row) \<noteq> None then ReleaseLease else DiscardLease);
          reconciled = (case map_of bs (path_scope (cl_path row), cl_binding row) of
              None \<Rightarrow> Inr s
            | Some b \<Rightarrow>
                (case w_injected w (bound_capability b) of
                   None \<Rightarrow> Inr s
                 | Some v \<Rightarrow>
                     if \<not> implements_lease v then Inr s
                     else (case external w l (\<lambda>n. reconcile_stale v n row d) s of
                             (Some e, s) \<Rightarrow> Inl (e, s)
                           | (None, s) \<Rightarrow> Inr s)))
      in rbind reconciled (\<lambda>s. rbind
           (jwrite (transition_capability_lease l (cl_id row) (cl_epoch row) {ActiveLease} ClosedLease
              (Some (if d = ReleaseLease then Released else Discarded))) s)
           (reconcile_rows w m l mode rows)))"

definition reconcile_stale_leases :: "world \<Rightarrow> manifest \<Rightarrow> run_lease \<Rightarrow> capability_mode \<Rightarrow> walk \<Rightarrow> walk walked" where
  "reconcile_stale_leases w m l mode s =
     reconcile_rows w m l mode (filter (\<lambda>c. cl_state c = ActiveLease \<and> cl_epoch c < lease_epoch l)
       (capability_leases (lease_of l) (wk_journal s))) s"

subsection \<open>One invocation\<close>

text \<open>\<^verbatim>\<open>grants\<close> and \<^verbatim>\<open>aliases\<close> of the walk.\<close>

definition self_grants :: "manifest \<Rightarrow> (scope, capability_binding) dict" where
  "self_grants m = dict_of (map (\<lambda>b. (bind_scope b, b)) (filter (\<lambda>b. binding b = SELF_BINDING) (capability_bindings m)))"

definition aliases_at :: "manifest \<Rightarrow> scope \<Rightarrow> capability_binding list" where
  "aliases_at m s = filter (\<lambda>b. binding b \<noteq> SELF_BINDING \<and> bind_scope b = s) (capability_bindings m)"

type_synonym exposed = "(string, capability_binding) dict \<times> (string, capability_object) dict"

text \<open>A channel transport is reachable through its sealed exchange only.\<close>

definition expose :: "capability_binding \<Rightarrow> capability_object \<Rightarrow> exposed \<Rightarrow> exc + exposed" where
  "expose b x given =
     (case (x, bound_channel b) of
        (Transport, None) \<Rightarrow> Inl (ContractViolation ''channel transport has no sealed channel binding'')
      | (Transport, Some cb) \<Rightarrow> Inr (dict_set (binding b) b (fst given), snd given)
      | (Service, Some cb) \<Rightarrow> Inl (ContractViolation ''capability is admitted as a channel but is none'')
      | (Service, None) \<Rightarrow> Inr (fst given, dict_set (binding b) x (snd given)))"

definition materialized :: "world \<Rightarrow> run_lease \<Rightarrow> provider \<Rightarrow> acquisition \<Rightarrow> walk \<Rightarrow> walk walked" where
  "materialized w l v a s =
     (if \<not> acq_deferred a then Inr s
      else case external w l (\<lambda>n. materialize v n a) s of
        (Some e, s) \<Rightarrow> Inl (e, s)
      | (None, s) \<Rightarrow> check_run_control w l s)"

text \<open>
  One alias of the loop in \<^verbatim>\<open>_invoke\<close>, and the loop. What was acquired is returned beside the outcome, for the handlers
  of \<^verbatim>\<open>_invoke\<close>.
\<close>

definition alias_object ::
  "world \<Rightarrow> run_lease \<Rightarrow> execution_path \<Rightarrow> capability_binding \<Rightarrow> provider \<Rightarrow> walk
     \<Rightarrow> custody list \<times> (capability_object \<times> walk) walked" where
  "alias_object w l p b v s =
     (if \<not> w_leased w (bound_capability b) then ([], Inr (provided v, s))
      else if \<not> implements_lease v
      then ([], Inl (ContractViolation ''capability is declared leased but is not'', s))
      else case acquire_capability w l p b v s of
        Inl x \<Rightarrow> ([], Inl x)
      | Inr (a, s) \<Rightarrow> ([(v, a)], rbind (materialized w l v a s) (\<lambda>s. Inr (acq_object a, s))))"

definition expose_one ::
  "world \<Rightarrow> run_lease \<Rightarrow> execution_path \<Rightarrow> capability_binding \<Rightarrow> exposed \<Rightarrow> walk \<Rightarrow> custody list \<times> (exposed \<times> walk) walked" where
  "expose_one w l p b given s =
     (case check_run_control w l s of
        Inl x \<Rightarrow> ([], Inl x)
      | Inr s \<Rightarrow>
          (case w_injected w (bound_capability b) of
             None \<Rightarrow> ([], Inl (ContractViolation ''admitted capability was not injected'', s))
           | Some v \<Rightarrow>
               (let (new, r) = alias_object w l p b v s in
                (new, rbind r (\<lambda>(x, s). case expose b x given of Inl e \<Rightarrow> Inl (e, s) | Inr given \<Rightarrow> Inr (given, s))))))"

fun expose_aliases ::
  "world \<Rightarrow> run_lease \<Rightarrow> execution_path \<Rightarrow> capability_binding list \<Rightarrow> custody list \<Rightarrow> exposed \<Rightarrow> walk
     \<Rightarrow> custody list \<times> (exposed \<times> walk) walked" where
  "expose_aliases w l p [] acquired given s = (acquired, Inr (given, s))"
| "expose_aliases w l p (b # bs) acquired given s =
     (case expose_one w l p b given s of
        (new, Inl x) \<Rightarrow> (acquired @ new, Inl x)
      | (new, Inr (given, s)) \<Rightarrow> expose_aliases w l p bs (acquired @ new) given s)"

text \<open>The declared outputs as wire values; the source builds them in the order of a set, here they are sorted.\<close>

fun wire_outputs :: "(string \<times> pyvalue) list \<Rightarrow> string list \<Rightarrow> exc + (string, json) dict" where
  "wire_outputs raw [] = Inr []"
| "wire_outputs raw (n # ns) =
     (case map_of raw n of
        None \<Rightarrow> Inl (ContractViolation ''output contract mismatch'')
      | Some x \<Rightarrow>
          (case json_value x of
             Inl e \<Rightarrow> Inl (Raised ''ValueError'' '''')
           | Inr v \<Rightarrow> rbind (wire_outputs raw ns) (\<lambda>outs. Inr ((n, v) # outs))))"

definition checked_outputs :: "node_instance \<Rightarrow> (string \<times> pyvalue) list \<Rightarrow> exc + (string, json) dict" where
  "checked_outputs i raw =
     (let declared = sorted_set (map port_name (comp_outputs (inst_definition i))) in
      if \<not> set declared \<subseteq> fst ` set raw \<or> \<not> fst ` set raw \<subseteq> set declared
      then Inl (ContractViolation ''output contract mismatch'')
      else wire_outputs raw declared)"

definition complete_invocation ::
  "world \<Rightarrow> node_instance \<Rightarrow> run_lease \<Rightarrow> execution_path \<Rightarrow> digest \<Rightarrow> (string \<times> pyvalue) list \<Rightarrow> walk
     \<Rightarrow> ((string, json) dict \<times> walk) walked" where
  "complete_invocation w i l p ih raw s =
     (case checked_outputs i raw of
        Inl e \<Rightarrow> Inl (e, s)
      | Inr outs \<Rightarrow> rbind (jwrite (record_completion (w_sha w) l
            \<lparr>cp_run = lease_of l, cp_path = p, cp_input_hash = ih, cp_version = Some (inst_version i), cp_outputs = outs\<rparr>) s)
          (\<lambda>s. Inr (outs, s)))"

definition invocation_body ::
  "world \<Rightarrow> manifest \<Rightarrow> node_instance \<Rightarrow> run_lease \<Rightarrow> execution_path \<Rightarrow> effect_mode \<Rightarrow> capability_binding \<Rightarrow> (string, json) dict
     \<Rightarrow> digest \<Rightarrow> walk \<Rightarrow> custody list \<times> ((string, json) dict \<times> walk) walked" where
  "invocation_body w m i l p mode self ins ih s =
     (let (acquired, given) = expose_aliases w l p (aliases_at m (inst_scope i)) [] ([], []) s in
      (acquired, rbind given (\<lambda>((chans, caps), s).
         rbind (run_program w m l p mode chans
                  (w_code w (inst_component i) (inst_version i)
                     \<lparr>ctx_run = lease_of l, ctx_path = p, ctx_capabilities = caps, ctx_grants = effective_grants self,
                      ctx_channels = chans\<rparr> ins) s)
           (\<lambda>(raw, s). complete_invocation w i l p ih raw s))))"

text \<open>The exception handlers of \<^verbatim>\<open>_invoke\<close> around its body.\<close>

definition invocation_raised ::
  "world \<Rightarrow> run_lease \<Rightarrow> custody list \<Rightarrow> exc \<Rightarrow> walk \<Rightarrow> ((string, json) dict \<times> walk) walked" where
  "invocation_raised w l acquired e s =
     (case e of
        CleanupFailure x ne \<Rightarrow> rbind (close_acquired w l DiscardLease ne (Some x) acquired s) (\<lambda>s. Inl (e, s))
      | OwnershipLost _ \<Rightarrow> (let (f, s) = relinquish_acquired w l acquired s in Inl (e, s))
      | CancelRequested \<Rightarrow>
          (case wk_lost s of
             Some loss \<Rightarrow> (let (f, s) = relinquish_acquired w l acquired s in Inl (loss, s))
           | None \<Rightarrow> rbind (close_acquired w l DiscardLease (Some e) None acquired s) (\<lambda>s. Inl (e, s)))
      | _ \<Rightarrow> rbind (close_acquired w l DiscardLease (Some e) None acquired s) (\<lambda>s. Inl (e, s)))"

definition invoke ::
  "world \<Rightarrow> manifest \<Rightarrow> node_instance \<Rightarrow> run_lease \<Rightarrow> execution_path \<Rightarrow> effect_mode \<Rightarrow> capability_mode \<Rightarrow> (string, json) dict
     \<Rightarrow> digest \<Rightarrow> walk \<Rightarrow> ((string, json) dict \<times> walk) walked" where
  "invoke w m i l p mode cmode ins ih s =
     rbind (jwrite (append_event l ''NodeStarted'' (Some p) None) s) (\<lambda>s.
       case map_of (self_grants m) (inst_scope i) of
         None \<Rightarrow> Inl (ContractViolation ''manifest carries no sealed grants'', s)
       | Some self \<Rightarrow>
           (case invocation_body w m i l p mode self ins ih s of
              (acquired, Inl (e, s)) \<Rightarrow> invocation_raised w l acquired e s
            | (acquired, Inr (outs, s)) \<Rightarrow>
                rbind (close_acquired w l (if cmode = DiscardCapabilities then DiscardLease else ReleaseLease) None None acquired s)
                  (\<lambda>s. Inr (outs, s))))"


end
