(* ===== verification/Walker.thy ===== *)
theory Walker
  imports Invocation
begin

text \<open>
  The walker (\<^verbatim>\<open>runtime/walker.py\<close>): restoring or invoking one node, bounded loops over a durable iteration prefix, the
  walk over the units of a manifest with its terminal transitions, and the materialization of a finished run from its
  checkpoints alone. Failures are kept as exceptions in place of their text.
\<close>

section \<open>Model\<close>

definition parked_reason_json :: "parked_reason \<Rightarrow> json" where
  "parked_reason_json r = jstr (case r of WaitingFor AwaitingAdvisor \<Rightarrow> ''awaiting_advisor''
     | WaitingFor AwaitingApproval \<Rightarrow> ''awaiting_approval'' | PolicyExhausted \<Rightarrow> ''policy_exhausted'')"

definition parked_json :: "parked_unit \<Rightarrow> json" where
  "parked_json u = jobj [(''path'', path_json (parked_path u)), (''reason'', parked_reason_json (parked_reason u)),
     (''completed_iterations'', jopt jnat (completed_iterations u)), (''waiting_on'', jopt jstr (waiting_on u))]"

definition status_json :: "invocation_status \<Rightarrow> json" where
  "status_json s = jstr (case s of Queued \<Rightarrow> ''queued'' | RunningInvocation \<Rightarrow> ''running'' | Completed \<Rightarrow> ''completed''
     | FailedInvocation \<Rightarrow> ''failed'' | CancelledInvocation \<Rightarrow> ''cancelled'' | Lost \<Rightarrow> ''lost'' | Blocked \<Rightarrow> ''blocked_by_dependency''
     | Skipped \<Rightarrow> ''skipped_run_terminated'' | ParkedInvocation \<Rightarrow> ''parked'')"

definition report_json :: "dependency_report \<Rightarrow> json" where
  "report_json r = jobj [(''destination'', path_json (rep_destination r)),
     (''producers'', JList (map (\<lambda>(p, st). jobj [(''path'', path_json p), (''status'', status_json st), (''error_ref'', JNull)])
        (rep_producers r)))]"

text \<open>An error as an event's payload: its class and the label of its raise site.\<close>

fun error_json :: "exc \<Rightarrow> (string \<times> json) list" where
  "error_json (ContractViolation t) = [(''error'', jstr t), (''error_type'', jstr ''ContractViolation'')]"
| "error_json (JournalDamaged t) = [(''error'', jstr t), (''error_type'', jstr ''JournalDamaged'')]"
| "error_json (OwnershipLost t) = [(''error'', jstr t), (''error_type'', jstr ''OwnershipLost'')]"
| "error_json (CheckpointConflict t) = [(''error'', jstr t), (''error_type'', jstr ''CheckpointConflict'')]"
| "error_json (RunAttemptSuperseded t) = [(''error'', jstr t), (''error_type'', jstr ''RunAttemptSuperseded'')]"
| "error_json (CleanupUnresolved n) = [(''error'', jnat n), (''error_type'', jstr ''CleanupUnresolved'')]"
| "error_json (InvocationParked d r) = [(''error'', jstr d), (''error_type'', jstr ''InvocationParked'')]"
| "error_json CancelRequested = [(''error'', jstr ''''), (''error_type'', jstr ''_CancelRequested'')]"
| "error_json (CleanupFailure e ne) = error_json e"
| "error_json (ExceptionGroup es) = [(''error'', jstr ''capability cleanup failed''), (''error_type'', jstr ''BaseExceptionGroup'')]"
| "error_json (Raised ty t) = [(''error'', jstr t), (''error_type'', jstr ty)]"

definition log_event :: "run_lease \<Rightarrow> string \<Rightarrow> execution_path \<Rightarrow> json option \<Rightarrow> walk \<Rightarrow> walk walked" where
  "log_event l k p d = jwrite (append_event l k (Some p) d)"

text \<open>Pure steps of the walker raise with the state as it is.\<close>

definition pure_step :: "exc + 'a \<Rightarrow> walk \<Rightarrow> 'a walked" where
  "pure_step r s = (case r of Inl e \<Rightarrow> Inl (e, s) | Inr a \<Rightarrow> Inr a)"

subsection \<open>One node\<close>

datatype outcome = Done | ParkedAt parked_unit | FailedWith exc

text \<open>The handlers of \<^verbatim>\<open>_execute_or_restore\<close>: what escapes, what parks, and what is contained as a failed node.\<close>

definition escapes :: "exc \<Rightarrow> bool" where
  "escapes e = (case e of OwnershipLost _ \<Rightarrow> True | CheckpointConflict _ \<Rightarrow> True | CancelRequested \<Rightarrow> True | _ \<Rightarrow> False)"

definition cleanup_raised :: "run_lease \<Rightarrow> execution_path \<Rightarrow> exc \<Rightarrow> exc option \<Rightarrow> walk \<Rightarrow> exc \<times> walk" where
  "cleanup_raised l p x ne s =
     (case ne of
        None \<Rightarrow> (CleanupFailure x ne, s)
      | Some original \<Rightarrow>
          if escapes original \<or> (case original of InvocationParked _ _ \<Rightarrow> True | _ \<Rightarrow> False) then (CleanupFailure x ne, s)
          else (case log_event l ''NodeFailed'' p (Some (jobj (error_json original))) s of
                  Inr s \<Rightarrow> (CleanupFailure x ne, s)
                | Inl (y, s) \<Rightarrow>
                    if is_loss y then (y, s)
                    else (case cleanup_error [x, y] of
                            Some z \<Rightarrow> (CleanupFailure z ne, s)
                          | None \<Rightarrow> (CleanupFailure x ne, s))))"

definition node_raised ::
  "run_lease \<Rightarrow> execution_path \<Rightarrow> port_values \<Rightarrow> exc \<Rightarrow> walk \<Rightarrow> (outcome \<times> port_values \<times> walk) walked" where
  "node_raised l p vs e s =
     (case e of
        CleanupFailure x ne \<Rightarrow> Inl (cleanup_raised l p x ne s)
      | InvocationParked d r \<Rightarrow>
          (let u = \<lparr>parked_path = p, parked_reason = WaitingFor r, completed_iterations = None, waiting_on = Some d\<rparr> in
           rbind (log_event l ''NodeParked'' p (Some (parked_json u)) s) (\<lambda>s. Inr (ParkedAt u, vs, s)))
      | _ \<Rightarrow>
          if escapes e then Inl (e, s)
          else rbind (log_event l ''NodeFailed'' p (Some (jobj (error_json e))) s) (\<lambda>s. Inr (FailedWith e, vs, s)))"

definition execute_or_restore ::
  "world \<Rightarrow> manifest \<Rightarrow> run_lease \<Rightarrow> effect_mode \<Rightarrow> capability_mode \<Rightarrow> binding_index \<Rightarrow> node_instance \<Rightarrow> execution_path \<Rightarrow> port_values
     \<Rightarrow> walk \<Rightarrow> (outcome \<times> port_values \<times> walk) walked" where
  "execute_or_restore w m l mode cmode bs i p vs s =
     rbind (pure_step (node_inputs i vs bs) s) (\<lambda>ins.
       let ih = inputs_hash (w_sha w) ins in
       case stored_checkpoint (wk_journal s) (lease_of l) p of
         Some c \<Rightarrow>
           if cp_input_hash c \<noteq> ih \<or> cp_version c \<noteq> Some (inst_version i)
           then Inl (CheckpointConflict ''durable completion contradicts the current input hash or version'', s)
           else rbind (log_event l ''NodeRestored'' p None s) (\<lambda>s.
             rbind (pure_step (publish_atomic_outputs i (cp_outputs c) vs) s) (\<lambda>vs. Inr (Done, vs, s)))
       | None \<Rightarrow>
           (case invoke w m i l p mode cmode ins ih s of
              Inl (e, s) \<Rightarrow> node_raised l p vs e s
            | Inr (outs, s) \<Rightarrow> rbind (pure_step (publish_atomic_outputs i outs vs) s) (\<lambda>vs. Inr (Done, vs, s))))"

subsection \<open>Loop history\<close>

definition frame :: "loop_resolution \<Rightarrow> nat \<Rightarrow> iteration_frame" where
  "frame lp n = \<lparr>frame_loop = loop_scope lp, frame_index = n\<rparr>"

definition member_path :: "loop_resolution \<Rightarrow> nat \<Rightarrow> scope \<Rightarrow> execution_path" where
  "member_path lp n sc = path_of sc [frame lp n]"

definition iteration_row :: "journal \<Rightarrow> string \<Rightarrow> loop_resolution \<Rightarrow> nat \<Rightarrow> checkpoint option list" where
  "iteration_row j run lp n = map (\<lambda>sc. stored_checkpoint j run (member_path lp n sc)) (member_order lp)"

record loop_history =
  hist_completed :: nat
  hist_terminal :: "nat option"
  hist_exhausted :: bool
  hist_values :: "port_values option"

text \<open>Restores the members of one iteration up to the first missing checkpoint.\<close>

fun restore_members ::
  "(nat list \<Rightarrow> string) \<Rightarrow> binding_index \<Rightarrow> (scope, node_instance) dict \<Rightarrow> (scope \<times> checkpoint option) list \<Rightarrow> port_values
     \<Rightarrow> exc + port_values" where
  "restore_members sha bs by_scope [] vs = Inr vs"
| "restore_members sha bs by_scope ((sc, None) # rest) vs = Inr vs"
| "restore_members sha bs by_scope ((sc, Some c) # rest) vs =
     (case map_of by_scope sc of
        None \<Rightarrow> Inl (Raised ''KeyError'' (render sc))
      | Some i \<Rightarrow> rbind (restore_checked_checkpoint sha bs i c vs) (restore_members sha bs by_scope rest))"

definition some_present :: "checkpoint option list list \<Rightarrow> bool" where
  "some_present rows = list_ex (list_ex (\<lambda>c. c \<noteq> None)) rows"

definition gap :: "checkpoint option list \<Rightarrow> bool" where
  "gap row = list_ex (\<lambda>c. c \<noteq> None) (dropWhile (\<lambda>c. c \<noteq> None) row)"

fun inspect_rows ::
  "(nat list \<Rightarrow> string) \<Rightarrow> loop_resolution \<Rightarrow> port_values \<Rightarrow> (scope, node_instance) dict \<Rightarrow> binding_index \<Rightarrow> bool \<Rightarrow> nat
     \<Rightarrow> port_values option \<Rightarrow> checkpoint option list list \<Rightarrow> exc + loop_history" where
  "inspect_rows sha lp outer by_scope bs terminal n previous [] =
     (if terminal then Inl (JournalDamaged ''materialization found an exhausted loop'')
      else Inr \<lparr>hist_completed = n, hist_terminal = None, hist_exhausted = True, hist_values = previous\<rparr>)"
| "inspect_rows sha lp outer by_scope bs terminal n previous (row # later) =
     (if \<not> list_ex (\<lambda>c. c \<noteq> None) row
      then (if some_present later then Inl (JournalDamaged ''checkpoints after an empty iteration'')
            else if terminal then Inl (JournalDamaged ''incomplete loop'')
            else Inr \<lparr>hist_completed = n, hist_terminal = None, hist_exhausted = False, hist_values = previous\<rparr>)
      else if gap row then Inl (JournalDamaged ''member checkpoint after a missing earlier member'')
      else if \<not> list_all (\<lambda>c. c \<noteq> None) row
      then (if some_present later then Inl (JournalDamaged ''later iterations after a partial iteration'')
            else rbind (seed_loop_iteration lp n outer previous) (\<lambda>vs.
                 rbind (restore_members sha bs by_scope (zip (member_order lp) row) vs) (\<lambda>_.
                 if terminal then Inl (JournalDamaged ''partial iteration'')
                 else Inr \<lparr>hist_completed = n, hist_terminal = None, hist_exhausted = False, hist_values = previous\<rparr>)))
      else rbind (seed_loop_iteration lp n outer previous) (\<lambda>vs.
           rbind (restore_members sha bs by_scope (zip (member_order lp) row) vs) (\<lambda>vs.
           rbind (loop_decision lp vs) (\<lambda>decision.
             if decision then inspect_rows sha lp outer by_scope bs terminal (Suc n) (Some vs) later
             else if some_present later then Inl (JournalDamaged ''checkpoints after a terminal decision'')
             else Inr \<lparr>hist_completed = Suc n, hist_terminal = Some n, hist_exhausted = False, hist_values = Some vs\<rparr>))))"

definition inspect_loop_history ::
  "(nat list \<Rightarrow> string) \<Rightarrow> journal \<Rightarrow> string \<Rightarrow> loop_resolution \<Rightarrow> port_values \<Rightarrow> (scope, node_instance) dict \<Rightarrow> binding_index \<Rightarrow> bool
     \<Rightarrow> exc + loop_history" where
  "inspect_loop_history sha j run lp outer by_scope bs terminal =
     inspect_rows sha lp outer by_scope bs terminal 0 None (map (iteration_row j run lp) [0..<loop_max lp])"

subsection \<open>Loop execution\<close>

record iteration_state =
  it_values :: port_values
  it_statuses :: "(scope, invocation_status) dict"
  it_failed :: bool
  it_restored :: bool

definition note_failure :: "string \<Rightarrow> exc \<Rightarrow> walk \<Rightarrow> walk" where
  "note_failure k e s = s\<lparr>wk_ledger := (wk_ledger s)\<lparr>failures := dict_set k e (failures (wk_ledger s))\<rparr>\<rparr>"

definition note_blocked :: "dependency_report \<Rightarrow> walk \<Rightarrow> walk" where
  "note_blocked r s = s\<lparr>wk_ledger := (wk_ledger s)\<lparr>blocked := blocked (wk_ledger s) @ [r]\<rparr>\<rparr>"

definition note_parked :: "parked_unit \<Rightarrow> walk \<Rightarrow> walk" where
  "note_parked u s = s\<lparr>wk_ledger := (wk_ledger s)\<lparr>parked := parked (wk_ledger s) @ [u]\<rparr>\<rparr>"

text \<open>One member of an iteration; the value \<^term>\<open>None\<close> ends the loop as parked.\<close>

definition run_member ::
  "world \<Rightarrow> manifest \<Rightarrow> run_lease \<Rightarrow> effect_mode \<Rightarrow> capability_mode \<Rightarrow> binding_index \<Rightarrow> (scope, node_instance) dict
     \<Rightarrow> (string, node_instance) dict \<Rightarrow> loop_resolution \<Rightarrow> nat \<Rightarrow> scope \<Rightarrow> iteration_state \<Rightarrow> walk
     \<Rightarrow> (iteration_state option \<times> walk) walked" where
  "run_member w m l mode cmode bs by_scope producer_of lp n sc it s =
     rbind (check_run_control w l s) (\<lambda>s.
     case map_of by_scope sc of
       None \<Rightarrow> Inl (ContractViolation ''loop names missing member'', s)
     | Some i \<Rightarrow>
         (let p = member_path lp n sc; report = member_dependency_report i (frame lp n) bs producer_of (it_statuses it);
              had = stored_checkpoint (wk_journal s) (lease_of l) p \<noteq> None
          in if report_blocked report
             then rbind (log_event l ''NodeBlocked'' p (Some (report_json report)) (note_blocked report s))
                    (\<lambda>s. Inr (Some (it\<lparr>it_statuses := dict_set sc Blocked (it_statuses it), it_failed := True\<rparr>), s))
             else if it_failed it
             then rbind (log_event l ''NodeSkipped'' p (Some (jobj [(''reason'', jstr ''loop_iteration_failed'')])) s)
                    (\<lambda>s. Inr (Some (it\<lparr>it_statuses := dict_set sc Skipped (it_statuses it)\<rparr>), s))
             else rbind (execute_or_restore w m l mode cmode bs i p (it_values it) s) (\<lambda>(out, vs, s).
               let it = it\<lparr>it_values := vs, it_restored := it_restored it \<and> had\<rparr> in
               case out of
                 Done \<Rightarrow> Inr (Some (it\<lparr>it_statuses := dict_set sc Completed (it_statuses it)\<rparr>), s)
               | ParkedAt u \<Rightarrow>
                   rbind (log_event l ''LoopParked'' (path_of (loop_scope lp) []) (Some (parked_json u)) (note_parked u s))
                     (\<lambda>s. Inr (None, s))
               | FailedWith e \<Rightarrow>
                   Inr (Some (it\<lparr>it_statuses := dict_set sc FailedInvocation (it_statuses it), it_failed := True\<rparr>),
                        note_failure (path_render p) e s))))"

fun run_members ::
  "(scope \<Rightarrow> iteration_state \<Rightarrow> walk \<Rightarrow> (iteration_state option \<times> walk) walked) \<Rightarrow> scope list \<Rightarrow> iteration_state \<Rightarrow> walk
     \<Rightarrow> (iteration_state option \<times> walk) walked" where
  "run_members f [] it s = Inr (Some it, s)"
| "run_members f (sc # scs) it s =
     rbind (f sc it s) (\<lambda>(r, s). case r of None \<Rightarrow> Inr (None, s) | Some it \<Rightarrow> run_members f scs it s)"

definition run_iteration ::
  "world \<Rightarrow> manifest \<Rightarrow> run_lease \<Rightarrow> effect_mode \<Rightarrow> capability_mode \<Rightarrow> binding_index \<Rightarrow> (scope, node_instance) dict
     \<Rightarrow> (string, node_instance) dict \<Rightarrow> loop_resolution \<Rightarrow> port_values \<Rightarrow> port_values option \<Rightarrow> nat \<Rightarrow> walk
     \<Rightarrow> (iteration_state option \<times> walk) walked" where
  "run_iteration w m l mode cmode bs by_scope producer_of lp outer previous n s =
     rbind (check_run_control w l s) (\<lambda>s.
     rbind (pure_step (seed_loop_iteration lp n outer previous) s) (\<lambda>vs.
       run_members (run_member w m l mode cmode bs by_scope producer_of lp n) (member_order lp)
         \<lparr>it_values = vs, it_statuses = [], it_failed = False, it_restored = True\<rparr> s))"

text \<open>The iterations left to run; \<open>executed\<close> is \<^verbatim>\<open>executed_any\<close>.\<close>

fun run_iterations ::
  "(port_values option \<Rightarrow> nat \<Rightarrow> walk \<Rightarrow> (iteration_state option \<times> walk) walked) \<Rightarrow> run_lease \<Rightarrow> loop_resolution \<Rightarrow> port_values
     \<Rightarrow> nat list \<Rightarrow> port_values option \<Rightarrow> bool \<Rightarrow> walk \<Rightarrow> (invocation_status \<times> port_values \<times> walk) walked" where
  "run_iterations f l lp outer [] previous executed s =
     (let p = path_of (loop_scope lp) [];
          u = \<lparr>parked_path = p, parked_reason = PolicyExhausted, completed_iterations = Some (loop_max lp), waiting_on = None\<rparr>
      in rbind (log_event l (if executed then ''LoopPolicyExhausted'' else ''LoopPolicyReobserved'') p (Some (parked_json u))
                  (note_parked u s))
           (\<lambda>s. Inr (ParkedInvocation, outer, s)))"
| "run_iterations f l lp outer (n # ns) previous executed s =
     rbind (f previous n s) (\<lambda>(r, s).
       case r of
         None \<Rightarrow> Inr (ParkedInvocation, outer, s)
       | Some it \<Rightarrow>
           if it_failed it then Inr (FailedInvocation, outer, s)
           else (let p = path_of (loop_scope lp) []; executed = (executed \<or> \<not> it_restored it) in
                 case loop_decision lp (it_values it) of
                   Inl e \<Rightarrow>
                     rbind (log_event l ''LoopFailed'' p (Some (jobj (take 1 (error_json e) @ [(''iteration'', jnat n)])))
                              (note_failure (path_render p) e s))
                       (\<lambda>s. Inr (FailedInvocation, outer, s))
                 | Inr d \<Rightarrow>
                     rbind (log_event l (if it_restored it then ''LoopIterationRestored'' else ''LoopIterationCompleted'')
                              (path_of (loop_scope lp) [frame lp n]) (Some (jobj [(''continue'', JBool d)])) s) (\<lambda>s.
                       if d then run_iterations f l lp outer ns (Some (it_values it)) executed s
                       else rbind (pure_step (publish_loop_exports lp (it_values it) outer) s) (\<lambda>outer.
                            rbind (log_event l (if executed then ''LoopCompleted'' else ''LoopRestored'') p
                                     (Some (jobj [(''iterations'', jnat (Suc n))])) s)
                              (\<lambda>s. Inr (Completed, outer, s))))))"

definition execute_loop ::
  "world \<Rightarrow> manifest \<Rightarrow> run_lease \<Rightarrow> effect_mode \<Rightarrow> capability_mode \<Rightarrow> binding_index \<Rightarrow> (scope, node_instance) dict
     \<Rightarrow> loop_resolution \<Rightarrow> port_values \<Rightarrow> walk \<Rightarrow> (invocation_status \<times> port_values \<times> walk) walked" where
  "execute_loop w m l mode cmode bs by_scope lp outer s =
     rbind (pure_step (inspect_loop_history (w_sha w) (wk_journal s) (lease_of l) lp outer by_scope bs False) s) (\<lambda>_.
     rbind (pure_step (member_producer_index lp by_scope) s) (\<lambda>producer_of.
       run_iterations (run_iteration w m l mode cmode bs by_scope producer_of lp outer) l lp outer
         [0..<loop_max lp] None False s))"

subsection \<open>The walk\<close>

record unit_state =
  us_values :: port_values
  us_statuses :: "(scope, invocation_status) dict"

definition run_unit ::
  "world \<Rightarrow> manifest \<Rightarrow> run_lease \<Rightarrow> effect_mode \<Rightarrow> capability_mode \<Rightarrow> binding_index \<Rightarrow> (scope, node_instance) dict
     \<Rightarrow> (string, run_unit) dict \<Rightarrow> run_unit \<Rightarrow> unit_state \<times> walk \<Rightarrow> (unit_state \<times> walk) walked" where
  "run_unit w m l mode cmode bs by_scope producer_of u = (\<lambda>(us, s).
     rbind (check_run_control w l s) (\<lambda>s.
       let report = unit_dependency_report u bs producer_of (us_statuses us); p = path_of (unit_scope u) [];
           mark = (\<lambda>st us. us\<lparr>us_statuses := dict_set (unit_scope u) st (us_statuses us)\<rparr>)
       in if report_blocked report
          then rbind (log_event l (case u of AtomicUnit _ \<Rightarrow> ''NodeBlocked'' | LoopUnit _ \<Rightarrow> ''LoopBlocked'') p
                        (Some (report_json report)) (note_blocked report s))
                 (\<lambda>s. Inr (mark Blocked us, s))
          else case u of
            AtomicUnit i \<Rightarrow>
              rbind (execute_or_restore w m l mode cmode bs i p (us_values us) s) (\<lambda>(out, vs, s).
                let us = us\<lparr>us_values := vs\<rparr> in
                case out of
                  Done \<Rightarrow> Inr (mark Completed us, s)
                | ParkedAt x \<Rightarrow> Inr (mark ParkedInvocation us, note_parked x s)
                | FailedWith e \<Rightarrow> Inr (mark FailedInvocation us, note_failure (render (unit_scope u)) e s))
          | LoopUnit lp \<Rightarrow>
              rbind (execute_loop w m l mode cmode bs by_scope lp (us_values us) s)
                (\<lambda>(st, vs, s). Inr (mark st (us\<lparr>us_values := vs\<rparr>), s))))"

record run_result =
  res_status :: run_status
  res_outputs :: "(string, json) dict"
  res_failures :: "(string, exc) dict"
  res_blocked :: "dependency_report list"
  res_parked :: "parked_unit list"

definition result_of :: "run_status \<Rightarrow> (string, json) dict \<Rightarrow> walk \<Rightarrow> run_result" where
  "result_of st outs s = \<lparr>res_status = st, res_outputs = outs, res_failures = failures (wk_ledger s),
     res_blocked = blocked (wk_ledger s), res_parked = sort_key (\<lambda>u. path_render (parked_path u)) (parked (wk_ledger s))\<rparr>"

definition end_run ::
  "run_lease \<Rightarrow> run_status \<Rightarrow> string \<Rightarrow> json \<Rightarrow> (string, json) dict \<Rightarrow> walk \<Rightarrow> (run_result \<times> walk) walked" where
  "end_run l st k d outs s =
     rbind (jwrite (transition_run l {Running} st k (Some d)) s) (\<lambda>s'. Inr (result_of st outs s, s'))"

definition blocked_json :: "walk \<Rightarrow> json" where
  "blocked_json s = JList (map (\<lambda>r. jstr (path_render (rep_destination r))) (blocked (wk_ledger s)))"

definition parked_units_json :: "walk \<Rightarrow> json" where
  "parked_units_json s = JList (map parked_json (sort_key (\<lambda>u. path_render (parked_path u)) (parked (wk_ledger s))))"

definition conclude ::
  "manifest \<Rightarrow> run_lease \<Rightarrow> binding_index \<Rightarrow> unit_state \<times> walk \<Rightarrow> (run_result \<times> walk) walked" where
  "conclude m l bs = (\<lambda>(us, s).
     if failures (wk_ledger s) \<noteq> []
     then end_run l Failed ''RunFailed''
            (jobj [(''failed'', JList (map jstr (sort (dict_keys (failures (wk_ledger s)))))), (''blocked'', blocked_json s),
                   (''parked'', parked_units_json s)]) [] s
     else if parked (wk_ledger s) \<noteq> []
     then end_run l Parked ''RunParked'' (jobj [(''parked'', parked_units_json s), (''blocked'', blocked_json s)]) [] s
     else if blocked (wk_ledger s) \<noteq> []
     then Inl (JournalDamaged ''blocked units without any failed or parked root'', s)
     else rbind (pure_step (graph_outputs m (us_values us) bs) s) (\<lambda>outs.
       end_run l Succeeded ''RunSucceeded'' (jobj [(''outputs'', JList (map jstr (sort (dict_keys outs))))]) outs s))"

type_synonym attempt_cause = "(string \<times> json) list option"

definition begin_attempt :: "run_lease \<Rightarrow> (string, json) dict \<Rightarrow> attempt_cause \<Rightarrow> walk \<Rightarrow> walk walked" where
  "begin_attempt l ins cause s =
     (case map_of (runs (wk_journal s)) (lease_of l) of
        None \<Rightarrow> Inl (ContractViolation ''unknown run'', s)
      | Some r \<Rightarrow>
          if run_status r = Pending
          then jwrite (transition_run l {Pending} Running ''RunStarted''
                 (Some (jobj ((''inputs'', jobj ins) # (case cause of None \<Rightarrow> [] | Some c \<Rightarrow> c))))) s
          else if run_status r \<in> {Failed, Parked}
          then jwrite (transition_run l {Failed, Parked} Running ''RunResumed'' (map_option jobj cause)) s
          else jwrite (append_event l ''RunReclaimed'' None (map_option jobj cause)) s)"

definition catch_cancel ::
  "run_lease \<Rightarrow> (unit_state \<times> walk \<Rightarrow> (run_result \<times> walk) walked) \<Rightarrow> (unit_state \<times> walk) walked \<Rightarrow> (run_result \<times> walk) walked" where
  "catch_cancel l f r =
     (case r of
        Inl (CancelRequested, s) \<Rightarrow> end_run l Cancelled ''RunCancelled'' (jobj [(''source'', jstr ''request'')]) [] s
      | Inl x \<Rightarrow> Inl x
      | Inr x \<Rightarrow> f x)"

definition execute ::
  "world \<Rightarrow> (string \<Rightarrow> digest \<Rightarrow> bound_version) \<Rightarrow> manifest \<Rightarrow> run_lease \<Rightarrow> (string, json) dict \<Rightarrow> effect_mode \<Rightarrow> capability_mode
     \<Rightarrow> attempt_cause \<Rightarrow> walk \<Rightarrow> (run_result \<times> walk) walked" where
  "execute w bound m l ins mode cmode cause s =
     rbind (begin_attempt l ins cause s) (\<lambda>s.
     rbind (reconcile_stale_leases w m l cmode s) (\<lambda>s.
     rbind (pure_step (instances_of bound (resolved_components m)) s) (\<lambda>is.
       let bs = bindings_of m; us = root_units m is; producers = unit_producer_index us in
       rbind (pure_step (ordered_units us bs producers) s) (\<lambda>ordered.
         catch_cancel l (conclude m l bs)
           (rfold (run_unit w m l mode cmode bs (instances_by_scope is) producers) ordered
              (\<lparr>us_values = root_values m ins, us_statuses = []\<rparr>, s))))))"

subsection \<open>Materialization\<close>

definition materialize_unit ::
  "(nat list \<Rightarrow> string) \<Rightarrow> journal \<Rightarrow> string \<Rightarrow> binding_index \<Rightarrow> (scope, node_instance) dict \<Rightarrow> run_unit \<Rightarrow> port_values
     \<Rightarrow> exc + port_values" where
  "materialize_unit sha j run bs by_scope u vs =
     (case u of
        AtomicUnit i \<Rightarrow>
          (case stored_checkpoint j run (path_of (inst_scope i) []) of
             None \<Rightarrow> Inl (JournalDamaged ''successful run lacks checkpoint'')
           | Some c \<Rightarrow> restore_checked_checkpoint sha bs i c vs)
      | LoopUnit lp \<Rightarrow>
          rbind (inspect_loop_history sha j run lp vs by_scope bs True) (\<lambda>h.
            case (hist_terminal h, hist_values h) of
              (Some n, Some inner) \<Rightarrow> publish_loop_exports lp inner vs
            | _ \<Rightarrow> Inl (JournalDamaged ''successful run has no terminal loop state'')))"

definition materialize_run ::
  "(nat list \<Rightarrow> string) \<Rightarrow> snapshot \<Rightarrow> journal \<Rightarrow> manifest \<Rightarrow> string \<Rightarrow> (string, json) dict \<Rightarrow> exc + (string, json) dict" where
  "materialize_run sha snap j m run ins =
     rbind (materialization_instances snap (resolved_components m)) (\<lambda>is.
       let bs = bindings_of m; us = root_units m is in
       rbind (ordered_units us bs (unit_producer_index us)) (\<lambda>ordered.
       rbind (rfold (materialize_unit sha j run bs (instances_by_scope is)) ordered (root_values m ins)) (\<lambda>vs.
         graph_outputs m vs bs)))"

subsection \<open>Entry points\<close>

text \<open>\<^verbatim>\<open>prepare\<close>, of inputs already normalized to wire values.\<close>

definition prepare_run ::
  "(nat list \<Rightarrow> string) \<Rightarrow> manifest \<Rightarrow> string \<Rightarrow> (string, json) dict \<Rightarrow> run_origin option \<Rightarrow> journal \<Rightarrow> exc + journal" where
  "prepare_run sha m run ins origin j =
     (if inputs_hash sha ins \<noteq> input_hash m then Inl (ContractViolation ''run inputs contradict the sealed manifest'')
      else create_run sha run m (manifest_hash m) (input_hash m) ins origin j)"

text \<open>
  \<^verbatim>\<open>_finish_run\<close> without task cancellation: the lease is released quietly, a known loss of ownership is primary, and a
  cleanup failure surfaces as its error.
\<close>

definition finish_run :: "run_lease \<Rightarrow> exc option \<Rightarrow> walk \<Rightarrow> exc option \<times> journal" where
  "finish_run l failure s =
     (let primary = (case failure of Some (CleanupFailure x ne) \<Rightarrow> Some x | f \<Rightarrow> f);
          loss = (case primary of Some e \<Rightarrow> if is_loss e then Some e else wk_lost s | None \<Rightarrow> wk_lost s);
          j = (case release_run l (wk_journal s) of Inl _ \<Rightarrow> wk_journal s | Inr j \<Rightarrow> j)
      in ((case loss of Some e \<Rightarrow> Some e | None \<Rightarrow> cleanup_error (opt_list primary)), j))"

definition drive ::
  "world \<Rightarrow> (string \<Rightarrow> digest \<Rightarrow> bound_version) \<Rightarrow> manifest \<Rightarrow> string \<Rightarrow> string \<Rightarrow> (string, json) dict \<Rightarrow> effect_mode \<Rightarrow> capability_mode
     \<Rightarrow> nat option \<Rightarrow> run_status set option \<Rightarrow> attempt_cause \<Rightarrow> journal \<Rightarrow> exc \<times> journal + run_result \<times> journal" where
  "drive w bound m run owner ins mode cmode seq statuses cause j =
     (case claim_run run owner (w_ttl w) (w_clock w 0) seq statuses j of
        Inl e \<Rightarrow> Inl (e, j)
      | Inr (l, j) \<Rightarrow>
          (case execute w bound m l ins mode cmode cause
                  \<lparr>wk_journal = j, wk_tick = 0, wk_lost = None, wk_ledger = \<lparr>failures = [], blocked = [], parked = []\<rparr>\<rparr> of
             Inl (e, s) \<Rightarrow>
               (case finish_run l (Some e) s of (Some x, j) \<Rightarrow> Inl (x, j) | (None, j) \<Rightarrow> Inl (e, j))
           | Inr (r, s) \<Rightarrow>
               (case finish_run l None s of (Some x, j) \<Rightarrow> Inl (x, j) | (None, j) \<Rightarrow> Inr (r, j))))"

text \<open>\<^verbatim>\<open>run_prepared\<close>; \<^verbatim>\<open>resume\<close> is the same call.\<close>

definition run_prepared ::
  "world \<Rightarrow> (string \<Rightarrow> digest \<Rightarrow> bound_version) \<Rightarrow> snapshot \<Rightarrow> string \<Rightarrow> string \<Rightarrow> nat option \<Rightarrow> run_status set option \<Rightarrow> attempt_cause
     \<Rightarrow> journal \<Rightarrow> exc \<times> journal + run_result \<times> journal" where
  "run_prepared w bound snap run owner seq statuses cause j =
     (case map_of (runs j) run of
        None \<Rightarrow> Inl (ContractViolation ''unknown run'', j)
      | Some r \<Rightarrow>
          (case map_of (manifests j) (run_manifest r) of
             None \<Rightarrow> Inl (ContractViolation ''manifest is not in the journal'', j)
           | Some m \<Rightarrow>
               if run_status r = Succeeded \<and> seq = None \<and> statuses = None
               then (case materialize_run (w_sha w) snap j m run (run_inputs r) of
                       Inl e \<Rightarrow> Inl (e, j)
                     | Inr outs \<Rightarrow> Inr (\<lparr>res_status = Succeeded, res_outputs = outs, res_failures = [], res_blocked = [],
                                        res_parked = []\<rparr>, j))
               else if run_status r = Cancelled \<and> seq = None \<and> statuses = None
               then Inr (\<lparr>res_status = Cancelled, res_outputs = [], res_failures = [], res_blocked = [], res_parked = []\<rparr>, j)
               else drive w bound m run owner (run_inputs r)
                      (case run_row.run_origin r of None \<Rightarrow> Live | Some x \<Rightarrow> origin_effects x)
                      (case run_row.run_origin r of None \<Rightarrow> NormalCapabilities | Some x \<Rightarrow> origin_capabilities x)
                      seq statuses cause j))"

definition start_run ::
  "world \<Rightarrow> (string \<Rightarrow> digest \<Rightarrow> bound_version) \<Rightarrow> snapshot \<Rightarrow> manifest \<Rightarrow> string \<Rightarrow> string \<Rightarrow> (string, json) dict \<Rightarrow> run_origin option
     \<Rightarrow> journal \<Rightarrow> exc \<times> journal + run_result \<times> journal" where
  "start_run w bound snap m run owner ins origin j =
     (case prepare_run (w_sha w) m run ins origin j of
        Inl e \<Rightarrow> Inl (e, j)
      | Inr j \<Rightarrow> run_prepared w bound snap run owner None None None j)"

definition reproduce_run ::
  "world \<Rightarrow> (string \<Rightarrow> digest \<Rightarrow> bound_version) \<Rightarrow> snapshot \<Rightarrow> string \<Rightarrow> string \<Rightarrow> string \<Rightarrow> run_origin option
     \<Rightarrow> journal \<Rightarrow> exc \<times> journal + run_result \<times> journal" where
  "reproduce_run w bound snap source run owner origin j =
     (case map_of (runs j) source of
        None \<Rightarrow> Inl (ContractViolation ''unknown run'', j)
      | Some r \<Rightarrow>
          (case map_of (manifests j) (run_manifest r) of
             None \<Rightarrow> Inl (ContractViolation ''manifest is not in the journal'', j)
           | Some m \<Rightarrow> start_run w bound snap m run owner (run_inputs r) origin j))"

end
