(* ===== verification/Walk_Laws.thy ===== *)
theory Walk_Laws
  imports Walker Journal_Laws
begin

text \<open>
  Laws of everything the walker does between its transitions. \<open>owner_write\<close> are the journal operations a walk performs;
  the locale \<open>node_law\<close> lifts a relation on states from these operations and the observation of other connections to all that
  happens for one node, and \<open>walk_law\<close>, which adds the ledger notes, to the whole walk. They are
  interpreted on the durable frame (\<open>keeps\<close>: which checkpoints may change while the lease is held), on the ledger (one node
  leaves it alone; nothing noted is ever taken back), and on the journal's step relation.
\<close>

section \<open>Journal operations of a walk\<close>

inductive owner_write :: "(nat list \<Rightarrow> string) \<Rightarrow> run_lease \<Rightarrow> execution_path set \<Rightarrow> journal \<Rightarrow> journal \<Rightarrow> bool" for sha l P where
  beat: "heartbeat l ttl now j = Inr j' \<Longrightarrow> owner_write sha l P j j'"
| log: "append_event l k p d j = Inr j' \<Longrightarrow> owner_write sha l P j j'"
| complete: "record_completion sha l c j = Inr j' \<Longrightarrow> cp_path c \<in> P \<Longrightarrow> owner_write sha l P j j'"
| prepare: "record_effect_prepared sha f l q j = Inr (q', j') \<Longrightarrow> owner_write sha l P j j'"
| outcome: "record_effect_outcome sha l q rc k j = Inr (x, j') \<Longrightarrow> owner_write sha l P j j'"
| mint: "mint_attestation sha l ad j = Inr (a, j') \<Longrightarrow> owner_write sha l P j j'"
| acquire: "record_capability_lease sha l cl j = Inr j' \<Longrightarrow> owner_write sha l P j j'"
| close: "transition_capability_lease l lid ep T st d' j = Inr j' \<Longrightarrow> owner_write sha l P j j'"

lemma owner_write_step: "owner_write sha l P j j' \<Longrightarrow> owner_step sha l j j'"
  by (induction rule: owner_write.induct) (auto intro: owner_op.intros)

lemma owner_write_mono: "owner_write sha l P j j' \<Longrightarrow> P \<subseteq> Q \<Longrightarrow> owner_write sha l Q j j'"
  by (induction rule: owner_write.induct) (auto intro: owner_write.intros)

definition unit_paths :: "run_unit \<Rightarrow> execution_path set" where
  "unit_paths u = (case u of AtomicUnit i \<Rightarrow> {path_of (inst_scope i) []} | LoopUnit lp \<Rightarrow> {p. \<exists>n sc. p = member_path lp n sc})"

section \<open>Where a computation may end\<close>

definition ends :: "(walk \<Rightarrow> bool) \<Rightarrow> ('a \<Rightarrow> walk) \<Rightarrow> 'a walked \<Rightarrow> bool" where
  "ends Q f r \<longleftrightarrow> (case r of Inl (e, s) \<Rightarrow> Q s | Inr x \<Rightarrow> Q (f x))"

lemma ends_simps [simp]:
  "ends Q f (Inl (e, s)) = Q s" "ends Q f (Inr x) = Q (f x)"
  by (simp_all add: ends_def)

lemma ends_InlD: "ends Q f r \<Longrightarrow> r = Inl (e, s) \<Longrightarrow> Q s" and ends_InrD: "ends Q f r \<Longrightarrow> r = Inr x \<Longrightarrow> Q (f x)"
  by simp_all

lemma ends_pure_step: "Q s \<Longrightarrow> (\<And>x. r = Inr x \<Longrightarrow> ends Q g (k x)) \<Longrightarrow> ends Q g (rbind (pure_step r s) k)"
  by (cases r) (simp_all add: pure_step_def)

locale node_law =
  fixes w :: world and l :: run_lease and R :: "execution_path set \<Rightarrow> walk \<Rightarrow> walk \<Rightarrow> bool"
  assumes refl [simp]: "R P s s"
    and trans: "R P a b \<Longrightarrow> R P b c \<Longrightarrow> R P a c"
    and mono: "R P a b \<Longrightarrow> P \<subseteq> Q \<Longrightarrow> R Q a b"
    and observe: "R P s (observe w l s)"
    and written: "owner_write (w_sha w) l P (wk_journal s) j \<Longrightarrow> R P s (s\<lparr>wk_journal := j\<rparr>)"
begin

lemma ends_after: "R P s s1 \<Longrightarrow> ends (R P s1) g r \<Longrightarrow> ends (R P s) g r"
  by (auto simp: ends_def intro: trans split: sum.splits)

lemma ends_bind:
  "ends (R P s) f m \<Longrightarrow> (\<And>x. m = Inr x \<Longrightarrow> ends (R P (f x)) g (k x)) \<Longrightarrow> ends (R P s) g (rbind m k)"
  by (auto simp: ends_def intro: trans split: sum.splits)

lemma ends_jwrite:
  "(\<And>j. f (wk_journal s) = Inr j \<Longrightarrow> owner_write (w_sha w) l P (wk_journal s) j) \<Longrightarrow> ends (R P s) (\<lambda>s. s) (jwrite f s)"
  by (auto simp: jwrite_def intro: written split: sum.splits)

lemma ends_jcall:
  "(\<And>x j. f (wk_journal s) = Inr (x, j) \<Longrightarrow> owner_write (w_sha w) l P (wk_journal s) j) \<Longrightarrow> ends (R P s) snd (jcall f s)"
  by (auto simp: jcall_def intro: written split: sum.splits)

lemma ends_observe: "ends (R P (observe w l s)) g r \<Longrightarrow> ends (R P s) g r"
  by (rule ends_after [OF observe])

lemmas external_simps = external_def observe

lemma control_ends: "ends (R P s) (\<lambda>s. s) (check_run_control w l s)"
  by (auto simp: check_run_control_def Let_def observe split: option.splits)

lemma log_ends: "ends (R P s) (\<lambda>s. s) (log_event l k p d s)"
  by (auto simp: log_event_def intro!: ends_jwrite intro: owner_write.log)

lemma deduplicated_ends: "ends (R P s) (\<lambda>s. s) (deduplicated l p k s)"
  unfolding deduplicated_def by (intro ends_jwrite) (rule owner_write.log)

lemma terminal_receipt_ends: "ends (R P s) snd (terminal_receipt l p k key mode s)"
  unfolding terminal_receipt_def by (auto intro!: ends_bind [OF deduplicated_ends] split: option.splits)

lemma record_outcome_ends: "ends (R P s) snd (record_outcome w l p q rc k s)"
  unfolding record_outcome_def
  by (intro ends_bind [OF ends_jcall])
     (auto intro: owner_write.outcome intro!: ends_bind [OF deduplicated_ends] split: prod.splits)

lemma perform_effect_ends: "ends (R P s) snd (perform_effect w l p a mode q s)"
  unfolding perform_effect_def
  by (intro ends_bind [OF control_ends])
     (auto simp: external_simps intro: ends_after [OF observe record_outcome_ends] split: sum.splits)

lemma settle_effect_ends: "ends (R P s) snd (settle_effect w l p a mode q s)"
  unfolding settle_effect_def
  by (auto simp: external_simps intro: ends_after [OF observe record_outcome_ends] ends_after [OF observe perform_effect_ends]
      perform_effect_ends split: sum.splits option.splits)

lemma effect_boundary_ends: "ends (R P s) snd (effect_boundary w m l p mode k subject att s)"
  unfolding effect_boundary_def
  by (intro ends_bind [OF control_ends])
     (auto simp: Let_def intro!: ends_bind [OF terminal_receipt_ends] ends_bind [OF control_ends] ends_bind [OF ends_jcall]
        intro!: owner_write.prepare settle_effect_ends split: sum.splits json.splits option.splits prod.splits)

lemma ask_ends: "ends (R P s) snd (ask w m l p mode b cb x s)"
  unfolding ask_def
  by (auto simp: Let_def intro!: ends_bind [OF ends_jcall] ends_bind [OF effect_boundary_ends] owner_write.mint
        simp: external_simps split: sum.splits option.splits prod.splits)

lemma run_program_ends: "ends (R P s) snd (run_program w m l p mode chans prog s)"
proof (induction prog arbitrary: s)
  case (Effect k x att c)
  show ?case
  proof (cases "effect_boundary w m l p mode k x att s")
    case (Inl r)
    then show ?thesis using effect_boundary_ends [of P s m p mode k x att] Effect
      by (cases r) (auto intro: ends_after)
  next
    case (Inr r)
    then show ?thesis using effect_boundary_ends [of P s m p mode k x att] Effect
      by (cases r) (auto intro: ends_after)
  qed
next
  case (Ask a x c)
  have "ends (R P s) snd (case ask w m l p mode b cb x s of
      Inl (e, s) \<Rightarrow> run_program w m l p mode chans (c (Inl e)) s
    | Inr (v, s) \<Rightarrow> run_program w m l p mode chans (c (Inr v)) s)" for b cb
  proof (cases "ask w m l p mode b cb x s")
    case (Inl r)
    then show ?thesis using ask_ends [of P s m p mode b cb x] Ask by (cases r) (auto intro: ends_after)
  next
    case (Inr r)
    then show ?thesis using ask_ends [of P s m p mode b cb x] Ask by (cases r) (auto intro: ends_after)
  qed
  then show ?case using Ask by (auto split: option.splits)
qed simp_all

end

subsection \<open>Capability leases\<close>

context node_law
begin

lemma relinquish_all_ends: "R P s (snd (relinquish_all w l xs s))"
proof (induction xs arbitrary: s)
  case (Cons x xs)
  then show ?case using trans [OF observe Cons.IH]
    by (cases x) (simp add: external_def split_beta)
qed simp

lemma relinquish_ends: "relinquish_acquired w l xs s = (f, s1) \<Longrightarrow> R P s s1"
  using relinquish_all_ends [of P s xs] by (auto simp: relinquish_acquired_def split: prod.splits)

lemma affirm_ends: "ends (R P s) (\<lambda>s. s) (affirm_ownership w l s)"
  unfolding affirm_ownership_def by (auto split: option.splits intro!: ends_jwrite owner_write.beat)

lemma raise_cleanup_ends: "ends (R P s) (\<lambda>s. s) (raise_cleanup errs ne s)"
  by (auto simp: raise_cleanup_def split: option.splits)

lemma ownership_raised_ends: "ends (R P s) (\<lambda>s. s) (ownership_raised w l ne rest errs e s)"
  unfolding ownership_raised_def
  by (auto split: prod.splits intro: relinquish_ends ends_after [OF relinquish_ends raise_cleanup_ends])

lemma lease_closure_ends: "ends (R P s) (\<lambda>s. s) (lease_closure l a c s)"
  unfolding lease_closure_def by (intro ends_jwrite) (rule owner_write.close)

lemma ends_case:
  assumes "ends (R P s) f r" "\<And>e s1. r = Inl (e, s1) \<Longrightarrow> ends (R P s1) g (h e s1)" "\<And>x. r = Inr x \<Longrightarrow> ends (R P (f x)) g (k x)"
  shows "ends (R P s) g (case r of Inl (e, s) \<Rightarrow> h e s | Inr x \<Rightarrow> k x)"
  using assms by (cases r) (auto split: prod.splits intro: ends_after)

lemma ends_relinquish:
  "(\<And>f s1. ends (R P s1) g (k f s1)) \<Longrightarrow> ends (R P s) g (case relinquish_acquired w l xs s of (f, s1) \<Rightarrow> k f s1)"
  by (auto split: prod.splits intro: ends_after [OF relinquish_ends])

lemma close_raised_ends: "ends (R P s) snd (close_raised w l ne x held rest errs e s)"
  unfolding close_raised_def Let_def
  by (auto intro!: ends_relinquish ends_case [OF affirm_ends] ends_bind [OF ownership_raised_ends])

lemma close_one_ends: "ends (R P s) snd (close_one w l d ne x rest errs s)"
proof -
  have "ends (R P s) snd (case external w l (\<lambda>n. close (fst x) n (snd x) d) s of
      (Inl e, s) \<Rightarrow> close_raised w l ne x (x # rest) rest errs e s
    | (Inr c, s) \<Rightarrow> (case lease_closure l (snd x) c s of
          Inl (e, s) \<Rightarrow> close_raised w l ne x rest rest errs e s
        | Inr s \<Rightarrow> Inr (errs, s)))" for s
    unfolding external_def prod.case
  proof (rule ends_observe, cases "close (fst x) (wk_tick s) (snd x) d")
    case (Inr c)
    have "ends (R P s1) snd (case lease_closure l (snd x) c s1 of
        Inl (e, s) \<Rightarrow> close_raised w l ne x rest rest errs e s | Inr s \<Rightarrow> Inr (errs, s))" for s1
      by (rule ends_case [OF lease_closure_ends]) (simp_all add: close_raised_ends)
    then show "ends (R P (observe w l s)) snd (case close (fst x) (wk_tick s) (snd x) d of
        Inl e \<Rightarrow> close_raised w l ne x (x # rest) rest errs e (observe w l s)
      | Inr c \<Rightarrow> (case lease_closure l (snd x) c (observe w l s) of
          Inl (e, s) \<Rightarrow> close_raised w l ne x rest rest errs e s | Inr s \<Rightarrow> Inr (errs, s)))"
      by (simp add: Inr)
  qed (simp add: close_raised_ends)
  then show ?thesis
    unfolding close_one_def
    by (intro ends_case [OF affirm_ends] ends_bind [OF ownership_raised_ends]) simp_all
qed

lemma close_all_ends: "ends (R P s) (\<lambda>s. s) (close_all w l d ne xs errs s)"
proof (induction xs arbitrary: errs s)
  case (Cons x xs)
  show ?case unfolding close_all.simps by (rule ends_bind [OF close_one_ends]) (auto split: prod.splits intro: Cons.IH)
qed (simp add: raise_cleanup_ends)

lemma close_acquired_ends: "ends (R P s) (\<lambda>s. s) (close_acquired w l d ne prior xs s)"
  by (simp add: close_acquired_def close_all_ends)

lemma discard_unrecorded_ends: "ends (R P s) (\<lambda>s. s) (discard_unrecorded w l v a s)"
  unfolding discard_unrecorded_def external_def Let_def [of "(_, _)"] prod.case
  by (rule ends_observe)
     (auto split: sum.splits prod.splits intro: relinquish_ends ends_after [OF relinquish_ends raise_cleanup_ends])

lemma ends_if: "ends Q f x \<Longrightarrow> ends Q f y \<Longrightarrow> ends Q f (if b then x else y)"
  by simp

lemma ends_then_raise: "ends (R P s) (\<lambda>s. s) m \<Longrightarrow> ends (R P s) g (rbind m (\<lambda>s. Inl (e, s)))"
  by (cases m) auto

lemma unrecorded_ends: "ends (R P s) snd (unrecorded w l v a row e s)"
proof -
  have b: "ends (R P s) (\<lambda>s. s) (jwrite (heartbeat l (w_ttl w) (w_clock w (wk_tick s))) s)"
    by (intro ends_jwrite) (rule owner_write.beat)
  have d: "ends (R P s) snd (case discard_unrecorded w l v a s of Inl (x, s) \<Rightarrow> Inl (h x, s) | Inr s \<Rightarrow> Inl (e, s))" for h
    by (rule ends_case [OF discard_unrecorded_ends]) simp_all
  have h: "ends (R P s) snd (case jwrite (heartbeat l (w_ttl w) (w_clock w (wk_tick s))) s of
      Inl (x, s) \<Rightarrow> rbind (ownership_raised w l (Some e) [(v, a)] [] x s) (\<lambda>s. Inl (e, s))
    | Inr s \<Rightarrow> rbind (close_acquired w l DiscardLease (Some e) None [(v, a)] s) (\<lambda>s. Inl (e, s)))"
    by (rule ends_case [OF b]) (rule ends_then_raise, rule ownership_raised_ends, rule ends_then_raise, rule close_acquired_ends)
  show ?thesis
    unfolding unrecorded_def by (rule ends_if, rule d, rule ends_if, rule h, rule d)
qed

lemma acquire_ends: "ends (R P s) snd (acquire_capability w l p b v s)"
proof -
  have c: "ends (R P s) (\<lambda>s. s) (jwrite (record_capability_lease (w_sha w) l row) s)" for row s
    by (intro ends_jwrite) (rule owner_write.acquire)
  have r: "ends (R P s) snd (case jwrite (record_capability_lease (w_sha w) l row) s of
      Inr s \<Rightarrow> Inr (a, s) | Inl (e, s) \<Rightarrow> unrecorded w l v a row e s)" for row a s
    by (rule ends_case [OF c]) (simp_all add: unrecorded_ends)
  show ?thesis
    unfolding acquire_capability_def external_def Let_def prod.case
    by (rule ends_observe, cases "acquire v (wk_tick s) p (binding b)") (simp_all add: r)
qed

lemma reconcile_rows_ends: "ends (R P s) (\<lambda>s. s) (reconcile_rows w m l mode rows s)"
proof (induction rows arbitrary: s)
  case (Cons row rows)
  have t: "ends (R P s) (\<lambda>s. s) (jwrite (transition_capability_lease l a b S st d) s)" for s a b S st d
    by (intro ends_jwrite) (rule owner_write.close)
  show ?case
    unfolding reconcile_rows.simps Let_def
    by (rule ends_bind [where f = "\<lambda>s. s"], simp add: external_simps split: option.split)
       (rule ends_bind [OF t], rule Cons.IH)
qed simp

lemma reconcile_ends: "ends (R P s) (\<lambda>s. s) (reconcile_stale_leases w m l mode s)"
  by (simp add: reconcile_stale_leases_def reconcile_rows_ends)

subsection \<open>Invocations\<close>

lemma materialized_ends: "ends (R P s) (\<lambda>s. s) (materialized w l v a s)"
  unfolding materialized_def external_def prod.case
  by (auto split: option.split intro: ends_after [OF observe control_ends] simp: observe)

lemma alias_object_ends: "ends (R P s) snd (snd (alias_object w l p b v s))"
proof (cases "acquire_capability w l p b v s")
  case (Inr x)
  have "ends (R P s1) snd (rbind (materialized w l v a s1) (\<lambda>s. Inr (acq_object a, s)))" for a s1
    by (rule ends_bind [OF materialized_ends]) simp
  then show ?thesis
    using acquire_ends [of P s p b v] Inr by (cases x) (auto simp: alias_object_def intro: ends_after)
qed (use acquire_ends [of P s p b v] in \<open>auto simp: alias_object_def\<close>)

lemma expose_one_ends: "ends (R P s) snd (snd (expose_one w l p b given s))"
proof -
  have "ends (R P s) snd (snd (case w_injected w (bound_capability b) of
      None \<Rightarrow> ([], Inl (ContractViolation ''admitted capability was not injected'', s))
    | Some v \<Rightarrow> (let (new, r) = alias_object w l p b v s in
        (new, rbind r (\<lambda>(x, s). case expose b x given of Inl e \<Rightarrow> Inl (e, s) | Inr given \<Rightarrow> Inr (given, s))))))" for s
    using alias_object_ends [of P s p b]
    by (auto split: option.split prod.split sum.split simp: split_beta intro!: ends_bind)
  then show ?thesis
    unfolding expose_one_def using control_ends [of P s] by (auto split: sum.split intro: ends_after)
qed

lemma expose_ends: "ends (R P s) snd (snd (expose_aliases w l p bs acquired given s))"
proof (induction bs arbitrary: acquired given s)
  case (Cons b bs)
  obtain new r where e: "expose_one w l p b given s = (new, r)" by force
  have "ends (R P s) snd r" using expose_one_ends [of P s p b given] by (simp add: e)
  then show ?case using Cons.IH by (cases r) (auto simp: e split: prod.splits intro: ends_after)
qed simp

lemma complete_ends: "p \<in> P \<Longrightarrow> ends (R P s) snd (complete_invocation w i l p ih raw s)"
  unfolding complete_invocation_def
  by (auto split: sum.splits intro!: ends_bind [OF ends_jwrite] owner_write.complete)

lemma body_ends: "p \<in> P \<Longrightarrow> ends (R P s) snd (snd (invocation_body w m i l p mode self ins ih s))"
proof -
  assume p: "p \<in> P"
  obtain acq given where e: "expose_aliases w l p (aliases_at m (inst_scope i)) [] ([], []) s = (acq, given)" by force
  have "ends (R P s) snd given" using expose_ends [of P s p "aliases_at m (inst_scope i)" "[]" "([], [])"] by (simp add: e)
  then show ?thesis
    unfolding invocation_body_def e Let_def prod.case snd_conv
    by (rule ends_bind) (auto split: prod.splits intro!: ends_bind [OF run_program_ends] complete_ends [OF p])
qed

lemma raised_ends: "ends (R P s) snd (invocation_raised w l acq e s)"
  unfolding invocation_raised_def
  by (cases e; cases "wk_lost s") (auto intro!: ends_relinquish ends_then_raise close_acquired_ends)

lemma invoke_ends:
  assumes p: "p \<in> P"
  shows "ends (R P s) snd (invoke w m i l p mode cmode ins ih s)"
proof -
  have b: "ends (R P s) snd (case invocation_body w m i l p mode self ins ih s of
      (acquired, Inl (e, s)) \<Rightarrow> invocation_raised w l acquired e s
    | (acquired, Inr (outs, s)) \<Rightarrow>
        rbind (close_acquired w l d None None acquired s) (\<lambda>s. Inr (outs, s)))" for self s d
  proof -
    obtain acq r where e: "invocation_body w m i l p mode self ins ih s = (acq, r)" by force
    have "ends (R P s) snd r" using body_ends [OF p, of s m i mode self ins ih] by (simp add: e)
    then show ?thesis
      by (cases r) (auto simp: e split: prod.splits intro: ends_after [OF _ raised_ends]
          ends_after [OF _ ends_bind [OF close_acquired_ends]])
  qed
  show ?thesis
    unfolding invoke_def
    by (rule ends_bind [OF ends_jwrite], rule owner_write.log, assumption)
       (auto split: option.splits intro: b)
qed

subsection \<open>Nodes, loops and units\<close>

lemma cleanup_raised_ends: "R P s (snd (cleanup_raised l p x ne s))"
proof (cases ne)
  case (Some original)
  have "ends (R P s) (\<lambda>s. s) (log_event l ''NodeFailed'' p (Some (jobj (error_json original))) s)" by (rule log_ends)
  then show ?thesis
    by (cases "log_event l ''NodeFailed'' p (Some (jobj (error_json original))) s")
       (auto simp: cleanup_raised_def Some split: option.split)
qed (simp add: cleanup_raised_def)

lemma ends_Inl: "ends Q f (Inl x) = Q (snd x)"
  by (cases x) simp

lemma node_raised_ends: "ends (R P s) (\<lambda>x. snd (snd x)) (node_raised l p vs e s)"
  by (cases e) (auto simp: node_raised_def Let_def ends_Inl cleanup_raised_ends intro!: ends_bind [OF log_ends])

lemma execute_or_restore_ends:
  assumes "p \<in> P"
  shows "ends (R P s) (\<lambda>x. snd (snd x)) (execute_or_restore w m l mode cmode bs i p vs s)"
proof -
  have n: "ends (R P s) (\<lambda>x. snd (snd x)) (case invoke w m i l p mode cmode ins ih s of
      Inl (e, s) \<Rightarrow> node_raised l p vs e s
    | Inr (outs, s) \<Rightarrow> rbind (pure_step (publish_atomic_outputs i outs vs) s) (\<lambda>vs. Inr (Done, vs, s)))" for ins ih
    by (auto intro!: ends_case [OF invoke_ends [OF assms]] node_raised_ends ends_pure_step split: prod.splits)
  show ?thesis
    unfolding execute_or_restore_def Let_def
    by (rule ends_pure_step) (auto split: option.splits intro!: n ends_bind [OF log_ends] ends_pure_step)
qed

end

locale walk_law = node_law +
  assumes noted: "R P s (note_failure k e s)" "R P s (note_blocked r s)" "R P s (note_parked u s)"
begin

lemma run_member_ends:
  assumes "member_path lp n sc \<in> P"
  shows "ends (R P s) snd (run_member w m l mode cmode bs by_scope producers lp n sc it s)"
  unfolding run_member_def Let_def
  by (rule ends_bind [OF control_ends])
     (auto split: option.splits prod.splits outcome.splits simp: noted
       intro!: ends_bind [OF execute_or_restore_ends [OF assms]] ends_after [OF noted(2) ends_bind [OF log_ends]]
         ends_after [OF noted(3) ends_bind [OF log_ends]] ends_bind [OF log_ends])

lemma run_members_ends:
  assumes "\<And>sc it s. sc \<in> set scs \<Longrightarrow> ends (R P s) snd (f sc it s)"
  shows "ends (R P s) snd (run_members f scs it s)"
  using assms
proof (induction scs arbitrary: it s)
  case (Cons sc scs)
  have "ends (R P s) snd (run_members f scs it s)" for it s by (rule Cons.IH) (use Cons.prems in auto)
  then show ?case
    unfolding run_members.simps
    by (intro ends_bind [OF Cons.prems]) (auto split: prod.splits option.splits)
qed simp

lemma run_iteration_ends:
  assumes "\<And>sc. sc \<in> set (member_order lp) \<Longrightarrow> member_path lp n sc \<in> P"
  shows "ends (R P s) snd (run_iteration w m l mode cmode bs by_scope producers lp outer previous n s)"
  unfolding run_iteration_def
  by (rule ends_bind [OF control_ends], rule ends_pure_step, simp)
     (rule run_members_ends [OF run_member_ends [OF assms]], simp_all)

lemma iterations_rest_ends:
  assumes IH: "\<And>previous executed s. ends (R P s) (\<lambda>x. snd (snd x)) (run_iterations f l lp outer ns previous executed s)"
    and "f previous n s0 = Inr (r, s)"
  shows "ends (R P s) (\<lambda>x. snd (snd x)) (run_iterations f l lp outer (n # ns) previous executed s0)"
  by (auto simp: assms(2) Let_def split: prod.splits option.splits sum.splits
       intro!: ends_after [OF noted(1) ends_bind [OF log_ends]] ends_bind [OF log_ends] IH ends_pure_step)

lemma run_iterations_ends:
  assumes "\<And>previous n s. n \<in> set ns \<Longrightarrow> ends (R P s) snd (f previous n s)"
  shows "ends (R P s) (\<lambda>x. snd (snd x)) (run_iterations f l lp outer ns previous executed s)"
  using assms
proof (induction ns arbitrary: previous executed s)
  case Nil
  then show ?case by (auto simp: Let_def intro!: ends_after [OF noted(3) ends_bind [OF log_ends]])
next
  case (Cons n ns)
  have IH: "ends (R P s) (\<lambda>x. snd (snd x)) (run_iterations f l lp outer ns previous executed s)" for previous executed s
    by (rule Cons.IH) (use Cons.prems in auto)
  have f: "ends (R P s) snd (f previous n s)" by (rule Cons.prems) simp
  show ?case
  proof (cases "f previous n s")
    case (Inl x)
    then show ?thesis using f by (cases x) simp
  next
    case (Inr x)
    then show ?thesis using ends_after [OF _ iterations_rest_ends [OF IH, of previous n s "fst x" "snd x"]] f by simp
  qed
qed

lemma execute_loop_ends:
  assumes "\<And>n sc. sc \<in> set (member_order lp) \<Longrightarrow> member_path lp n sc \<in> P"
  shows "ends (R P s) (\<lambda>x. snd (snd x)) (execute_loop w m l mode cmode bs by_scope lp outer s)"
  unfolding execute_loop_def
  by (rule ends_pure_step, simp, rule ends_pure_step, simp)
     (rule run_iterations_ends [OF run_iteration_ends [OF assms]], simp_all)

end


context walk_law
begin

text \<open>The checkpoints one unit of the walk may write.\<close>

lemma run_unit_ends:
  assumes "unit_paths u \<subseteq> P"
  shows "ends (R P (snd x)) snd (run_unit w m l mode cmode bs by_scope producers u x)"
proof -
  obtain us s where x: "x = (us, s)" by force
  have e: "ends (R P s) (\<lambda>x. snd (snd x)) (execute_or_restore w m l mode cmode bs i (path_of (unit_scope (AtomicUnit i)) []) vs s)"
    if "u = AtomicUnit i" for i vs s
    by (rule execute_or_restore_ends) (use assms that in \<open>simp add: unit_paths_def unit_scope_def\<close>)
  have lo: "ends (R P s) (\<lambda>x. snd (snd x)) (execute_loop w m l mode cmode bs by_scope lp vs s)" if "u = LoopUnit lp" for lp vs s
    by (rule execute_loop_ends) (use assms that in \<open>auto simp: unit_paths_def\<close>)
  show ?thesis
    unfolding run_unit_def x prod.case snd_conv Let_def
    by (rule ends_bind [OF control_ends], rule ends_if)
       (auto split: run_unit.splits prod.splits outcome.splits simp: noted
         intro!: ends_after [OF noted(2) ends_bind [OF log_ends]] ends_bind [OF e] ends_bind [OF lo])
qed

lemma run_units_ends:
  "(\<And>u. u \<in> set us \<Longrightarrow> unit_paths u \<subseteq> P) \<Longrightarrow>
   ends (R P (snd x)) snd (rfold (run_unit w m l mode cmode bs by_scope producers) us x)"
proof (induction us arbitrary: x)
  case (Cons u us)
  show ?case unfolding rfold.simps
    by (rule ends_bind [OF run_unit_ends]) (use Cons in auto)
qed simp

end

section \<open>The frame: what a walk leaves alone while it owns its run\<close>

definition held :: "run_lease \<Rightarrow> journal \<Rightarrow> bool" where
  "held l j \<longleftrightarrow> (\<exists>r. map_of (runs j) (lease_of l) = Some r \<and> holds l r)"

definition gone :: "run_lease \<Rightarrow> journal \<Rightarrow> bool" where
  "gone l j \<longleftrightarrow> (\<exists>r. map_of (runs j) (lease_of l) = Some r \<and> lease_epoch l < owner_epoch r)"

definition keeps :: "run_lease \<Rightarrow> execution_path set \<Rightarrow> journal \<Rightarrow> journal \<Rightarrow> bool" where
  "keeps l P j j' \<longleftrightarrow> grows j j' \<and> (held l j \<longrightarrow> gone l j' \<or>
     held l j' \<and> (\<forall>p. p \<notin> P \<longrightarrow> stored_checkpoint j' (lease_of l) p = stored_checkpoint j (lease_of l) p))"

lemma gone_not_held: "gone l j \<Longrightarrow> \<not> held l j"
  by (auto simp: gone_def held_def holds_def)

lemma gone_grows: "grows j j' \<Longrightarrow> gone l j \<Longrightarrow> gone l j'"
  unfolding gone_def using growsD(1) by (fastforce simp: row_grows_def)

lemma keeps_refl: "keeps l P j j"
  by (auto simp: keeps_def)

lemma keeps_trans: "keeps l P a b \<Longrightarrow> keeps l P b c \<Longrightarrow> keeps l P a c"
  unfolding keeps_def by (metis grows_trans gone_grows)

lemma keeps_mono: "keeps l P a b \<Longrightarrow> P \<subseteq> Q \<Longrightarrow> keeps l Q a b"
  unfolding keeps_def by blast

lemma path_key_eq [simp]: "path_key p = path_key q \<longleftrightarrow> p = q"
  by (auto simp: path_key_def canonical_json_inj path_norm_eq)

text \<open>A worker with another lease either works on another run or is not the owner, so it never touches these checkpoints.\<close>

inductive foreign_step :: "(nat list \<Rightarrow> string) \<Rightarrow> run_lease \<Rightarrow> journal \<Rightarrow> journal \<Rightarrow> bool" for sha l where
  other: "owner_step sha l' j j' \<Longrightarrow> l' \<noteq> l \<Longrightarrow> foreign_step sha l j j'"
| create: "create_run sha run m mh ih ins x j = Inr j' \<Longrightarrow> foreign_step sha l j j'"
| claim: "claim_run run owner ttl now n S j = Inr (l', j') \<Longrightarrow> foreign_step sha l j j'"
| cancel: "request_cancel run None j = Inr j' \<Longrightarrow> foreign_step sha l j j'"
| policy: "mint_policy_attestation sha ad j = Inr (a, j') \<Longrightarrow> foreign_step sha l j j'"

lemma foreign_journal_step: "foreign_step sha l j j' \<Longrightarrow> journal_step sha j j'"
  by (induction rule: foreign_step.induct) (auto intro: journal_op.intros)

definition quiet_world :: "world \<Rightarrow> run_lease \<Rightarrow> bool" where
  "quiet_world w l \<longleftrightarrow> (\<forall>n j. (foreign_step (w_sha w) l)\<^sup>*\<^sup>* j (w_others w n j))"

lemma other_lease: "held l j \<Longrightarrow> l' \<noteq> l \<Longrightarrow> lease_of l' = lease_of l \<Longrightarrow> owner_step sha l' j j' \<Longrightarrow> j' = j"
  unfolding held_def using stale_owner_op by (fastforce simp: holds_def)

lemma elsewhere_step:
  "owner_step sha l' j j' \<Longrightarrow> lease_of l' \<noteq> lease_of l \<Longrightarrow>
   held l j' = held l j \<and> stored_checkpoint j' (lease_of l) = stored_checkpoint j (lease_of l)"
  by (induction rule: owner_op.induct)
     (auto elim!: heartbeat_cases release_run_cases request_cancel_cases append_event_cases transition_run_cases
        record_completion_cases record_effect_prepared_cases record_effect_outcome_cases mint_attestation_cases
        record_capability_lease_cases transition_capability_lease_cases
      simp: held_def holds_def stored_checkpoint_def fun_eq_iff split: if_splits)

lemma claim_keeps: "claim_run run owner ttl now n S j = Inr (l', j') \<Longrightarrow> held l j \<Longrightarrow> gone l j' \<or> held l j' \<and> checkpoints j' = checkpoints j"
  by (auto elim!: claim_run_cases simp: gone_def held_def holds_def)

lemma foreign_keeps: "foreign_step sha l j j' \<Longrightarrow> keeps l {} j j'"
proof -
  assume f: "foreign_step sha l j j'"
  have g: "grows j j'" using f by (blast intro: foreign_journal_step journal_step_grows)
  have "gone l j' \<or> held l j' \<and> stored_checkpoint j' (lease_of l) = stored_checkpoint j (lease_of l)" if h: "held l j"
    using f h
  proof (induction rule: foreign_step.induct)
    case (other l' j j')
    then show ?case using elsewhere_step [OF other(1), of l] other_lease [OF other(3,2) _ other(1)] by (cases "lease_of l' = lease_of l") auto
  next
    case (claim run owner ttl now n S j l' j')
    then show ?case using claim_keeps [OF claim(1,2)] by (auto simp: stored_checkpoint_def)
  qed (auto elim!: create_run_cases request_cancel_cases mint_policy_attestation_cases
        simp: held_def holds_def stored_checkpoint_def)
  then show ?thesis using g by (auto simp: keeps_def)
qed

lemma foreign_steps_keep: "(foreign_step sha l)\<^sup>*\<^sup>* j j' \<Longrightarrow> keeps l P j j'"
  by (induction rule: rtranclp_induct) (auto intro: keeps_refl keeps_trans keeps_mono [OF foreign_keeps])

lemma owner_write_keeps:
  assumes "owner_write sha l P j j'"
  shows "keeps l P j j'"
proof -
  have "held l j \<Longrightarrow> held l j' \<and> (\<forall>p. p \<notin> P \<longrightarrow> stored_checkpoint j' (lease_of l) p = stored_checkpoint j (lease_of l) p)"
    using assms
    by (induction rule: owner_write.induct)
       (auto elim!: heartbeat_cases append_event_cases record_completion_cases record_effect_prepared_cases
          record_effect_outcome_cases mint_attestation_cases record_capability_lease_cases transition_capability_lease_cases
        simp: held_def holds_def fenced_def stored_checkpoint_def)
  then show ?thesis using owner_step_grows [OF owner_write_step [OF assms]] by (auto simp: keeps_def)
qed

text \<open>What \<^const>\<open>observe\<close> does to the tables: the steps of the others, and perhaps one heartbeat.\<close>

lemma observe_cases:
  obtains "wk_journal (observe w l s) = w_others w (wk_tick s) (wk_journal s)"
    | t n where "heartbeat l t n (w_others w (wk_tick s) (wk_journal s)) = Inr (wk_journal (observe w l s))"
proof (cases "wk_lost s = None \<and> w_beats w (wk_tick s)")
  case True
  then show ?thesis
    by (cases "heartbeat l (w_ttl w) (w_clock w (wk_tick s)) (w_others w (wk_tick s) (wk_journal s))")
       (auto simp: observe_def Let_def intro: that)
qed (auto simp: observe_def Let_def intro: that)

lemma observe_ledger [simp]: "wk_ledger (observe w l s) = wk_ledger s"
  by (auto simp: observe_def Let_def split: sum.split)

lemma note_journal [simp]:
  "wk_journal (note_failure k e s) = wk_journal s" "wk_journal (note_blocked r s) = wk_journal s" "wk_journal (note_parked u s) = wk_journal s"
  by (simp_all add: note_failure_def note_blocked_def note_parked_def)

interpretation wframe: walk_law w l "\<lambda>P s s'. quiet_world w l \<longrightarrow> keeps l P (wk_journal s) (wk_journal s')" for w l
proof
  show "quiet_world w l \<longrightarrow> keeps l P (wk_journal s) (wk_journal (observe w l s))" for P s
  proof
    assume "quiet_world w l"
    then have k: "keeps l P (wk_journal s) (w_others w (wk_tick s) (wk_journal s))"
      by (auto simp: quiet_world_def intro: foreign_steps_keep)
    show "keeps l P (wk_journal s) (wk_journal (observe w l s))"
      by (rule observe_cases [of w l s])
         (use k in \<open>auto intro: keeps_trans owner_write_keeps owner_write.beat\<close>)
  qed
qed (auto intro: keeps_refl keeps_trans keeps_mono owner_write_keeps)

section \<open>The ledger: nothing noted is taken back\<close>

definition clean :: "walk \<Rightarrow> bool" where
  "clean s \<longleftrightarrow> failures (wk_ledger s) = [] \<and> blocked (wk_ledger s) = [] \<and> parked (wk_ledger s) = []"

lemma dict_set_nonempty [simp]: "dict_set k v d \<noteq> []"
  by (cases d) (auto split: prod.splits)

lemma note_dirty [simp]: "\<not> clean (note_failure k e s)" "\<not> clean (note_blocked r s)" "\<not> clean (note_parked u s)"
  by (simp_all add: clean_def note_failure_def note_blocked_def note_parked_def)

interpretation wledger: walk_law w l "\<lambda>P s s'. clean s' \<longrightarrow> clean s" for w l
  by unfold_locales (auto simp: clean_def [of "observe _ _ _"], auto simp: clean_def)

text \<open>One node leaves the ledger to the walk around it.\<close>

definition same_ledger :: "walk \<Rightarrow> walk \<Rightarrow> bool" where
  "same_ledger s s' \<longleftrightarrow> wk_ledger s' = wk_ledger s"

interpretation wsilent: node_law w l "\<lambda>P. same_ledger" for w l
  by unfold_locales (simp_all add: same_ledger_def)

definition rooted :: "walk \<Rightarrow> bool" where
  "rooted s \<longleftrightarrow> failures (wk_ledger s) \<noteq> [] \<or> parked (wk_ledger s) \<noteq> []"

lemma note_roots [simp]: "rooted (note_failure k e s)" "rooted (note_blocked r s) = rooted s" "rooted (note_parked u s)"
  by (simp_all add: rooted_def note_failure_def note_blocked_def note_parked_def)

interpretation wroot: walk_law w l "\<lambda>P s s'. rooted s \<longrightarrow> rooted s'" for w l
  by unfold_locales (auto simp: rooted_def [of "observe _ _ _"], auto simp: rooted_def)

section \<open>Refinement: a walk takes steps of the journal\<close>

definition stepping_world :: "world \<Rightarrow> bool" where
  "stepping_world w \<longleftrightarrow> (\<forall>n j. journal_steps (w_sha w) j (w_others w n j))"

lemma quiet_stepping: "quiet_world w l \<Longrightarrow> stepping_world w"
  unfolding quiet_world_def stepping_world_def
  by (metis (no_types, lifting) foreign_journal_step rtranclp_mono [THEN predicate2D] predicate2I)

interpretation wsteps: walk_law w l "\<lambda>P s s'. stepping_world w \<longrightarrow> journal_steps (w_sha w) (wk_journal s) (wk_journal s')" for w l
proof
  show "stepping_world w \<longrightarrow> journal_steps (w_sha w) (wk_journal s) (wk_journal (observe w l s))" for s
  proof
    assume "stepping_world w"
    then have k: "journal_steps (w_sha w) (wk_journal s) (w_others w (wk_tick s) (wk_journal s))"
      by (simp add: stepping_world_def)
    show "journal_steps (w_sha w) (wk_journal s) (wk_journal (observe w l s))"
      by (rule observe_cases [of w l s])
         (use k in \<open>auto intro: rtranclp.rtrancl_into_rtrancl journal_op.own owner_op.beat\<close>)
  qed
next
  fix P s j assume "owner_write (w_sha w) l P (wk_journal s) j"
  then show "stepping_world w \<longrightarrow> journal_steps (w_sha w) (wk_journal s) (wk_journal (s\<lparr>wk_journal := j\<rparr>))"
    using journal_op.own [OF owner_write_step] by auto
qed auto

end
