(* ===== verification/Replay.thy ===== *)
theory Replay
  imports Walk_Laws
begin

text \<open>
  Replaying a walk from its checkpoints. While a walk owns its run, what it computes for a node, an iteration, a loop and
  a unit is what the restoring functions of the walker compute from the checkpoints it leaves behind.
  The lemmas assume that ownership was not lost in between (\<^term>\<open>\<not> gone l j\<close> of the journal left behind), which the
  terminal transition of a successful run establishes.
\<close>

section \<open>One node\<close>

lemma frameD:
  assumes "ends (\<lambda>s'. quiet_world w l \<longrightarrow> keeps l P (wk_journal s) (wk_journal s')) f r" "quiet_world w l" "r = Inr x"
  shows "keeps l P (wk_journal s) (wk_journal (f x))"
  using assms by simp

lemma keeps_growsD: "keeps l P j j' \<Longrightarrow> grows j j'"
  by (simp add: keeps_def)

lemma keepsD:
  assumes "keeps l P j j'" "held l j" "\<not> gone l j'"
  shows "held l j'" "p \<notin> P \<Longrightarrow> stored_checkpoint j' (lease_of l) p = stored_checkpoint j (lease_of l) p"
  using assms by (auto simp: keeps_def)

lemma not_gone_before: "keeps l P j j' \<Longrightarrow> \<not> gone l j' \<Longrightarrow> \<not> gone l j"
  using gone_grows keeps_growsD by blast

lemma complete_done:
  assumes "complete_invocation w i l p ih raw s = Inr (outs, s')" "stored_checkpoint (wk_journal s) (lease_of l) p = None"
  shows "stored_checkpoint (wk_journal s') (lease_of l) p
    = Some \<lparr>cp_run = lease_of l, cp_path = p, cp_input_hash = ih, cp_version = Some (inst_version i), cp_outputs = outs\<rparr>"
  using assms
  by (auto simp: complete_invocation_def jwrite_def result_simps stored_checkpoint_def
           elim!: record_completion_cases split: sum.splits)

lemma body_done:
  assumes b: "invocation_body w m i l p mode self ins ih s = (acq, Inr (outs, s'))" and q: "quiet_world w l"
  obtains raw s1 where "keeps l {} (wk_journal s) (wk_journal s1)" "complete_invocation w i l p ih raw s1 = Inr (outs, s')"
proof -
  obtain acq given where e: "expose_aliases w l p (aliases_at m (inst_scope i)) [] ([], []) s = (acq, given)" by force
  from b obtain chans caps s1 raw s2 prog where
    1: "given = Inr ((chans, caps), s1)" and 2: "run_program w m l p mode chans prog s1 = Inr (raw, s2)"
    and 3: "complete_invocation w i l p ih raw s2 = Inr (outs, s')"
    by (auto simp: invocation_body_def e Let_def result_simps)
  have "keeps l {} (wk_journal s) (wk_journal s1)"
    using wframe.expose_ends [where w = w and l = l and P = "{}" and s = s and p = p and bs = "aliases_at m (inst_scope i)"
        and acquired = "[]" and given = "([], [])"] q e 1 by simp
  moreover have "keeps l {} (wk_journal s1) (wk_journal s2)" using frameD [OF wframe.run_program_ends q 2] by simp
  ultimately show thesis using that 3 by (blast intro: keeps_trans)
qed

lemma invocation_raised_raises: "invocation_raised w l acq e s \<noteq> Inr x"
  by (cases e; cases "wk_lost s") (auto simp: invocation_raised_def result_simps split: prod.splits)

lemma invoke_done:
  assumes i: "invoke w m i l p mode cmode ins ih s = Inr (outs, s')" and q: "quiet_world w l"
    and h: "held l (wk_journal s)" "stored_checkpoint (wk_journal s) (lease_of l) p = None" "\<not> gone l (wk_journal s')"
  shows "stored_checkpoint (wk_journal s') (lease_of l) p
    = Some \<lparr>cp_run = lease_of l, cp_path = p, cp_input_hash = ih, cp_version = Some (inst_version i), cp_outputs = outs\<rparr>"
proof -
  from i obtain s1 self where 1: "jwrite (append_event l ''NodeStarted'' (Some p) None) s = Inr s1"
    and self: "map_of (self_grants m) (inst_scope i) = Some self"
    by (auto simp: invoke_def result_simps split: option.splits)
  obtain acq r where r: "invocation_body w m i l p mode self ins ih s1 = (acq, r)" by force
  from i 1 self r obtain s2 d where 2: "invocation_body w m i l p mode self ins ih s1 = (acq, Inr (outs, s2))"
    and 3: "close_acquired w l d None None acq s2 = Inr s'"
    by (cases r) (auto simp: invoke_def result_simps invocation_raised_raises)
  obtain raw s3 where b: "keeps l {} (wk_journal s1) (wk_journal s3)" and c: "complete_invocation w i l p ih raw s3 = Inr (outs, s2)"
    using body_done [OF 2 q] .
  have "log_event l ''NodeStarted'' p None s = Inr s1" using 1 by (simp add: log_event_def)
  then have k: "keeps l {} (wk_journal s) (wk_journal s3)" using frameD [OF wframe.log_ends q] b keeps_trans by blast
  have c': "keeps l {p} (wk_journal s3) (wk_journal s2)" using frameD [OF wframe.complete_ends q c, of "{p}"] by simp
  have d: "keeps l {} (wk_journal s2) (wk_journal s')" using frameD [OF wframe.close_acquired_ends q 3] by simp
  have "\<not> gone l (wk_journal s3)" using not_gone_before [OF c'] not_gone_before [OF d] h(3) by blast
  then have "stored_checkpoint (wk_journal s3) (lease_of l) p = None" using keepsD(2) [OF k h(1)] h(2) by simp
  from growsD(2) [OF keeps_growsD [OF d] complete_done [OF c this]] show ?thesis .
qed

lemma node_raised_not_done: "node_raised l p vs e s \<noteq> Inr (Done, x)"
  by (cases e) (auto simp: node_raised_def Let_def result_simps)

lemma execute_or_restore_done:
  assumes e: "execute_or_restore w m l mode cmode bs i p vs s = Inr (Done, vs', s')" and q: "quiet_world w l"
    and h: "held l (wk_journal s)" "\<not> gone l (wk_journal s')"
  obtains c where "stored_checkpoint (wk_journal s') (lease_of l) p = Some c" "restore_checked_checkpoint (w_sha w) bs i c vs = Inr vs'"
proof -
  from e obtain ins where ins: "node_inputs i vs bs = Inr ins"
    by (auto simp: execute_or_restore_def pure_step_def result_simps split: sum.splits)
  show thesis
  proof (cases "stored_checkpoint (wk_journal s) (lease_of l) p")
    case (Some c)
    then obtain s1 where l: "log_event l ''NodeRestored'' p None s = Inr s1" and s': "s' = s1"
      and v: "cp_input_hash c = inputs_hash (w_sha w) ins" "cp_version c = Some (inst_version i)"
        "publish_atomic_outputs i (cp_outputs c) vs = Inr vs'"
      using e ins by (auto simp: execute_or_restore_def pure_step_def result_simps split: sum.splits if_splits)
    have "stored_checkpoint (wk_journal s') (lease_of l) p = Some c"
      using growsD(2) [OF keeps_growsD [OF frameD [OF wframe.log_ends q l]] Some] by (simp add: s')
    then show thesis using that v ins by (simp add: restore_checked_checkpoint_def)
  next
    case None
    then obtain outs s1 where i: "invoke w m i l p mode cmode ins (inputs_hash (w_sha w) ins) s = Inr (outs, s1)"
      and s': "s' = s1" "publish_atomic_outputs i outs vs = Inr vs'"
      using e ins by (auto simp: execute_or_restore_def pure_step_def result_simps node_raised_not_done Let_def split: sum.splits)
    from invoke_done [OF i q h(1) None] h(2) s' ins show thesis
      by (intro that) (auto simp: restore_checked_checkpoint_def)
  qed
qed

section \<open>One iteration of a loop\<close>

lemma ledgerD:
  assumes "ends (\<lambda>s'. clean s' \<longrightarrow> clean s) f r" "r = Inr x" "\<not> clean s"
  shows "\<not> clean (f x)"
  using assms by simp

lemma run_member_done:
  assumes r: "run_member w m l mode cmode bs by_scope producers lp n sc it s = Inr (r, s')" and q: "quiet_world w l"
    and h: "held l (wk_journal s)" "\<not> gone l (wk_journal s')" "clean s'" "\<not> it_failed it"
  obtains it' i c where "r = Some it'" "\<not> it_failed it'" "map_of by_scope sc = Some i"
    "stored_checkpoint (wk_journal s') (lease_of l) (member_path lp n sc) = Some c"
    "restore_checked_checkpoint (w_sha w) bs i c (it_values it) = Inr (it_values it')"
proof -
  from r obtain s1 i where c: "check_run_control w l s = Inr s1" and i: "map_of by_scope sc = Some i"
    by (auto simp: run_member_def result_simps split: option.splits)
  let ?report = "member_dependency_report i (frame lp n) bs producers (it_statuses it)"
  have nb: "\<not> report_blocked ?report"
    using r h(3) ledgerD [OF wledger.log_ends] by (auto simp: run_member_def result_simps c i Let_def)
  from r obtain out vs s2 where e: "execute_or_restore w m l mode cmode bs i (member_path lp n sc) (it_values it) s1 = Inr (out, vs, s2)"
    by (auto simp: run_member_def result_simps c i Let_def nb h(4))
  have out: "out = Done"
    using r h(3) ledgerD [OF wledger.log_ends] by (cases out) (auto simp: run_member_def result_simps c i Let_def nb h(4) e)
  have s2: "s2 = s'" and r': "\<exists>it'. r = Some it' \<and> it_values it' = vs \<and> \<not> it_failed it'"
    using r by (auto simp: run_member_def result_simps c i Let_def nb h(4) e out)
  have k: "keeps l {member_path lp n sc} (wk_journal s1) (wk_journal s')"
    using frameD [OF wframe.execute_or_restore_ends q e] s2 by simp
  have "held l (wk_journal s1)"
    using keepsD(1) [OF frameD [OF wframe.control_ends q c] h(1)] not_gone_before [OF k h(2)] by simp
  then show thesis
    using execute_or_restore_done [OF e [unfolded out s2] q _ h(2)] that r' i by metis
qed

lemma run_members_done:
  assumes "run_members (run_member w m l mode cmode bs by_scope producers lp n) scs it s = Inr (r, s')" and q: "quiet_world w l"
    and "held l (wk_journal s)" and g: "\<not> gone l (wk_journal s')" and c: "clean s'" and "\<not> it_failed it"
  shows "\<exists>it'. r = Some it' \<and> \<not> it_failed it'
    \<and> (\<forall>sc\<in>set scs. stored_checkpoint (wk_journal s') (lease_of l) (member_path lp n sc) \<noteq> None)
    \<and> restore_members (w_sha w) bs by_scope
        (zip scs (map (\<lambda>sc. stored_checkpoint (wk_journal s') (lease_of l) (member_path lp n sc)) scs)) (it_values it)
      = Inr (it_values it')"
  using assms(1,3,6)
proof (induction scs arbitrary: it s)
  case (Cons sc scs)
  let ?f = "run_member w m l mode cmode bs by_scope producers lp n"
  from Cons.prems(1) obtain r1 s1 where f: "?f sc it s = Inr (r1, s1)"
    and rest: "(case r1 of None \<Rightarrow> Inr (None, s1) | Some it \<Rightarrow> run_members ?f scs it s1) = Inr (r, s')"
    by (auto simp: result_simps)
  have a: "ends (\<lambda>s'. quiet_world w l \<longrightarrow> keeps l UNIV (wk_journal s1) (wk_journal s')) snd (run_members ?f scs it1 s1)" for it1
    by (rule wframe.run_members_ends, rule wframe.run_member_ends, rule UNIV_I)
  have b: "ends (\<lambda>s'. clean s' \<longrightarrow> clean s1) snd (run_members ?f scs it1 s1)" for it1
    by (rule wledger.run_members_ends, rule wledger.run_member_ends, rule UNIV_I)
  have tail: "run_members ?f scs it1 s1 = Inr x \<Longrightarrow> keeps l UNIV (wk_journal s1) (wk_journal (snd x)) \<and> (clean (snd x) \<longrightarrow> clean s1)" for it1 x
    using a [of it1] b [of it1] q by simp
  have "\<not> gone l (wk_journal s1)" "clean s1"
    using rest g c tail not_gone_before by (auto split: option.splits dest!: tail)
  obtain it1 i ch where m: "r1 = Some it1" "\<not> it_failed it1" "map_of by_scope sc = Some i"
    "stored_checkpoint (wk_journal s1) (lease_of l) (member_path lp n sc) = Some ch"
    "restore_checked_checkpoint (w_sha w) bs i ch (it_values it) = Inr (it_values it1)"
    using run_member_done [OF f q Cons.prems(2) \<open>\<not> gone l (wk_journal s1)\<close> \<open>clean s1\<close> Cons.prems(3)] .
  have t: "run_members ?f scs it1 s1 = Inr (r, s')" using rest m(1) by simp
  have "held l (wk_journal s1)"
    using keepsD(1) [OF frameD [OF wframe.run_member_ends [OF UNIV_I] q f] Cons.prems(2)] \<open>\<not> gone l (wk_journal s1)\<close> by simp
  from Cons.IH [OF t this m(2)] growsD(2) [OF keeps_growsD [OF conjunct1 [OF tail [OF t]]] m(4)] m(3,5)
  show ?case by auto
qed auto


lemma pure_step_Inr [result_simps]: "pure_step r s = Inr a \<longleftrightarrow> r = Inr a"
  by (cases r) (simp_all add: pure_step_def)

lemma run_iteration_done:
  assumes r: "run_iteration w m l mode cmode bs by_scope producers lp outer previous n s = Inr (r, s')" and q: "quiet_world w l"
    and h: "held l (wk_journal s)" "\<not> gone l (wk_journal s')" "clean s'"
  obtains it vs where "r = Some it" "\<not> it_failed it" "seed_loop_iteration lp n outer previous = Inr vs"
    "list_all (\<lambda>c. c \<noteq> None) (iteration_row (wk_journal s') (lease_of l) lp n)"
    "restore_members (w_sha w) bs by_scope (zip (member_order lp) (iteration_row (wk_journal s') (lease_of l) lp n)) vs
       = Inr (it_values it)"
proof -
  let ?it = "\<lambda>vs. \<lparr>it_values = vs, it_statuses = [], it_failed = False, it_restored = True\<rparr>"
  from r obtain s1 vs where c: "check_run_control w l s = Inr s1" and vs: "seed_loop_iteration lp n outer previous = Inr vs"
    and m: "run_members (run_member w m l mode cmode bs by_scope producers lp n) (member_order lp) (?it vs) s1 = Inr (r, s')"
    by (auto simp: run_iteration_def result_simps)
  have "ends (\<lambda>s'. quiet_world w l \<longrightarrow> keeps l UNIV (wk_journal s1) (wk_journal s')) snd
      (run_members (run_member w m l mode cmode bs by_scope producers lp n) (member_order lp) (?it vs) s1)"
    by (rule wframe.run_members_ends, rule wframe.run_member_ends, rule UNIV_I)
  then have "\<not> gone l (wk_journal s1)" using m q h(2) not_gone_before by force
  then have "held l (wk_journal s1)" using keepsD(1) [OF frameD [OF wframe.control_ends q c] h(1)] by simp
  from run_members_done [OF m q this h(2,3)] vs that show thesis
    by (auto simp: iteration_row_def list_all_iff)
qed

section \<open>Loop histories\<close>

lemma some_present_simps [simp]: "some_present [] = False" "some_present (r # rs) \<longleftrightarrow> list_ex (\<lambda>c. c \<noteq> None) r \<or> some_present rs"
  by (simp_all add: some_present_def)

text \<open>Rows without a checkpoint are an admissible rest of a history.\<close>

lemma inspect_absent: "\<not> some_present rows \<Longrightarrow> \<exists>h. inspect_rows sha lp outer by_scope bs False n previous rows = Inr h"
  by (cases rows) auto

lemma list_all_present: "list_all (\<lambda>c. c \<noteq> None) row \<Longrightarrow> \<not> gap row"
  by (induction row) (auto simp: gap_def)

text \<open>
  An admissible history stays admissible when its first row is completed: a complete row decides as it did before, and
  behind an incomplete row nothing is stored.
\<close>

lemma inspect_step:
  assumes "inspect_rows sha lp outer by_scope bs False n previous (row # later) = Inr h"
    and "seed_loop_iteration lp n outer previous = Inr vs0"
    and "restore_members sha bs by_scope (zip (member_order lp) row') vs0 = Inr vs" "loop_decision lp vs = Inr d"
    and "list_all (\<lambda>c. c \<noteq> None) row \<Longrightarrow> row' = row"
  shows "if d then \<exists>h'. inspect_rows sha lp outer by_scope bs False (Suc n) (Some vs) later = Inr h' else \<not> some_present later"
proof (cases "list_ex (\<lambda>c. c \<noteq> None) row \<and> list_all (\<lambda>c. c \<noteq> None) row")
  case True
  then show ?thesis using assms by (auto simp: result_simps list_all_present split: if_splits)
next
  case False
  then have "\<not> some_present later" using assms(1) by (auto simp: result_simps split: if_splits)
  then show ?thesis by (auto intro: inspect_absent)
qed

text \<open>One complete iteration of a terminal inspection.\<close>

lemma inspect_complete:
  assumes "row \<noteq> []" "list_all (\<lambda>c. c \<noteq> None) row" "seed_loop_iteration lp n outer previous = Inr vs0"
    and "restore_members sha bs by_scope (zip (member_order lp) row) vs0 = Inr vs" "loop_decision lp vs = Inr d"
  shows "inspect_rows sha lp outer by_scope bs True n previous (row # later) =
    (if d then inspect_rows sha lp outer by_scope bs True (Suc n) (Some vs) later
     else if some_present later then Inl (JournalDamaged ''checkpoints after a terminal decision'')
     else Inr \<lparr>hist_completed = Suc n, hist_terminal = Some n, hist_exhausted = False, hist_values = Some vs\<rparr>)"
proof -
  have "list_ex (\<lambda>c. c \<noteq> None) row" using assms(1,2) by (cases row) auto
  then show ?thesis using assms by (simp add: list_all_present)
qed

lemma iteration_row_cong:
  "(\<And>sc. stored_checkpoint j run (member_path lp n sc) = stored_checkpoint j' run (member_path lp n sc)) \<Longrightarrow>
   iteration_row j run lp n = iteration_row j' run lp n"
  by (simp add: iteration_row_def)

lemma iteration_row_full:
  "list_all (\<lambda>c. c \<noteq> None) (iteration_row j run lp n) \<Longrightarrow> grows j j' \<Longrightarrow> iteration_row j' run lp n = iteration_row j run lp n"
  by (auto simp: iteration_row_def list_all_iff growsD(2))

lemma member_path_eq: "member_path lp n sc = member_path lp n' sc' \<longleftrightarrow> n = n' \<and> sc = sc'"
  by (auto simp: member_path_def path_of_def frame_def)

lemma run_iterations_done:
  assumes f_def: "f = run_iteration w m l mode cmode bs by_scope producers lp outer"
    and r: "run_iterations f l lp outer [n..<loop_max lp] previous executed s = Inr (st, outer', s')" and q: "quiet_world w l"
    and h: "held l (wk_journal s)" and g: "\<not> gone l (wk_journal s')" and c: "clean s'" and ne: "member_order lp \<noteq> []"
    and i: "inspect_rows (w_sha w) lp outer by_scope bs False n previous
              (map (iteration_row (wk_journal s) (lease_of l) lp) [n..<loop_max lp]) = Inr hist"
    and j: "\<And>k. iteration_row j (lease_of l) lp k = iteration_row (wk_journal s') (lease_of l) lp k"
  shows "st = Completed \<and> (\<exists>h' k vs.
    inspect_rows (w_sha w) lp outer by_scope bs True n previous (map (iteration_row j (lease_of l) lp) [n..<loop_max lp]) = Inr h'
    \<and> hist_terminal h' = Some k \<and> hist_values h' = Some vs \<and> publish_loop_exports lp vs outer = Inr outer')"
  using r h i
proof (induction "loop_max lp - n" arbitrary: n previous executed s hist)
  case 0
  then show ?case using c ledgerD [OF wledger.log_ends] by (auto simp: Let_def result_simps)
next
  case (Suc d)
  then have up: "[n..<loop_max lp] = n # [Suc n..<loop_max lp]" by (simp add: upt_conv_Cons)
  let ?row = "\<lambda>s. iteration_row (wk_journal s) (lease_of l) lp"
  from Suc.prems(1) obtain r1 s1 where f: "f previous n s = Inr (r1, s1)" by (auto simp: up result_simps)
  have fe: "ends (\<lambda>s'. quiet_world w l \<longrightarrow> keeps l UNIV (wk_journal s) (wk_journal s')) snd (f previous n s)" for previous n s
    unfolding f_def by (rule wframe.run_iteration_ends) simp
  have le: "ends (\<lambda>s'. clean s' \<longrightarrow> clean s) snd (f previous n s)" for previous n s
    unfolding f_def by (rule wledger.run_iteration_ends [where P = UNIV]) simp
  have k1: "keeps l {p. \<exists>sc. p = member_path lp n sc} (wk_journal s) (wk_journal s1)"
    by (rule frameD [OF wframe.run_iteration_ends q f [unfolded f_def], unfolded snd_conv]) auto
  have fr: "ends (\<lambda>s'. quiet_world w l \<longrightarrow> keeps l UNIV (wk_journal s) (wk_journal s')) (\<lambda>x. snd (snd x))
      (run_iterations f l lp outer ns previous executed s)" for ns previous executed s
    by (rule wframe.run_iterations_ends, rule fe)
  have lr: "ends (\<lambda>s'. clean s' \<longrightarrow> clean s) (\<lambda>x. snd (snd x)) (run_iterations f l lp outer ns previous executed s)"
    for ns previous executed s
    by (rule wledger.run_iterations_ends, rule le)
  have "keeps l UNIV (wk_journal s1) (wk_journal s')"
    using frameD [OF wframe.iterations_rest_ends [OF fr f] q Suc.prems(1) [unfolded up]] by simp
  moreover have "clean s1"
    using ends_InrD [OF wledger.iterations_rest_ends [OF lr f] Suc.prems(1) [unfolded up]] c by simp
  ultimately have 1: "\<not> gone l (wk_journal s1)" "clean s1" "grows (wk_journal s1) (wk_journal s')"
    using g not_gone_before keeps_growsD by blast+
  obtain it vs where it: "r1 = Some it" "\<not> it_failed it" "seed_loop_iteration lp n outer previous = Inr vs"
    "list_all (\<lambda>c. c \<noteq> None) (?row s1 n)"
    "restore_members (w_sha w) bs by_scope (zip (member_order lp) (?row s1 n)) vs = Inr (it_values it)"
    using run_iteration_done [OF f [unfolded f_def] q Suc.prems(2) 1(1,2)] .
  have later: "map (?row s1) [Suc n..<loop_max lp] = map (?row s) [Suc n..<loop_max lp]"
    using keepsD(2) [OF k1 Suc.prems(2) 1(1)] by (auto simp: member_path_eq intro: iteration_row_cong)
  have jn: "iteration_row j (lease_of l) lp n = ?row s1 n" "?row s1 n \<noteq> []"
    using j iteration_row_full [OF it(4) 1(3)] ne by (simp_all add: iteration_row_def)
  obtain d where d: "loop_decision lp (it_values it) = Inr d"
    using Suc.prems(1) c ledgerD [OF wledger.log_ends] by (auto simp: up f it(1,2) Let_def result_simps split: sum.splits)
  have h1: "held l (wk_journal s1)" using keepsD(1) [OF k1 Suc.prems(2) 1(1)] .
  have step: "if d then \<exists>h'. inspect_rows (w_sha w) lp outer by_scope bs False (Suc n) (Some (it_values it))
        (map (?row s) [Suc n..<loop_max lp]) = Inr h' else \<not> some_present (map (?row s) [Suc n..<loop_max lp])"
    by (rule inspect_step [OF Suc.prems(3) [unfolded up list.map] it(3,5) d])
       (metis iteration_row_full keeps_growsD [OF k1])
  note jn' = inspect_complete [OF jn(2) it(4,3,5) d, folded jn(1)]
  show ?case
  proof (cases d)
    case True
    from Suc.prems(1) obtain k x s2 e where s2: "log_event l k (path_of (loop_scope lp) [frame lp n]) x s1 = Inr s2"
      and r2: "run_iterations f l lp outer [Suc n..<loop_max lp] (Some (it_values it)) e s2 = Inr (st, outer', s')"
      by (auto simp: up f it(1,2) d True Let_def result_simps)
    have k2: "keeps l {} (wk_journal s1) (wk_journal s2)" using frameD [OF wframe.log_ends q s2] by simp
    have g2: "\<not> gone l (wk_journal s2)" using frameD [OF fr q r2] g not_gone_before by auto
    have rows: "map (?row s2) [Suc n..<loop_max lp] = map (?row s) [Suc n..<loop_max lp]"
      using keepsD(2) [OF k2 h1 g2] later by (simp add: iteration_row_def)
    from step True obtain h' where "inspect_rows (w_sha w) lp outer by_scope bs False (Suc n) (Some (it_values it))
        (map (?row s2) [Suc n..<loop_max lp]) = Inr h'" unfolding rows by auto
    from Suc.hyps(1) [OF _ r2 keepsD(1) [OF k2 h1 g2] this] Suc.hyps(2) show ?thesis
      unfolding up list.map jn' using True by simp
  next
    case False
    from Suc.prems(1) obtain k x s2 k' x' p' where s2: "log_event l k (path_of (loop_scope lp) [frame lp n]) x s1 = Inr s2"
      and o: "publish_loop_exports lp (it_values it) outer = Inr outer'" "log_event l k' p' x' s2 = Inr s'" and st: "st = Completed"
      by (auto simp: up f it(1,2) d False Let_def result_simps)
    have "keeps l {} (wk_journal s1) (wk_journal s')"
      using keeps_trans [OF frameD [OF wframe.log_ends q s2] frameD [OF wframe.log_ends q o(2)]] by simp
    from keepsD(2) [OF this h1 g] have rows: "map (iteration_row j (lease_of l) lp) [Suc n..<loop_max lp] = map (?row s) [Suc n..<loop_max lp]"
      using j later by (simp add: iteration_row_def)
    show ?thesis unfolding up list.map jn' rows using step False o(1) st by simp
  qed
qed

section \<open>Units\<close>

lemma execute_loop_done:
  assumes r: "execute_loop w m l mode cmode bs by_scope lp outer s = Inr (st, outer', s')" and q: "quiet_world w l"
    and h: "held l (wk_journal s)" "\<not> gone l (wk_journal s')" "clean s'" and ne: "member_order lp \<noteq> []"
    and j: "\<And>p. p \<in> unit_paths (LoopUnit lp) \<Longrightarrow> stored_checkpoint j (lease_of l) p = stored_checkpoint (wk_journal s') (lease_of l) p"
  shows "materialize_unit (w_sha w) j (lease_of l) bs by_scope (LoopUnit lp) outer = Inr outer'"
proof -
  from r obtain hist producers where
    i: "inspect_loop_history (w_sha w) (wk_journal s) (lease_of l) lp outer by_scope bs False = Inr hist"
    and r': "run_iterations (run_iteration w m l mode cmode bs by_scope producers lp outer) l lp outer [0..<loop_max lp] None False s
      = Inr (st, outer', s')"
    by (auto simp: execute_loop_def result_simps)
  have "iteration_row j (lease_of l) lp k = iteration_row (wk_journal s') (lease_of l) lp k" for k
    by (rule iteration_row_cong, rule j) (auto simp: unit_paths_def)
  from run_iterations_done [OF HOL.refl r' q h ne i [unfolded inspect_loop_history_def] this] show ?thesis
    by (auto simp: materialize_unit_def inspect_loop_history_def)
qed

lemma run_unit_done:
  assumes r: "run_unit w m l mode cmode bs by_scope producers u (us, s) = Inr (us', s')" and q: "quiet_world w l"
    and h: "held l (wk_journal s)" "\<not> gone l (wk_journal s')" "clean s'" and ne: "\<And>lp. u = LoopUnit lp \<Longrightarrow> member_order lp \<noteq> []"
    and j: "\<And>p. p \<in> unit_paths u \<Longrightarrow> stored_checkpoint j (lease_of l) p = stored_checkpoint (wk_journal s') (lease_of l) p"
  shows "materialize_unit (w_sha w) j (lease_of l) bs by_scope u (us_values us) = Inr (us_values us')"
proof -
  from r obtain s1 where c: "check_run_control w l s = Inr s1" by (auto simp: run_unit_def result_simps)
  let ?report = "unit_dependency_report u bs producers (us_statuses us)"
  have nb: "\<not> report_blocked ?report"
    using r h(3) ledgerD [OF wledger.log_ends] by (auto simp: run_unit_def result_simps c Let_def)
  show ?thesis
  proof (cases u)
    case u: (AtomicUnit i)
    from r obtain out vs s2 where e: "execute_or_restore w m l mode cmode bs i (path_of (unit_scope u) []) (us_values us) s1 = Inr (out, vs, s2)"
      by (auto simp: run_unit_def result_simps c Let_def nb [unfolded u] u)
    have out: "out = Done" using r h(3) by (cases out) (auto simp: run_unit_def result_simps c Let_def nb [unfolded u] u e [unfolded u])
    have s2: "s2 = s'" "us_values us' = vs" using r by (auto simp: run_unit_def result_simps c Let_def nb [unfolded u] u e [unfolded u] out)
    have k: "keeps l UNIV (wk_journal s1) (wk_journal s')" using frameD [OF wframe.execute_or_restore_ends q e] s2(1) by simp
    have h1: "held l (wk_journal s1)"
      using keepsD(1) [OF frameD [OF wframe.control_ends q c] h(1)] not_gone_before [OF k h(2)] by simp
    obtain ch where "stored_checkpoint (wk_journal s') (lease_of l) (path_of (unit_scope u) []) = Some ch"
      "restore_checked_checkpoint (w_sha w) bs i ch (us_values us) = Inr vs"
      using execute_or_restore_done [OF e [unfolded out s2(1)] q h1 h(2)] .
    then show ?thesis using j [of "path_of (inst_scope i) []"] s2(2) by (simp add: u materialize_unit_def unit_paths_def unit_scope_def)
  next
    case u: (LoopUnit lp)
    from r obtain st vs where e: "execute_loop w m l mode cmode bs by_scope lp (us_values us) s1 = Inr (st, vs, s')"
      and vs: "us_values us' = vs"
      by (auto simp: run_unit_def result_simps c Let_def nb [unfolded u] u)
    have k: "keeps l UNIV (wk_journal s1) (wk_journal s')" using frameD [OF wframe.execute_loop_ends q e] by simp
    have h1: "held l (wk_journal s1)"
      using keepsD(1) [OF frameD [OF wframe.control_ends q c] h(1)] not_gone_before [OF k h(2)] by simp
    show ?thesis using execute_loop_done [OF e q h1 h(2,3) ne [OF u]] j vs u by simp
  qed
qed

lemma unit_paths_disjoint: "unit_scope u \<noteq> unit_scope v \<Longrightarrow> unit_paths u \<inter> unit_paths v = {}"
  by (cases u; cases v) (auto simp: unit_paths_def unit_scope_def member_path_def path_of_def frame_def)

lemma run_units_done:
  assumes q: "quiet_world w l" and g: "\<not> gone l (wk_journal s')" and c: "clean s'"
    and j: "\<And>p. stored_checkpoint j (lease_of l) p = stored_checkpoint (wk_journal s') (lease_of l) p"
  shows "rfold (run_unit w m l mode cmode bs by_scope producers) units (us, s) = Inr (us', s') \<Longrightarrow> held l (wk_journal s) \<Longrightarrow>
    distinct (map unit_scope units) \<Longrightarrow> (\<And>lp. LoopUnit lp \<in> set units \<Longrightarrow> member_order lp \<noteq> []) \<Longrightarrow>
    rfold (materialize_unit (w_sha w) j (lease_of l) bs by_scope) units (us_values us) = Inr (us_values us')"
proof (induction units arbitrary: us s)
  case (Cons u units)
  let ?f = "run_unit w m l mode cmode bs by_scope producers"
  from Cons.prems(1) obtain us1 s1 where f: "?f u (us, s) = Inr (us1, s1)" and rest: "rfold ?f units (us1, s1) = Inr (us', s')"
    by (auto simp: result_simps)
  have "ends (\<lambda>s'. quiet_world w l \<longrightarrow> keeps l (\<Union> (unit_paths ` set units)) (wk_journal s1) (wk_journal s')) snd (rfold ?f units (us1, s1))"
    by (rule wframe.run_units_ends [where x = "(us1, s1)", unfolded snd_conv]) auto
  then have k: "keeps l (\<Union> (unit_paths ` set units)) (wk_journal s1) (wk_journal s')" using rest q by simp
  have "ends (\<lambda>s'. clean s' \<longrightarrow> clean s1) snd (rfold ?f units (us1, s1))"
    by (rule wledger.run_units_ends [where x = "(us1, s1)" and P = UNIV, unfolded snd_conv]) auto
  then have c1: "clean s1" using rest c by simp
  have g1: "\<not> gone l (wk_journal s1)" using not_gone_before [OF k g] .
  have "keeps l UNIV (wk_journal s) (wk_journal s1)"
    using frameD [OF wframe.run_unit_ends q f, of UNIV] by simp
  then have h1: "held l (wk_journal s1)" using keepsD(1) Cons.prems(2) g1 by blast
  have "unit_paths u \<inter> \<Union> (unit_paths ` set units) = {}" using Cons.prems(3) unit_paths_disjoint by auto
  then have "stored_checkpoint j (lease_of l) p = stored_checkpoint (wk_journal s1) (lease_of l) p" if "p \<in> unit_paths u" for p
    using keepsD(2) [OF k h1 g, of p] j that by auto
  then have "materialize_unit (w_sha w) j (lease_of l) bs by_scope u (us_values us) = Inr (us_values us1)"
    using run_unit_done [OF f q Cons.prems(2) g1 c1] Cons.prems(4) by auto
  then show ?case using Cons.IH [OF rest h1] Cons.prems(3,4) by auto
qed simp

section \<open>The order of the units\<close>

text \<open>Units are placed once, under their own scope, and behind everything they read.\<close>

definition dep_ordered :: "(scope \<Rightarrow> scope list) \<Rightarrow> run_unit list \<Rightarrow> bool" where
  "dep_ordered deps us \<longleftrightarrow> (\<forall>ys u zs. us = ys @ u # zs \<longrightarrow> set (deps (unit_scope u)) \<subseteq> unit_scope ` set ys)"

definition placed_ok :: "run_unit set \<Rightarrow> (scope \<Rightarrow> scope list) \<Rightarrow> scope list \<Rightarrow> unit_placement \<Rightarrow> bool" where
  "placed_ok U deps trail st \<longleftrightarrow> fst st = unit_scope ` set (snd st) \<and> distinct (map unit_scope (snd st))
     \<and> set trail \<inter> fst st = {} \<and> set (snd st) \<subseteq> U \<and> dep_ordered deps (snd st)"

lemma dep_ordered_snoc:
  "dep_ordered deps us \<Longrightarrow> set (deps (unit_scope u)) \<subseteq> unit_scope ` set us \<Longrightarrow> dep_ordered deps (us @ [u])"
  unfolding dep_ordered_def
proof (intro allI impI)
  fix ys v zs assume d: "\<forall>ys u zs. us = ys @ u # zs \<longrightarrow> set (deps (unit_scope u)) \<subseteq> unit_scope ` set ys"
    "set (deps (unit_scope u)) \<subseteq> unit_scope ` set us" "us @ [u] = ys @ v # zs"
  show "set (deps (unit_scope v)) \<subseteq> unit_scope ` set ys"
    using d by (cases zs rule: rev_cases) auto
qed

text \<open>An invariant of a loop whose every round also establishes a stable fact about its element.\<close>

lemma rfold_collect:
  assumes "rfold f xs s = Inr t" "P s"
    and "\<And>x u v. x \<in> set xs \<Longrightarrow> P u \<Longrightarrow> f x u = Inr v \<Longrightarrow> P v \<and> Q x v"
    and "\<And>x y u v. y \<in> set xs \<Longrightarrow> Q x u \<Longrightarrow> P u \<Longrightarrow> f y u = Inr v \<Longrightarrow> Q x v"
  shows "P t \<and> (\<forall>x\<in>set xs. Q x t)"
  using assms
proof (induction xs arbitrary: s)
  case (Cons x xs)
  from Cons.prems(1) obtain u where u: "f x s = Inr u" "rfold f xs u = Inr t" by (auto simp: result_simps)
  have p: "P u" "Q x u" using Cons.prems(3) [OF _ Cons.prems(2) u(1)] by simp_all
  have "P t \<and> (\<forall>x\<in>set xs. Q x t)"
    by (rule Cons.IH [OF u(2) p(1)]) (use Cons.prems(3) in auto, use Cons.prems(4) in \<open>meson list.set_intros(2)\<close>)
  moreover have "P t \<and> Q x t"
  proof (rule rfold_invariant [OF u(2), of "\<lambda>v. P v \<and> Q x v"])
    fix y v v' assume y: "y \<in> set xs" "P v \<and> Q x v" "f y v = Inr v'"
    show "P v' \<and> Q x v'" using Cons.prems(3) [of y v v'] Cons.prems(4) [of y x v v'] y by auto
  qed (use p in auto)
  ultimately show ?case by simp
qed simp

lemma place_unit_ok:
  "place_unit deps by_scope s trail st = Inr st' \<Longrightarrow> placed_ok U deps trail st \<Longrightarrow>
   (\<And>s u. map_of by_scope s = Some u \<Longrightarrow> unit_scope u = s \<and> u \<in> U) \<Longrightarrow> placed_ok U deps trail st' \<and> s \<in> fst st' \<and> fst st \<subseteq> fst st'"
proof (induction deps by_scope s trail st arbitrary: st' rule: place_unit.induct)
  case (1 deps by_scope s trail placed ordered)
  show ?case
  proof (cases "s \<in> placed")
    case True
    then show ?thesis using "1.prems" by (auto simp: place_unit.simps)
  next
    case False
    with "1.prems"(1) obtain u placed1 ordered1 where s: "s \<notin> set trail" "map_of by_scope s = Some u"
      and d: "rfold (\<lambda>d. place_unit deps by_scope d (trail @ [s])) (deps s) (placed, ordered) = Inr (placed1, ordered1)"
      and st': "st' = (insert s placed1, ordered1 @ [u])"
      by (auto simp: place_unit.simps result_simps split: if_splits option.splits)
    let ?P = "\<lambda>st. placed_ok U deps (trail @ [s]) st \<and> placed \<subseteq> fst st"
    have IH: "placed_ok U deps (trail @ [s]) v' \<and> x \<in> fst v' \<and> fst v \<subseteq> fst v'"
      if "x \<in> set (deps s)" "placed_ok U deps (trail @ [s]) v" "place_unit deps by_scope x (trail @ [s]) v = Inr v'" for x v v'
      using "1.IH" [OF False s(1,2) that(1,3,2)] "1.prems"(3) by blast
    have "?P (placed, ordered)" using "1.prems"(2) False by (auto simp: placed_ok_def)
    from rfold_collect [OF d, of ?P "\<lambda>x st. x \<in> fst st", OF this] IH
    have p: "?P (placed1, ordered1) \<and> (\<forall>x\<in>set (deps s). x \<in> fst (placed1, ordered1))" by blast
    have u: "unit_scope u = s" "u \<in> U" using "1.prems"(3) [OF s(2)] by auto
    have "dep_ordered deps (ordered1 @ [u])" using p u by (intro dep_ordered_snoc) (auto simp: placed_ok_def)
    then show ?thesis using p u s(1) st' by (auto simp: placed_ok_def)
  qed
qed

lemma units_by_scope:
  "map_of (dict_of (map (\<lambda>u. (unit_scope u, u)) us)) s = Some u \<Longrightarrow> unit_scope u = s \<and> u \<in> set us"
  by (auto dest!: map_of_SomeD dict_of_memD)

lemma ordered_units_ok:
  assumes "ordered_units us bs producers = Inr units"
  shows "distinct (map unit_scope units)" "set units \<subseteq> set us" "dep_ordered (unit_dependencies us bs producers) units"
    "unit_scope ` set us \<subseteq> unit_scope ` set units"
proof -
  let ?by = "dict_of (map (\<lambda>u. (unit_scope u, u)) us)" and ?deps = "unit_dependencies us bs producers"
  from assms obtain placed where r: "rfold (\<lambda>u. place_unit ?deps ?by (unit_scope u) []) (sort_key unit_scope us) ({}, []) = Inr (placed, units)"
    by (auto simp: ordered_units_def Let_def result_simps)
  have "placed_ok (set us) ?deps [] ({}, [])" by (simp add: placed_ok_def dep_ordered_def)
  from rfold_collect [OF r, of "placed_ok (set us) ?deps []" "\<lambda>u st. unit_scope u \<in> fst st", OF this]
  have "placed_ok (set us) ?deps [] (placed, units) \<and> (\<forall>u\<in>set us. unit_scope u \<in> placed)"
    using place_unit_ok units_by_scope by (smt (verit, best) fst_conv set_sort subsetD)
  then show "distinct (map unit_scope units)" "set units \<subseteq> set us" "dep_ordered ?deps units"
    "unit_scope ` set us \<subseteq> unit_scope ` set units"
    by (auto simp: placed_ok_def)
qed

end
