(* ===== verification/Walker_Laws.thy ===== *)
theory Walker_Laws
  imports Replay
begin

text \<open>
  What a walk means to its journal. Every run of the walker, whatever its outcome, takes steps of the journal
  (refinement), and a run that succeeded is determined by its checkpoints: materialization from them alone returns the
  outputs the walk returned, at once and at any later time.
\<close>

section \<open>Refinement of the journal's steps\<close>

abbreviation steps_from :: "world \<Rightarrow> walk \<Rightarrow> walk \<Rightarrow> bool" where
  "steps_from w s s' \<equiv> stepping_world w \<longrightarrow> journal_steps (w_sha w) (wk_journal s) (wk_journal s')"

text \<open>The two transitions of an attempt, and everything between them.\<close>

lemma begin_attempt_steps:
  "begin_attempt l ins cause s = Inl (e, s') \<Longrightarrow> s' = s"
  "begin_attempt l ins cause s = Inr s' \<Longrightarrow> owner_step sha l (wk_journal s) (wk_journal s') \<and> wk_ledger s' = wk_ledger s \<and> held l (wk_journal s')"
proof -
  show "begin_attempt l ins cause s = Inl (e, s') \<Longrightarrow> s' = s"
    by (auto simp: begin_attempt_def jwrite_def split: option.splits if_splits sum.splits)
  assume b: "begin_attempt l ins cause s = Inr s'"
  then consider (move) S k d j where "transition_run l S Running k d (wk_journal s) = Inr j" "S \<in> runtime_expectations"
      "s' = s\<lparr>wk_journal := j\<rparr>"
    | (log) k d j where "append_event l k None d (wk_journal s) = Inr j" "s' = s\<lparr>wk_journal := j\<rparr>"
    by (auto simp: begin_attempt_def jwrite_def runtime_expectations_def split: option.splits if_splits sum.splits)
  then show "owner_step sha l (wk_journal s) (wk_journal s') \<and> wk_ledger s' = wk_ledger s \<and> held l (wk_journal s')"
  proof cases
    case move
    have "held l j" using move(1) by (rule transition_run_cases) (auto simp: held_def fenced_def holds_def)
    then show ?thesis using move owner_op.move [OF move(1,2)] by simp
  next
    case log
    have "held l j" using log(1) by (rule append_event_cases) (auto simp: held_def fenced_def holds_def)
    then show ?thesis using log owner_op.log [OF log(1)] by simp
  qed
qed

lemma begin_attempt_ends: "ends (steps_from w s) (\<lambda>s. s) (begin_attempt l ins cause s)"
proof (cases "begin_attempt l ins cause s")
  case (Inl x)
  then show ?thesis using begin_attempt_steps(1) [of l ins cause s "fst x" "snd x"] by (auto simp: ends_def)
next
  case (Inr s1)
  then show ?thesis using begin_attempt_steps(2) [OF Inr, of "w_sha w"] journal_op.own by auto
qed

lemma end_run_ends: "ends (steps_from w s) snd (end_run l st k d outs s)"
  by (auto simp: end_run_def jwrite_def runtime_expectations_def split: sum.splits intro!: r_into_rtranclp journal_op.own owner_op.move)

lemma conclude_ends: "ends (steps_from w (snd x)) snd (conclude m l bs x)"
  by (auto simp: conclude_def split_beta intro!: ends_pure_step end_run_ends)

lemma catch_cancel_ends:
  assumes "ends (steps_from w s) snd r" "\<And>x. r = Inr x \<Longrightarrow> ends (steps_from w (snd x)) snd (f x)"
  shows "ends (steps_from w s) snd (catch_cancel l f r)"
proof (cases r)
  case (Inl x)
  obtain e s1 where x: "x = (e, s1)" by force
  have "ends (steps_from w s) snd (end_run l st k d outs s1)" for st k d outs
    by (rule wsteps.ends_after [OF _ end_run_ends]) (use assms(1) Inl x in simp)
  then show ?thesis using assms(1) by (cases e) (simp_all add: catch_cancel_def Inl x)
next
  case (Inr x)
  show ?thesis using wsteps.ends_after [OF _ assms(2) [OF Inr]] assms(1) by (simp add: catch_cancel_def Inr)
qed

lemma execute_ends: "ends (steps_from w s) snd (execute w bound m l ins mode cmode cause s)"
  unfolding execute_def Let_def
  by (rule wsteps.ends_bind [OF begin_attempt_ends], rule wsteps.ends_bind [OF wsteps.reconcile_ends],
      rule ends_pure_step, simp, rule ends_pure_step, simp, rule catch_cancel_ends,
      rule wsteps.run_units_ends [where x = "(_, _)", unfolded snd_conv], rule subset_UNIV, rule conclude_ends)

fun left_journal :: "exc \<times> journal + run_result \<times> journal \<Rightarrow> journal" where
  "left_journal (Inl (e, j)) = j"
| "left_journal (Inr (r, j)) = j"

lemma finish_run_steps: "journal_steps sha (wk_journal s) (snd (finish_run l f s))"
  by (auto simp: finish_run_def Let_def split: sum.splits intro!: r_into_rtranclp journal_op.own owner_op.release)

lemma drive_steps:
  assumes "stepping_world w"
  shows "journal_steps (w_sha w) j (left_journal (drive w bound m run owner ins mode cmode seq statuses cause j))"
proof (cases "claim_run run owner (w_ttl w) (w_clock w 0) seq statuses j")
  case (Inl e)
  then show ?thesis by (simp add: drive_def)
next
  case (Inr x)
  obtain l j1 where x: "x = (l, j1)" by force
  define s where "s = \<lparr>wk_journal = j1, wk_tick = 0, wk_lost = None, wk_ledger = \<lparr>failures = [], blocked = [], parked = []\<rparr>\<rparr>"
  have 1: "journal_steps (w_sha w) j j1" using Inr x journal_op.claim by blast
  have "ends (steps_from w s) snd (execute w bound m l ins mode cmode cause s)" by (rule execute_ends)
  then have 2: "journal_steps (w_sha w) j (wk_journal s')"
    if "execute w bound m l ins mode cmode cause s = Inl (e, s') \<or> execute w bound m l ins mode cmode cause s = Inr (r, s')" for e r s'
    using that assms 1 by (auto simp: s_def)
  have 3: "journal_steps (w_sha w) j (snd (finish_run l f s'))"
    if "execute w bound m l ins mode cmode cause s = Inl (e, s') \<or> execute w bound m l ins mode cmode cause s = Inr (r, s')" for f e r s'
    using rtranclp_trans [OF 2 [OF that] finish_run_steps] .
  show ?thesis
    using 3 by (auto simp: drive_def Inr x s_def [symmetric] split: sum.splits prod.splits option.splits) (metis snd_conv)+
qed

lemma run_prepared_steps:
  "stepping_world w \<Longrightarrow> journal_steps (w_sha w) j (left_journal (run_prepared w bound snap run owner seq statuses cause j))"
  by (auto simp: run_prepared_def drive_steps split: option.splits sum.splits)

lemma start_run_steps:
  assumes "stepping_world w"
  shows "journal_steps (w_sha w) j (left_journal (start_run w bound snap m run owner ins x j))"
proof (cases "prepare_run (w_sha w) m run ins x j")
  case (Inr j1)
  then have "journal_step (w_sha w) j j1" by (auto simp: prepare_run_def intro: journal_op.create split: if_splits)
  then show ?thesis
    using run_prepared_steps [OF assms, of j1] by (simp add: start_run_def Inr converse_rtranclp_into_rtranclp)
qed (simp add: start_run_def)


section \<open>A successful run is determined by its checkpoints\<close>

text \<open>What the registry promises the walker: activation binds the stored versions that the manifest names.\<close>

definition activated :: "snapshot \<Rightarrow> (string \<Rightarrow> digest \<Rightarrow> bound_version) \<Rightarrow> manifest \<Rightarrow> bool" where
  "activated snap bound m \<longleftrightarrow> (\<forall>r \<in> set (resolved_components m).
     let b = bound (res_component r) (resolved_version r) in
     get_version snap (res_component r) (resolved_version r) = Some (bound_stored b)
     \<and> (bound_composite b \<longleftrightarrow> (case comp_body (definition_of (bound_stored b)) of Composite g \<Rightarrow> True | Atomic a \<Rightarrow> False)))"

definition inhabited_loops :: "manifest \<Rightarrow> bool" where
  "inhabited_loops m \<longleftrightarrow> (\<forall>lp \<in> set (resolved_loops m). member_order lp \<noteq> [])"

lemma activated_instances:
  "(\<forall>r\<in>set rs. let b = bound (res_component r) (resolved_version r) in
     get_version snap (res_component r) (resolved_version r) = Some (bound_stored b)
     \<and> (bound_composite b \<longleftrightarrow> (case comp_body (definition_of (bound_stored b)) of Composite g \<Rightarrow> True | Atomic a \<Rightarrow> False))) \<Longrightarrow>
   instances_of bound rs = Inr is \<Longrightarrow> materialization_instances snap rs = Inr is"
  by (induction rs arbitrary: "is") (auto simp: Let_def result_simps split: comp_body.splits if_splits)

lemma root_units_loops: "LoopUnit lp \<in> set (root_units m is) \<Longrightarrow> lp \<in> set (resolved_loops m)"
  by (auto simp: root_units_def Let_def)

text \<open>A finished run takes no more completions.\<close>

lemma succeeded_frozen_step:
  assumes "journal_step sha j j'" "map_of (runs j) run = Some r" "run_status r = Succeeded"
  shows "stored_checkpoint j' run = stored_checkpoint j run"
  using assms
proof (induction rule: journal_op.induct)
  case (own l j j')
  then show ?case
    by (induction rule: owner_op.induct)
       (auto elim!: heartbeat_cases release_run_cases request_cancel_cases append_event_cases transition_run_cases
          record_completion_cases record_effect_prepared_cases record_effect_outcome_cases mint_attestation_cases
          record_capability_lease_cases transition_capability_lease_cases
        simp: stored_checkpoint_def fun_eq_iff fenced_def)
qed (auto elim!: create_run_cases claim_run_cases request_cancel_cases mint_policy_attestation_cases
      simp: stored_checkpoint_def fun_eq_iff)

lemma succeeded_frozen:
  assumes "journal_steps sha j j'" "map_of (runs j) run = Some r" "run_status r = Succeeded"
  shows "stored_checkpoint j' run = stored_checkpoint j run"
  using assms(1)
proof (induction rule: rtranclp_induct)
  case (step j1 j2)
  obtain r1 where "map_of (runs j1) run = Some r1" "run_status r1 = Succeeded"
    using growsD(1) [OF journal_steps_grow [OF step(1)] assms(2)] assms(3) by (auto simp: row_grows_def)
  from succeeded_frozen_step [OF step(2) this] step(3) show ?case by simp
qed simp

text \<open>Materialization reads the checkpoints of its run only.\<close>

lemma materialize_unit_cong:
  "stored_checkpoint j' run = stored_checkpoint j run \<Longrightarrow> materialize_unit sha j' run bs by_scope = materialize_unit sha j run bs by_scope"
proof -
  assume s: "stored_checkpoint j' run = stored_checkpoint j run"
  then have "iteration_row j' run = iteration_row j run" by (intro ext) (simp add: iteration_row_def)
  then have "materialize_unit sha j' run bs by_scope u vs = materialize_unit sha j run bs by_scope u vs" for u vs
    by (cases u) (simp_all add: materialize_unit_def inspect_loop_history_def s)
  then show ?thesis by (intro ext)
qed

lemma materialize_run_cong:
  "stored_checkpoint j' run = stored_checkpoint j run \<Longrightarrow> materialize_run sha snap j' m run ins = materialize_run sha snap j m run ins"
  by (simp add: materialize_run_def materialize_unit_cong [of j' run j])

lemma end_run_done:
  assumes "end_run l st k d outs s = Inr (r, s')"
  shows "r = result_of st outs s" "held l (wk_journal s)" "stored_checkpoint (wk_journal s') = stored_checkpoint (wk_journal s)"
    "\<exists>row. map_of (runs (wk_journal s')) (lease_of l) = Some row \<and> run_status row = st"
  using assms
  by (auto simp: end_run_def jwrite_def result_simps held_def fenced_def stored_checkpoint_def fun_eq_iff
           elim!: transition_run_cases split: sum.splits)

lemma conclude_done:
  assumes "conclude m l bs (us, s) = Inr (r, s')" "res_status r = Succeeded"
  shows "clean s" "graph_outputs m (us_values us) bs = Inr (res_outputs r)" "end_run l Succeeded ''RunSucceeded''
    (jobj [(''outputs'', JList (map jstr (sort (dict_keys (res_outputs r)))))]) (res_outputs r) s = Inr (r, s')"
proof -
  from assms obtain outs where c: "clean s" "graph_outputs m (us_values us) bs = Inr outs"
    and e: "end_run l Succeeded ''RunSucceeded'' (jobj [(''outputs'', JList (map jstr (sort (dict_keys outs))))]) outs s = Inr (r, s')"
    by (auto simp: conclude_def clean_def result_simps result_of_def dest: end_run_done(1) split: if_splits)
  have "res_outputs r = outs" using end_run_done(1) [OF e] by (simp add: result_of_def)
  then show "clean s" "graph_outputs m (us_values us) bs = Inr (res_outputs r)" "end_run l Succeeded ''RunSucceeded''
    (jobj [(''outputs'', JList (map jstr (sort (dict_keys (res_outputs r)))))]) (res_outputs r) s = Inr (r, s')"
    using c e by simp_all
qed

lemma execute_done:
  assumes e: "execute w bound m l ins mode cmode cause s = Inr (r, s')" and st: "res_status r = Succeeded"
    and q: "quiet_world w l" and a: "activated snap bound m" and il: "inhabited_loops m"
  shows "materialize_run (w_sha w) snap (wk_journal s') m (lease_of l) ins = Inr (res_outputs r)"
    "r = \<lparr>res_status = Succeeded, res_outputs = res_outputs r, res_failures = [], res_blocked = [], res_parked = []\<rparr>"
    "\<exists>row. map_of (runs (wk_journal s')) (lease_of l) = Some row \<and> run_status row = Succeeded"
proof -
  let ?bs = "bindings_of m"
  from e obtain s1 s2 "is" ordered where b: "begin_attempt l ins cause s = Inr s1" and rc: "reconcile_stale_leases w m l cmode s1 = Inr s2"
    and i: "instances_of bound (resolved_components m) = Inr is"
    and o: "ordered_units (root_units m is) ?bs (unit_producer_index (root_units m is)) = Inr ordered"
    and cc: "catch_cancel l (conclude m l ?bs) (rfold (run_unit w m l mode cmode ?bs (instances_by_scope is)
        (unit_producer_index (root_units m is))) ordered (\<lparr>us_values = root_values m ins, us_statuses = []\<rparr>, s2)) = Inr (r, s')"
    by (auto simp: execute_def Let_def result_simps)
  have nc: "end_run l Cancelled k d outs s \<noteq> Inr (r, s')" for k d outs s
    using end_run_done(1) st by (fastforce simp: result_of_def)
  obtain us s3 where f: "rfold (run_unit w m l mode cmode ?bs (instances_by_scope is) (unit_producer_index (root_units m is))) ordered
      (\<lparr>us_values = root_values m ins, us_statuses = []\<rparr>, s2) = Inr (us, s3)" and c: "conclude m l ?bs (us, s3) = Inr (r, s')"
    using cc nc by (auto simp: catch_cancel_def split: sum.splits prod.splits exc.splits)
  note cd = conclude_done [OF c st]
  note ed = end_run_done [OF cd(3)]
  have "ends (\<lambda>s'. quiet_world w l \<longrightarrow> keeps l UNIV (wk_journal s2) (wk_journal s')) snd
      (rfold (run_unit w m l mode cmode ?bs (instances_by_scope is) (unit_producer_index (root_units m is))) ordered
        (\<lparr>us_values = root_values m ins, us_statuses = []\<rparr>, s2))"
    by (rule wframe.run_units_ends [where x = "(\<lparr>us_values = root_values m ins, us_statuses = []\<rparr>, s2)", unfolded snd_conv]) auto
  then have k: "keeps l UNIV (wk_journal s2) (wk_journal s3)" using f q by simp
  have g3: "\<not> gone l (wk_journal s3)" using gone_not_held ed(2) by blast
  have h2: "held l (wk_journal s2)"
    using keepsD(1) [OF frameD [OF wframe.reconcile_ends q rc]] begin_attempt_steps(2) [OF b] not_gone_before [OF k g3] by blast
  note ou = ordered_units_ok [OF o]
  have "member_order lp \<noteq> []" if "LoopUnit lp \<in> set ordered" for lp
    using that ou(2) root_units_loops il by (auto simp: inhabited_loops_def)
  from run_units_done [OF q g3 cd(1) _ f h2 ou(1) this, of "wk_journal s'"] ed(3)
  have "rfold (materialize_unit (w_sha w) (wk_journal s') (lease_of l) ?bs (instances_by_scope is)) ordered (root_values m ins)
      = Inr (us_values us)" by simp
  then show "materialize_run (w_sha w) snap (wk_journal s') m (lease_of l) ins = Inr (res_outputs r)"
    using activated_instances [OF a [unfolded activated_def] i] o cd(2) by (simp add: materialize_run_def Let_def)
  show "r = \<lparr>res_status = Succeeded, res_outputs = res_outputs r, res_failures = [], res_blocked = [], res_parked = []\<rparr>"
    using ed(1) cd(1) by (simp add: result_of_def clean_def)
  show "\<exists>row. map_of (runs (wk_journal s')) (lease_of l) = Some row \<and> run_status row = Succeeded" using ed(4) .
qed


lemma finish_run_done:
  assumes "finish_run l None s = (e, j)"
  shows "stored_checkpoint j = stored_checkpoint (wk_journal s)"
    "map_of (runs (wk_journal s)) run = Some row \<Longrightarrow> \<exists>row'. map_of (runs j) run = Some row' \<and> run_status row' = run_status row"
proof -
  have "j = wk_journal s \<or> release_run l (wk_journal s) = Inr j"
    using assms by (auto simp: finish_run_def Let_def split: sum.splits)
  then show "stored_checkpoint j = stored_checkpoint (wk_journal s)"
    "map_of (runs (wk_journal s)) run = Some row \<Longrightarrow> \<exists>row'. map_of (runs j) run = Some row' \<and> run_status row' = run_status row"
    by (auto elim!: release_run_cases simp: stored_checkpoint_def fun_eq_iff)
qed

definition replayed :: "(nat list \<Rightarrow> string) \<Rightarrow> snapshot \<Rightarrow> manifest \<Rightarrow> string \<Rightarrow> (string, json) dict \<Rightarrow> run_result \<Rightarrow> journal \<Rightarrow> bool" where
  "replayed sha snap m run ins r j \<longleftrightarrow> materialize_run sha snap j m run ins = Inr (res_outputs r)
     \<and> r = \<lparr>res_status = Succeeded, res_outputs = res_outputs r, res_failures = [], res_blocked = [], res_parked = []\<rparr>
     \<and> (\<exists>row. map_of (runs j) run = Some row \<and> run_status row = Succeeded)"

lemma drive_done:
  assumes d: "drive w bound m run owner ins mode cmode seq statuses cause j = Inr (r, j')" and st: "res_status r = Succeeded"
    and q: "\<And>e. quiet_world w \<lparr>lease_of = run, lease_owner = owner, lease_epoch = e\<rparr>"
    and a: "activated snap bound m" "inhabited_loops m"
  shows "replayed (w_sha w) snap m run ins r j'"
proof -
  from d obtain l j1 s e where c: "claim_run run owner (w_ttl w) (w_clock w 0) seq statuses j = Inr (l, j1)"
    and x: "execute w bound m l ins mode cmode cause
      \<lparr>wk_journal = j1, wk_tick = 0, wk_lost = None, wk_ledger = \<lparr>failures = [], blocked = [], parked = []\<rparr>\<rparr> = Inr (r, s)"
    and f: "finish_run l None s = (e, j')"
    by (auto simp: drive_def split: sum.splits prod.splits option.splits)
  have l: "lease_of l = run" "quiet_world w l" using c q by (auto elim!: claim_run_cases)
  note x' = execute_done [OF x st l(2) a]
  from x'(3) l(1) obtain row where "map_of (runs j') run = Some row" "run_status row = Succeeded"
    using finish_run_done(2) [OF f] by metis
  then show ?thesis
    using x'(1,2) finish_run_done(1) [OF f] l(1) by (auto simp: replayed_def materialize_run_cong [of j' run "wk_journal s"])
qed

lemma run_prepared_done:
  assumes p: "run_prepared w bound snap run owner seq statuses cause j = Inr (r, j')" and st: "res_status r = Succeeded"
    and row: "map_of (runs j) run = Some row" "map_of (manifests j) (run_manifest row) = Some m"
    and q: "\<And>e. quiet_world w \<lparr>lease_of = run, lease_owner = owner, lease_epoch = e\<rparr>"
    and a: "activated snap bound m" "inhabited_loops m"
  shows "replayed (w_sha w) snap m run (run_inputs row) r j'"
proof (cases "run_status row = Succeeded \<and> seq = None \<and> statuses = None")
  case True
  then show ?thesis using p row st by (auto simp: run_prepared_def replayed_def split: sum.splits)
next
  case False
  then obtain mode cmode where "drive w bound m run owner (run_inputs row) mode cmode seq statuses cause j = Inr (r, j')"
    using p row st by (auto simp: run_prepared_def split: if_splits)
  from drive_done [OF this st q a] show ?thesis .
qed

lemma run_prepared_again:
  assumes r: "replayed sha snap m run ins r j" and s: "journal_steps sha j j'"
    and row: "map_of (runs j') run = Some row" "map_of (manifests j') (run_manifest row) = Some m" "run_inputs row = ins" and w: "w_sha w = sha"
  shows "run_prepared w bound snap run owner None None cause j' = Inr (r, j')"
proof -
  from r obtain row0 where "map_of (runs j) run = Some row0" "run_status row0 = Succeeded" by (auto simp: replayed_def)
  from succeeded_frozen [OF s this] growsD(1) [OF journal_steps_grow [OF s] this(1)] row(1) this(2)
  have "stored_checkpoint j' run = stored_checkpoint j run" "run_status row = Succeeded" by (auto simp: row_grows_def)
  then show ?thesis using r row w by (simp add: run_prepared_def materialize_run_cong [of j' run j] replayed_def)
qed

section \<open>Properties\<close>

text \<open>A graph of one node without inputs, whose output is the graph's.\<close>

definition sample_port :: port where
  "sample_port = \<lparr>port_name = ''o'', type_id = ''t'', schema_hash = [], json_schema = None, cardinality = One\<rparr>"

definition sample_component :: component_def where
  "sample_component = \<lparr>comp_name = ''c'', role = NodeRole,
     comp_body = Atomic \<lparr>package = [], py_module = [], qualname = [], contract_hash = [], source_digest = None\<rparr>, comp_inputs = [],
     comp_outputs = [sample_port], metadata = \<lparr>learning = None, metadata_lineage = None, labels = []\<rparr>, requirements = None\<rparr>"

definition sample_version :: stored_version where
  "sample_version = \<lparr>definition_of = sample_component, stored_hash = ''v'', registered_at = 0\<rparr>"

definition sample_snapshot :: snapshot where
  "sample_snapshot = \<lparr>snap_revision = \<lparr>registration_seq = 1, promotion_seq = 0\<rparr>, versions = [(''c'', [(''v'', sample_version)])],
     order = [(''c'', [''v''])], stable = [], history = []\<rparr>"

definition sample_bound :: "string \<Rightarrow> digest \<Rightarrow> bound_version" where
  "sample_bound c v = \<lparr>bound_stored = sample_version, bound_composite = False, loaded = True\<rparr>"

definition sample_grants :: effective_grants where
  "sample_grants = \<lparr>posture = READ, model_selection = \<lparr>selection_kind = BackendDefault, selection_model = None\<rparr>, effort = None,
     allowed_tools = [], env_allowlist = [], network = NoNetwork, timeout_s = 1\<rparr>"

definition one_node :: manifest where
  "one_node = \<lparr>schema_version = 2, source_graph = Graph ''g'' [] [] [] [sample_port], source_graph_hash = [],
     resolved_components = [\<lparr>res_scope = [''g'', ''n''], res_component = ''c'', requested_version = None, resolved_version = ''v'',
       res_contract_hash = [], implementation_digest = None\<rparr>],
     resolved_connections = [\<lparr>destination = GraphOutputAddress [''g''] ''o'', sources = [NodePortAddress [''g''] ''n'' ''o'']\<rparr>],
     capability_bindings = [\<lparr>bind_scope = [''g'', ''n''], binding = SELF_BINDING, bound_capability = [], bound_revision = [],
       effective_grants = sample_grants, bound_channel = None\<rparr>],
     resolved_loops = [], input_hash = digest_of (\<lambda>_. []) ''inputs'' 1 (jobj []), world_hash = [], manifest_hash = ''m''\<rparr>"

definition sample_world :: world where
  "sample_world = \<lparr>w_sha = (\<lambda>_. []), w_others = (\<lambda>n j. j), w_beats = (\<lambda>n. False), w_clock = (\<lambda>n. n), w_ttl = 5,
     w_code = (\<lambda>c v ctx ins. Return [(''o'', PInt 7)]), w_adapters = (\<lambda>k. None), w_injected = (\<lambda>k. None), w_leased = (\<lambda>k. False),
     w_replies = (\<lambda>n c d. None), w_sent_fault = (\<lambda>q. None)\<rparr>"

definition one_node_journal :: journal where
  "one_node_journal = empty_journal\<lparr>manifests := [(''m'', one_node)], runs := [(''r'', sample_run)]\<rparr>"


lemmas sample_walk_defs = sample_world_def one_node_def sample_bound_def sample_snapshot_def sample_version_def sample_component_def
  one_node_journal_def

lemma sample_worlds: "quiet_world sample_world l" "stepping_world sample_world"
  by (simp_all add: quiet_world_def stepping_world_def sample_world_def)

text \<open>A call that names what it expects of the run goes to its claim, which a finished run refuses.\<close>

lemma finished_run_refuses:
  assumes "map_of (runs j) run = Some row" "run_status row = Succeeded" "map_of (manifests j) (run_manifest row) = Some m"
    and "seq \<noteq> None \<or> statuses \<noteq> None"
  shows "\<exists>e \<in> {RunAttemptSuperseded run, ContractViolation ''nothing to claim''}.
    run_prepared w bound snap run owner seq statuses cause j = Inl (e, j)"
  using assms by (auto simp: run_prepared_def drive_def claim_run_def)

text \<open>
  A successful run is replayed exactly: after whatever other work on the journal, any later call for that run without a fence, on any worker,
  with any component code, adapters and capabilities, returns the same result from the checkpoints alone and leaves the journal
  as it is. Activation is assumed to bind the stored versions, a loop to have members, and other connections to work under other
  leases.
\<close>

lemma finished_run_replays:
  assumes "run_prepared w bound snap run owner seq statuses cause j = Inr (r, j1)" "res_status r = Succeeded"
    and "map_of (runs j) run = Some row" "map_of (manifests j) (run_manifest row) = Some m"
    and "\<And>e. quiet_world w \<lparr>lease_of = run, lease_owner = owner, lease_epoch = e\<rparr>"
    and "activated snap bound m" "inhabited_loops m"
    and "journal_steps (w_sha w) j1 j2" "w_sha w' = w_sha w"
  shows "run_prepared w' bound' snap run owner' None None cause' j2 = Inr (r, j2)"
    "\<exists>row2. map_of (runs j2) run = Some row2 \<and> map_of (manifests j2) (run_manifest row2) = Some m \<and> run_status row2 = Succeeded"
proof -
  have "journal_steps (w_sha w) j j1"
    using run_prepared_steps [OF quiet_stepping [OF assms(5)], of j bound snap run owner seq statuses cause] assms(1) by simp
  then have g: "grows j j2" using assms(8) journal_steps_grow grows_trans by blast
  obtain row2 where row2: "map_of (runs j2) run = Some row2" "run_manifest row2 = run_manifest row" "run_inputs row2 = run_inputs row"
    using growsD(1) [OF g assms(3)] by (auto simp: row_grows_def)
  have m: "map_of (manifests j2) (run_manifest row2) = Some m"
    using g assms(4) row2(2) by (auto simp: grows_def map_le_def dom_def)
  from run_prepared_again [OF run_prepared_done [OF assms(1-7)] assms(8) row2(1) m row2(3) assms(9)]
  show "run_prepared w' bound' snap run owner' None None cause' j2 = Inr (r, j2)" .
  obtain row1 where row1: "map_of (runs j1) run = Some row1" "run_status row1 = Succeeded"
    using run_prepared_done [OF assms(1-7)] by (auto simp: replayed_def)
  have "run_status row2 = Succeeded"
    using growsD(1) [OF journal_steps_grow [OF assms(8)] row1(1)] row1(2) row2(1) by (auto simp: row_grows_def)
  then show "\<exists>row2. map_of (runs j2) run = Some row2 \<and> map_of (manifests j2) (run_manifest row2) = Some m \<and> run_status row2 = Succeeded"
    using row2(1) m by blast
qed

text \<open>
  C2. Refinement of the journal's step relation. Whatever a started or resumed run does and however it ends, by a
  result or by an exception at any point, the tables it leaves are reached by steps of the journal; so every invariant of
  the reachable journals holds after it.
\<close>

theorem runs_take_journal_steps:
  assumes "stepping_world w"
  shows "journal_steps (w_sha w) j (left_journal (start_run w bound snap m run owner ins x j))
    \<and> journal_steps (w_sha w) j (left_journal (run_prepared w bound snap run owner seq statuses cause j))"
  using start_run_steps [OF assms] run_prepared_steps [OF assms] by simp

theorem runs_take_journal_steps_witness:
  "journal_steps (\<lambda>_. []) one_node_journal (left_journal (run_prepared sample_world sample_bound sample_snapshot ''r'' ''w1'' None None None one_node_journal))"
  using runs_take_journal_steps [OF sample_worlds(2), of one_node_journal] by (simp add: sample_world_def)

end
