(* ===== verification/Blocking.thy ===== *)
theory Blocking
  imports Replay
begin

text \<open>
  Why a blocked unit always has a cause. A unit or a loop member is blocked when a producer did not complete; units run
  behind their producers, so following the producers back ends at a failed or parked one.
\<close>

section \<open>Rooted walks\<close>

definition grounded :: "walk \<Rightarrow> bool" where
  "grounded s \<longleftrightarrow> (blocked (wk_ledger s) \<noteq> [] \<longrightarrow> rooted s)"

text \<open>Statuses that are set and not complete have a root.\<close>

definition explained :: "(scope, invocation_status) dict \<Rightarrow> walk \<Rightarrow> bool" where
  "explained statuses s \<longleftrightarrow> grounded s \<and> (\<forall>sc st. map_of statuses sc = Some st \<longrightarrow> st \<noteq> Completed \<longrightarrow> rooted s)"

lemma grounded_silent: "same_ledger s s' \<Longrightarrow> grounded s' = grounded s" "same_ledger s s' \<Longrightarrow> rooted s' = rooted s"
  by (simp_all add: same_ledger_def grounded_def rooted_def)

lemma explained_silent: "same_ledger s s' \<Longrightarrow> explained statuses s' = explained statuses s"
  by (simp add: explained_def grounded_silent)

lemma rooted_explained: "rooted s \<Longrightarrow> explained statuses s"
  by (simp add: explained_def grounded_def)

lemma explained_set: "explained statuses s \<Longrightarrow> st = Completed \<or> rooted s \<Longrightarrow> explained (dict_set sc st statuses) s"
  by (auto simp: explained_def)

lemma keys_dict_set: "fst ` set (dict_set k v d) = insert k (fst ` set d)"
  using dom_update [of k v d] by (simp add: dom_map_of_conv_image_fst)

lemma silentD: "ends (same_ledger s) f r \<Longrightarrow> r = Inr x \<Longrightarrow> same_ledger s (f x)"
  by simp

lemma report_rooted:
  assumes "list_ex (\<lambda>(_, st). st \<noteq> Completed) (producers_of scope_of fs producers statuses srcs)" "explained statuses s"
    and "\<And>a p. a \<in> set srcs \<Longrightarrow> map_of producers (address_key a) = Some p \<Longrightarrow> scope_of p \<in> fst ` set statuses"
  shows "rooted s"
proof -
  from assms(1) obtain a p where a: "a \<in> set srcs" "map_of producers (address_key a) = Some p"
    and st: "dict_get_or Queued statuses (scope_of p) \<noteq> Completed"
    by (auto simp: producers_of_def list_ex_iff map_filter_def)
  obtain st where "map_of statuses (scope_of p) = Some st" using assms(3) [OF a] by (metis map_of_eq_None_iff option.exhaust)
  then show ?thesis using st assms(2) by (auto simp: explained_def dict_get_or_def)
qed

section \<open>Loop members\<close>

text \<open>The sealed member order lists a member behind the members it reads.\<close>

definition members_ordered :: "binding_index \<Rightarrow> (scope, node_instance) dict \<Rightarrow> loop_resolution \<Rightarrow> bool" where
  "members_ordered bs by_scope lp \<longleftrightarrow> (\<forall>ys sc zs i producers a p.
     member_order lp = ys @ sc # zs \<longrightarrow> map_of by_scope sc = Some i \<longrightarrow> member_producer_index lp by_scope = Inr producers \<longrightarrow>
     a \<in> set (concat (map sources (instance_input_bindings i bs))) \<longrightarrow> map_of producers (address_key a) = Some p \<longrightarrow>
     inst_scope p \<in> set ys)"

lemma run_member_explained:
  assumes r: "run_member w m l mode cmode bs by_scope producers lp n sc it s = Inr (r, s')"
    and x: "explained (it_statuses it) s" "it_failed it \<longrightarrow> rooted s"
    and p: "\<And>i a p. map_of by_scope sc = Some i \<Longrightarrow> a \<in> set (concat (map sources (instance_input_bindings i bs))) \<Longrightarrow>
      map_of producers (address_key a) = Some p \<Longrightarrow> inst_scope p \<in> fst ` set (it_statuses it)"
  shows "case r of None \<Rightarrow> rooted s' | Some it' \<Rightarrow> explained (it_statuses it') s' \<and> (it_failed it' \<longrightarrow> rooted s')
    \<and> fst ` set (it_statuses it') = insert sc (fst ` set (it_statuses it))"
proof -
  from r obtain s1 i where c: "check_run_control w l s = Inr s1" and i: "map_of by_scope sc = Some i"
    by (auto simp: run_member_def result_simps split: option.splits)
  have x1: "explained (it_statuses it) s1" "it_failed it \<longrightarrow> rooted s1"
    using x silentD [OF wsilent.control_ends c] by (simp_all add: explained_silent grounded_silent)
  let ?report = "member_dependency_report i (frame lp n) bs producers (it_statuses it)"
  consider (blocked) "report_blocked ?report" | (skipped) "\<not> report_blocked ?report" "it_failed it" | (run) "\<not> report_blocked ?report" "\<not> it_failed it"
    by blast
  then show ?thesis
  proof cases
    case blocked
    have rt: "rooted s1"
      by (rule report_rooted [OF blocked [unfolded report_blocked_def member_dependency_report_def, simplified] x1(1) p [OF i]]) auto
    then have "rooted (note_blocked ?report s1)" by simp
    then show ?thesis
      using r blocked
      by (auto simp: run_member_def c i Let_def result_simps grounded_silent keys_dict_set
        dest!: silentD [OF wsilent.log_ends] intro!: rooted_explained)
  next
    case skipped
    then show ?thesis
      using r x1
      by (auto simp: run_member_def c i Let_def result_simps grounded_silent explained_silent keys_dict_set
        dest!: silentD [OF wsilent.log_ends] intro!: explained_set)
  next
    case run
    then obtain out vs s2 where e: "execute_or_restore w m l mode cmode bs i (member_path lp n sc) (it_values it) s1 = Inr (out, vs, s2)"
      using r by (auto simp: run_member_def c i Let_def result_simps)
    have s2: "same_ledger s1 s2" using silentD [OF wsilent.execute_or_restore_ends [OF UNIV_I] e] by simp
    show ?thesis
    proof (cases out)
      case Done
      then show ?thesis using r run x1 s2
        by (auto simp: run_member_def c i Let_def result_simps e explained_silent keys_dict_set intro!: explained_set)
    next
      case (ParkedAt u)
      have "rooted (note_parked u s2)" by simp
      then show ?thesis using r run ParkedAt
        by (auto simp: run_member_def c i Let_def result_simps e grounded_silent dest!: silentD [OF wsilent.log_ends])
    next
      case (FailedWith e')
      then show ?thesis using r run
        by (auto simp: run_member_def c i Let_def result_simps e keys_dict_set intro!: rooted_explained)
    qed
  qed
qed


lemma run_members_explained:
  assumes o: "\<And>ys sc zs i a p. members = ys @ sc # zs \<Longrightarrow> map_of by_scope sc = Some i \<Longrightarrow>
      a \<in> set (concat (map sources (instance_input_bindings i bs))) \<Longrightarrow> map_of producers (address_key a) = Some p \<Longrightarrow> inst_scope p \<in> set ys"
  shows "run_members (run_member w m l mode cmode bs by_scope producers lp n) scs it s = Inr (r, s') \<Longrightarrow> members = prior @ scs \<Longrightarrow>
    explained (it_statuses it) s \<Longrightarrow> (it_failed it \<longrightarrow> rooted s) \<Longrightarrow> fst ` set (it_statuses it) = set prior \<Longrightarrow>
    case r of None \<Rightarrow> rooted s' | Some it' \<Rightarrow> grounded s' \<and> (it_failed it' \<longrightarrow> rooted s')"
proof (induction scs arbitrary: it s prior)
  case (Cons sc scs)
  let ?f = "run_member w m l mode cmode bs by_scope producers lp n"
  from Cons.prems(1) obtain r1 s1 where f: "?f sc it s = Inr (r1, s1)"
    and rest: "(case r1 of None \<Rightarrow> Inr (None, s1) | Some it \<Rightarrow> run_members ?f scs it s1) = Inr (r, s')"
    by (auto simp: result_simps)
  have *: "case r1 of None \<Rightarrow> rooted s1 | Some it' \<Rightarrow> explained (it_statuses it') s1 \<and> (it_failed it' \<longrightarrow> rooted s1)
    \<and> fst ` set (it_statuses it') = insert sc (fst ` set (it_statuses it))"
    by (rule run_member_explained [OF f Cons.prems(3,4)]) (use o [OF Cons.prems(2)] Cons.prems(5) in auto)
  show ?case
  proof (cases r1)
    case None
    then show ?thesis using * rest by auto
  next
    case (Some it1)
    then have "run_members ?f scs it1 s1 = Inr (r, s')" using rest by simp
    then show ?thesis by (rule Cons.IH [where prior = "prior @ [sc]"]) (use * Some Cons.prems(2,5) in auto)
  qed
qed (auto simp: explained_def)

lemma run_iteration_grounded:
  assumes "run_iteration w m l mode cmode bs by_scope producers lp outer previous n s = Inr (r, s')" "grounded s"
    and "members_ordered bs by_scope lp" "member_producer_index lp by_scope = Inr producers"
  shows "case r of None \<Rightarrow> rooted s' | Some it' \<Rightarrow> grounded s' \<and> (it_failed it' \<longrightarrow> rooted s')"
proof -
  from assms(1) obtain s1 vs where c: "check_run_control w l s = Inr s1"
    and m: "run_members (run_member w m l mode cmode bs by_scope producers lp n) (member_order lp)
      \<lparr>it_values = vs, it_statuses = [], it_failed = False, it_restored = True\<rparr> s1 = Inr (r, s')"
    by (auto simp: run_iteration_def result_simps)
  have "grounded s1" using silentD [OF wsilent.control_ends c] assms(2) by (simp add: grounded_silent)
  then show ?thesis
    by (intro run_members_explained [OF _ m, of "member_order lp" "[]"])
       (use assms(3,4) in \<open>unfold members_ordered_def, blast\<close>, simp_all add: explained_def)
qed

lemma run_iterations_grounded:
  assumes f: "\<And>previous n s r s'. f previous n s = Inr (r, s') \<Longrightarrow> grounded s \<Longrightarrow>
      (case r of None \<Rightarrow> rooted s' | Some it' \<Rightarrow> grounded s' \<and> (it_failed it' \<longrightarrow> rooted s'))"
  shows "run_iterations f l lp outer ns previous executed s = Inr (st, vs, s') \<Longrightarrow> grounded s \<Longrightarrow>
    grounded s' \<and> (st \<noteq> Completed \<longrightarrow> rooted s')"
proof (induction ns arbitrary: previous executed s)
  case Nil
  have "rooted (note_parked u s)" for u by simp
  then show ?case using Nil(1)
    by (auto simp: Let_def result_simps grounded_silent grounded_def dest!: silentD [OF wsilent.log_ends])
next
  case (Cons n ns)
  from Cons.prems(1) obtain r1 s1 where fe: "f previous n s = Inr (r1, s1)" by (auto simp: result_simps)
  show ?case
  proof (cases r1)
    case None
    then show ?thesis using Cons.prems(1) f [OF fe Cons.prems(2)] by (auto simp: fe grounded_def)
  next
    case (Some it)
    then have 1: "grounded s1" "it_failed it \<longrightarrow> rooted s1" using f [OF fe Cons.prems(2)] by auto
    show ?thesis
    proof (cases "it_failed it")
      case True
      then show ?thesis using Cons.prems(1) 1 by (auto simp: fe Some)
    next
      case nf: False
      show ?thesis
      proof (cases "loop_decision lp (it_values it)")
        case (Inl e)
        have "rooted (note_failure k e s1)" for k by simp
        then show ?thesis using Cons.prems(1)
          by (auto simp: fe Some nf Inl Let_def result_simps grounded_silent grounded_def dest!: silentD [OF wsilent.log_ends])
      next
        case (Inr d)
        from Cons.prems(1) obtain k p x s2 where lg: "log_event l k p x s1 = Inr s2"
          and rest: "if d then \<exists>previous e. run_iterations f l lp outer ns previous e s2 = Inr (st, vs, s')
            else st = Completed \<and> (\<exists>k p x. log_event l k p x s2 = Inr s')"
          by (cases d; simp add: fe Some nf Inr Let_def result_simps; blast)
        have "grounded s2" using silentD [OF wsilent.log_ends lg] 1(1) by (simp add: grounded_silent)
        then show ?thesis using rest Cons.IH silentD [OF wsilent.log_ends] grounded_silent(1) by (cases d) (simp, blast)+
      qed
    qed
  qed
qed

section \<open>Units\<close>

lemma execute_loop_grounded:
  assumes "execute_loop w m l mode cmode bs by_scope lp outer s = Inr (st, vs, s')" "grounded s" "members_ordered bs by_scope lp"
  shows "grounded s' \<and> (st \<noteq> Completed \<longrightarrow> rooted s')"
proof -
  from assms(1) obtain producers where p: "member_producer_index lp by_scope = Inr producers"
    and r: "run_iterations (run_iteration w m l mode cmode bs by_scope producers lp outer) l lp outer [0..<loop_max lp] None False s
      = Inr (st, vs, s')"
    by (auto simp: execute_loop_def result_simps)
  show ?thesis by (rule run_iterations_grounded [OF run_iteration_grounded [OF _ _ assms(3) p] r assms(2)])
qed

lemma run_unit_explained:
  assumes r: "run_unit w m l mode cmode bs by_scope producers u (us, s) = Inr (us', s')"
    and x: "explained (us_statuses us) s"
    and p: "\<And>a p. a \<in> set (unit_sources u bs) \<Longrightarrow> map_of producers (address_key a) = Some p \<Longrightarrow> unit_scope p \<in> fst ` set (us_statuses us)"
    and o: "\<And>lp. u = LoopUnit lp \<Longrightarrow> members_ordered bs by_scope lp"
  shows "explained (us_statuses us') s' \<and> fst ` set (us_statuses us') = insert (unit_scope u) (fst ` set (us_statuses us))"
proof -
  from r obtain s1 where c: "check_run_control w l s = Inr s1" by (auto simp: run_unit_def result_simps)
  have x1: "explained (us_statuses us) s1" "grounded s1"
    using x silentD [OF wsilent.control_ends c] by (simp_all add: explained_silent explained_def grounded_silent)
  let ?report = "unit_dependency_report u bs producers (us_statuses us)"
  show ?thesis
  proof (cases "report_blocked ?report")
    case True
    have "rooted s1"
      by (rule report_rooted [OF True [unfolded report_blocked_def unit_dependency_report_def, simplified] x1(1) p]) auto
    moreover have "same_ledger (note_blocked ?report s1) s'" and us': "us_statuses us' = dict_set (unit_scope u) Blocked (us_statuses us)"
      using r True by (auto simp: run_unit_def c Let_def result_simps dest!: silentD [OF wsilent.log_ends])
    ultimately have "rooted s'" by (simp add: grounded_silent(2))
    then show ?thesis by (simp add: us' keys_dict_set rooted_explained)
  next
    case nb: False
    show ?thesis
    proof (cases u)
      case u: (AtomicUnit i)
      from r nb obtain out vs s2 where e: "execute_or_restore w m l mode cmode bs i (path_of (unit_scope u) []) (us_values us) s1 = Inr (out, vs, s2)"
        by (auto simp: run_unit_def result_simps c Let_def u)
      have "same_ledger s1 s2" using silentD [OF wsilent.execute_or_restore_ends [OF UNIV_I] e] by simp
      then have x2: "explained (us_statuses us) s2" using x1(1) by (simp add: explained_silent)
      obtain st where us': "us_statuses us' = dict_set (unit_scope u) st (us_statuses us)" and "s' = s2 \<and> st = Completed \<or> rooted s'"
        using r nb by (cases out) (auto simp: run_unit_def result_simps c Let_def u e [unfolded u])
      then have "explained (us_statuses us') s'" using x2 by (auto simp: us' intro: explained_set rooted_explained)
      then show ?thesis by (simp add: us' keys_dict_set)
    next
      case u: (LoopUnit lp)
      from r nb obtain st vs where e: "execute_loop w m l mode cmode bs by_scope lp (us_values us) s1 = Inr (st, vs, s')"
        and us': "us_statuses us' = dict_set (unit_scope u) st (us_statuses us)"
        by (auto simp: run_unit_def result_simps c Let_def u)
      have g: "grounded s'" "st \<noteq> Completed \<longrightarrow> rooted s'" using execute_loop_grounded [OF e x1(2) o [OF u]] by auto
      have "rooted s1 \<longrightarrow> rooted s'"
        using ends_InrD [OF wroot.execute_loop_ends [where P = UNIV] e] by simp
      then have "explained (us_statuses us) s'" using x1(1) g(1) by (auto simp: explained_def)
      then show ?thesis using g(2) us' by (auto simp: us' keys_dict_set intro: explained_set)
    qed
  qed
qed

lemma unit_deps:
  assumes "dep_ordered (unit_dependencies us bs producers) (ys @ u # zs)" "u \<in> set us" "a \<in> set (unit_sources u bs)"
    and "map_of producers (address_key a) = Some p"
  shows "unit_scope p \<in> unit_scope ` set ys"
proof -
  have "unit_scope p \<in> set (dependencies_of u bs producers)"
    using assms(3,4) by (force simp: dependencies_of_def map_filter_def)
  then have "unit_scope p \<in> set (unit_dependencies us bs producers (unit_scope u))"
    using assms(2) by (auto simp: unit_dependencies_def)
  then show ?thesis using assms(1) by (auto simp: dep_ordered_def)
qed

lemma run_units_explained:
  assumes d: "dep_ordered (unit_dependencies us0 bs producers) units" "set units \<subseteq> set us0"
    and o: "\<And>lp. LoopUnit lp \<in> set units \<Longrightarrow> members_ordered bs by_scope lp"
  shows "rfold (run_unit w m l mode cmode bs by_scope producers) todo (us, s) = Inr (us', s') \<Longrightarrow> units = ys @ todo \<Longrightarrow>
    explained (us_statuses us) s \<Longrightarrow> fst ` set (us_statuses us) = unit_scope ` set ys \<Longrightarrow> grounded s'"
proof (induction todo arbitrary: ys us s)
  case (Cons u todo)
  let ?f = "run_unit w m l mode cmode bs by_scope producers"
  from Cons.prems(1) obtain us1 s1 where f: "?f u (us, s) = Inr (us1, s1)" and rest: "rfold ?f todo (us1, s1) = Inr (us', s')"
    by (auto simp: result_simps)
  have "explained (us_statuses us1) s1 \<and> fst ` set (us_statuses us1) = insert (unit_scope u) (fst ` set (us_statuses us))"
    by (rule run_unit_explained [OF f Cons.prems(3)])
       (use unit_deps [of us0 bs producers ys u todo] d Cons.prems(2,4) o in auto)
  then show ?case using Cons.IH [OF rest, of "ys @ [u]"] Cons.prems(2,4) by auto
qed (simp add: explained_def)

lemma walk_grounded:
  assumes "ordered_units us0 bs producers = Inr units" "\<And>lp. LoopUnit lp \<in> set us0 \<Longrightarrow> members_ordered bs by_scope lp"
    and "rfold (run_unit w m l mode cmode bs by_scope producers) units (\<lparr>us_values = vs, us_statuses = []\<rparr>, s) = Inr (us', s')"
    and "grounded s"
  shows "grounded s'"
  using run_units_explained [OF ordered_units_ok(3,2) [OF assms(1)] _ assms(3), of "[]"] assms(2,4) ordered_units_ok(2) [OF assms(1)]
  by (auto simp: explained_def)

lemma transition_run_raises: "transition_run l S st k d j \<noteq> Inl (JournalDamaged t)"
proof (cases "allocate_seq l S j")
  case (Inl e)
  then show ?thesis by (auto simp: transition_run_def allocate_seq_def split: option.splits if_splits)
next
  case (Inr x)
  then show ?thesis by (cases x) (auto simp: transition_run_def insert_event_def split: option.splits)
qed

lemma collect_value_raises: "collect_value vs srcs p = Inl e \<Longrightarrow> \<exists>t. e = ContractViolation t"
proof -
  have "source_values vs srcs = Inl e \<Longrightarrow> \<exists>t. e = ContractViolation t"
    by (induction srcs) (auto simp: result_simps split: option.splits)
  then show "collect_value vs srcs p = Inl e \<Longrightarrow> \<exists>t. e = ContractViolation t"
    by (auto simp: collect_value_def result_simps split: if_splits)
qed

lemma graph_outputs_raises: "graph_outputs m vs bs = Inl e \<Longrightarrow> \<exists>t. e = ContractViolation t"
proof -
  have "rfold (\<lambda>p outs. case map_of bs (address_key (GraphOutputAddress [graph_name (source_graph m)] (port_name p))) of
       None \<Rightarrow> Inr outs
     | Some b \<Rightarrow> rbind (collect_value vs (sources b) p) (\<lambda>v. Inr (dict_set (port_name p) v outs))) ps outs = Inl e
    \<Longrightarrow> \<exists>t. e = ContractViolation t" for ps outs
    by (induction ps arbitrary: outs) (auto simp: result_simps dest: collect_value_raises split: option.splits)
  then show "graph_outputs m vs bs = Inl e \<Longrightarrow> \<exists>t. e = ContractViolation t" by (auto simp: graph_outputs_def)
qed

section \<open>Properties\<close>

text \<open>A graph of two nodes, the second reading the first.\<close>

definition feed_port :: port where
  "feed_port = \<lparr>port_name = ''i'', type_id = ''t'', schema_hash = [], json_schema = None, cardinality = One\<rparr>"

definition feed_instance :: "string \<Rightarrow> port list \<Rightarrow> port list \<Rightarrow> node_instance" where
  "feed_instance n ins outs = \<lparr>inst_scope = [''g'', n], inst_component = n, inst_version = ''v'',
     inst_definition = \<lparr>comp_name = n, role = NodeRole,
       comp_body = Atomic \<lparr>package = [], py_module = [], qualname = [], contract_hash = [], source_digest = None\<rparr>, comp_inputs = ins,
       comp_outputs = outs, metadata = \<lparr>learning = None, metadata_lineage = None, labels = []\<rparr>, requirements = None\<rparr>\<rparr>"

definition feed_instances :: "node_instance list" where
  "feed_instances = [feed_instance ''b'' [feed_port] [], feed_instance ''a'' [] [feed_port]]"

definition feed_manifest :: manifest where
  "feed_manifest = sample_manifest\<lparr>resolved_connections :=
     [\<lparr>destination = NodePortAddress [''g''] ''b'' ''i'', sources = [NodePortAddress [''g''] ''a'' ''i'']\<rparr>]\<rparr>"

definition idle_world :: world where
  "idle_world = \<lparr>w_sha = (\<lambda>_. []), w_others = (\<lambda>n j. j), w_beats = (\<lambda>n. False), w_clock = (\<lambda>n. n), w_ttl = 5,
     w_code = (\<lambda>c v ctx ins. Return []), w_adapters = (\<lambda>k. None), w_injected = (\<lambda>k. None), w_leased = (\<lambda>k. False),
     w_replies = (\<lambda>n c d. None), w_sent_fault = (\<lambda>q. None)\<rparr>"

definition feed_walk :: walk where
  "feed_walk = \<lparr>wk_journal = started_journal, wk_tick = 0, wk_lost = None, wk_ledger = \<lparr>failures = [], blocked = [], parked = []\<rparr>\<rparr>"

text \<open>
  C3. Every blocked unit has a cause. After the units of a manifest ran in their order, whatever the components did, a
  blocked unit or loop member is reported only together with a failed or a parked one; so the walk never ends in the branch
  that declares the journal damaged because something is blocked by nothing. The member orders of the loops are assumed
  to list producers first, as the compiler seals them.
\<close>

theorem blocked_has_a_root:
  assumes "ordered_units (root_units m is) (bindings_of m) (unit_producer_index (root_units m is)) = Inr units"
    and "\<forall>lp \<in> set (resolved_loops m). members_ordered (bindings_of m) (instances_by_scope is) lp"
    and "wk_ledger s = \<lparr>failures = [], blocked = [], parked = []\<rparr>"
    and "rfold (run_unit w m l mode cmode (bindings_of m) (instances_by_scope is) (unit_producer_index (root_units m is))) units
      (\<lparr>us_values = vs, us_statuses = []\<rparr>, s) = Inr (us', s')"
  shows "(blocked (wk_ledger s') \<noteq> [] \<longrightarrow> failures (wk_ledger s') \<noteq> [] \<or> parked (wk_ledger s') \<noteq> [])
    \<and> conclude m l (bindings_of m) (us', s') \<noteq> Inl (JournalDamaged ''blocked units without any failed or parked root'', s')"
proof -
  have "grounded s" using assms(3) by (simp add: grounded_def)
  have g: "grounded s'"
    by (rule walk_grounded [OF assms(1) _ assms(4) \<open>grounded s\<close>]) (use assms(2) in \<open>auto simp: root_units_def Let_def\<close>)
  have "end_run l st k d outs s' \<noteq> Inl (JournalDamaged x, s')" for st k d outs x
    using transition_run_raises by (auto simp: end_run_def jwrite_def result_simps split: sum.splits)
  moreover have "pure_step (graph_outputs m (us_values us') (bindings_of m)) s' \<noteq> Inl (JournalDamaged x, s')" for x
    using graph_outputs_raises by (fastforce simp: pure_step_def split: sum.splits)
  ultimately show ?thesis using g
    by (auto simp: conclude_def grounded_def rooted_def result_simps)
qed

definition feed_units :: "run_unit list" where
  "feed_units = [AtomicUnit (feed_instance ''a'' [] [feed_port]), AtomicUnit (feed_instance ''b'' [feed_port] [])]"

theorem blocked_has_a_root_witness:
  "case rfold (run_unit idle_world feed_manifest first_lease Live NormalCapabilities (bindings_of feed_manifest)
      (instances_by_scope feed_instances) (unit_producer_index (root_units feed_manifest feed_instances))) feed_units
      (\<lparr>us_values = [], us_statuses = []\<rparr>, feed_walk) of
     Inl _ \<Rightarrow> False
   | Inr (us, s) \<Rightarrow> map (\<lambda>r. path_scope (rep_destination r)) (blocked (wk_ledger s)) = [[''g'', ''b'']]
       \<and> (failures (wk_ledger s) \<noteq> [] \<or> parked (wk_ledger s) \<noteq> [])"
proof -
  have o: "ordered_units (root_units feed_manifest feed_instances) (bindings_of feed_manifest)
      (unit_producer_index (root_units feed_manifest feed_instances)) = Inr feed_units"
    by code_simp
  have "case rfold (run_unit idle_world feed_manifest first_lease Live NormalCapabilities (bindings_of feed_manifest)
      (instances_by_scope feed_instances) (unit_producer_index (root_units feed_manifest feed_instances))) feed_units
      (\<lparr>us_values = [], us_statuses = []\<rparr>, feed_walk) of
     Inl _ \<Rightarrow> False | Inr (us, s) \<Rightarrow> map (\<lambda>r. path_scope (rep_destination r)) (blocked (wk_ledger s)) = [[''g'', ''b'']]"
    by code_simp
  then obtain us s where r: "rfold (run_unit idle_world feed_manifest first_lease Live NormalCapabilities (bindings_of feed_manifest)
      (instances_by_scope feed_instances) (unit_producer_index (root_units feed_manifest feed_instances))) feed_units
      (\<lparr>us_values = [], us_statuses = []\<rparr>, feed_walk) = Inr (us, s)"
    and b: "map (\<lambda>r. path_scope (rep_destination r)) (blocked (wk_ledger s)) = [[''g'', ''b'']]"
    by (auto split: sum.splits)
  have "failures (wk_ledger s) \<noteq> [] \<or> parked (wk_ledger s) \<noteq> []"
    using blocked_has_a_root [OF o _ _ r] b by (auto simp: feed_manifest_def sample_manifest_def feed_walk_def)
  then show ?thesis using r b by simp
qed

end
