(* ===== verification/Effect_Laws.thy ===== *)
theory Effect_Laws
  imports Walk_Laws
begin

text \<open>
  The effect boundary over time: the first recorded receipt of an effect is what every later call for the same
  idempotency key gets, whatever adapters are installed by then.
\<close>

section \<open>Prepared effects are stored under their own key\<close>

definition effects_keyed :: "journal \<Rightarrow> bool" where
  "effects_keyed j \<longleftrightarrow> (\<forall>k e. map_of (effects j) k = Some e \<longrightarrow> er_key (ef_request e) = k)"

lemma owner_step_keyed: "owner_step sha l j j' \<Longrightarrow> effects_keyed j \<Longrightarrow> effects_keyed j'"
  by (induction rule: owner_op.induct)
     (auto elim!: heartbeat_cases release_run_cases request_cancel_cases append_event_cases transition_run_cases
        record_completion_cases record_effect_prepared_cases record_effect_outcome_cases mint_attestation_cases
        record_capability_lease_cases transition_capability_lease_cases
      simp: effects_keyed_def split: if_splits)

lemma journal_step_keyed: "journal_step sha j j' \<Longrightarrow> effects_keyed j \<Longrightarrow> effects_keyed j'"
proof (induction rule: journal_op.induct)
  case (own l j j')
  then show ?case by (rule owner_step_keyed)
qed (auto elim!: create_run_cases claim_run_cases request_cancel_cases mint_policy_attestation_cases simp: effects_keyed_def)

lemma journal_steps_keyed: "journal_steps sha j j' \<Longrightarrow> effects_keyed j \<Longrightarrow> effects_keyed j'"
  by (induction rule: rtranclp_induct) (auto intro: journal_step_keyed)

lemma reachable_keyed: "journal_reachable sha j \<Longrightarrow> effects_keyed j"
  by (erule journal_steps_keyed) (simp add: effects_keyed_def empty_journal_def)

section \<open>Settled effects\<close>

text \<open>What a settled effect is worth to everyone who comes later.\<close>

definition settled :: "digest \<Rightarrow> effect_receipt \<Rightarrow> walk \<Rightarrow> bool" where
  "settled key rc s \<longleftrightarrow> effects_keyed (wk_journal s) \<and> receipt_for (wk_journal s) key = Some rc"

lemma settled_steps: "journal_steps sha (wk_journal s) (wk_journal s') \<Longrightarrow> settled key rc s \<Longrightarrow> settled key rc s'"
  using journal_steps_keyed [of sha "wk_journal s" "wk_journal s'"] growsD(3) [OF journal_steps_grow [of sha "wk_journal s" "wk_journal s'"]]
  by (fastforce simp: settled_def receipt_for_def effect_grows_def split: option.splits)

lemma settled_after:
  assumes "ends (\<lambda>s'. stepping_world w \<longrightarrow> journal_steps (w_sha w) (wk_journal s) (wk_journal s')) f r" "stepping_world w" "r = Inr x" "settled key rc s"
  shows "settled key rc (f x)"
  using assms settled_steps by simp

lemma record_outcome_settled:
  assumes "record_outcome w l p q rc' k s = Inr (rc'', s')" "settled (er_key q) rc s"
  shows "rc'' = rc'" "canonical_json (effect_receipt_json rc') = canonical_json (effect_receipt_json rc)"
  using assms
  by (auto simp: record_outcome_def jcall_def result_simps settled_def receipt_for_def
           elim!: record_effect_outcome_cases split: sum.splits option.splits prod.splits)

lemma perform_settled:
  assumes "perform_effect w l p a mode q s = Inr (rc', s')" "settled (er_key q) rc s" "stepping_world w"
  shows "canonical_json (effect_receipt_json rc') = canonical_json (effect_receipt_json rc)"
proof -
  from assms(1) obtain s1 rc1 k where c: "check_run_control w l s = Inr s1"
    and r: "record_outcome w l p q rc1 k (observe w l s1) = Inr (rc', s')"
    by (auto simp: perform_effect_def external_def result_simps split: if_splits sum.splits)
  have "settled (er_key q) rc s1" using settled_after [OF wsteps.control_ends assms(3) c assms(2)] by simp
  then have "settled (er_key q) rc (observe w l s1)" using wsteps.observe [of w s1 l] assms(3) settled_steps by blast
  from record_outcome_settled [OF r this] show ?thesis by simp
qed

lemma settle_settled:
  assumes "settle_effect w l p a mode q s = Inr (rc', s')" "settled (er_key q) rc s" "stepping_world w"
  shows "canonical_json (effect_receipt_json rc') = canonical_json (effect_receipt_json rc)"
proof -
  have o: "settled (er_key q) rc (observe w l s)" using assms(2,3) wsteps.observe [of w s l] settled_steps by blast
  from assms(1) consider rc1 where "record_outcome w l p q rc1 ''EffectReconciled'' (observe w l s) = Inr (rc', s')"
    | "perform_effect w l p a mode q (observe w l s) = Inr (rc', s')" | "perform_effect w l p a mode q s = Inr (rc', s')"
    by (auto simp: settle_effect_def external_def split: if_splits sum.splits option.splits)
  then show ?thesis
    by cases (use record_outcome_settled [OF _ o] perform_settled [OF _ o assms(3)] perform_settled [OF _ assms(2,3)] in metis)+
qed

lemma prepared_settled:
  assumes "record_effect_prepared sha f l q j = Inr (q', j')" "effects_keyed j" "receipt_for j (er_key q) = Some rc"
  shows "er_key q' = er_key q" "j' = j"
  using assms by (auto elim!: record_effect_prepared_cases simp: effects_keyed_def receipt_for_def split: option.splits)

lemma terminal_receipt_settled:
  assumes "terminal_receipt l p k key mode s = Inr (x, s')" "settled key rc s"
  shows "x = (if rc_status rc \<in> terminal_receipts mode then Some rc else None)"
  using assms by (auto simp: terminal_receipt_def settled_def result_simps split: if_splits)

lemma boundary_settled:
  assumes e: "effect_boundary w m l p mode k subject att s = Inr (rc', s')" and w: "stepping_world w"
    and j: "json_value subject = Inr (JObj subj)"
    and s: "settled (idempotency_key (w_sha w) (manifest_hash m) p k subj mode) rc s"
  shows "canonical_json (effect_receipt_json rc') = canonical_json (effect_receipt_json rc)"
proof -
  let ?key = "idempotency_key (w_sha w) (manifest_hash m) p k subj mode"
  from e j obtain s1 x s2 where c: "check_run_control w l s = Inr s1" and t: "terminal_receipt l p k ?key mode s1 = Inr (x, s2)"
    by (auto simp: effect_boundary_def result_simps Let_def)
  have s1: "settled ?key rc s1" using settled_after [OF wsteps.control_ends w c s] by simp
  note x = terminal_receipt_settled [OF t s1]
  have s2: "settled ?key rc s2" using settled_after [OF wsteps.terminal_receipt_ends w t s1] by simp
  show ?thesis
  proof (cases x)
    case (Some rc1)
    then show ?thesis using e j x by (auto simp: effect_boundary_def result_simps Let_def c t split: if_splits)
  next
    case None
    then obtain a s3 q s4 y s5 where a: "check_run_control w l s2 = Inr s3"
      and p: "jcall (record_effect_prepared (w_sha w) (w_sent_fault w) l
                       \<lparr>er_run = lease_of l, er_manifest = manifest_hash m, er_path = p, er_kind = k, er_subject = subj,
                        er_key = ?key, er_attestation = att, er_mode = mode\<rparr>) s3 = Inr (q, s4)"
      and t2: "terminal_receipt l p k ?key mode s4 = Inr (y, s5)"
      and r: "(case y of Some rc \<Rightarrow> Inr (rc, s5) | None \<Rightarrow> settle_effect w l p a mode q s5) = Inr (rc', s')"
      using e j by (auto simp: effect_boundary_def result_simps Let_def c t split: option.splits [where option = "w_adapters w k"])
    have s3: "settled ?key rc s3" using settled_after [OF wsteps.control_ends w a s2] by simp
    have q: "er_key q = ?key" and s4: "settled ?key rc s4"
      using p s3 by (auto simp: jcall_def settled_def dest: prepared_settled split: sum.splits)
    have s5: "settled ?key rc s5" using settled_after [OF wsteps.terminal_receipt_ends w t2 s4] by simp
    show ?thesis
    proof (cases y)
      case None
      then show ?thesis using r settle_settled [OF _ s5 [folded q] w] by simp
    next
      case (Some rc2)
      then show ?thesis using r terminal_receipt_settled [OF t2 s4] by (auto split: if_splits)
    qed
  qed
qed

lemma boundary_terminal:
  assumes e: "effect_boundary w m l p mode k subject att s = Inr (rc', s')" and w: "stepping_world w"
    and j: "json_value subject = Inr (JObj subj)"
    and s: "settled (idempotency_key (w_sha w) (manifest_hash m) p k subj mode) rc s" "rc_status rc \<in> terminal_receipts mode"
  shows "rc' = rc"
proof -
  let ?key = "idempotency_key (w_sha w) (manifest_hash m) p k subj mode"
  from e j obtain s1 x s2 where c: "check_run_control w l s = Inr s1" and t: "terminal_receipt l p k ?key mode s1 = Inr (x, s2)"
    by (auto simp: effect_boundary_def result_simps Let_def)
  have "x = Some rc" using terminal_receipt_settled [OF t] settled_after [OF wsteps.control_ends w c s(1)] s(2) by simp
  then show ?thesis using e j by (auto simp: effect_boundary_def result_simps Let_def c t)
qed

lemma observe_adapters [simp]: "observe (w\<lparr>w_adapters := A\<rparr>) l s = observe w l s"
  by (simp add: observe_def Let_def)

lemma control_adapters [simp]: "check_run_control (w\<lparr>w_adapters := A\<rparr>) l s = check_run_control w l s"
  by (simp add: check_run_control_def)

lemma boundary_deduplicates:
  assumes w: "stepping_world w" and j: "json_value subject = Inr (JObj subj)"
    and s: "settled (idempotency_key (w_sha w) (manifest_hash m) p k subj mode) rc s" "rc_status rc \<in> terminal_receipts mode"
  shows "effect_boundary (w\<lparr>w_adapters := A\<rparr>) m l p mode k subject att s = effect_boundary w m l p mode k subject att s"
proof -
  let ?key = "idempotency_key (w_sha w) (manifest_hash m) p k subj mode"
  have "terminal_receipt l p k ?key mode s1 = Inr (x, s2) \<Longrightarrow> x \<noteq> None" if c: "check_run_control w l s = Inr s1" for s1 x s2
    using terminal_receipt_settled [of l p k ?key mode s1 x s2 rc] settled_after [OF wsteps.control_ends w c s(1)] s(2) by simp
  then show ?thesis
    by (auto simp: effect_boundary_def j Let_def rbind_def split: sum.split option.split)
qed

section \<open>Properties\<close>

definition settled_request :: effect_request where
  "settled_request = \<lparr>er_run = ''r'', er_manifest = ''m'', er_path = sample_path, er_kind = ''k'', er_subject = [],
     er_key = idempotency_key (\<lambda>_. []) ''m'' sample_path ''k'' [] Live, er_attestation = None, er_mode = Live\<rparr>"

definition settled_receipt :: effect_receipt where
  "settled_receipt = \<lparr>rc_request = request_hash (\<lambda>_. []) settled_request, rc_status = Committed, rc_reference = Some ''x'', rc_observed = None\<rparr>"

definition settled_journal :: journal where
  "settled_journal = (case record_effect_prepared (\<lambda>_. []) (\<lambda>_. None) first_lease settled_request started_journal of
     Inl _ \<Rightarrow> started_journal
   | Inr (q, j) \<Rightarrow> (case record_effect_outcome (\<lambda>_. []) first_lease q settled_receipt ''EffectCommitted'' j of
       Inl _ \<Rightarrow> j | Inr (_, j) \<Rightarrow> j))"

lemma settled_journal_reachable: "journal_reachable (\<lambda>_. []) settled_journal"
proof -
  have step: "journal_reachable (\<lambda>_. []) j \<Longrightarrow> owner_step (\<lambda>_. []) l j j' \<Longrightarrow> journal_reachable (\<lambda>_. []) j'" for l j j'
    by (rule rtranclp.rtrancl_into_rtrancl, assumption, rule journal_op.own)
  have 1: "journal_reachable (\<lambda>_. []) j"
    if "record_effect_prepared (\<lambda>_. []) (\<lambda>_. None) first_lease settled_request started_journal = Inr (q, j)" for q j
    by (rule step [OF started_journal_reachable owner_op.prepare [OF that]])
  have "journal_reachable (\<lambda>_. []) j'"
    if "record_effect_prepared (\<lambda>_. []) (\<lambda>_. None) first_lease settled_request started_journal = Inr (q, j)"
      "record_effect_outcome (\<lambda>_. []) first_lease q settled_receipt ''EffectCommitted'' j = Inr (x, j')" for q j x j'
    by (rule step [OF 1 [OF that(1)] owner_op.outcome [OF that(2)]])
  then show ?thesis using 1 started_journal_reachable by (auto simp: settled_journal_def split: sum.splits)
qed

definition effect_world :: world where
  "effect_world = \<lparr>w_sha = (\<lambda>_. []), w_others = (\<lambda>n j. j), w_beats = (\<lambda>n. False), w_clock = (\<lambda>n. n), w_ttl = 5,
     w_code = (\<lambda>c v ctx ins. Return []), w_adapters = (\<lambda>k. None), w_injected = (\<lambda>k. None), w_leased = (\<lambda>k. False),
     w_replies = (\<lambda>n c d. None), w_sent_fault = (\<lambda>q. None)\<rparr>"

definition effect_walk :: walk where
  "effect_walk = \<lparr>wk_journal = settled_journal, wk_tick = 0, wk_lost = None, wk_ledger = \<lparr>failures = [], blocked = [], parked = []\<rparr>\<rparr>"

text \<open>
  C4. An effect is settled once. When the journal holds a receipt for an idempotency key that is terminal in the run's effect
  mode (committed or rejected in a live run, simulated in a counterfactual one), then whatever other connections do meanwhile, the
  boundary returns no other receipt, and no adapter is consulted: the outcome is the same under any other set of adapters.
\<close>

theorem effect_settles_once:
  assumes "journal_reachable (w_sha w) (wk_journal s)" "stepping_world w" "json_value subject = Inr (JObj subj)"
    and "receipt_for (wk_journal s) (idempotency_key (w_sha w) (manifest_hash m) p k subj mode) = Some rc"
    and "rc_status rc \<in> terminal_receipts mode"
  shows "(\<forall>rc' s'. effect_boundary w m l p mode k subject att s = Inr (rc', s') \<longrightarrow> rc' = rc)
    \<and> effect_boundary (w\<lparr>w_adapters := A\<rparr>) m l p mode k subject att s = effect_boundary w m l p mode k subject att s"
proof -
  have s: "settled (idempotency_key (w_sha w) (manifest_hash m) p k subj mode) rc s"
    using assms(4) reachable_keyed [OF assms(1)] by (simp add: settled_def)
  show ?thesis using boundary_terminal [OF _ assms(2,3) s assms(5)] boundary_deduplicates [OF assms(2,3) s assms(5)] by auto
qed

text \<open>
  A receipt with status unknown, which is not terminal, is never reconciled. The walker asks the adapter again, as the contracts demand, but the journal keeps
  the first receipt: every outcome with another canonical form is refused by \<^verbatim>\<open>record_effect_outcome\<close>, so the boundary ends
  in an error instead of returning it, at this and at every later attempt.
\<close>

theorem unknown_receipt_is_never_reconciled:
  assumes "journal_reachable (w_sha w) (wk_journal s)" "stepping_world w" "json_value subject = Inr (JObj subj)"
    and "receipt_for (wk_journal s) (idempotency_key (w_sha w) (manifest_hash m) p k subj Live) = Some rc" "rc_status rc = UnknownEffect"
    and "canonical_json (effect_receipt_json rc') \<noteq> canonical_json (effect_receipt_json rc)"
    and "er_key q = idempotency_key (w_sha w) (manifest_hash m) p k subj Live"
  shows "effect_boundary w m l p Live k subject att s \<noteq> Inr (rc', s')
    \<and> record_effect_outcome (w_sha w) l q rc' ev (wk_journal s) \<noteq> Inr (x, j')"
proof -
  have s: "settled (idempotency_key (w_sha w) (manifest_hash m) p k subj Live) rc s"
    using assms(4) reachable_keyed [OF assms(1)] by (simp add: settled_def)
  have "record_effect_outcome (w_sha w) l q rc' ev (wk_journal s) \<noteq> Inr (x, j')"
    using assms(4,6,7) by (auto elim!: record_effect_outcome_cases simp: receipt_for_def split: option.splits)
  then show ?thesis using boundary_settled [OF _ assms(2,3) s] assms(6) by blast
qed

theorem effect_settles_once_witness:
  "case effect_boundary effect_world sample_manifest first_lease sample_path Live ''k'' (PDict []) None effect_walk of
     Inl _ \<Rightarrow> False
   | Inr (rc, s) \<Rightarrow> rc = settled_receipt
       \<and> (\<forall>A. effect_boundary (effect_world\<lparr>w_adapters := A\<rparr>) sample_manifest first_lease sample_path Live ''k'' (PDict []) None effect_walk = Inr (rc, s))"
proof -
  have r: "receipt_for (wk_journal effect_walk) (idempotency_key (w_sha effect_world) (manifest_hash sample_manifest) sample_path ''k'' [] Live) = Some settled_receipt"
    by code_simp
  have j: "json_value (PDict []) = Inr (JObj [])" by code_simp
  have "case effect_boundary effect_world sample_manifest first_lease sample_path Live ''k'' (PDict []) None effect_walk of Inl _ \<Rightarrow> False | Inr _ \<Rightarrow> True"
    by code_simp
  then obtain rc s where b: "effect_boundary effect_world sample_manifest first_lease sample_path Live ''k'' (PDict []) None effect_walk = Inr (rc, s)"
    by (auto split: sum.splits)
  have "journal_reachable (w_sha effect_world) (wk_journal effect_walk)" "stepping_world effect_world"
    using settled_journal_reachable by (simp_all add: effect_world_def effect_walk_def stepping_world_def)
  moreover have "rc_status settled_receipt \<in> terminal_receipts Live" by (simp add: settled_receipt_def terminal_receipts_def)
  ultimately show ?thesis using effect_settles_once [OF _ _ j r, of first_lease None] b by simp
qed

end
