(* ===== verification/Activation.thy ===== *)
theory Activation
  imports Capability Walker_Laws
begin

text \<open>
  Activation (\<^verbatim>\<open>ComponentRegistry.bind\<close>, \<^verbatim>\<open>_load\<close> and \<^verbatim>\<open>activate\<close> in \<^verbatim>\<open>runtime/registry.py\<close>): a sealed manifest becomes
  executable on one host when every component it names is retained and its installed code is the recorded code, and when every
  capability it names is assembled under the admitted revision, shape and endpoint. Importing modules, reading attributes and
  reading source text are facts of the host, the fields of \<open>host\<close>.
\<close>

section \<open>Model\<close>

record 'o host =
  h_import :: "string \<Rightarrow> 'o option"
  h_getattr :: "'o \<Rightarrow> string \<Rightarrow> 'o option"
  h_callable :: "'o \<Rightarrow> bool"
  h_adapter_revision :: "'o \<Rightarrow> ustr option"
  h_unwrap :: "'o \<Rightarrow> 'o"
  h_getsource :: "'o \<Rightarrow> ustr option"

datatype load_status = Loadable | MissingModule | MissingQualname | NotCallable | Drifted | NoSource | CompositeVersion

record loadability =
  load_status :: load_status
  expected_digest :: "digest option"
  observed_digest :: "digest option"

definition no_load :: "load_status \<Rightarrow> loadability" where
  "no_load st = \<lparr>load_status = st, expected_digest = None, observed_digest = None\<rparr>"

record 'o binding_result =
  br_stored :: stored_version
  br_impl :: "'o option"
  br_load :: loadability

definition source_digest_for :: "(nat list \<Rightarrow> string) \<Rightarrow> 'o host \<Rightarrow> 'o \<Rightarrow> digest option" where
  "source_digest_for sha h impl =
     (case h_adapter_revision h impl of
        None \<Rightarrow> map_option (\<lambda>src. digest_of sha ''python-source'' 1 (JStr src)) (h_getsource h impl)
      | Some revision \<Rightarrow> map_option (\<lambda>src. digest_of sha ''python-source'' 2
          (jobj [(''source'', JStr src), (''adapter_revision'', JStr revision)])) (h_getsource h (h_unwrap h impl)))"

text \<open>\<^verbatim>\<open>qualname.split(".")\<close>.\<close>

fun split_dots :: "string \<Rightarrow> string list" where
  "split_dots [] = [[]]"
| "split_dots (c # cs) = (if c = CHR ''.'' then [] # split_dots cs
     else case split_dots cs of p # ps \<Rightarrow> (c # p) # ps | [] \<Rightarrow> [[c]])"

fun attribute_path :: "'o host \<Rightarrow> 'o \<Rightarrow> string list \<Rightarrow> 'o option" where
  "attribute_path h target [] = Some target"
| "attribute_path h target (p # ps) = (case h_getattr h target p of None \<Rightarrow> None | Some t \<Rightarrow> attribute_path h t ps)"

definition load_impl :: "'o host \<Rightarrow> string \<Rightarrow> string \<Rightarrow> loadability + 'o" where
  "load_impl h modname qual =
     (case h_import h modname of
        None \<Rightarrow> Inl (no_load MissingModule)
      | Some m \<Rightarrow>
          (case attribute_path h m (split_dots qual) of
             None \<Rightarrow> Inl (no_load MissingQualname)
           | Some t \<Rightarrow> if h_callable h t then Inr t else Inl (no_load NotCallable)))"

type_synonym 'o impls = "(string \<times> digest, 'o) dict"

definition found_impl :: "'o host \<Rightarrow> 'o impls \<Rightarrow> stored_version \<Rightarrow> python_ref \<Rightarrow> loadability + 'o" where
  "found_impl h impls v body =
     (case map_of impls (comp_name (definition_of v), stored_hash v) of
        Some impl \<Rightarrow> Inr impl
      | None \<Rightarrow> load_impl h (py_module body) (qualname body))"

definition bind_version :: "(nat list \<Rightarrow> string) \<Rightarrow> 'o host \<Rightarrow> 'o impls \<Rightarrow> stored_version \<Rightarrow> 'o binding_result" where
  "bind_version sha h impls v =
     (case comp_body (definition_of v) of
        Composite g \<Rightarrow> \<lparr>br_stored = v, br_impl = None, br_load = no_load CompositeVersion\<rparr>
      | Atomic body \<Rightarrow>
          (case found_impl h impls v body of
             Inl l \<Rightarrow> \<lparr>br_stored = v, br_impl = None, br_load = l\<rparr>
           | Inr impl \<Rightarrow>
               (case source_digest_for sha h impl of
                  None \<Rightarrow> \<lparr>br_stored = v, br_impl = None,
                    br_load = \<lparr>load_status = NoSource, expected_digest = source_digest body, observed_digest = None\<rparr>\<rparr>
                | Some observed \<Rightarrow>
                    if source_digest body \<noteq> None \<and> Some observed \<noteq> source_digest body
                    then \<lparr>br_stored = v, br_impl = None,
                      br_load = \<lparr>load_status = Drifted, expected_digest = source_digest body, observed_digest = Some observed\<rparr>\<rparr>
                    else \<lparr>br_stored = v, br_impl = Some impl,
                      br_load = \<lparr>load_status = Loadable, expected_digest = source_digest body, observed_digest = Some observed\<rparr>\<rparr>)))"

text \<open>\<^verbatim>\<open>register\<close> keeps the implementation it was given for the process.\<close>

definition register_impl ::
  "(nat list \<Rightarrow> string) \<Rightarrow> 'o host \<Rightarrow> store \<Rightarrow> 'o impls \<Rightarrow> component_def \<Rightarrow> 'o option \<Rightarrow> nat \<Rightarrow> registry_error + (store \<times> 'o impls \<times> digest)" where
  "register_impl sha h s impls d impl now =
     rbind (register sha (\<lambda>m q. case load_impl h m q of Inl _ \<Rightarrow> None | Inr t \<Rightarrow> Some t) (source_digest_for sha h) s d impl now)
       (\<lambda>(s', content). Inr (s', case impl of None \<Rightarrow> impls | Some i \<Rightarrow> dict_set (comp_name d, content) i impls, content))"

datatype activation_fault =
    NotInRegistry scope string digest
  | NotExecutable scope string loadability
  | OtherImplementation scope "digest option" digest
  | NotAssembled scope string
  | OtherRevision scope string string string
  | OtherShape scope string
  | OtherEndpoint scope string

definition resolution_faults :: "resolution \<Rightarrow> 'o binding_result \<Rightarrow> activation_fault list" where
  "resolution_faults r b =
     (let l = br_load b in
      if load_status l = CompositeVersion then []
      else if load_status l \<noteq> Loadable then [NotExecutable (res_scope r) (res_component r) l]
      else case implementation_digest r of
        None \<Rightarrow> []
      | Some pinned \<Rightarrow> opt (observed_digest l \<noteq> Some pinned) (OtherImplementation (res_scope r) (observed_digest l) pinned))"

fun bind_resolutions ::
  "(nat list \<Rightarrow> string) \<Rightarrow> 'o host \<Rightarrow> 'o impls \<Rightarrow> snapshot \<Rightarrow> resolution list
     \<Rightarrow> activation_fault list \<times> (string \<times> digest, 'o binding_result) dict
     \<Rightarrow> activation_fault list \<times> (string \<times> digest, 'o binding_result) dict" where
  "bind_resolutions sha h impls snap [] acc = acc"
| "bind_resolutions sha h impls snap (r # rs) (fs, bs) =
     (case get_version snap (res_component r) (resolved_version r) of
        None \<Rightarrow> bind_resolutions sha h impls snap rs (fs @ [NotInRegistry (res_scope r) (res_component r) (resolved_version r)], bs)
      | Some v \<Rightarrow>
          let b = bind_version sha h impls v in
          bind_resolutions sha h impls snap rs (fs @ resolution_faults r b, dict_set (res_component r, resolved_version r) b bs))"

definition capability_faults :: "(string \<Rightarrow> descriptor option) \<Rightarrow> capability_binding \<Rightarrow> activation_fault list" where
  "capability_faults catalog c =
     (if binding c = SELF_BINDING then []
      else case catalog (bound_capability c) of
        None \<Rightarrow> [NotAssembled (bind_scope c) (bound_capability c)]
      | Some d \<Rightarrow>
          if cap_revision d \<noteq> bound_revision c then [OtherRevision (bind_scope c) (bound_capability c) (cap_revision d) (bound_revision c)]
          else if (channel_profile d \<noteq> None) \<noteq> (bound_channel c \<noteq> None) then [OtherShape (bind_scope c) (bound_capability c)]
          else if cap_endpoint d \<noteq> map_option cb_endpoint (bound_channel c) then [OtherEndpoint (bind_scope c) (bound_capability c)]
          else [])"

definition activate ::
  "(nat list \<Rightarrow> string) \<Rightarrow> 'o host \<Rightarrow> store \<Rightarrow> 'o impls \<Rightarrow> (string \<Rightarrow> descriptor option) \<Rightarrow> manifest
     \<Rightarrow> registry_error + activation_fault list + (string \<times> digest, 'o binding_result) dict" where
  "activate sha h s impls catalog m =
     (case store_snapshot s None of
        Inl e \<Rightarrow> Inl e
      | Inr snap \<Rightarrow>
          (let (fs, bs) = bind_resolutions sha h impls snap (resolved_components m) ([], []);
               faults = fs @ concat (map (capability_faults catalog) (capability_bindings m))
           in Inr (if faults \<noteq> [] then Inl faults else Inr bs)))"

text \<open>
  \<^verbatim>\<open>BoundExecution.bound\<close>, as the walker reads it; a key outside the bindings raises \<^verbatim>\<open>KeyError\<close> in the code, and the theorems
  below ask only for keys of the manifest.
\<close>

definition bound_in :: "(string \<times> digest, 'o binding_result) dict \<Rightarrow> string \<Rightarrow> digest \<Rightarrow> bound_version" where
  "bound_in bs name v =
     (let b = the (map_of bs (name, v)) in
      \<lparr>bound_stored = br_stored b, bound_composite = load_status (br_load b) = CompositeVersion, loaded = br_impl b \<noteq> None\<rparr>)"


section \<open>Laws\<close>

text \<open>What a bound version says of the code behind it.\<close>

lemma bind_version_stored [simp]: "br_stored (bind_version sha h impls v) = v"
  by (simp add: bind_version_def split: comp_body.splits sum.splits option.splits)

lemma load_impl_status: "load_impl h m q = Inl l \<Longrightarrow> load_status l \<noteq> Loadable \<and> load_status l \<noteq> CompositeVersion"
  by (auto simp: load_impl_def no_load_def split: option.splits if_splits)

lemma bind_composite:
  "load_status (br_load (bind_version sha h impls v)) = CompositeVersion \<longleftrightarrow> (\<exists>g. comp_body (definition_of v) = Composite g)"
  by (auto simp: bind_version_def found_impl_def no_load_def dest: load_impl_status split: comp_body.splits sum.splits option.splits)

text \<open>A component is available on a host: the code found for it is the recorded code, and the code the manifest sealed.\<close>

definition executable_here :: "(nat list \<Rightarrow> string) \<Rightarrow> 'o host \<Rightarrow> 'o impls \<Rightarrow> snapshot \<Rightarrow> resolution \<Rightarrow> bool" where
  "executable_here sha h impls snap r =
     (case get_version snap (res_component r) (resolved_version r) of
        None \<Rightarrow> False
      | Some v \<Rightarrow>
          (case comp_body (definition_of v) of
             Composite g \<Rightarrow> True
           | Atomic body \<Rightarrow>
               (case found_impl h impls v body of
                  Inl _ \<Rightarrow> False
                | Inr impl \<Rightarrow>
                    (case source_digest_for sha h impl of
                       None \<Rightarrow> False
                     | Some observed \<Rightarrow> (source_digest body = None \<or> source_digest body = Some observed)
                         \<and> (implementation_digest r = None \<or> implementation_digest r = Some observed)))))"

definition assembled_here :: "(string \<Rightarrow> descriptor option) \<Rightarrow> capability_binding \<Rightarrow> bool" where
  "assembled_here catalog c \<longleftrightarrow> binding c = SELF_BINDING \<or>
     (\<exists>d. catalog (bound_capability c) = Some d \<and> cap_revision d = bound_revision c
        \<and> (channel_profile d = None \<longleftrightarrow> bound_channel c = None) \<and> cap_endpoint d = map_option cb_endpoint (bound_channel c))"

lemma capability_faults_Nil: "capability_faults catalog c = [] \<longleftrightarrow> assembled_here catalog c"
  by (auto simp: capability_faults_def assembled_here_def split: option.splits)

lemma resolution_faults_Nil:
  assumes "get_version snap (res_component r) (resolved_version r) = Some v"
  shows "resolution_faults r (bind_version sha h impls v) = [] \<longleftrightarrow> executable_here sha h impls snap r"
proof (cases "comp_body (definition_of v)")
  case (Atomic body)
  show ?thesis
  proof (cases "found_impl h impls v body")
    case (Inl l)
    then have "load_status l \<noteq> Loadable \<and> load_status l \<noteq> CompositeVersion"
      using load_impl_status by (auto simp: found_impl_def split: option.splits)
    then show ?thesis using Atomic Inl assms by (simp add: resolution_faults_def bind_version_def executable_here_def Let_def)
  next
    case (Inr impl)
    then show ?thesis using Atomic assms
      by (cases "source_digest_for sha h impl"; cases "source_digest body"; cases "implementation_digest r")
        (auto simp: resolution_faults_def bind_version_def executable_here_def Let_def opt_def)
  qed
qed (simp add: resolution_faults_def bind_version_def executable_here_def assms no_load_def)

lemma bind_resolutions_faults:
  assumes "bind_resolutions sha h impls snap rs (fs, bs) = (fs', bs')"
  shows "fs' = [] \<longleftrightarrow> fs = [] \<and> (\<forall>r \<in> set rs. executable_here sha h impls snap r)"
  using assms
proof (induction rs arbitrary: fs bs)
  case (Cons r rs)
  show ?case
  proof (cases "get_version snap (res_component r) (resolved_version r)")
    case None
    then show ?thesis using Cons.prems Cons.IH by (auto simp: executable_here_def)
  next
    case (Some v)
    then show ?thesis using Cons.prems Cons.IH resolution_faults_Nil [OF Some, of sha h impls] by (auto simp: Let_def)
  qed
qed simp

text \<open>What one component version contributes to the report.\<close>

definition component_faults :: "(nat list \<Rightarrow> string) \<Rightarrow> 'o host \<Rightarrow> 'o impls \<Rightarrow> snapshot \<Rightarrow> resolution \<Rightarrow> activation_fault list" where
  "component_faults sha h impls snap r =
     (case get_version snap (res_component r) (resolved_version r) of
        None \<Rightarrow> [NotInRegistry (res_scope r) (res_component r) (resolved_version r)]
      | Some v \<Rightarrow> resolution_faults r (bind_version sha h impls v))"

lemma component_faults_Nil: "component_faults sha h impls snap r = [] \<longleftrightarrow> executable_here sha h impls snap r"
  using resolution_faults_Nil [of snap r] by (cases "get_version snap (res_component r) (resolved_version r)")
    (auto simp: component_faults_def executable_here_def)

lemma bind_resolutions_report:
  "fst (bind_resolutions sha h impls snap rs acc) = fst acc @ concat (map (component_faults sha h impls snap) rs)"
  by (induction sha h impls snap rs acc rule: bind_resolutions.induct) (auto simp: component_faults_def Let_def split: option.splits)

lemma bind_resolutions_bindings:
  assumes "bind_resolutions sha h impls snap rs (fs, bs) = (fs', bs')" "\<forall>r \<in> set rs. executable_here sha h impls snap r"
  shows "map_of bs' (n, k) = (if \<exists>r \<in> set rs. (res_component r, resolved_version r) = (n, k)
     then map_option (bind_version sha h impls) (get_version snap n k) else map_of bs (n, k))"
  using assms
proof (induction rs arbitrary: fs bs)
  case (Cons r rs)
  obtain v where v: "get_version snap (res_component r) (resolved_version r) = Some v"
    using Cons.prems(2) by (auto simp: executable_here_def split: option.splits)
  then show ?case using Cons.prems Cons.IH by (auto simp: Let_def)
qed simp

lemma executable_binding:
  assumes "get_version snap (res_component r) (resolved_version r) = Some v" "executable_here sha h impls snap r"
    and "comp_body (definition_of v) = Atomic body"
  obtains impl observed where "br_impl (bind_version sha h impls v) = Some impl" "found_impl h impls v body = Inr impl"
    "source_digest_for sha h impl = Some observed" "source_digest body = None \<or> source_digest body = Some observed"
    "implementation_digest r = None \<or> implementation_digest r = Some observed"
proof -
  obtain impl where i: "found_impl h impls v body = Inr impl"
    using assms by (cases "found_impl h impls v body") (auto simp: executable_here_def)
  moreover obtain observed where "source_digest_for sha h impl = Some observed"
    using assms i by (cases "source_digest_for sha h impl") (auto simp: executable_here_def)
  ultimately show thesis using assms by (intro that) (auto simp: executable_here_def bind_version_def)
qed

section \<open>Properties\<close>

text \<open>
  C32. Activation decides exactly. With the registry readable, a manifest is activated on a host if every component version
  it names is retained and, when atomic, has code on the host whose source has a digest, equal to the recorded and to the sealed one where
  these are given, and every capability binding, but the row under the name reserved for the node itself, names a capability assembled
  under the sealed revision, channel shape and endpoint. Otherwise nothing is bound, and the report is the faults of every component and of
  every binding, in the manifest's order; a component or binding adds a fault exactly when it fails its condition.
\<close>

theorem activation_decides:
  assumes "store_snapshot s None = Inr snap"
  shows "(\<exists>bs. activate sha h s impls catalog m = Inr
      (if (\<forall>r \<in> set (resolved_components m). executable_here sha h impls snap r) \<and> (\<forall>c \<in> set (capability_bindings m). assembled_here catalog c)
       then Inr bs
       else Inl (concat (map (component_faults sha h impls snap) (resolved_components m))
                 @ concat (map (capability_faults catalog) (capability_bindings m)))))
    \<and> (\<forall>r. component_faults sha h impls snap r = [] \<longleftrightarrow> executable_here sha h impls snap r)
    \<and> (\<forall>c. capability_faults catalog c = [] \<longleftrightarrow> assembled_here catalog c)"
proof -
  obtain fs bs where b: "bind_resolutions sha h impls snap (resolved_components m) ([], []) = (fs, bs)" by fastforce
  then have "fs = concat (map (component_faults sha h impls snap) (resolved_components m))"
    using bind_resolutions_report [of sha h impls snap "resolved_components m" "([], [])"] by simp
  then show ?thesis using b by (auto simp: activate_def assms Let_def component_faults_Nil capability_faults_Nil)
qed

lemma activation_bindings:
  assumes "activate sha h s impls catalog m = Inr (Inr bs)" "store_snapshot s None = Inr snap"
  shows "\<forall>r \<in> set (resolved_components m). executable_here sha h impls snap r"
    "\<And>r. r \<in> set (resolved_components m) \<Longrightarrow> \<exists>v. get_version snap (res_component r) (resolved_version r) = Some v
       \<and> map_of bs (res_component r, resolved_version r) = Some (bind_version sha h impls v)
       \<and> bound_in bs (res_component r) (resolved_version r) = \<lparr>bound_stored = v,
           bound_composite = (\<exists>g. comp_body (definition_of v) = Composite g), loaded = br_impl (bind_version sha h impls v) \<noteq> None\<rparr>"
proof -
  obtain fs bs' where b: "bind_resolutions sha h impls snap (resolved_components m) ([], []) = (fs, bs')" by fastforce
  have fs: "fs = []" "bs' = bs" using assms(1) by (auto simp: activate_def assms(2) b Let_def split: if_splits)
  show ok: "\<forall>r \<in> set (resolved_components m). executable_here sha h impls snap r"
    using bind_resolutions_faults [OF b] fs(1) by simp
  fix r assume r: "r \<in> set (resolved_components m)"
  then obtain v where v: "get_version snap (res_component r) (resolved_version r) = Some v"
    using ok by (auto simp: executable_here_def split: option.splits)
  then have "map_of bs (res_component r, resolved_version r) = Some (bind_version sha h impls v)"
    using bind_resolutions_bindings [OF b ok] fs(2) r by auto
  then show "\<exists>v. get_version snap (res_component r) (resolved_version r) = Some v
       \<and> map_of bs (res_component r, resolved_version r) = Some (bind_version sha h impls v)
       \<and> bound_in bs (res_component r) (resolved_version r) = \<lparr>bound_stored = v,
           bound_composite = (\<exists>g. comp_body (definition_of v) = Composite g), loaded = br_impl (bind_version sha h impls v) \<noteq> None\<rparr>"
    using v by (simp add: bound_in_def bind_composite)
qed

lemma activation_bound:
  assumes "activate sha h s impls catalog m = Inr (Inr bs)" "store_snapshot s None = Inr snap"
  shows "activated snap (bound_in bs) m"
  unfolding activated_def Let_def
proof
  fix r assume "r \<in> set (resolved_components m)"
  from activation_bindings(2) [OF assms this]
  show "get_version snap (res_component r) (resolved_version r) = Some (bound_stored (bound_in bs (res_component r) (resolved_version r)))
    \<and> (bound_composite (bound_in bs (res_component r) (resolved_version r))
       \<longleftrightarrow> (case comp_body (definition_of (bound_stored (bound_in bs (res_component r) (resolved_version r)))) of Composite g \<Rightarrow> True | Atomic a \<Rightarrow> False))"
    by (auto split: comp_body.splits)
qed

text \<open>
  C33. What activation promises the walker. The bindings of an activated manifest are the stored versions it names, composite or
  loaded, so that no instance of the run misses its implementation; and what is loaded has the recorded digest and the digest that
  the manifest sealed, never a substitute.
\<close>

theorem activation_binds_sealed_versions:
  assumes "activate sha h s impls catalog m = Inr (Inr bs)" "store_snapshot s None = Inr snap"
  shows "activated snap (bound_in bs) m \<and> (\<exists>is. instances_of (bound_in bs) (resolved_components m) = Inr is)
    \<and> (\<forall>r \<in> set (resolved_components m). \<forall>v body. get_version snap (res_component r) (resolved_version r) = Some v
        \<longrightarrow> comp_body (definition_of v) = Atomic body
        \<longrightarrow> (\<exists>b impl observed. map_of bs (res_component r, resolved_version r) = Some b \<and> br_impl b = Some impl
             \<and> source_digest_for sha h impl = Some observed \<and> source_digest body \<in> {None, Some observed}
             \<and> implementation_digest r \<in> {None, Some observed}))"
proof -
  note bound = activation_bindings(2) [OF assms]
  note ok = activation_bindings(1) [OF assms]
  have "\<exists>is. instances_of (bound_in bs) rs = Inr is" if "set rs \<subseteq> set (resolved_components m)" for rs
    using that
  proof (induction rs)
    case (Cons r rs)
    have r: "r \<in> set (resolved_components m)" using Cons.prems by simp
    then obtain v where v: "get_version snap (res_component r) (resolved_version r) = Some v"
      "bound_in bs (res_component r) (resolved_version r) = \<lparr>bound_stored = v,
         bound_composite = (\<exists>g. comp_body (definition_of v) = Composite g), loaded = br_impl (bind_version sha h impls v) \<noteq> None\<rparr>"
      using bound by blast
    have "(\<exists>g. comp_body (definition_of v) = Composite g) \<or> br_impl (bind_version sha h impls v) \<noteq> None"
    proof (cases "comp_body (definition_of v)")
      case (Atomic body)
      then show ?thesis using executable_binding [OF v(1) _ Atomic] ok r by (metis option.distinct(1))
    qed simp
    then show ?case using Cons by (auto simp: Let_def v(2))
  qed simp
  then have "\<exists>is. instances_of (bound_in bs) (resolved_components m) = Inr is" by simp
  moreover have "\<exists>b impl observed. map_of bs (res_component r, resolved_version r) = Some b \<and> br_impl b = Some impl
      \<and> source_digest_for sha h impl = Some observed \<and> source_digest body \<in> {None, Some observed}
      \<and> implementation_digest r \<in> {None, Some observed}"
    if "r \<in> set (resolved_components m)" "get_version snap (res_component r) (resolved_version r) = Some v"
      "comp_body (definition_of v) = Atomic body" for r v body
  proof -
    have "executable_here sha h impls snap r" using ok that(1) by blast
    moreover have "map_of bs (res_component r, resolved_version r) = Some (bind_version sha h impls v)"
      using bound [OF that(1)] that(2) by auto
    ultimately show ?thesis by - (rule executable_binding [OF that(2) _ that(3)], auto)
  qed
  ultimately show ?thesis using activation_bound [OF assms] by blast
qed

text \<open>The sample host has one callable at one module; the manifest seals its digest.\<close>

definition sample_host :: "nat host" where
  "sample_host = \<lparr>h_import = (\<lambda>m. if m = [] then Some 0 else None), h_getattr = (\<lambda>t p. if t = 0 then Some 1 else None),
     h_callable = (\<lambda>t. t = 1), h_adapter_revision = (\<lambda>t. None), h_unwrap = (\<lambda>t. t), h_getsource = (\<lambda>t. Some (ustr_of ''x''))\<rparr>"

definition walk_store :: store where
  "walk_store = (case store_version empty_store Walker_Laws.sample_version of Inr s \<Rightarrow> s | Inl _ \<Rightarrow> empty_store)"

definition sample_bindings :: "(string \<times> digest, nat binding_result) dict" where
  "sample_bindings = [((''c'', ''v''), bind_version (\<lambda>_. []) sample_host [] Walker_Laws.sample_version)]"

lemma sample_activation:
  "store_snapshot walk_store None = Inr sample_snapshot"
  "activate (\<lambda>_. []) sample_host walk_store [] (\<lambda>_. None) one_node = Inr (Inr sample_bindings)"
  by code_simp+

theorem activation_decides_witness:
  "executable_here (\<lambda>_. []) sample_host [] sample_snapshot (hd (resolved_components one_node))
   \<and> (\<exists>f fs. activate (\<lambda>_. []) (sample_host\<lparr>h_getsource := \<lambda>_. None\<rparr>) walk_store [] (\<lambda>_. None) one_node = Inr (Inl (f # fs)))"
proof -
  have "\<not> (\<forall>r \<in> set (resolved_components one_node). executable_here (\<lambda>_. []) (sample_host\<lparr>h_getsource := \<lambda>_. None\<rparr>) [] sample_snapshot r)"
    "hd (resolved_components one_node) \<in> set (resolved_components one_node)"
    by code_simp+
  note bad = this
  let ?h = "sample_host\<lparr>h_getsource := \<lambda>_. None\<rparr>"
  let ?fs = "concat (map (component_faults (\<lambda>_. []) ?h [] sample_snapshot) (resolved_components one_node))
      @ concat (map (capability_faults (\<lambda>_. None)) (capability_bindings one_node))"
  note d = activation_decides [OF sample_activation(1)]
  have "activate (\<lambda>_. []) ?h walk_store [] (\<lambda>_. None) one_node = Inr (Inl ?fs)"
    using d [of "\<lambda>_. []" ?h "[]" "\<lambda>_. None" one_node] bad(1) by auto
  moreover have "?fs \<noteq> []" using bad(1) component_faults_Nil [of "\<lambda>_. []" ?h "[]" sample_snapshot] by auto
  ultimately have "\<exists>f fs. activate (\<lambda>_. []) ?h walk_store [] (\<lambda>_. None) one_node = Inr (Inl (f # fs))" by (metis neq_Nil_conv)
  moreover have "executable_here (\<lambda>_. []) sample_host [] sample_snapshot (hd (resolved_components one_node))" by code_simp
  ultimately show ?thesis by blast
qed

theorem activation_binds_sealed_versions_witness:
  "activated sample_snapshot (bound_in sample_bindings) one_node"
  using activation_binds_sealed_versions [OF sample_activation(2,1)] by blast

end
