(* ===== verification/Promotions.thy ===== *)
theory Promotions
  imports Registry Run_Journal
begin

text \<open>
  The registry's decisions over its store and the journal (\<^verbatim>\<open>runtime/registry.py\<close>): promotion by a minted proof, the
  bootstrap and rollback policies that mint their own, and the reverse dependencies of a component. An operation that mints
  returns the journal beside an exception too: the proof stays minted when the promotion it was for is refused.
\<close>

section \<open>Model\<close>

datatype promotion_error =
    NoSuchVersion string digest
  | PromotionIdentity string
  | NotMinted string
  | PromotionFaults "promotion_fault list" "(string \<times> string option) option"
  | StoreRefused registry_error
  | MintRefused exc
  | AlreadyStable string digest
  | ExpectedStable "digest option" "digest option"
  | NoStableVersion string
  | NoEarlierVersion string
  | NoRollbackTarget string digest
  | ContradictoryRollback
  | RollbackProofConsumed string

definition load_attestation :: "string \<Rightarrow> journal \<Rightarrow> attestation option" where
  "load_attestation i j = map_of (attestations j) i"

subsection \<open>Promotion\<close>

definition promote ::
  "store \<Rightarrow> journal \<Rightarrow> string \<Rightarrow> digest \<Rightarrow> string \<Rightarrow> string \<Rightarrow> string option \<Rightarrow> nat \<Rightarrow> promotion_error + (store \<times> promotion_record)" where
  "promote s j name v att actor run now =
     (case store_snapshot s None of
        Inl e \<Rightarrow> Inl (StoreRefused e)
      | Inr snap \<Rightarrow>
          if get_version snap name v = None then Inl (NoSuchVersion name v)
          else case promotion_for_attestation s att of
            Some prior \<Rightarrow>
              if prom_component prior \<noteq> name \<or> to_version prior \<noteq> v then Inl (PromotionIdentity att) else Inr (s, prior)
          | None \<Rightarrow>
              (case load_attestation att j of
                 None \<Rightarrow> Inl (NotMinted att)
               | Some a \<Rightarrow>
                   let current = stable_version snap name;
                       faults = promotion_attestation_faults a name v current (att_run a);
                       differs = (case run of Some r \<Rightarrow> if Some r \<noteq> att_run a then Some (r, att_run a) else None | None \<Rightarrow> None)
                   in if faults \<noteq> [] \<or> differs \<noteq> None then Inl (PromotionFaults faults differs)
                      else case store_promotion s \<lparr>prom_component = name, prom_channel = ''stable'', from_version = current,
                             to_version = v, attestation_id = att, prom_actor = actor, source_run = att_run a,
                             prom_created_at = now\<rparr> of
                        Inl e \<Rightarrow> Inl (StoreRefused e)
                      | Inr x \<Rightarrow> Inr x))"

subsection \<open>Policies that mint their own proof\<close>

definition policy_attestation_draft ::
  "(nat list \<Rightarrow> string) \<Rightarrow> string \<Rightarrow> digest \<Rightarrow> digest option \<Rightarrow> string \<Rightarrow> string \<Rightarrow> attestation_draft" where
  "policy_attestation_draft sha name v baseline policy detail =
     \<lparr>draft_action = PromoteAction,
      draft_subject = ComponentProof \<lparr>subject_component = name, subject_version = v, subject_baseline = baseline\<rparr>,
      draft_checks = [\<lparr>check_name = policy, check_status = Passed, check_ok = True, check_detail = detail,
        check_elapsed = ustr_of ''0.0''\<rparr>],
      draft_check_set = digest_of sha ''check-set'' 1 (jobj [(''policy'', jstr policy), (''v'', jnat 1)]),
      draft_evidence = [], draft_manifest = digest_of sha ''manifest'' 1 (jobj [(''policy'', jstr policy)]),
      draft_workspace = None\<rparr>"

record planned_promotion =
  plan_component :: string
  plan_baseline :: "digest option"
  plan_target :: digest
  plan_draft :: attestation_draft
  plan_attestation :: string

definition planned_policy :: "(nat list \<Rightarrow> string) \<Rightarrow> string \<Rightarrow> digest option \<Rightarrow> digest \<Rightarrow> attestation_draft \<Rightarrow> planned_promotion" where
  "planned_policy sha name baseline target d =
     \<lparr>plan_component = name, plan_baseline = baseline, plan_target = target, plan_draft = d, plan_attestation = attestation_id_for sha d\<rparr>"

definition bootstrap_draft :: "(nat list \<Rightarrow> string) \<Rightarrow> string \<Rightarrow> digest \<Rightarrow> attestation_draft" where
  "bootstrap_draft sha name v = policy_attestation_draft sha name v None ''bootstrap-initial''
     ''freshly registered version with a validated contract''"

definition plan_initial_promotion :: "(nat list \<Rightarrow> string) \<Rightarrow> store \<Rightarrow> string \<Rightarrow> digest \<Rightarrow> promotion_error + planned_promotion" where
  "plan_initial_promotion sha s name v =
     (case store_snapshot s None of
        Inl e \<Rightarrow> Inl (StoreRefused e)
      | Inr snap \<Rightarrow>
          if get_version snap name v = None then Inl (NoSuchVersion name v)
          else Inr (planned_policy sha name None v (bootstrap_draft sha name v)))"

text \<open>Minting a draft and promoting with the proof.\<close>

definition promote_draft ::
  "(nat list \<Rightarrow> string) \<Rightarrow> store \<Rightarrow> journal \<Rightarrow> string \<Rightarrow> digest \<Rightarrow> attestation_draft \<Rightarrow> string \<Rightarrow> nat
     \<Rightarrow> promotion_error \<times> journal + promotion_record \<times> store \<times> journal" where
  "promote_draft sha s j name v d actor now =
     (case mint_policy_attestation sha d j of
        Inl e \<Rightarrow> Inl (MintRefused e, j)
      | Inr (a, j) \<Rightarrow>
          (case promote s j name v (att_id a) actor None now of
             Inl e \<Rightarrow> Inl (e, j)
           | Inr (s, r) \<Rightarrow> Inr (r, s, j)))"

definition promote_initial ::
  "(nat list \<Rightarrow> string) \<Rightarrow> store \<Rightarrow> journal \<Rightarrow> string \<Rightarrow> digest \<Rightarrow> string \<Rightarrow> nat
     \<Rightarrow> promotion_error \<times> journal + promotion_record option \<times> store \<times> journal" where
  "promote_initial sha s j name v actor now =
     (case store_snapshot s None of
        Inl e \<Rightarrow> Inl (StoreRefused e, j)
      | Inr snap \<Rightarrow>
          (case stable_version snap name of
             Some c \<Rightarrow> if c = v then Inr (None, s, j) else Inl (AlreadyStable name c, j)
           | None \<Rightarrow>
               (case promote_draft sha s j name v (bootstrap_draft sha name v) actor now of
                  Inl x \<Rightarrow> Inl x
                | Inr (r, s, j) \<Rightarrow> Inr (Some r, s, j))))"

text \<open>The text of a rollback's check names the edge.\<close>

definition rollback_detail :: "digest \<Rightarrow> digest \<Rightarrow> string" where
  "rollback_detail b t = ''pointer move back from '' @ b @ '' to retained '' @ t"

definition rollback_draft :: "(nat list \<Rightarrow> string) \<Rightarrow> string \<Rightarrow> digest \<Rightarrow> digest \<Rightarrow> attestation_draft" where
  "rollback_draft sha name b t = policy_attestation_draft sha name t (Some b) ''rollback'' (rollback_detail b t)"

definition plan_rollback_edge ::
  "(nat list \<Rightarrow> string) \<Rightarrow> store \<Rightarrow> string \<Rightarrow> digest \<Rightarrow> digest \<Rightarrow> promotion_error + planned_promotion" where
  "plan_rollback_edge sha s name b t =
     (case store_snapshot s None of
        Inl e \<Rightarrow> Inl (StoreRefused e)
      | Inr snap \<Rightarrow>
          if get_version snap name t = None then Inl (NoRollbackTarget name t)
          else Inr (planned_policy sha name (Some b) t (rollback_draft sha name b t)))"

text \<open>Where the current pointer was last reached from.\<close>

definition previous_stable :: "(digest option \<times> digest) list \<Rightarrow> digest \<Rightarrow> digest option" where
  "previous_stable hist current =
     (case find (\<lambda>(_, t). t = current) (rev hist) of None \<Rightarrow> None | Some (f, _) \<Rightarrow> f)"

definition plan_rollback ::
  "(nat list \<Rightarrow> string) \<Rightarrow> store \<Rightarrow> string \<Rightarrow> digest option \<Rightarrow> promotion_error + planned_promotion" where
  "plan_rollback sha s name expected =
     (case store_snapshot s None of
        Inl e \<Rightarrow> Inl (StoreRefused e)
      | Inr snap \<Rightarrow>
          let current = stable_version snap name in
          if expected \<noteq> None \<and> current \<noteq> expected then Inl (ExpectedStable expected current)
          else case current of
            None \<Rightarrow> Inl (NoStableVersion name)
          | Some c \<Rightarrow>
              (case previous_stable (dict_get_or [] (history snap) name) c of
                 None \<Rightarrow> Inl (NoEarlierVersion name)
               | Some t \<Rightarrow> rbind (plan_rollback_edge sha s name c t) (\<lambda>plan.
                   case promotion_for_attestation s (plan_attestation plan) of
                     None \<Rightarrow> Inr plan
                   | Some prior \<Rightarrow>
                       if prom_component prior \<noteq> name \<or> prom_channel prior \<noteq> ''stable'' \<or> from_version prior \<noteq> Some c
                          \<or> to_version prior \<noteq> t \<or> source_run prior \<noteq> None
                       then Inl ContradictoryRollback
                       else Inl (RollbackProofConsumed name))))"

definition rollback ::
  "(nat list \<Rightarrow> string) \<Rightarrow> store \<Rightarrow> journal \<Rightarrow> string \<Rightarrow> string \<Rightarrow> digest option \<Rightarrow> nat
     \<Rightarrow> promotion_error \<times> journal + promotion_record \<times> store \<times> journal" where
  "rollback sha s j name actor expected now =
     (case plan_rollback sha s name expected of
        Inl e \<Rightarrow> Inl (e, j)
      | Inr plan \<Rightarrow> promote_draft sha s j name (plan_target plan) (plan_draft plan) actor now)"

subsection \<open>Reverse dependencies\<close>

primrec refs_in :: "graph \<Rightarrow> string list"
and refs_in_node :: "gnode \<Rightarrow> string list"
and refs_in_body :: "body \<Rightarrow> string list"
and refs_in_loop :: "loop \<Rightarrow> string list"
and refs_in_loop_body :: "loop_body \<Rightarrow> string list"
where
  "refs_in (Graph name ns cs ins outs) = concat (map refs_in_node ns)"
| "refs_in_node (GNode i b) = refs_in_body b"
| "refs_in_body (RefBody r) = [component r]"
| "refs_in_body (GraphBody g) = refs_in g"
| "refs_in_body (LoopBody l) = refs_in_loop l"
| "refs_in_loop (Loop b fb cont n) = refs_in_loop_body b"
| "refs_in_loop_body (LoopRef r) = [component r]"
| "refs_in_loop_body (LoopGraph g) = refs_in g"

text \<open>\<^verbatim>\<open>direct\<close>: for a component, the owners of composites that refer to it. A set is read in sorted order.\<close>

definition reference_edges :: "snapshot \<Rightarrow> (string \<times> string) list" where
  "reference_edges snap = concat (map (\<lambda>(owner, entries). concat (map (\<lambda>(_, v).
     case comp_body (definition_of v) of Composite g \<Rightarrow> map (\<lambda>d. (d, owner)) (refs_in g) | Atomic _ \<Rightarrow> []) entries)) (versions snap))"

definition dependents :: "(string \<times> string) list \<Rightarrow> string \<Rightarrow> string list" where
  "dependents es name = sorted_set (map snd (filter (\<lambda>e. fst e = name) es))"

function rdeps_loop :: "(string \<times> string) list \<Rightarrow> string set \<Rightarrow> string list \<Rightarrow> string set" where
  "rdeps_loop es seen frontier =
     (if frontier = [] then seen
      else let fresh = filter (\<lambda>d. d \<notin> seen) (dependents es (last frontier))
           in rdeps_loop es (seen \<union> set fresh) (butlast frontier @ fresh))"
  by pat_completeness auto
termination
proof (relation "measures [\<lambda>(es, seen, frontier). card (snd ` set es - seen), \<lambda>(es, seen, frontier). length frontier]", goal_cases)
  case (2 es seen frontier fresh)
  show ?case
  proof (cases "fresh = []")
    case True
    then show ?thesis using 2 by simp
  next
    case False
    then obtain d where d: "d \<in> set fresh" by (cases fresh) auto
    then have "d \<in> snd ` set es - seen" using 2(2) by (auto simp: dependents_def)
    then have "snd ` set es - (seen \<union> set fresh) \<subset> snd ` set es - seen" using d by auto
    then have "card (snd ` set es - (seen \<union> set fresh)) < card (snd ` set es - seen)" by (intro psubset_card_mono) auto
    then show ?thesis by simp
  qed
qed simp

declare rdeps_loop.simps [simp del]

definition rdeps :: "snapshot \<Rightarrow> string \<Rightarrow> string list" where
  "rdeps snap name = sorted_list_of_set (rdeps_loop (reference_edges snap) {} [name])"


section \<open>Laws\<close>

subsection \<open>The reverse dependencies are the closure\<close>

lemma set_dependents [simp]: "set (dependents es x) = {y. (x, y) \<in> set es}"
  by (force simp: dependents_def)

text \<open>What the search keeps: nothing but dependents is seen, and whatever is seen and not waiting has been expanded.\<close>

definition searched :: "(string \<times> string) list \<Rightarrow> string \<Rightarrow> string set \<Rightarrow> string list \<Rightarrow> bool" where
  "searched es name seen frontier \<longleftrightarrow> seen \<subseteq> {y. (name, y) \<in> (set es)\<^sup>+} \<and> set frontier \<subseteq> insert name seen
     \<and> (\<forall>x \<in> insert name seen - set frontier. \<forall>y. (x, y) \<in> set es \<longrightarrow> y \<in> seen)"

lemma searched_step:
  assumes "searched es name seen frontier" "frontier \<noteq> []" "fresh = filter (\<lambda>d. d \<notin> seen) (dependents es (last frontier))"
  shows "searched es name (seen \<union> set fresh) (butlast frontier @ fresh)"
proof -
  obtain fs x where f: "frontier = fs @ [x]" using assms(2) by (metis append_butlast_last_id)
  have fresh: "set fresh = {y. (x, y) \<in> set es} - seen" by (auto simp: assms(3) f)
  note parts = assms(1) [unfolded searched_def]
  note inv = parts [THEN conjunct1] parts [THEN conjunct2, THEN conjunct1] parts [THEN conjunct2, THEN conjunct2]
  have sub: "seen \<subseteq> {y. (name, y) \<in> (set es)\<^sup>+}" "set fs \<subseteq> insert name seen" "x \<in> insert name seen"
    using inv(1,2) by (simp_all add: f)
  have expanded: "y \<in> seen" if "z \<in> insert name seen" "z \<notin> set fs" "z \<noteq> x" "(z, y) \<in> set es" for z y
  proof -
    have "z \<in> insert name seen - set frontier" using that(1-3) by (simp add: f)
    then show ?thesis using inv(3) that(4) by blast
  qed
  have "(name, y) \<in> (set es)\<^sup>+" if "(x, y) \<in> set es" for y
  proof (cases "x = name")
    case False
    then have "(name, x) \<in> (set es)\<^sup>+" using sub(1,3) by blast
    then show ?thesis using that by (rule trancl_into_trancl)
  qed (use that in \<open>simp add: r_into_trancl\<close>)
  then show ?thesis using sub expanded unfolding searched_def f fresh set_append butlast_snoc by blast
qed

lemma rdeps_loop_closure: "searched es name seen frontier \<Longrightarrow> rdeps_loop es seen frontier = {y. (name, y) \<in> (set es)\<^sup>+}"
proof (induction es seen frontier rule: rdeps_loop.induct)
  case (1 es seen frontier)
  show ?case
  proof (cases "frontier = []")
    case True
    have "y \<in> seen" if "(name, y) \<in> (set es)\<^sup>+" for y
      using that by (induction rule: trancl_induct) (use 1(2) True in \<open>auto simp: searched_def\<close>)
    then show ?thesis using 1(2) True by (auto simp: searched_def rdeps_loop.simps)
  next
    case False
    then show ?thesis using 1(1) [OF False refl searched_step [OF 1(2) False refl]]
      by (subst rdeps_loop.simps) (simp add: Let_def)
  qed
qed

lemma finite_dependents: "finite {y. (name, y) \<in> (set es)\<^sup>+}"
proof (rule finite_subset)
  show "{y. (name, y) \<in> (set es)\<^sup>+} \<subseteq> Range ((set es)\<^sup>+)" by blast
qed (simp add: finite_Range)

lemma rdeps_closure: "set (rdeps snap name) = {owner. (name, owner) \<in> (set (reference_edges snap))\<^sup>+}"
  using rdeps_loop_closure [of "reference_edges snap" name "{}" "[name]"]
  by (simp add: rdeps_def searched_def finite_dependents)

text \<open>
  \<^verbatim>\<open>rdeps\<close> lists, sorted and without repetition, exactly the components that reach the given one through the
  references of retained composite versions, in any number of steps and through cycles.
\<close>

theorem rdeps_exact:
  "set (rdeps snap name) = {owner. (name, owner) \<in> (set (reference_edges snap))\<^sup>+}
   \<and> sorted (rdeps snap name) \<and> distinct (rdeps snap name)"
  using rdeps_closure by (simp add: rdeps_def)

subsection \<open>The history of a component\<close>

text \<open>The moves of a component's stable pointer, oldest first.\<close>

definition moves_of :: "(nat \<times> promotion_record) list \<Rightarrow> string \<Rightarrow> (digest option \<times> digest) list" where
  "moves_of ps name = map (\<lambda>(_, r). (present (from_version r), to_version r))
     (filter (\<lambda>(_, r). prom_component r = name \<and> prom_channel r = ''stable'') ps)"

lemma moves_of_simps [simp]:
  "moves_of [] name = []"
  "moves_of (ps @ [(q, r)]) name = moves_of ps name
     @ (if prom_component r = name \<and> prom_channel r = ''stable'' then [(present (from_version r), to_version r)] else [])"
  by (simp_all add: moves_of_def)

lemma cut_promotions_history:
  assumes "moves_ok s ps" "rfold (cut_promotion vs (st_promotion_seq s)) ps ([], []) = Inr c"
  shows "dict_get_or [] (snd c) n = moves_of ps n"
  using assms
proof (induction ps arbitrary: c rule: rev_induct)
  case (snoc x ps)
  obtain q r where x: "x = (q, r)" by (cases x)
  obtain d where d: "rfold (cut_promotion vs (st_promotion_seq s)) ps ([], []) = Inr d" "cut_promotion vs (st_promotion_seq s) x d = Inr c"
    using snoc.prems(2) by (auto simp: rfold_append result_simps)
  have m: "moves_ok s ps" "prom_channel r = ''stable''" "q \<le> st_promotion_seq s"
    using snoc.prems(1) by (auto simp: x moves_ok_snoc)
  then have "snd c = dict_append (prom_component r) (present (from_version r), to_version r) (snd d)"
    using d(2) by (auto simp: cut_promotion_def x Let_def split: if_splits)
  then show ?case using snoc.IH [OF m(1) d(1)] m(2) by (auto simp: x dict_get_or_append)
qed (auto simp: dict_get_or_def)

lemma pointer_last_move: "pointer ps n = (if moves_of ps n = [] then None else Some (snd (last (moves_of ps n))))"
proof (induction ps rule: rev_induct)
  case (snoc x ps)
  then show ?case by (cases x) simp
qed simp

text \<open>The current snapshot, over the store.\<close>

lemma current_snapshot:
  assumes "store_ok s"
  obtains snap where "store_snapshot s None = Inr snap" "\<And>n. stable_version snap n = present (current_pointer s n)"
    "\<And>n k. get_version snap n k = map_of (dict_get_or [] (st_versions s) n) k"
    "\<And>n. dict_get_or [] (history snap) n = moves_of (st_promotions s) n"
proof -
  obtain snap where snap: "store_snapshot s None = Inr snap" "\<forall>n. map_of (stable snap) n = current_pointer s n"
      "\<forall>n k. get_version snap n k = map_of (dict_get_or [] (st_versions s) n) k"
    using snapshot_total [OF assms] by blast
  obtain vs stb where "rfold (cut_promotion vs (st_promotion_seq s)) (st_promotions s) ([], []) = Inr (stb, history snap)"
    using snap(1) by (auto simp: store_snapshot_def current_revision_def result_simps split: prod.splits)
  then have "dict_get_or [] (history snap) n = moves_of (st_promotions s) n" for n
    using cut_promotions_history assms by (fastforce simp: store_ok_def)
  then show thesis using that snap by (simp add: stable_version_def)
qed

lemma previous_stable_last: "previous_stable (ms @ [(f, c)]) c = f"
  by (simp add: previous_stable_def)

subsection \<open>What a promotion needs\<close>

lemma component_subject_eq:
  "c = \<lparr>subject_component = name, subject_version = v, subject_baseline = b\<rparr>
     \<longleftrightarrow> subject_component c = name \<and> subject_version c = v \<and> subject_baseline c = b"
  by (cases c) auto

lemma promotion_faults_Nil:
  "promotion_attestation_faults a name v baseline run = []
     \<longleftrightarrow> draft_action (att_draft a) = PromoteAction
       \<and> draft_subject (att_draft a) = ComponentProof \<lparr>subject_component = name, subject_version = v, subject_baseline = baseline\<rparr>
       \<and> attestation_ok a \<and> att_run a = run"
  by (cases "draft_subject (att_draft a)")
    (simp_all add: promotion_attestation_faults_def opt_def component_subject_eq conj_ac)

text \<open>A proof in the journal that this move, from this baseline, was decided.\<close>

definition move_proved :: "journal \<Rightarrow> string \<Rightarrow> string \<Rightarrow> digest \<Rightarrow> digest option \<Rightarrow> string option \<Rightarrow> bool" where
  "move_proved j att name v baseline run \<longleftrightarrow> (\<exists>a. load_attestation att j = Some a \<and> attestation_ok a
     \<and> draft_action (att_draft a) = PromoteAction
     \<and> draft_subject (att_draft a) = ComponentProof \<lparr>subject_component = name, subject_version = v, subject_baseline = baseline\<rparr>
     \<and> att_run a = run)"

lemma find_append: "find P (xs @ ys) = (case find P xs of Some x \<Rightarrow> Some x | None \<Rightarrow> find P ys)"
  by (induction xs) auto

lemma promotion_for_attestation_snoc:
  "promotion_for_attestation (s\<lparr>st_promotion_seq := q, st_promotions := st_promotions s @ [(q, r)]\<rparr>) a
     = (case promotion_for_attestation s a of Some p \<Rightarrow> Some p | None \<Rightarrow> if attestation_id r = a then Some r else None)"
  by (simp add: promotion_for_attestation_def find_append split: option.splits)

lemma promote_cases:
  assumes "store_ok s" "promote s j name v att actor run now = Inr (s', r)"
  obtains (retry) "s' = s" "promotion_for_attestation s att = Some r" "prom_component r = name" "to_version r = v"
  | (move) "promotion_for_attestation s att = None" "move_proved j att name v (current_pointer s name) (source_run r)"
      "run = None \<or> run = source_run r" "current_pointer s name = present (current_pointer s name)"
      "r = \<lparr>prom_component = name, prom_channel = ''stable'', from_version = current_pointer s name,
            to_version = v, attestation_id = att, prom_actor = actor, source_run = source_run r, prom_created_at = now\<rparr>"
      "s' = s\<lparr>st_promotion_seq := st_promotion_seq s + 1, st_promotions := st_promotions s @ [(st_promotion_seq s + 1, r)]\<rparr>"
      "store_promotion s r = Inr (s', r)" "map_of (dict_get_or [] (st_versions s) name) v \<noteq> None"
proof -
  obtain snap where snap: "store_snapshot s None = Inr snap" "stable_version snap name = present (current_pointer s name)"
    using current_snapshot [OF assms(1)] by metis
  let ?cur = "present (current_pointer s name)"
  show thesis
  proof (cases "promotion_for_attestation s att")
    case (Some prior)
    then show thesis using assms(2) retry by (auto simp: promote_def snap split: if_splits)
  next
    case None
    then obtain a where a: "load_attestation att j = Some a" "promotion_attestation_faults a name v ?cur (att_run a) = []"
        "case run of Some x \<Rightarrow> Some x = att_run a | None \<Rightarrow> True"
      and p: "store_promotion s \<lparr>prom_component = name, prom_channel = ''stable'', from_version = ?cur,
            to_version = v, attestation_id = att, prom_actor = actor, source_run = att_run a, prom_created_at = now\<rparr> = Inr (s', r)"
      using assms(2) by (auto simp: promote_def snap Let_def split: option.splits if_splits sum.splits)
    have idem: "present (present x) = present x" for x by (cases x) (auto simp: present_def)
    show thesis using p
    proof (cases rule: store_promotion_cases)
      case 2: move
      then have cur: "current_pointer s name = ?cur" by (simp add: idem)
      have "move_proved j att name v (current_pointer s name) (source_run r)"
        using a(1,2) 2(1) by (auto simp: move_proved_def promotion_faults_Nil simp flip: cur)
      then show thesis using 2 a(3) None cur p by (intro move) (auto split: option.splits)
    qed (use None in simp)
  qed
qed

lemma mint_policy_result:
  assumes "mint_policy_attestation sha d j = Inr (a, j')"
  shows "a = \<lparr>att_id = attestation_id_for sha d, att_draft = d, att_run = None\<rparr> \<and> load_attestation (attestation_id_for sha d) j' = Some a"
  using assms by (auto simp: mint_policy_attestation_def stored_attestation_for_draft_def minted_def insert_attestation_def
      load_attestation_def result_simps split: if_splits option.splits)

text \<open>A promotion that consumed a proof is found under it forever.\<close>

lemma promotion_persists:
  "store_steps s t \<Longrightarrow> promotion_for_attestation s a = Some r \<Longrightarrow> promotion_for_attestation t a = Some r"
proof (induction rule: store_steps.induct)
  case (Step s t u)
  have same: "promotion_for_attestation u a = promotion_for_attestation t a" if "st_promotions u = st_promotions t"
    using that by (simp add: promotion_for_attestation_def)
  from Step.hyps(2) show ?case
  proof (cases rule: store_step.cases)
    case (Register v)
    then have "st_promotions u = st_promotions t" by (cases rule: store_version_cases) simp_all
    then show ?thesis using Step same by simp
  next
    case (Promote p p')
    then show ?thesis
      by (cases rule: store_promotion_cases) (use Step in \<open>simp_all add: promotion_for_attestation_snoc\<close>)
  qed
qed simp

subsection \<open>Rollback\<close>

lemma plan_rollback_cases:
  assumes "store_ok s" "plan_rollback sha s name expected = Inr plan"
  obtains c t ms where "moves_of (st_promotions s) name = ms @ [(Some t, c)]" "current_pointer s name = Some c"
    "expected = None \<or> expected = Some c"
    "plan = planned_policy sha name (Some c) t (rollback_draft sha name c t)"
    "promotion_for_attestation s (plan_attestation plan) = None"
proof -
  obtain snap where snap: "store_snapshot s None = Inr snap" "stable_version snap name = present (current_pointer s name)"
      "dict_get_or [] (history snap) name = moves_of (st_promotions s) name"
    using current_snapshot [OF assms(1)] by metis
  obtain c where c: "present (current_pointer s name) = Some c" "expected = None \<or> expected = Some c"
    using assms(2) by (cases "present (current_pointer s name)"; cases "expected = None \<or> expected = present (current_pointer s name)")
      (auto simp: plan_rollback_def snap Let_def split: if_splits)
  obtain t where t: "previous_stable (moves_of (st_promotions s) name) c = Some t"
    using assms(2) by (cases "previous_stable (moves_of (st_promotions s) name) c") (auto simp: plan_rollback_def snap c(1) Let_def split: if_splits)
  have "\<not> (expected \<noteq> None \<and> Some c \<noteq> expected)" using c(2) by auto
  then obtain p where p: "plan_rollback_edge sha s name c t = Inr p" "(case promotion_for_attestation s (plan_attestation p) of
      None \<Rightarrow> Inr p | Some prior \<Rightarrow> if prom_component prior \<noteq> name \<or> prom_channel prior \<noteq> ''stable'' \<or> from_version prior \<noteq> Some c
        \<or> to_version prior \<noteq> t \<or> source_run prior \<noteq> None then Inl ContradictoryRollback else Inl (RollbackProofConsumed name)) = Inr plan"
    using assms(2) by (auto simp: plan_rollback_def snap c(1) t Let_def rbind_eq_Inr)
  then have free: "promotion_for_attestation s (plan_attestation plan) = None" "p = plan"
    by (cases "promotion_for_attestation s (plan_attestation p)"; simp split: if_splits)+
  have cur: "current_pointer s name = Some c" using c(1) by (auto simp: present_def split: option.splits if_splits)
  then obtain ms f where m: "moves_of (st_promotions s) name = ms @ [(f, c)]"
    by (cases "moves_of (st_promotions s) name" rule: rev_cases) (auto simp: current_pointer_pointer pointer_last_move)
  then have "f = Some t" using t by (simp add: previous_stable_last)
  moreover have "plan = planned_policy sha name (Some c) t (rollback_draft sha name c t)"
    using p(1) free(2) by (auto simp: plan_rollback_edge_def snap split: if_splits)
  ultimately show thesis using that m cur c(2) free(1) by simp
qed

lemma rollback_cases:
  assumes "store_ok s" "rollback sha s j name actor expected now = Inr (r, s', j')"
  obtains c t ms where "moves_of (st_promotions s) name = ms @ [(Some t, c)]" "current_pointer s name = Some c"
    "expected = None \<or> expected = Some c"
    "attestation_id r = attestation_id_for sha (rollback_draft sha name c t)"
    "move_proved j' (attestation_id r) name t (Some c) None"
    "r = \<lparr>prom_component = name, prom_channel = ''stable'', from_version = Some c, to_version = t,
        attestation_id = attestation_id r, prom_actor = actor, source_run = None, prom_created_at = now\<rparr>"
    "s' = s\<lparr>st_promotion_seq := st_promotion_seq s + 1, st_promotions := st_promotions s @ [(st_promotion_seq s + 1, r)]\<rparr>"
    "store_step s s'" "present (Some c) = Some c"
proof -
  obtain plan where plan: "plan_rollback sha s name expected = Inr plan"
    using assms(2) by (auto simp: rollback_def split: sum.splits)
  obtain c t ms where p: "moves_of (st_promotions s) name = ms @ [(Some t, c)]" "current_pointer s name = Some c"
      "expected = None \<or> expected = Some c" "plan = planned_policy sha name (Some c) t (rollback_draft sha name c t)"
      "promotion_for_attestation s (plan_attestation plan) = None"
    using plan_rollback_cases [OF assms(1) plan] by metis
  let ?d = "rollback_draft sha name c t"
  obtain a where a: "mint_policy_attestation sha ?d j = Inr (a, j')" "promote s j' name t (att_id a) actor None now = Inr (s', r)"
    using assms(2) by (auto simp: rollback_def plan promote_draft_def p(4) planned_policy_def split: sum.splits)
  have m: "att_id a = attestation_id_for sha ?d" "att_run a = None" "load_attestation (attestation_id_for sha ?d) j' = Some a"
    using mint_policy_result [OF a(1)] by auto
  from assms(1) a(2) show thesis
  proof (cases rule: promote_cases)
    case retry
    then show thesis using p(5) by (simp add: p(4) planned_policy_def m)
  next
    case move
    have "source_run r = None" using move(2) m by (auto simp: move_proved_def)
    moreover have "attestation_id r = att_id a" by (subst move(5)) simp
    ultimately show thesis using that [OF p(1-3)] move(2,4,5,6) store_step.Promote [OF move(7)] m(1) p(2) by simp
  qed
qed

subsection \<open>Properties\<close>

text \<open>
  C30. Promotion is proof-carrying. On a reachable store, a promotion that is accepted either repeats a recorded move of the same
  component to the same version, changing nothing, or the journal holds a passing promotion attestation that names this
  component, this version and, as its baseline, the current stable pointer; the attestation was not used before and is
  recorded with the move; a run that the caller names is the run that created the proof; the target is retained; and exactly
  this component's pointer moves.
\<close>

theorem promote_moves_attested_edge:
  assumes "reachable s" "promote s j name v att actor run now = Inr (s', r)"
  shows "s' = s \<and> promotion_for_attestation s att = Some r \<and> prom_component r = name \<and> to_version r = v
    \<or> move_proved j att name v (current_pointer s name) (source_run r) \<and> (run = None \<or> run = source_run r)
      \<and> promotion_for_attestation s att = None \<and> promotion_for_attestation s' att = Some r
      \<and> from_version r = current_pointer s name \<and> prom_actor r = actor
      \<and> map_of (dict_get_or [] (st_versions s) name) v \<noteq> None
      \<and> current_pointer s' = (current_pointer s)(name \<mapsto> v) \<and> st_versions s' = st_versions s \<and> reachable s'"
proof -
  have ok: "store_ok s" using assms(1) by (rule reachable_ok)
  then show ?thesis using assms(2)
  proof (cases rule: promote_cases)
    case move
    have r: "prom_component r = name" "prom_channel r = ''stable''" "from_version r = current_pointer s name"
        "to_version r = v" "attestation_id r = att" "prom_actor r = actor"
      by (subst move(5), simp)+
    have "reachable s'" using assms(1) store_step.Promote [OF move(7)] by (auto simp: reachable_def intro: store_steps.Step)
    moreover have "current_pointer s' = (current_pointer s)(name \<mapsto> v)"
      using move(6) by (auto simp: fun_eq_iff current_pointer_pointer r)
    moreover have "promotion_for_attestation s' att = Some r"
      using move(1) by (simp add: move(6) promotion_for_attestation_snoc r)
    ultimately show ?thesis using move(1,2,3,8) r move(6) by simp
  qed simp
qed

text \<open>
  C31. Rollback undoes the last move and nothing else. On a reachable store, a rollback that is accepted moves the component's
  pointer from the current version back to the version the last promotion moved it from, under a proof minted for exactly that
  edge; the caller's expectation of the current version held; no other pointer and no version changes; and the edge is
  consumed: however the store goes on, no rollback plan offers the same move again.
\<close>

theorem rollback_undoes_last_move:
  assumes "reachable s" "rollback sha s j name actor expected now = Inr (r, s', j')"
  shows "\<exists>c t ms. moves_of (st_promotions s) name = ms @ [(Some t, c)]
    \<and> moves_of (st_promotions s') name = ms @ [(Some t, c), (Some c, t)]
    \<and> (expected = None \<or> expected = Some c)
    \<and> current_pointer s' = (current_pointer s)(name \<mapsto> t) \<and> st_versions s' = st_versions s
    \<and> attestation_id r = attestation_id_for sha (rollback_draft sha name c t)
    \<and> move_proved j' (attestation_id r) name t (Some c) None
    \<and> (\<forall>u e plan. store_steps s' u \<longrightarrow> plan_rollback sha u name e = Inr plan \<longrightarrow> (plan_baseline plan, plan_target plan) \<noteq> (Some c, t))"
proof -
  have ok: "store_ok s" using assms(1) by (rule reachable_ok)
  obtain c t ms where b: "moves_of (st_promotions s) name = ms @ [(Some t, c)]" "current_pointer s name = Some c"
    "expected = None \<or> expected = Some c" "attestation_id r = attestation_id_for sha (rollback_draft sha name c t)"
    "move_proved j' (attestation_id r) name t (Some c) None"
    "r = \<lparr>prom_component = name, prom_channel = ''stable'', from_version = Some c, to_version = t,
        attestation_id = attestation_id r, prom_actor = actor, source_run = None, prom_created_at = now\<rparr>"
    "s' = s\<lparr>st_promotion_seq := st_promotion_seq s + 1, st_promotions := st_promotions s @ [(st_promotion_seq s + 1, r)]\<rparr>"
    "store_step s s'" "present (Some c) = Some c"
    by (rule rollback_cases [OF ok assms(2)]) (rule that)
  have r: "prom_component r = name" "prom_channel r = ''stable''" "from_version r = Some c" "to_version r = t"
    by (subst b(6), simp)+
  have ok': "store_ok s'" using store_ok_step ok b(8) by blast
  have spent: "(plan_baseline plan, plan_target plan) \<noteq> (Some c, t)"
    if u: "store_steps s' u" and p: "plan_rollback sha u name e = Inr plan" for u e plan
  proof
    assume e: "(plan_baseline plan, plan_target plan) = (Some c, t)"
    have "store_ok u" using store_ok_steps u ok' by blast
    then obtain c' t' where p': "plan = planned_policy sha name (Some c') t' (rollback_draft sha name c' t')"
        "promotion_for_attestation u (plan_attestation plan) = None"
      by (rule plan_rollback_cases [OF _ p]) (rule that)
    have "plan_attestation plan = attestation_id r" using e b(4) by (simp add: p'(1) planned_policy_def)
    moreover have "promotion_for_attestation s' (attestation_id r) \<noteq> None"
      by (auto simp: b(7) promotion_for_attestation_snoc split: option.splits)
    ultimately show False using promotion_persists [OF u] p'(2) by force
  qed
  have "moves_of (st_promotions s') name = ms @ [(Some t, c), (Some c, t)]"
    using b(1,7,9) by (simp add: r)
  moreover have "current_pointer s' = (current_pointer s)(name \<mapsto> t)" "st_versions s' = st_versions s"
    using b(7) by (auto simp: fun_eq_iff current_pointer_pointer r)
  ultimately show ?thesis using b(1,3,4,5) spent by blast
qed

definition sample_proof :: attestation where
  "sample_proof = \<lparr>att_id = ''t1'', att_draft = bootstrap_draft (\<lambda>_. []) ''a'' ''h1'', att_run = None\<rparr>"

definition proof_journal :: journal where
  "proof_journal = empty_journal\<lparr>attestations := [(''t1'', sample_proof)]\<rparr>"

lemma sample_promote: "promote one_version proof_journal ''a'' ''h1'' ''t1'' ''u:x'' None 0 = Inr (one_promotion, sample_promotion)"
  by code_simp

theorem promote_moves_attested_edge_witness:
  "move_proved proof_journal ''t1'' ''a'' ''h1'' None None \<and> current_pointer one_promotion ''a'' = Some ''h1''"
proof -
  have "current_pointer one_version ''a'' = None" "source_run sample_promotion = None" "promotion_for_attestation one_version ''t1'' = None"
    by code_simp+
  then show ?thesis using promote_moves_attested_edge [OF one_promotion_reachable(1) sample_promote] by simp
qed

definition second_version :: stored_version where
  "second_version = sample_version\<lparr>stored_hash := ''h2''\<rparr>"

definition two_versions :: store where
  "two_versions = (case store_version one_promotion second_version of Inr s \<Rightarrow> s | Inl _ \<Rightarrow> one_promotion)"

definition second_promotion :: promotion_record where
  "second_promotion = sample_promotion\<lparr>from_version := Some ''h1'', to_version := ''h2'', attestation_id := ''t2''\<rparr>"

definition two_promotions :: store where
  "two_promotions = (case store_promotion two_versions second_promotion of Inr (s, _) \<Rightarrow> s | Inl _ \<Rightarrow> two_versions)"

lemma two_promotions_reachable: "reachable two_promotions"
proof -
  have "store_step one_promotion two_versions"
    by (rule store_step.Register [of _ second_version]) code_simp
  moreover have "store_step two_versions two_promotions"
    by (rule store_step.Promote [of _ second_promotion _ second_promotion]) code_simp
  ultimately show ?thesis using one_promotion_reachable(2) by (auto simp: reachable_def intro: store_steps.Step)
qed

definition rolled :: "promotion_record \<times> store \<times> journal" where
  "rolled = (case rollback (\<lambda>_. []) two_promotions empty_journal ''a'' ''u:x'' (Some ''h2'') 5 of Inr x \<Rightarrow> x
     | Inl _ \<Rightarrow> (sample_promotion, two_promotions, empty_journal))"

theorem rollback_undoes_last_move_witness:
  "current_pointer (fst (snd rolled)) = (current_pointer two_promotions)(''a'' \<mapsto> ''h1'')
   \<and> move_proved (snd (snd rolled)) (attestation_id (fst rolled)) ''a'' ''h1'' (Some ''h2'') None
   \<and> moves_of (st_promotions (fst (snd rolled))) ''a'' = [(None, ''h1''), (Some ''h1'', ''h2''), (Some ''h2'', ''h1'')]"
proof -
  have "rollback (\<lambda>_. []) two_promotions empty_journal ''a'' ''u:x'' (Some ''h2'') 5 = Inr (fst rolled, fst (snd rolled), snd (snd rolled))"
    by code_simp
  note undone = rollback_undoes_last_move [OF two_promotions_reachable this]
  have "moves_of (st_promotions two_promotions) ''a'' = [(None, ''h1''), (Some ''h1'', ''h2'')]" by code_simp
  then show ?thesis using undone by auto
qed

lemma mint_policy_succeeds:
  assumes "draft_action d = PromoteAction" "\<exists>c. draft_subject d = ComponentProof c" "map_of (attestations j) (attestation_id_for sha d) = None"
  shows "\<exists>j'. mint_policy_attestation sha d j = Inr (\<lparr>att_id = attestation_id_for sha d, att_draft = d, att_run = None\<rparr>, j')"
  using assms by (auto simp: mint_policy_attestation_def stored_attestation_for_draft_def minted_def insert_attestation_def)

text \<open>
  The bootstrap policy succeeds whenever it should. On a reachable store, a retained version of a component that has never
  been promoted becomes stable by \<^verbatim>\<open>promote_initial\<close>, when neither store nor journal holds the proof's identity yet: the
  policy's own attestation passes every check that promotion makes.
\<close>

theorem bootstrap_promotes_fresh:
  assumes "reachable s" "map_of (dict_get_or [] (st_versions s) name) v \<noteq> None" "current_pointer s name = None"
    and "promotion_for_attestation s (attestation_id_for sha (bootstrap_draft sha name v)) = None"
    and "load_attestation (attestation_id_for sha (bootstrap_draft sha name v)) j = None"
  shows "\<exists>r s' j'. promote_initial sha s j name v actor now = Inr (Some r, s', j') \<and> current_pointer s' = (current_pointer s)(name \<mapsto> v)
    \<and> prom_actor r = actor \<and> from_version r = None \<and> source_run r = None"
proof -
  let ?d = "bootstrap_draft sha name v"
  let ?a = "\<lparr>att_id = attestation_id_for sha ?d, att_draft = ?d, att_run = None\<rparr>"
  let ?r = "\<lparr>prom_component = name, prom_channel = ''stable'', from_version = None, to_version = v,
      attestation_id = attestation_id_for sha ?d, prom_actor = actor, source_run = None, prom_created_at = now\<rparr>"
  obtain snap where snap: "store_snapshot s None = Inr snap" "stable_version snap name = None"
      "get_version snap name v = map_of (dict_get_or [] (st_versions s) name) v"
    using current_snapshot [OF reachable_ok [OF assms(1)]] assms(3) by (metis option.simps(4) present_def)
  obtain j' where j': "mint_policy_attestation sha ?d j = Inr (?a, j')"
    using mint_policy_succeeds [of ?d j sha] assms(5) by (auto simp: bootstrap_draft_def policy_attestation_draft_def load_attestation_def)
  have look: "load_attestation (attestation_id_for sha ?d) j' = Some ?a" using mint_policy_result [OF j'] by simp
  have ok: "promotion_attestation_faults ?a name v None None = []"
    by (simp add: promotion_faults_Nil bootstrap_draft_def policy_attestation_draft_def attestation_ok_def)
  obtain s' where s': "store_promotion s ?r = Inr (s', ?r)" "st_promotions s' = st_promotions s @ [(st_promotion_seq s + 1, ?r)]"
    using assms(2-4) by (auto simp: store_promotion_def present_def)
  have "promote s j' name v (attestation_id_for sha ?d) actor None now = Inr (s', ?r)"
    using assms(2,4) s'(1) ok by (simp add: promote_def snap look)
  then have "promote_initial sha s j name v actor now = Inr (Some ?r, s', j')"
    by (simp add: promote_initial_def snap promote_draft_def j')
  moreover have "current_pointer s' = (current_pointer s)(name \<mapsto> v)"
    by (auto simp: fun_eq_iff current_pointer_pointer s'(2))
  ultimately show ?thesis by (intro exI conjI) (assumption | simp)+
qed

theorem bootstrap_promotes_fresh_witness:
  "\<exists>r s' j'. promote_initial (\<lambda>_. []) one_version empty_journal ''a'' ''h1'' ''u:x'' 0 = Inr (Some r, s', j')
     \<and> current_pointer s' = (current_pointer one_version)(''a'' \<mapsto> ''h1'') \<and> prom_actor r = ''u:x'' \<and> from_version r = None \<and> source_run r = None"
  by (rule bootstrap_promotes_fresh [OF one_promotion_reachable(1)]) code_simp+

end
