(* ===== verification/Authoring.thy ===== *)
theory Authoring
  imports Compiler_Depth Promotions
begin

text \<open>
  The authoring boundary (\<^verbatim>\<open>runtime/authoring.py\<close>, \<^verbatim>\<open>core/admission.py\<close>): preflight of a proposed graph against the limits and
  the declared capability requirements, the classification of the compiler's faults, the bound on what is reported, and
  \<^verbatim>\<open>admit_authored_graph\<close> over them. A fault keeps its code, path and scope and, as its origin, the data that its message, repair
  and details are rendered from; the rendered text is a parameter where the order of a report reads it.
\<close>

section \<open>Model\<close>

subsection \<open>Faults and limits\<close>

datatype admission_code =
    GRAPH_SCHEMA_INVALID_JSON | GRAPH_SCHEMA_INVALID_VALUE | GRAPH_PROPOSAL_LIMIT_EXCEEDED | GRAPH_NODE_DUPLICATE
  | GRAPH_NODE_RESERVED_ID | GRAPH_REFERENCE_UNKNOWN | GRAPH_REFERENCE_UNPROMOTED | GRAPH_PORT_MISSING_SOURCE
  | GRAPH_PORT_AMBIGUOUS | GRAPH_PORT_CONTRACT_MISMATCH | GRAPH_CAPABILITY_MISSING_BINDING
  | GRAPH_CAPABILITY_UNDECLARED_BINDING | GRAPH_CAPABILITY_UNKNOWN | GRAPH_CAPABILITY_KIND_MISMATCH
  | GRAPH_GRANT_WIDENING | GRAPH_LOOP_INVALID | GRAPH_CYCLE | GRAPH_INPUT_INVALID | GRAPH_CONTRACT_INVALID | LEGACY_ADMISSION

fun code_value :: "admission_code \<Rightarrow> string" where
  "code_value GRAPH_SCHEMA_INVALID_JSON = ''graph.schema.invalid_json''"
| "code_value GRAPH_SCHEMA_INVALID_VALUE = ''graph.schema.invalid_value''"
| "code_value GRAPH_PROPOSAL_LIMIT_EXCEEDED = ''graph.proposal.limit_exceeded''"
| "code_value GRAPH_NODE_DUPLICATE = ''graph.node.duplicate''"
| "code_value GRAPH_NODE_RESERVED_ID = ''graph.node.reserved_id''"
| "code_value GRAPH_REFERENCE_UNKNOWN = ''graph.reference.unknown''"
| "code_value GRAPH_REFERENCE_UNPROMOTED = ''graph.reference.unpromoted''"
| "code_value GRAPH_PORT_MISSING_SOURCE = ''graph.port.missing_source''"
| "code_value GRAPH_PORT_AMBIGUOUS = ''graph.port.ambiguous''"
| "code_value GRAPH_PORT_CONTRACT_MISMATCH = ''graph.port.contract_mismatch''"
| "code_value GRAPH_CAPABILITY_MISSING_BINDING = ''graph.capability.missing_binding''"
| "code_value GRAPH_CAPABILITY_UNDECLARED_BINDING = ''graph.capability.undeclared_binding''"
| "code_value GRAPH_CAPABILITY_UNKNOWN = ''graph.capability.unknown''"
| "code_value GRAPH_CAPABILITY_KIND_MISMATCH = ''graph.capability.kind_mismatch''"
| "code_value GRAPH_GRANT_WIDENING = ''graph.grant.widening''"
| "code_value GRAPH_LOOP_INVALID = ''graph.loop.invalid''"
| "code_value GRAPH_CYCLE = ''graph.cycle''"
| "code_value GRAPH_INPUT_INVALID = ''graph.input.invalid''"
| "code_value GRAPH_CONTRACT_INVALID = ''graph.contract.invalid''"
| "code_value LEGACY_ADMISSION = ''system.admission.legacy''"

text \<open>A preview of what is available: the first items, their number, and whether some are left out.\<close>

record preview =
  pv_items :: "string list"
  pv_total :: nat
  pv_truncated :: bool

datatype origin =
    TooDeep nat nat
  | TooManyNodes nat nat
  | DuplicateNode string nat nat
  | ReservedNode string
  | OuterBindings string "string list"
  | MissingAlias string string string preview
  | UnknownCapabilityId string string preview
  | KindMismatch string string string string
  | UndeclaredAlias string string "string list"
  | Compiler fault
  | Capped nat nat

record admission_fault =
  af_code :: admission_code
  af_path :: "path_step list"
  af_scope :: "scope option"
  af_origin :: origin

record limits =
  max_nodes :: nat
  max_nested_graph_depth :: nat
  max_faults :: nat
  max_fault_detail_items :: nat

subsection \<open>Preflight\<close>

record preflight_env =
  pe_snapshot :: snapshot
  pe_catalog :: "(string, descriptor) dict"
  pe_limits :: limits
  pe_lock :: "(scope, pin) dict option"

record preflight =
  pf_faults :: "admission_fault list"
  pf_count :: nat

definition note_fault :: "admission_code \<Rightarrow> path_step list \<Rightarrow> scope \<Rightarrow> origin \<Rightarrow> preflight \<Rightarrow> preflight" where
  "note_fault code path s o' st = st\<lparr>pf_faults := pf_faults st @ [\<lparr>af_code = code, af_path = path, af_scope = Some s, af_origin = o'\<rparr>]\<rparr>"

definition preview_of :: "limits \<Rightarrow> string list \<Rightarrow> preview" where
  "preview_of lim xs = \<lparr>pv_items = take (max_fault_detail_items lim) xs, pv_total = length xs,
     pv_truncated = (max_fault_detail_items lim < length xs)\<rparr>"

definition declared_requirements :: "capability_requirement list \<Rightarrow> (string, capability_requirement) dict" where
  "declared_requirements rs = dict_of (map (\<lambda>r. (req_alias r, r)) rs)"

definition preflight_alias ::
  "preflight_env \<Rightarrow> string \<Rightarrow> ref \<Rightarrow> scope \<Rightarrow> path_step list \<Rightarrow> string \<times> capability_requirement \<Rightarrow> preflight \<Rightarrow> preflight" where
  "preflight_alias env name r s path ar st =
     (let (al, req) = ar; at = path @ [Key ''bind'', Key al]; lim = pe_limits env in
      case map_of (bind r) al of
        None \<Rightarrow> note_fault GRAPH_CAPABILITY_MISSING_BINDING at s
          (MissingAlias name al (req_kind req) (preview_of lim (sort (map capability_id
             (filter (\<lambda>d. cap_kind d = req_kind req) (dict_values (pe_catalog env))))))) st
      | Some cap \<Rightarrow>
          (case map_of (pe_catalog env) cap of
             None \<Rightarrow> note_fault GRAPH_CAPABILITY_UNKNOWN at s
               (UnknownCapabilityId al cap (preview_of lim (sort (dict_keys (pe_catalog env))))) st
           | Some d \<Rightarrow>
               if cap_kind d \<noteq> req_kind req
               then note_fault GRAPH_CAPABILITY_KIND_MISMATCH at s (KindMismatch al cap (req_kind req) (cap_kind d)) st
               else st))"

definition preflight_requirements ::
  "preflight_env \<Rightarrow> string \<Rightarrow> ref \<Rightarrow> capability_requirement list \<Rightarrow> scope \<Rightarrow> path_step list \<Rightarrow> preflight \<Rightarrow> preflight" where
  "preflight_requirements env name r rs s path st =
     (let declared = declared_requirements rs;
          st1 = fold (preflight_alias env name r s path) (sort_key fst declared) st
      in fold (\<lambda>al. note_fault GRAPH_CAPABILITY_UNDECLARED_BINDING (path @ [Key ''bind'', Key al]) s
                  (UndeclaredAlias name al (sort (dict_keys declared))))
           (sorted_set (filter (\<lambda>al. al \<notin> set (dict_keys declared)) (dict_keys (bind r)))) st1)"

text \<open>The checks of one node identifier, before its body.\<close>

definition preflight_id :: "scope \<Rightarrow> path_step list \<Rightarrow> string \<Rightarrow> nat \<Rightarrow> (string, nat) dict \<Rightarrow> preflight \<Rightarrow> preflight" where
  "preflight_id s path i k seen st =
     (let st1 = (case map_of seen i of
                   Some first \<Rightarrow> note_fault GRAPH_NODE_DUPLICATE (path @ [Key ''id'']) s (DuplicateNode i first k) st
                 | None \<Rightarrow> st)
      in if take 1 i = ''$'' then note_fault GRAPH_NODE_RESERVED_ID (path @ [Key ''id'']) s (ReservedNode i) st1 else st1)"

definition count_node :: "preflight \<Rightarrow> preflight" where
  "count_node st = st\<lparr>pf_count := pf_count st + 1\<rparr>"

type_synonym stack = "(string \<times> digest) list"

text \<open>
  The search ends: a graph is only entered one level deeper, up to the limit, whatever the library holds. Of one level, a graph
  comes before its nodes, a node before its body, a body before its reference.
\<close>

definition levels_left :: "preflight_env \<Rightarrow> nat \<Rightarrow> nat" where
  "levels_left env depth = Suc (max_nested_graph_depth (pe_limits env)) - depth"

function preflight_graph :: "preflight_env \<Rightarrow> graph \<Rightarrow> scope \<Rightarrow> path_step list \<Rightarrow> nat \<Rightarrow> stack \<Rightarrow> preflight \<Rightarrow> preflight"
and preflight_nodes ::
  "preflight_env \<Rightarrow> gnode list \<Rightarrow> nat \<Rightarrow> (string, nat) dict \<Rightarrow> scope \<Rightarrow> path_step list \<Rightarrow> nat \<Rightarrow> stack \<Rightarrow> preflight \<Rightarrow> preflight"
and preflight_body :: "preflight_env \<Rightarrow> body \<Rightarrow> scope \<Rightarrow> path_step list \<Rightarrow> nat \<Rightarrow> stack \<Rightarrow> preflight \<Rightarrow> preflight"
and preflight_ref :: "preflight_env \<Rightarrow> ref \<Rightarrow> scope \<Rightarrow> path_step list \<Rightarrow> nat \<Rightarrow> stack \<Rightarrow> preflight \<Rightarrow> preflight"
where
  "preflight_graph env g s path depth stack st =
     (let limit = max_nested_graph_depth (pe_limits env) in
      if depth > limit then note_fault GRAPH_PROPOSAL_LIMIT_EXCEEDED path s (TooDeep depth limit) st
      else preflight_nodes env (nodes g) 0 [] s path depth stack st)"
| "preflight_nodes env [] k seen s path depth stack st = st"
| "preflight_nodes env (n # ns) k seen s path depth stack st =
     (let st1 = count_node st; at = path @ [Key ''nodes'', Index k]; i = node_id n; ns_scope = child s i in
      if pf_count st1 > max_nodes (pe_limits env)
      then note_fault GRAPH_PROPOSAL_LIMIT_EXCEEDED at ns_scope (TooManyNodes (pf_count st1) (max_nodes (pe_limits env))) st1
      else preflight_nodes env ns (k + 1) (dict_setdefault i k seen) s path depth stack
             (preflight_body env (node_body n) ns_scope (at @ [Key ''body'']) depth stack (preflight_id ns_scope at i k seen st1)))"
| "preflight_body env (RefBody r) s path depth stack st = preflight_ref env r s path depth stack st"
| "preflight_body env (GraphBody g) s path depth stack st = preflight_graph env g s path (depth + 1) stack st"
| "preflight_body env (LoopBody l) s path depth stack st =
     (case loop_body l of
        LoopRef r \<Rightarrow> preflight_ref env r (child (child s LOOP_BODY_SEGMENT) ''$body'') (path @ [Key ''body'']) (depth + 1) stack st
      | LoopGraph g \<Rightarrow> preflight_graph env g (child s LOOP_BODY_SEGMENT) (path @ [Key ''body'']) (depth + 1) stack st)"
| "preflight_ref env r s path depth stack st =
     (case select_version (pe_snapshot env) r s (pe_lock env) of
        None \<Rightarrow> st
      | Some v \<Rightarrow>
          let d = definition_of v; key = (comp_name d, stored_hash v) in
          if key \<in> set stack then st
          else case comp_body d of
            Composite g \<Rightarrow>
              preflight_graph env g s path (depth + 1) (stack @ [key])
                (if bind r \<noteq> [] then note_fault GRAPH_CAPABILITY_UNDECLARED_BINDING (path @ [Key ''bind'']) s
                   (OuterBindings (comp_name d) (sort (dict_keys (bind r)))) st else st)
          | Atomic _ \<Rightarrow>
              (case requirements d of None \<Rightarrow> st | Some rs \<Rightarrow> preflight_requirements env (comp_name d) r rs s path st))"
  by pat_completeness auto

termination
  by (relation "measures [\<lambda>x. case x of
        Inl (Inl (env, g, s, path, depth, stack, st)) \<Rightarrow> (if levels_left env depth = 0 then 0 else 4 * levels_left env depth + 4)
      | Inl (Inr (env, ns, k, seen, s, path, depth, stack, st)) \<Rightarrow> 4 * levels_left env depth + 3
      | Inr (Inl (env, b, s, path, depth, stack, st)) \<Rightarrow> 4 * levels_left env depth + 2
      | Inr (Inr (env, r, s, path, depth, stack, st)) \<Rightarrow> 4 * levels_left env depth + 1,
    \<lambda>x. case x of Inl (Inr (env, ns, k, seen, s, path, depth, stack, st)) \<Rightarrow> length ns | _ \<Rightarrow> 0]")
    (auto simp: levels_left_def)

declare preflight_graph.simps [simp del] preflight_ref.simps [simp del]


subsection \<open>Classification\<close>

text \<open>The codes of \<^verbatim>\<open>_LOCATED_FAULTS\<close>, by defect.\<close>

fun located_code :: "defect \<Rightarrow> admission_code" where
  "located_code (UnknownConnectionNode _ _ _ _) = GRAPH_CONTRACT_INVALID"
| "located_code (GraphCycle _ _ _ _) = GRAPH_CYCLE"
| "located_code (UnusedMapDestination _) = GRAPH_CONTRACT_INVALID"
| "located_code (DuplicateMapDestination _ _ _ _) = GRAPH_CONTRACT_INVALID"
| "located_code (MalformedSelector _) = GRAPH_CONTRACT_INVALID"
| "located_code (ExplicitSourceCount _ _) = GRAPH_PORT_CONTRACT_MISMATCH"
| "located_code (ExplicitSourceCardinality _ _) = GRAPH_PORT_CONTRACT_MISMATCH"
| "located_code (ExplicitSourceContract _ _ _) = GRAPH_PORT_CONTRACT_MISMATCH"
| "located_code (AmbiguousNodeInput _ _) = GRAPH_PORT_AMBIGUOUS"
| "located_code (AmbiguousNodeInputUnmappable _ _ _) = GRAPH_PORT_AMBIGUOUS"
| "located_code (AmbiguousGraphOutput _ _) = GRAPH_PORT_AMBIGUOUS"
| "located_code (MissingFeedbackSeed _ _) = GRAPH_PORT_MISSING_SOURCE"
| "located_code (MissingPortSource _ _) = GRAPH_PORT_MISSING_SOURCE"

text \<open>\<^verbatim>\<open>str.lower\<close> on the ASCII letters.\<close>

definition lower :: "string \<Rightarrow> string" where
  "lower = map (\<lambda>c. if CHR ''A'' \<le> c \<and> c \<le> CHR ''Z'' then char_of (of_char c + 32 :: nat) else c)"

definition classify_text :: "string \<Rightarrow> admission_code" where
  "classify_text message =
     (let t = lower message in
      if contains ''unknown component'' t then GRAPH_REFERENCE_UNKNOWN
      else if contains ''has no stable version'' t then GRAPH_REFERENCE_UNPROMOTED
      else if contains ''no upstream output'' t \<or> contains ''needs an initial value'' t then GRAPH_PORT_MISSING_SOURCE
      else if contains ''ambiguity is an error'' t \<or> contains ''exact-name match must be unique'' t then GRAPH_PORT_AMBIGUOUS
      else if (contains ''requires'' t \<and> contains ''contract'' t) \<or> contains ''explicit selector'' t then GRAPH_PORT_CONTRACT_MISMATCH
      else if contains ''unknown capability'' t then GRAPH_CAPABILITY_UNKNOWN
      else if contains ''only narrow'' t \<or> contains ''may only narrow'' t then GRAPH_GRANT_WIDENING
      else if contains ''loop'' t \<or> contains ''continuation'' t \<or> contains ''feedback'' t then GRAPH_LOOP_INVALID
      else if contains ''cycle outside loop'' t \<or> contains ''dependency cycle'' t then GRAPH_CYCLE
      else if contains ''run inputs'' t \<or> contains ''graph input'' t then GRAPH_INPUT_INVALID
      else GRAPH_CONTRACT_INVALID)"

definition starts :: "string \<Rightarrow> string \<Rightarrow> bool" where
  "starts p xs = (take (length p) xs = p)"

definition py_space :: "char \<Rightarrow> bool" where
  "py_space c = ((of_char c :: nat) \<in> {9..13} \<union> {28..32} \<union> {133, 160})"

definition py_strip :: "string \<Rightarrow> string" where
  "py_strip xs = rev (dropWhile py_space (rev (dropWhile py_space xs)))"

text \<open>The shortest non-empty prefix, within the first line, in front of \<^verbatim>\<open>" input port "\<close> or \<^verbatim>\<open>" output port "\<close>.\<close>

definition port_form :: "string \<Rightarrow> string option" where
  "port_form message = map_option (\<lambda>i. take i message)
     (find (\<lambda>i. (starts '' input port '' (drop i message) \<or> starts '' output port '' (drop i message))
              \<and> CHR 0x0A \<notin> set (take i message)) [1..<length message])"

fun split_on :: "char \<Rightarrow> string \<Rightarrow> string list" where
  "split_on x [] = [[]]"
| "split_on x (c # cs) = (if c = x then [] # split_on x cs
     else case split_on x cs of p # ps \<Rightarrow> (c # p) # ps | [] \<Rightarrow> [[c]])"

definition scope_of_prefix :: "string \<Rightarrow> scope option" where
  "scope_of_prefix prefix = (let segments = filter (\<lambda>x. x \<noteq> []) (split_on (CHR ''/'') prefix) in
     if segments = [] then None else Some segments)"

definition scope_from_message :: "string \<Rightarrow> scope option" where
  "scope_from_message message =
     (case port_form message of
        Some p \<Rightarrow>
          if contains '': '' p
          then (let prefix = py_strip (takeWhile (\<lambda>c. c \<noteq> CHR '':'') message) in
                if CHR '' '' \<in> set prefix then None else scope_of_prefix prefix)
          else scope_of_prefix (py_strip p)
      | None \<Rightarrow>
          (let prefix = py_strip (takeWhile (\<lambda>c. c \<noteq> CHR '':'') message) in
           if CHR '' '' \<in> set prefix then None else scope_of_prefix prefix))"

text \<open>
  \<^verbatim>\<open>_classify_fault\<close>. A located fault and the fault of a retained composite carry a frame that names the defect; the
  others are read from their text, which the parameter \<open>prose\<close> gives (of a framed fault, the part in front of the frame).
\<close>

definition classify_fault :: "(fault \<Rightarrow> string) \<Rightarrow> fault \<Rightarrow> admission_fault" where
  "classify_fault prose f =
     (case f of
        Located s l d \<Rightarrow> \<lparr>af_code = located_code d, af_path = (if loc_retained l = None then loc_path l else []), af_scope = Some s,
          af_origin = Compiler f\<rparr>
      | RetainedComposite _ _ _ _ \<Rightarrow> \<lparr>af_code = GRAPH_CONTRACT_INVALID, af_path = [], af_scope = scope_from_message (prose f),
          af_origin = Compiler f\<rparr>
      | _ \<Rightarrow> \<lparr>af_code = classify_text (prose f), af_path = [], af_scope = scope_from_message (prose f), af_origin = Compiler f\<rparr>)"

subsection \<open>The report\<close>

text \<open>\<^verbatim>\<open>str\<close> of a path item.\<close>

definition step_text :: "path_step \<Rightarrow> string" where
  "step_text p = (case p of Key k \<Rightarrow> k | Index n \<Rightarrow> map char_of (dec_digits n))"

text \<open>The sort key: path, scope, code, message.\<close>

definition report_key :: "(origin \<Rightarrow> string) \<Rightarrow> admission_fault \<Rightarrow> string list list" where
  "report_key text f = [map step_text (af_path f), [case af_scope f of Some s \<Rightarrow> render s | None \<Rightarrow> []], [code_value (af_code f)],
     [text (af_origin f)]]"

definition bounded_faults :: "(origin \<Rightarrow> string) \<Rightarrow> limits \<Rightarrow> admission_fault list \<Rightarrow> admission_fault list" where
  "bounded_faults text lim fs =
     (let ordered = sort_key (report_key text) fs in
      if length ordered \<le> max_faults lim then ordered
      else take (max_faults lim - 1) ordered @ [\<lparr>af_code = GRAPH_PROPOSAL_LIMIT_EXCEEDED, af_path = [], af_scope = None,
             af_origin = Capped (length ordered) (max_faults lim)\<rparr>])"

subsection \<open>Admission of an authored graph\<close>

datatype authored_error = Rejected "admission_fault list" | Raised admit_error

definition env_of :: "world \<Rightarrow> limits \<Rightarrow> preflight_env" where
  "env_of w lim = \<lparr>pe_snapshot = w_snapshot w, pe_catalog = w_catalog w, pe_limits = lim,
     pe_lock = map_option (\<lambda>pins. dict_of (map (\<lambda>p. (pin_scope p, p)) pins)) (w_pins w)\<rparr>"

definition preflight_faults :: "world \<Rightarrow> limits \<Rightarrow> graph \<Rightarrow> admission_fault list" where
  "preflight_faults w lim g = pf_faults (preflight_graph (env_of w lim) g [graph_name g] [] 1 [] \<lparr>pf_faults = [], pf_count = 0\<rparr>)"

definition admit_authored_graph ::
  "(nat list \<Rightarrow> string) \<Rightarrow> nat \<Rightarrow> (fault \<Rightarrow> string) \<Rightarrow> (origin \<Rightarrow> string) \<Rightarrow> limits \<Rightarrow> graph \<Rightarrow> world \<Rightarrow> effective_grants \<Rightarrow> pyvalue
     \<Rightarrow> authored_error + manifest" where
  "admit_authored_graph sha fuel prose text lim g w root given_inputs =
     (let fs = preflight_faults w lim g in
      if fs \<noteq> [] then Inl (Rejected (bounded_faults text lim fs))
      else case admit sha fuel g w root given_inputs of
        Inr m \<Rightarrow> Inr m
      | Inl (AdmissionErr gs) \<Rightarrow> Inl (Rejected (bounded_faults text lim (map (classify_fault prose) gs)))
      | Inl e \<Rightarrow> Inl (Raised e))"

section \<open>Laws of preflight\<close>

subsection \<open>Faults are only added\<close>

definition grown :: "preflight \<Rightarrow> preflight \<Rightarrow> bool" where
  "grown st st' \<longleftrightarrow> (\<exists>xs. pf_faults st' = pf_faults st @ xs) \<and> pf_count st \<le> pf_count st'"

lemma grown_refl [simp]: "grown st st"
  by (simp add: grown_def)

lemma grown_trans [trans]: "grown a b \<Longrightarrow> grown b c \<Longrightarrow> grown a c"
  by (auto simp: grown_def)

lemma grown_note [simp]: "grown st (note_fault code path s o' st)" "pf_faults (note_fault code path s o' st) \<noteq> []"
  "pf_count (note_fault code path s o' st) = pf_count st"
  by (simp_all add: grown_def note_fault_def)

lemma grown_count [simp]: "grown st (count_node st)"
  by (simp add: grown_def count_node_def)

lemma grown_clean: "grown st st' \<Longrightarrow> pf_faults st' = [] \<Longrightarrow> pf_faults st = []"
  by (auto simp: grown_def)

lemma grown_fold: "(\<And>x st. grown st (f x st)) \<Longrightarrow> grown st (fold f xs st)"
  by (induction xs arbitrary: st) (auto intro: grown_trans)

lemma preflight_alias_grown [simp]: "grown st (preflight_alias env name r s path ar st)"
  by (auto simp: preflight_alias_def Let_def split: prod.splits option.splits)

lemma preflight_requirements_grown [simp]: "grown st (preflight_requirements env name r rs s path st)"
  by (auto simp: preflight_requirements_def Let_def intro!: grown_trans [OF grown_fold grown_fold])

lemma preflight_id_grown [simp]: "grown st (preflight_id s path i k seen st)"
  by (auto simp: preflight_id_def Let_def intro: grown_trans [OF grown_note(1) grown_note(1)] split: option.splits)

lemma preflight_grown:
  "grown st (preflight_graph env g s path depth stack st)"
  "grown st (preflight_nodes env ns k seen s path depth stack st)"
  "grown st (preflight_body env b s path depth stack st)"
  "grown st (preflight_ref env r s path depth stack st)"
proof (induction env g s path depth stack st and env ns k seen s path depth stack st and env b s path depth stack st
    and env r s path depth stack st rule: preflight_graph_preflight_nodes_preflight_body_preflight_ref.induct)
  case (1 env g s path depth stack st)
  then show ?case by (subst preflight_graph.simps) (simp add: Let_def)
next
  case (3 env n ns k seen s path depth stack st)
  let ?at = "path @ [Key ''nodes'', Index k]" and ?i = "node_id n" and ?s = "child s (node_id n)"
  let ?id = "preflight_id ?s ?at ?i k seen (count_node st)"
  let ?body = "preflight_body env (node_body n) ?s (?at @ [Key ''body'']) depth stack ?id"
  show ?case
  proof (cases "pf_count (count_node st) > max_nodes (pe_limits env)")
    case True
    then show ?thesis by (simp add: Let_def grown_trans [OF grown_count grown_note(1)])
  next
    case False
    have "grown st ?id" by (rule grown_trans [OF grown_count preflight_id_grown])
    also have "grown ?id ?body" using 3(1) [OF refl refl refl refl False] .
    also have "grown ?body (preflight_nodes env ns (k + 1) (dict_setdefault ?i k seen) s path depth stack ?body)"
      using 3(2) [OF refl refl refl refl False] .
    finally show ?thesis using False by (simp add: Let_def)
  qed
next
  case (7 env r s path depth stack st)
  show ?case
  proof (cases "select_version (pe_snapshot env) r s (pe_lock env)")
    case None
    then show ?thesis by (simp add: preflight_ref.simps)
  next
    case (Some v)
    then show ?thesis
      using 7 [OF Some refl refl] by (auto simp: preflight_ref.simps Let_def intro: grown_trans [OF grown_note(1)] split: comp_body.splits option.splits)
  qed
qed (auto split: loop_body.splits)

subsection \<open>What a clean preflight has seen\<close>

lemma clean_nodes:
  assumes "pf_faults (preflight_nodes env ns k seen s path depth stack st) = []" "n \<in> set ns"
  shows "\<exists>path' st'. pf_faults (preflight_body env (node_body n) (child s (node_id n)) path' depth stack st') = []"
  using assms
proof (induction ns arbitrary: k seen st)
  case (Cons m ns)
  let ?st = "preflight_body env (node_body m) (child s (node_id m)) (path @ [Key ''nodes'', Index k, Key ''body'']) depth stack
      (preflight_id (child s (node_id m)) (path @ [Key ''nodes'', Index k]) (node_id m) k seen (count_node st))"
  have rest: "pf_faults (preflight_nodes env ns (k + 1) (dict_setdefault (node_id m) k seen) s path depth stack ?st) = []"
    using Cons.prems(1) by (auto simp: Let_def split: if_splits)
  show ?case
  proof (cases "n = m")
    case True
    then show ?thesis using grown_clean [OF preflight_grown(2) rest] by blast
  next
    case False
    then show ?thesis using Cons.IH [OF rest] Cons.prems(2) by simp
  qed
qed simp

lemma preflight_id_clean:
  "pf_faults (preflight_id s path i k seen st) = [] \<longleftrightarrow> pf_faults st = [] \<and> map_of seen i = None \<and> take 1 i \<noteq> ''$''"
  by (auto simp: preflight_id_def Let_def note_fault_def split: option.splits)

lemma clean_ids:
  assumes "pf_faults (preflight_nodes env ns k seen s path depth stack st) = []"
  shows "distinct (map node_id ns) \<and> (\<forall>n \<in> set ns. take 1 (node_id n) \<noteq> ''$'' \<and> map_of seen (node_id n) = None)"
  using assms
proof (induction ns arbitrary: k seen st)
  case (Cons m ns)
  let ?id = "preflight_id (child s (node_id m)) (path @ [Key ''nodes'', Index k]) (node_id m) k seen (count_node st)"
  have rest: "pf_faults (preflight_nodes env ns (k + 1) (dict_setdefault (node_id m) k seen) s path depth stack
      (preflight_body env (node_body m) (child s (node_id m)) (path @ [Key ''nodes'', Index k, Key ''body'']) depth stack ?id)) = []"
    using Cons.prems(1) by (auto simp: Let_def split: if_splits)
  have "pf_faults ?id = []" using grown_clean [OF preflight_grown(3) grown_clean [OF preflight_grown(2) rest]] .
  then show ?case using Cons.IH [OF rest] by (auto simp: preflight_id_clean map_of_setdefault split: if_splits)
qed simp

lemma clean_count:
  assumes "pf_faults (preflight_nodes env ns k seen s path depth stack st) = []" "ns \<noteq> []"
  shows "pf_count st + length ns \<le> max_nodes (pe_limits env)"
  using assms
proof (induction ns arbitrary: k seen st)
  case (Cons m ns)
  let ?id = "preflight_id (child s (node_id m)) (path @ [Key ''nodes'', Index k]) (node_id m) k seen (count_node st)"
  let ?st = "preflight_body env (node_body m) (child s (node_id m)) (path @ [Key ''nodes'', Index k, Key ''body'']) depth stack ?id"
  have rest: "pf_faults (preflight_nodes env ns (k + 1) (dict_setdefault (node_id m) k seen) s path depth stack ?st) = []"
    and le: "pf_count (count_node st) \<le> max_nodes (pe_limits env)"
    using Cons.prems(1) by (auto simp: Let_def split: if_splits)
  have "grown (count_node st) ?st" by (rule grown_trans [OF preflight_id_grown preflight_grown(3)])
  then have "pf_count st + 1 \<le> pf_count ?st" by (simp add: grown_def count_node_def)
  then show ?case using Cons.IH [OF rest] le by (cases "ns = []") (auto simp: count_node_def)
qed simp

lemma clean_graph:
  assumes "pf_faults (preflight_graph env g s path depth stack st) = []"
  shows "depth \<le> max_nested_graph_depth (pe_limits env)" "distinct (node_ids g)" "\<forall>i \<in> set (node_ids g). take 1 i \<noteq> ''$''"
    "\<And>n. n \<in> set (nodes g) \<Longrightarrow> \<exists>path' st'. pf_faults (preflight_body env (node_body n) (child s (node_id n)) path' depth stack st') = []"
    "length (nodes g) \<le> max_nodes (pe_limits env)"
proof -
  have ns: "depth \<le> max_nested_graph_depth (pe_limits env)" "pf_faults (preflight_nodes env (nodes g) 0 [] s path depth stack st) = []"
    using assms by (auto simp: preflight_graph.simps Let_def split: if_splits)
  then show "depth \<le> max_nested_graph_depth (pe_limits env)" by simp
  show "distinct (node_ids g)" "\<forall>i \<in> set (node_ids g). take 1 i \<noteq> ''$''" using clean_ids [OF ns(2)] by (auto simp: node_ids_def)
  show "\<exists>path' st'. pf_faults (preflight_body env (node_body n) (child s (node_id n)) path' depth stack st') = []" if "n \<in> set (nodes g)" for n
    using clean_nodes [OF ns(2) that] .
  show "length (nodes g) \<le> max_nodes (pe_limits env)" using clean_count [OF ns(2)] by (cases "nodes g = []") auto
qed

subsection \<open>Libraries without self-reference\<close>

text \<open>No component is among its own reverse dependencies, and a retained version is kept under its component's name.\<close>

definition knot_free :: "snapshot \<Rightarrow> bool" where
  "knot_free sn \<longleftrightarrow> list_all (\<lambda>(name, vs). name \<notin> set (rdeps sn name) \<and> list_all (\<lambda>(_, v). comp_name (definition_of v) = name) vs) (versions sn)"

lemma refs_in_components:
  "refs_in g = map component (graph_refs g)" "refs_in_node n = map component (gnode_refs n)" "refs_in_body b = map component (body_refs b)"
  "refs_in_loop l = map component (loop_refs l)" "refs_in_loop_body lb = map component (loop_body_refs lb)"
  by (induction g and n and b and l and lb) (simp_all add: map_concat comp_def cong: map_cong)

abbreviation depends :: "snapshot \<Rightarrow> (string \<times> string) set" where
  "depends sn \<equiv> (set (reference_edges sn))\<^sup>+"

lemma knot_free_selected:
  assumes "knot_free sn" "select_version sn r s lk = Some v"
  shows "comp_name (definition_of v) = component r" "(component r, component r) \<notin> depends sn"
    "comp_body (definition_of v) = Composite g \<Longrightarrow> q \<in> set (graph_refs g) \<Longrightarrow> (component q, component r) \<in> set (reference_edges sn)"
proof -
  obtain vs h where v: "(component r, vs) \<in> set (versions sn)" "(h, v) \<in> set vs"
    using selected_version_stored [OF assms(2)] by blast
  show "comp_name (definition_of v) = component r" "(component r, component r) \<notin> depends sn"
    using assms(1) v rdeps_closure [of sn "component r"] by (auto simp: knot_free_def list_all_iff)
  assume "comp_body (definition_of v) = Composite g" "q \<in> set (graph_refs g)"
  then have "(component q, component r) \<in> set (case comp_body (definition_of v) of Composite g \<Rightarrow> map (\<lambda>d. (d, component r)) (refs_in g) | Atomic _ \<Rightarrow> [])"
    by (simp add: refs_in_components)
  then show "(component q, component r) \<in> set (reference_edges sn)"
    using v unfolding reference_edges_def by (auto simp: image_iff intro!: bexI [of _ "(component r, vs)"] bexI [of _ "(h, v)"] exI)
qed

text \<open>Every reference below the open composites is one that they depend on; so none of them is entered again.\<close>

definition open_above :: "snapshot \<Rightarrow> stack \<Rightarrow> ref list \<Rightarrow> bool" where
  "open_above sn stack rs \<longleftrightarrow> (\<forall>(n, h) \<in> set stack. \<forall>r \<in> set rs. (component r, n) \<in> depends sn)"

lemma above_subset: "open_above sn stack rs \<Longrightarrow> set qs \<subseteq> set rs \<Longrightarrow> open_above sn stack qs"
  by (fastforce simp: open_above_def)

lemma above_enter:
  assumes "knot_free sn" "select_version sn r s lk = Some v" "open_above sn stack [r]"
  shows "(comp_name (definition_of v), stored_hash v) \<notin> set stack"
    "comp_body (definition_of v) = Composite g \<Longrightarrow> open_above sn (stack @ [(comp_name (definition_of v), stored_hash v)]) (graph_refs g)"
proof -
  note k = knot_free_selected [OF assms(1,2)]
  show "(comp_name (definition_of v), stored_hash v) \<notin> set stack" using k(1,2) assms(3) by (auto simp: open_above_def)
  assume g: "comp_body (definition_of v) = Composite g"
  have "(component q, n) \<in> depends sn" if "q \<in> set (graph_refs g)" "(n, h) \<in> set stack" for q n h
    using k(3) [OF g that(1)] assms(3) that(2) by (auto simp: open_above_def intro: trancl_into_trancl2)
  then show "open_above sn (stack @ [(comp_name (definition_of v), stored_hash v)]) (graph_refs g)"
    using k(1) k(3) [OF g] by (auto simp: open_above_def)
qed

lemma clean_ref:
  assumes "pf_faults (preflight_ref env r s path depth stack st) = []" "knot_free (pe_snapshot env)" "open_above (pe_snapshot env) stack [r]"
    and "select_version (pe_snapshot env) r s (pe_lock env) = Some v" "comp_body (definition_of v) = Composite g"
  shows "\<exists>path' st' stack'. pf_faults (preflight_graph env g s path' (depth + 1) stack' st') = [] \<and> open_above (pe_snapshot env) stack' (graph_refs g)"
  using assms(1) above_enter [OF assms(2,4,3)] assms(5) by (auto simp: preflight_ref.simps assms(4) Let_def)

subsection \<open>The compiler's stack\<close>

definition clean_at :: "preflight_env \<Rightarrow> graph \<Rightarrow> scope \<Rightarrow> nat \<Rightarrow> bool" where
  "clean_at env g s depth \<longleftrightarrow> (\<exists>path stack st. pf_faults (preflight_graph env g s path depth stack st) = [] \<and> open_above (pe_snapshot env) stack (graph_refs g))"

definition clean_body_at :: "preflight_env \<Rightarrow> body \<Rightarrow> scope \<Rightarrow> nat \<Rightarrow> bool" where
  "clean_body_at env b s depth \<longleftrightarrow> (\<exists>path stack st. pf_faults (preflight_body env b s path depth stack st) = [] \<and> open_above (pe_snapshot env) stack (body_refs b))"

lemma clean_at_node:
  assumes "clean_at env g s depth" "n \<in> set (nodes g)"
  shows "clean_body_at env (node_body n) (child s (node_id n)) depth"
proof -
  obtain path stack st where c: "pf_faults (preflight_graph env g s path depth stack st) = []" "open_above (pe_snapshot env) stack (graph_refs g)"
    using assms(1) by (auto simp: clean_at_def)
  have "set (body_refs (node_body n)) \<subseteq> set (graph_refs g)" using node_refs_subset [OF assms(2)] by (cases n) simp
  then show ?thesis using clean_graph(4) [OF c(1) assms(2)] above_subset [OF c(2)] by (auto simp: clean_body_at_def)
qed

lemma clean_at_depth: "clean_at env g s depth \<Longrightarrow> depth \<le> max_nested_graph_depth (pe_limits env)"
  using clean_graph(1) by (auto simp: clean_at_def)

lemma clean_body_graph: "clean_body_at env (GraphBody g) s depth \<Longrightarrow> clean_at env g s (depth + 1)"
  by (auto simp: clean_body_at_def clean_at_def)

lemma clean_body_loop_graph:
  "clean_body_at env (LoopBody l) s depth \<Longrightarrow> loop_body l = LoopGraph g \<Longrightarrow> clean_at env g (child s LOOP_BODY_SEGMENT) (depth + 1)"
  by (cases l) (auto simp: clean_body_at_def clean_at_def)

lemma clean_body_loop_ref:
  "clean_body_at env (LoopBody l) s depth \<Longrightarrow> loop_body l = LoopRef r \<Longrightarrow>
   clean_body_at env (RefBody r) (child (child s LOOP_BODY_SEGMENT) ''$body'') (depth + 1)"
  by (cases l) (auto simp: clean_body_at_def)

lemma clean_body_ref:
  assumes "clean_body_at env (RefBody r) s depth" "knot_free (pe_snapshot env)"
    and "select_version (pe_snapshot env) r s (pe_lock env) = Some v" "comp_body (definition_of v) = Composite g"
  shows "clean_at env g s (depth + 1)"
proof -
  obtain path stack st where "pf_faults (preflight_ref env r s path depth stack st) = []" "open_above (pe_snapshot env) stack [r]"
    using assms(1) by (auto simp: clean_body_at_def)
  from clean_ref [OF this(1) assms(2) this(2) assms(3,4)] show ?thesis by (auto simp only: clean_at_def)
qed

lemmas clean_children = clean_body_graph clean_body_loop_graph clean_body_loop_ref clean_body_ref

definition tracks :: "preflight_env \<Rightarrow> compilation \<Rightarrow> bool" where
  "tracks env c \<longleftrightarrow> snap c = pe_snapshot env \<and> lock c = pe_lock env"

lemma tracks_same: "tracks env c \<Longrightarrow> same_world c c' \<Longrightarrow> tracks env c'"
  by (simp add: tracks_def same_world_def)

lemma clean_at_length: "clean_at env g s depth \<Longrightarrow> length (nodes g) \<le> max_nodes (pe_limits env)"
  using clean_graph(5) by (auto simp: clean_at_def)

text \<open>
  A graph level costs the compiler three frames: itself, its node, and the loop of that node; and the last level entered as many as the closure
  over its nodes takes.
\<close>

definition frames :: "preflight_env \<Rightarrow> nat \<Rightarrow> nat" where
  "frames env depth = 3 * levels_left env depth + max_nodes (pe_limits env) + 2"

lemma frames_Suc: "depth \<le> max_nested_graph_depth (pe_limits env) \<Longrightarrow> frames env depth = frames env (depth + 1) + 3"
  by (simp add: frames_def levels_left_def Suc_diff_le)

lemma ref_bound:
  assumes "clean_body_at env (RefBody r) (child (nc_scope ctx) i) depth" "knot_free (pe_snapshot env)" "tracks env c"
    and "\<And>g lv c'. clean_at env g (lv_scope lv) (depth + 1) \<Longrightarrow> tracks env c' \<Longrightarrow> cg g lv c' \<noteq> Inl RecursionErr"
  shows "ref_step sha cg i r ctx c \<noteq> Inl RecursionErr"
proof
  assume "ref_step sha cg i r ctx c = Inl RecursionErr"
  then obtain v g lv c' where v: "select_version (snap c) r (child (nc_scope ctx) i) (lock c) = Some v"
    "comp_body (definition_of v) = Composite g" "cg g lv c' = Inl RecursionErr" "same_world c c'" "lv_scope lv = child (nc_scope ctx) i"
    by (rule ref_step_raises)
  have "clean_at env g (lv_scope lv) (depth + 1)"
    using clean_body_ref [OF assms(1,2)] v(1,2,5) assms(3) by (simp add: tracks_def)
  then show False using assms(4) tracks_same [OF assms(3) v(4)] v(3) by blast
qed

lemma stack_bound:
  assumes "knot_free (pe_snapshot env)"
  shows "clean_at env g (lv_scope lv) depth \<Longrightarrow> tracks env c \<Longrightarrow> frames env depth \<le> n \<Longrightarrow> compile_graph sha n g lv c \<noteq> Inl RecursionErr"
    and "clean_body_at env (node_body node) (child (nc_scope ctx) (node_id node)) depth \<Longrightarrow> tracks env c \<Longrightarrow> frames env (depth + 1) + 2 \<le> n
      \<Longrightarrow> compile_node sha n node ctx c \<noteq> Inl RecursionErr"
    and "clean_body_at env (LoopBody l) (child (nc_scope ctx) i) depth \<Longrightarrow> tracks env c \<Longrightarrow> frames env (depth + 1) + 1 \<le> n
      \<Longrightarrow> compile_loop sha n i l ctx c \<noteq> Inl RecursionErr"
    and "clean_body_at env (RefBody r) (child (nc_scope ctx) ''$body'') depth \<Longrightarrow> tracks env c \<Longrightarrow> frames env depth \<le> n
      \<Longrightarrow> compile_node sha n (GNode ''$body'' (RefBody r)) ctx c \<noteq> Inl RecursionErr"
proof (induction n arbitrary: g lv depth c node ctx l i r)
  case 0
  { case 1 then show ?case by (simp add: frames_def) }
  { case 2 then show ?case by simp }
  { case 3 then show ?case by simp }
  { case 4 then show ?case by (simp add: frames_def) }
next
  case (Suc n)
  { case 1
    show ?case
    proof
      assume "compile_graph sha (Suc n) g lv c = Inl RecursionErr"
      then have "graph_step n (compile_node sha n) g lv c = Inl RecursionErr" by simp
      moreover have "length (nodes g) < n" using clean_at_length [OF 1(1)] frames_Suc [OF clean_at_depth [OF 1(1)]] 1(3) by (simp add: frames_def)
      ultimately obtain node ctx c' where n: "node \<in> set (nodes g)" "compile_node sha n node ctx c' = Inl RecursionErr" "same_world c c'"
          "nc_scope ctx = lv_scope lv"
        by (rule graph_step_raises)
      have "frames env (depth + 1) + 2 \<le> n" using frames_Suc [OF clean_at_depth [OF 1(1)]] 1(3) by simp
      then show False
        using Suc.IH(2) [of node ctx depth c'] clean_at_node [OF 1(1) n(1)] tracks_same [OF 1(2) n(3)] n(2,4) by simp
    qed }
  { case 2
    have deeper: "compile_graph sha n g lv c' \<noteq> Inl RecursionErr" if "clean_at env g (lv_scope lv) (depth + 1)" "tracks env c'" for g lv c'
      using Suc.IH(1) [OF that] 2(3) by simp
    show ?case
    proof
      assume "compile_node sha (Suc n) node ctx c = Inl RecursionErr"
      then have "node_step sha (compile_graph sha n) (compile_loop sha n) node ctx c = Inl RecursionErr" by simp
      then show False
      proof (rule node_step_raises)
        fix r assume r: "node_body node = RefBody r" "ref_step sha (compile_graph sha n) (node_id node) r ctx c = Inl RecursionErr"
        have "clean_body_at env (RefBody r) (child (nc_scope ctx) (node_id node)) depth" using 2(1) r(1) by simp
        from ref_bound [OF this assms 2(2) deeper] r(2) show False by simp
      next
        fix g lv c' assume g: "node_body node = GraphBody g" "compile_graph sha n g lv c' = Inl RecursionErr" "same_world c c'"
          "lv_scope lv = child (nc_scope ctx) (node_id node)"
        have "clean_at env g (lv_scope lv) (depth + 1)" using clean_body_graph 2(1) g(1,4) by simp
        from deeper [OF this tracks_same [OF 2(2) g(3)]] g(2) show False by simp
      next
        fix l assume "node_body node = LoopBody l" "compile_loop sha n (node_id node) l ctx c = Inl RecursionErr"
        then show False using Suc.IH(3) [of l ctx "node_id node" depth c] 2 by simp
      qed
    qed }
  { case 3
    show ?case
    proof
      assume "compile_loop sha (Suc n) i l ctx c = Inl RecursionErr"
      then have "loop_step sha (compile_node sha n) (compile_graph sha n) i l ctx c = Inl RecursionErr" by simp
      then show False
      proof (rule loop_step_raises)
        fix r ctx' c' assume r: "loop_body l = LoopRef r" "compile_node sha n (GNode ''$body'' (RefBody r)) ctx' c' = Inl RecursionErr"
          "same_world c c'" "nc_scope ctx' = child (child (nc_scope ctx) i) LOOP_BODY_SEGMENT"
        then show False
          using Suc.IH(4) [of r ctx' "depth + 1" c'] clean_body_loop_ref [OF 3(1) r(1)] tracks_same [OF 3(2) r(3)] 3(3) by simp
      next
        fix g lv c' assume g: "loop_body l = LoopGraph g" "compile_graph sha n g lv c' = Inl RecursionErr" "same_world c c'"
          "lv_scope lv = child (child (nc_scope ctx) i) LOOP_BODY_SEGMENT"
        then show False
          using Suc.IH(1) [of g lv "depth + 1" c'] clean_body_loop_graph [OF 3(1) g(1)] tracks_same [OF 3(2) g(3)] 3(3) by simp
      qed
    qed }
  { case 4
    have deeper: "compile_graph sha n g lv c' \<noteq> Inl RecursionErr" if g: "clean_at env g (lv_scope lv) (depth + 1)" "tracks env c'" for g lv c'
    proof -
      have "depth + 1 \<le> max_nested_graph_depth (pe_limits env)" using clean_at_depth [OF g(1)] .
      then have "frames env depth = frames env (depth + 1) + 3" by (intro frames_Suc) simp
      then show ?thesis using Suc.IH(1) [OF g] 4(3) by simp
    qed
    show ?case using ref_bound [OF 4(1) assms 4(2) deeper] by (simp add: node_step_def) }
qed

subsection \<open>Every graph an admission enters\<close>

text \<open>The references of one level, with their scope and the level they are at.\<close>

fun node_references :: "scope \<Rightarrow> nat \<Rightarrow> gnode \<Rightarrow> (ref \<times> scope \<times> nat) list" where
  "node_references s d (GNode i (RefBody r)) = [(r, child s i, d)]"
| "node_references s d (GNode i (GraphBody g)) = []"
| "node_references s d (GNode i (LoopBody l)) = (case loop_body l of
     LoopRef r \<Rightarrow> [(r, child (child (child s i) LOOP_BODY_SEGMENT) ''$body'', d + 1)] | LoopGraph g \<Rightarrow> [])"

inductive enters :: "preflight_env \<Rightarrow> graph \<Rightarrow> scope \<Rightarrow> nat \<Rightarrow> graph \<Rightarrow> scope \<Rightarrow> nat \<Rightarrow> bool" for env g0 s0 d0 where
  Top: "enters env g0 s0 d0 g0 s0 d0"
| Nested: "enters env g0 s0 d0 g s d \<Longrightarrow> n \<in> set (nodes g) \<Longrightarrow> node_body n = GraphBody g' \<Longrightarrow> enters env g0 s0 d0 g' (child s (node_id n)) (d + 1)"
| Looped: "enters env g0 s0 d0 g s d \<Longrightarrow> n \<in> set (nodes g) \<Longrightarrow> node_body n = LoopBody l \<Longrightarrow> loop_body l = LoopGraph g' \<Longrightarrow>
    enters env g0 s0 d0 g' (child (child s (node_id n)) LOOP_BODY_SEGMENT) (d + 1)"
| Referred: "enters env g0 s0 d0 g s d \<Longrightarrow> n \<in> set (nodes g) \<Longrightarrow> (r, s', d') \<in> set (node_references s d n) \<Longrightarrow>
    select_version (pe_snapshot env) r s' (pe_lock env) = Some v \<Longrightarrow> comp_body (definition_of v) = Composite g' \<Longrightarrow>
    enters env g0 s0 d0 g' s' (d' + 1)"

lemma clean_reference:
  assumes "clean_at env g s d" "n \<in> set (nodes g)" "(r, s', d') \<in> set (node_references s d n)"
  shows "clean_body_at env (RefBody r) s' d'"
proof -
  obtain i b where n: "n = GNode i b" by (cases n)
  have c: "clean_body_at env b (child s i) d" using clean_at_node [OF assms(1,2)] by (simp add: n)
  show ?thesis
  proof (cases b)
    case (LoopBody l)
    then show ?thesis using assms(3) clean_body_loop_ref [OF c [unfolded LoopBody]] by (auto simp: n split: loop_body.splits)
  qed (use assms(3) c in \<open>auto simp: n\<close>)
qed

lemma enters_clean:
  assumes "enters env g0 s0 d0 g s d" "clean_at env g0 s0 d0" "knot_free (pe_snapshot env)"
  shows "clean_at env g s d"
  using assms
proof (induction rule: enters.induct)
  case (Nested g s d n g')
  then show ?case using clean_at_node clean_body_graph by metis
next
  case (Looped g s d n l g')
  then show ?case using clean_at_node clean_body_loop_graph by metis
next
  case (Referred g s d n r s' d' v g')
  then show ?case using clean_body_ref clean_reference by metis
qed

subsection \<open>Capability bindings are typed\<close>

text \<open>A reference binds exactly the declared aliases, each to a capability of the declared kind; a composite binds none.\<close>

definition bound_to :: "preflight_env \<Rightarrow> ref \<Rightarrow> string \<times> capability_requirement \<Rightarrow> bool" where
  "bound_to env r ar = (case map_of (bind r) (fst ar) of
     None \<Rightarrow> False
   | Some cap \<Rightarrow> (case map_of (pe_catalog env) cap of None \<Rightarrow> False | Some d \<Rightarrow> cap_kind d = req_kind (snd ar)))"

definition typed_ref :: "preflight_env \<Rightarrow> ref \<Rightarrow> scope \<Rightarrow> bool" where
  "typed_ref env r s =
     (case select_version (pe_snapshot env) r s (pe_lock env) of
        None \<Rightarrow> True
      | Some v \<Rightarrow>
          (case comp_body (definition_of v) of
             Composite g \<Rightarrow> bind r = []
           | Atomic _ \<Rightarrow>
               (case requirements (definition_of v) of
                  None \<Rightarrow> True
                | Some rs \<Rightarrow> set (dict_keys (bind r)) = set (map req_alias rs) \<and> list_all (bound_to env r) (declared_requirements rs))))"

lemma clean_fold:
  assumes "pf_faults (fold f xs st) = []" "\<And>x st. grown st (f x st)" "x \<in> set xs"
  shows "\<exists>st'. pf_faults (f x st') = []"
  using assms(1,3)
proof (induction xs arbitrary: st)
  case (Cons y xs)
  have "pf_faults (f y st) = []"
    using grown_clean [OF grown_fold [of f, OF assms(2)]] Cons.prems(1) by simp
  then show ?case using Cons by auto
qed simp

lemma clean_alias: "pf_faults (preflight_alias env name r s path ar st) = [] \<Longrightarrow> bound_to env r ar"
  by (auto simp: preflight_alias_def bound_to_def note_fault_def Let_def split: prod.splits option.splits if_splits)

lemma clean_requirements:
  assumes "pf_faults (preflight_requirements env name r rs s path st) = []"
  shows "set (dict_keys (bind r)) = set (map req_alias rs)" "list_all (bound_to env r) (declared_requirements rs)"
proof -
  let ?D = "declared_requirements rs"
  let ?st1 = "fold (preflight_alias env name r s path) (sort_key fst ?D) st"
  let ?extra = "sorted_set (filter (\<lambda>al. al \<notin> set (dict_keys ?D)) (dict_keys (bind r)))"
  let ?f = "\<lambda>al. note_fault GRAPH_CAPABILITY_UNDECLARED_BINDING (path @ [Key ''bind'', Key al]) s (UndeclaredAlias name al (sort (dict_keys ?D)))"
  have final: "pf_faults (fold ?f ?extra ?st1) = []" using assms by (simp add: preflight_requirements_def Let_def)
  then have st1: "pf_faults ?st1 = []" by (rule grown_clean [OF grown_fold, rotated]) simp
  have "\<exists>st'. pf_faults (?f al st') = []" if "al \<in> set ?extra" for al
    using clean_fold [OF final _ that] by simp
  then have none: "set (dict_keys (bind r)) \<subseteq> set (dict_keys ?D)" by auto
  have all: "bound_to env r ar" if ar: "ar \<in> set ?D" for ar
  proof -
    obtain st' where "pf_faults (preflight_alias env name r s path ar st') = []"
      using clean_fold [OF st1 preflight_alias_grown, of ar] ar by auto
    then show ?thesis by (rule clean_alias)
  qed
  then show "list_all (bound_to env r) ?D" by (simp add: list_all_iff)
  have keys: "set (dict_keys ?D) = set (map req_alias rs)" by (force simp: declared_requirements_def keys_dict_of)
  have "al \<in> set (dict_keys (bind r))" if al: "al \<in> set (dict_keys ?D)" for al
  proof -
    obtain req where "(al, req) \<in> set ?D" using al by auto
    then have "map_of (bind r) al \<noteq> None" using all by (fastforce simp: bound_to_def split: option.splits)
    then show ?thesis by (auto dest!: map_of_SomeD intro: rev_image_eqI)
  qed
  then show "set (dict_keys (bind r)) = set (map req_alias rs)" using none keys by blast
qed

lemma clean_ref_typed:
  assumes "clean_body_at env (RefBody r) s d" "knot_free (pe_snapshot env)"
  shows "typed_ref env r s"
proof (cases "select_version (pe_snapshot env) r s (pe_lock env)")
  case (Some v)
  obtain path stack st where c: "pf_faults (preflight_ref env r s path d stack st) = []" "open_above (pe_snapshot env) stack [r]"
    using assms(1) by (auto simp: clean_body_at_def)
  have fresh: "(comp_name (definition_of v), stored_hash v) \<notin> set stack" using above_enter(1) [OF assms(2) Some c(2)] .
  show ?thesis
  proof (cases "comp_body (definition_of v)")
    case (Composite g)
    let ?key = "(comp_name (definition_of v), stored_hash v)"
    let ?st = "if bind r \<noteq> [] then note_fault GRAPH_CAPABILITY_UNDECLARED_BINDING (path @ [Key ''bind'']) s
        (OuterBindings (comp_name (definition_of v)) (sort (dict_keys (bind r)))) st else st"
    have "pf_faults (preflight_graph env g s path (d + 1) (stack @ [?key]) ?st) = []"
      using c(1) fresh by (simp add: preflight_ref.simps Some Composite Let_def)
    from grown_clean [OF preflight_grown(1) this] have "bind r = []" by (cases "bind r = []") simp_all
    then show ?thesis by (simp add: typed_ref_def Some Composite)
  next
    case (Atomic a)
    then show ?thesis using c(1) fresh clean_requirements
      by (auto simp: preflight_ref.simps Some Let_def typed_ref_def split: option.splits)
  qed
qed (simp add: typed_ref_def)

section \<open>Properties\<close>

lemma preflight_clean_at: "preflight_faults w lim g = [] \<Longrightarrow> clean_at (env_of w lim) g [graph_name g] 1"
  unfolding preflight_faults_def clean_at_def by (intro exI conjI) (assumption, simp add: open_above_def)

lemma env_of_simps [simp]: "pe_snapshot (env_of w lim) = w_snapshot w" "pe_catalog (env_of w lim) = w_catalog w"
  "pe_limits (env_of w lim) = lim"
  by (simp_all add: env_of_def)

text \<open>
  C36. What preflight accepts is well formed and typed, wherever it comes from. On a library without self-reference, when preflight
  reports nothing, then every graph that the proposal enters, whether nested, a loop's body or the body of a retained composite,
  is within the nesting limit and has distinct node identifiers without the reserved prefix; and every reference in it binds
  exactly the capability aliases that the selected version declares, each to an assembled capability of the declared kind, and a
  composite none.
\<close>

theorem preflight_wellformed:
  assumes "preflight_faults w lim g = []" "knot_free (w_snapshot w)" "enters (env_of w lim) g [graph_name g] 1 g' s d"
  shows "d \<le> max_nested_graph_depth lim \<and> distinct (node_ids g') \<and> (\<forall>i \<in> set (node_ids g'). take 1 i \<noteq> ''$'')
    \<and> (\<forall>n \<in> set (nodes g'). \<forall>(r, s', d') \<in> set (node_references s d n). typed_ref (env_of w lim) r s')"
proof -
  have k: "knot_free (pe_snapshot (env_of w lim))" using assms(2) by simp
  have c: "clean_at (env_of w lim) g' s d"
    using enters_clean [OF assms(3) preflight_clean_at [OF assms(1)] k] .
  obtain path stack st where p: "pf_faults (preflight_graph (env_of w lim) g' s path d stack st) = []"
    using c by (auto simp: clean_at_def)
  have "typed_ref (env_of w lim) r s'" if "n \<in> set (nodes g')" "(r, s', d') \<in> set (node_references s d n)" for n r s' d'
    using clean_ref_typed [OF clean_reference [OF c that] k] .
  then show ?thesis using clean_graph(1-3) [OF p] by fastforce
qed

text \<open>
  C37. Within the authoring limits, the compiler's recursion is bounded by the limits. When preflight reports nothing and no component of the
  library is among its own reverse dependencies, admission needs at most three stack frames for each permitted level, one for
  each permitted node and two more, whatever the proposal and the library hold. The frames are those of \<^verbatim>\<open>_compile_graph\<close>, \<^verbatim>\<open>_compile_node\<close> and
  \<^verbatim>\<open>_compile_loop\<close> and of the recursion of \<^verbatim>\<open>_upstream_closure\<close> and \<^verbatim>\<open>_ordered_nodes\<close> over one level. Under the default limits
  the bound is above the interpreter's default of a thousand frames, and \<open>long_chain_exhausts_the_stack\<close> shows that it has to be.
\<close>

theorem authored_admission_bounded:
  assumes "preflight_faults w lim g = []" "knot_free (w_snapshot w)" "3 * max_nested_graph_depth lim + max_nodes lim + 2 \<le> n"
  shows "admit sha n g w root given \<noteq> Inl RecursionErr"
proof -
  let ?env = "env_of w lim"
  have "frames ?env 1 \<le> n" using assms(3) by (simp add: frames_def levels_left_def)
  then have ok: "compile_graph sha n g lv c \<noteq> Inl RecursionErr" if "lv_scope lv = [graph_name g]" "tracks ?env c" for lv c
    using stack_bound(1) [of ?env g lv 1 c n sha] preflight_clean_at [OF assms(1)] assms(2) that by simp
  have "tracks ?env (add_faults fs (start_compilation sha w g))" for fs
    by (simp add: tracks_def start_compilation_def env_of_def)
  then have "admit_compiled sha n g w root keys \<noteq> Inl RecursionErr" for keys
    using ok unfolding admit_compiled_def Let_def by (auto simp: rbind_eq_Inl split: prod.splits if_splits)
  then show ?thesis
    unfolding admit_def seal_def Let_def by (auto simp: rbind_eq_Inl split: sum.splits json.splits)
qed

text \<open>
  C38. The authoring boundary lets a self-reference through. Preflight stops at a component that is already open and reports nothing,
  so a proposal that refers to a composite that refers to itself passes it under every limit of at least two levels, and then
  exhausts the compiler's stack, however deep: the caller gets the interpreter's recursion error, not a rejection.
\<close>

theorem self_reference_passes_preflight:
  assumes "2 \<le> max_nested_graph_depth lim" "2 \<le> max_nodes lim"
  shows "preflight_faults knot_world lim knot_graph = []
    \<and> admit_authored_graph sha n prose text lim knot_graph knot_world tiny_grants (PDict []) = Inl (Raised RecursionErr)"
proof -
  have "admit sha n knot_graph knot_world tiny_grants (PDict []) = Inl RecursionErr" by (rule self_reference_exhausts_the_stack)
  moreover have "preflight_faults knot_world lim knot_graph = []"
    using assms unfolding preflight_faults_def
    by (simp add: preflight_graph.simps preflight_ref.simps Let_def knot_graph_def knot_world_def tiny_world_def env_of_def tiny_ref_def
        tiny_component_def count_node_def preflight_id_def select_version_def get_version_def dict_get_or_def
        stable_version_def present_def)
  ultimately show ?thesis by (simp add: admit_authored_graph_def Let_def)
qed

text \<open>
  A chain within the authoring limits exhausts the stack. Preflight accepts every chain of at most \<open>max_nodes\<close> nodes on one level, and when its
  consumers are listed before their producers, the closure over it recurses once for each node: on a stack of no more frames than
  the chain has nodes and one, the compiler raises the interpreter's recursion error. The default limit admits a
  thousand nodes, as many as the interpreter's default stack has frames.
\<close>

definition port_less :: "component_def" where
  "port_less = tiny_component\<lparr>comp_inputs := [], comp_outputs := []\<rparr>"

definition chain_world :: world where
  "chain_world = tiny_world\<lparr>w_snapshot := (w_snapshot tiny_world)\<lparr>versions := [(''c'', [(''v1'',
     \<lparr>definition_of = port_less, stored_hash = ''v1'', registered_at = 0\<rparr>)])]\<rparr>\<rparr>"

lemma chain_preflight:
  assumes "m \<le> max_nodes lim" "k \<le> m" "pf_count st = k" "pf_faults st = []" "\<And>i. k \<le> i \<Longrightarrow> map_of seen (chain_node i) = None"
  shows "pf_faults (preflight_nodes (env_of chain_world lim) (map (\<lambda>i. leaf (chain_node i)) [k..<m]) n seen s path d stack st) = []"
  using assms(2-5)
proof (induction "m - k" arbitrary: k n seen st)
  case (Suc x)
  have step: "[k..<m] = k # [Suc k..<m]" using Suc.hyps(2) by (simp add: upt_rec)
  have v: "select_version (w_snapshot chain_world) \<lparr>component = ''c'', version = None, bind = [], grants = None\<rparr> sc
      (pe_lock (env_of chain_world lim)) = Some \<lparr>definition_of = port_less, stored_hash = ''v1'', registered_at = 0\<rparr>" for sc
    by (simp add: env_of_def chain_world_def tiny_world_def select_version_def stable_version_def get_version_def dict_get_or_def present_def)
  have body: "preflight_body (env_of chain_world lim) (node_body (leaf (chain_node k))) sc p d stack st' = st'" for sc p st'
    by (simp add: leaf_def preflight_ref.simps v Let_def) (simp add: port_less_def tiny_component_def)
  have id: "preflight_id sc p (chain_node k) i seen st' = st'" for sc p i st'
    using Suc.prems(4) [of k] by (simp add: preflight_id_def Let_def) (simp add: chain_node_def)
  have "pf_faults (preflight_nodes (env_of chain_world lim) (map (\<lambda>i. leaf (chain_node i)) [Suc k..<m]) (n + 1)
      (dict_setdefault (chain_node k) n seen) s path d stack (count_node st)) = []"
    by (rule Suc.hyps(1)) (use Suc.hyps(2) Suc.prems in \<open>auto simp: count_node_def map_of_setdefault\<close>)
  moreover have "\<not> max_nodes lim < pf_count (count_node st)" using Suc.hyps(2) Suc.prems(2) assms(1) by (simp add: count_node_def)
  ultimately show ?case
    using body id by (simp add: step Let_def) (simp add: leaf_def)
qed simp

theorem long_chain_exhausts_the_stack:
  assumes "0 < m" "m \<le> max_nodes lim" "1 \<le> max_nested_graph_depth lim" "n \<le> Suc m"
  shows "preflight_faults chain_world lim (chain m) = []
    \<and> admit_authored_graph sha n prose text lim (chain m) chain_world root (PDict []) = Inl (Raised RecursionErr)"
proof
  show p: "preflight_faults chain_world lim (chain m) = []"
    using assms(2,3) chain_preflight [of m lim 0] by (simp add: preflight_faults_def preflight_graph.simps Let_def)
  have "compile_graph sha n (chain m) lv c = Inl RecursionErr" for lv c
  proof (cases n)
    case (Suc k)
    then show ?thesis
      using chain_exhausts [OF assms(1), of k] assms(4) chain_silent by (simp add: graph_step_def Let_def raised_by_level_def)
  qed simp
  then have "admit sha n (chain m) chain_world root (PDict []) = Inl RecursionErr"
    by (simp add: admit_def admit_compiled_def Let_def)
  then show "admit_authored_graph sha n prose text lim (chain m) chain_world root (PDict []) = Inl (Raised RecursionErr)"
    using p by (simp add: admit_authored_graph_def)
qed

text \<open>
  A report is bounded and loses nothing it does not announce. The faults of a rejection are at most the limit; when they all fit,
  the report is a sorted permutation of them; otherwise it is the first of the sorted faults, one fewer than the limit, and a last
  fault with the number of all.
\<close>

theorem report_is_bounded:
  assumes "0 < max_faults lim"
  shows "length (bounded_faults text lim fs) \<le> max_faults lim
    \<and> (if length fs \<le> max_faults lim
       then mset (bounded_faults text lim fs) = mset fs \<and> sorted (map (report_key text) (bounded_faults text lim fs))
       else length (bounded_faults text lim fs) = max_faults lim
         \<and> mset (butlast (bounded_faults text lim fs)) \<subseteq># mset fs
         \<and> sorted (map (report_key text) (butlast (bounded_faults text lim fs)))
         \<and> (\<forall>f \<in># mset fs - mset (butlast (bounded_faults text lim fs)). \<forall>f' \<in> set (butlast (bounded_faults text lim fs)).
              report_key text f' \<le> report_key text f)
         \<and> af_origin (last (bounded_faults text lim fs)) = Capped (length fs) (max_faults lim))"
proof -
  let ?o = "sort_key (report_key text) fs" and ?k = "max_faults lim - 1"
  have split: "mset ?o = mset (take ?k ?o) + mset (drop ?k ?o)" by (metis append_take_drop_id mset_append)
  have le: "report_key text f' \<le> report_key text f" if "f \<in> set (drop ?k ?o)" "f' \<in> set (take ?k ?o)" for f f'
  proof -
    have "sorted (map (report_key text) (take ?k ?o @ drop ?k ?o))" by simp
    then show ?thesis using that unfolding map_append sorted_append by auto
  qed
  have "mset fs - mset (take ?k ?o) = mset (drop ?k ?o)" using split by simp
  moreover have "sorted (map (report_key text) (take ?k ?o))" by (metis sorted_sort_key sorted_wrt_take take_map)
  moreover have "mset (take ?k ?o) \<subseteq># mset fs" using split by (metis mset_sort mset_subset_eq_add_left)
  ultimately show ?thesis using assms le by (auto simp: bounded_faults_def Let_def)
qed

definition small_limits :: limits where
  "small_limits = \<lparr>max_nodes = 10, max_nested_graph_depth = 4, max_faults = 2, max_fault_detail_items = 3\<rparr>"

lemma tiny_preflight: "preflight_faults tiny_world small_limits tiny_graph = []" "knot_free (w_snapshot tiny_world)"
  by code_simp+

theorem preflight_wellformed_witness: "distinct (node_ids tiny_graph)"
  using preflight_wellformed [OF tiny_preflight enters.Top] by blast

theorem authored_admission_bounded_witness: "admit toy_sha 24 tiny_graph tiny_world tiny_grants tiny_inputs \<noteq> Inl RecursionErr"
  by (rule authored_admission_bounded [OF tiny_preflight]) (simp add: small_limits_def)

theorem self_reference_passes_preflight_witness:
  "admit_authored_graph toy_sha 1000 (\<lambda>_. []) (\<lambda>_. []) small_limits knot_graph knot_world tiny_grants (PDict []) = Inl (Raised RecursionErr)"
  using self_reference_passes_preflight [of small_limits] by (simp add: small_limits_def)

definition three_faults :: "admission_fault list" where
  "three_faults = map (\<lambda>k. \<lparr>af_code = GRAPH_NODE_RESERVED_ID, af_path = [Index k], af_scope = None, af_origin = ReservedNode ''$''\<rparr>) [2, 0, 1]"

theorem report_is_bounded_witness:
  "length (bounded_faults (\<lambda>_. []) small_limits three_faults) = 2
   \<and> af_origin (last (bounded_faults (\<lambda>_. []) small_limits three_faults)) = Capped 3 2"
  using report_is_bounded [of small_limits "\<lambda>_. []" three_faults] by (simp add: small_limits_def three_faults_def)

end
