(* ===== verification/Control.thy ===== *)
theory Control
  imports Run_Journal
begin

text \<open>
  The durable control-plane contracts (\<^verbatim>\<open>core/control.py\<close>): authenticated actors and their scopes, command
  identities, the record of one command, and the laws that read a stored plan: whether it records a refusal,
  which resume attempt it authorises, and whether its shape belongs to an era that only a migration may witness.

  A JSON \<^verbatim>\<open>null\<close> is Python's \<^verbatim>\<open>None\<close>, so a command without a plan or a response carries \<^term>\<open>JNull\<close>. A set of
  strings tested against an unhashable value raises \<^verbatim>\<open>TypeError\<close>; that branch is kept. The two refusals of a
  resume plan that Pydantic does not accept or does not render back byte for byte carry one label. The texts of
  a control fault are left out, its code and details are kept.
\<close>

section \<open>Actors and scopes\<close>

definition READ_SCOPE :: string where "READ_SCOPE = ''constructicon:read''"
definition OPERATE_SCOPE :: string where "OPERATE_SCOPE = ''constructicon:operate''"
definition ADVISE_SCOPE :: string where "ADVISE_SCOPE = ''constructicon:advise''"
definition APPROVE_SCOPE :: string where "APPROVE_SCOPE = ''constructicon:approve''"
definition PROMOTE_SCOPE :: string where "PROMOTE_SCOPE = ''constructicon:promote''"
definition ADMIN_SCOPE :: string where "ADMIN_SCOPE = ''constructicon:admin''"

definition CONTROL_SCOPES :: "string list" where
  "CONTROL_SCOPES = [READ_SCOPE, OPERATE_SCOPE, ADVISE_SCOPE, APPROVE_SCOPE, PROMOTE_SCOPE, ADMIN_SCOPE]"

lemmas scope_defs = READ_SCOPE_def OPERATE_SCOPE_def ADVISE_SCOPE_def APPROVE_SCOPE_def PROMOTE_SCOPE_def ADMIN_SCOPE_def

definition interaction_scope :: "interaction \<Rightarrow> string" where
  "interaction_scope i = (case i of Advice \<Rightarrow> ADVISE_SCOPE | Approval \<Rightarrow> APPROVE_SCOPE)"

datatype control_code =
    AUTH_LOCAL_STATIC_REQUIRED | AUTH_REQUIRED_SCOPE | IDEMPOTENCY_CONFLICT | COMMAND_IN_PROGRESS | COMMAND_UNKNOWN
  | CURSOR_INVALID | CURSOR_QUERY_MISMATCH | DETAIL_NOT_FOUND | DETAIL_NOT_IMMUTABLE | DETAIL_DIGEST_MISMATCH
  | RUN_UNKNOWN | RUN_LIVE_OWNER | RUN_TERMINAL | RUN_NOT_RESUMABLE | COUNTERFACTUAL_LOCK_MISMATCH
  | REGISTRY_STABLE_MOVED | REGISTRY_ROLLBACK_PROOF_USED | REGISTRY_VERSION_UNKNOWN | APPROVAL_INVALID_SUBJECT
  | APPROVAL_RUN_MISMATCH | CHANNEL_MESSAGE_UNKNOWN | CHANNEL_REQUEST_REQUIRED | CHANNEL_WRONG_INTERACTION
  | CHANNEL_ALREADY_REPLIED | REQUEST_INVALID | COUNTERFACTUAL_OVERRIDE_INVALID

datatype auth_method = StaticAuth | OAuth

text \<open>The scopes of an actor are a frozen set, held here in the order \<^verbatim>\<open>_serialize_scopes\<close> renders it.\<close>

record actor =
  actor_id :: string
  actor_method :: auth_method
  actor_scopes :: "string list"
  actor_display :: "string option"
  actor_issuer :: "string option"
  actor_subject :: "string option"
  actor_client :: "string option"

definition scopes_are_known :: "string list \<Rightarrow> string list + string list" where
  "scopes_are_known value =
     (let unknown = sorted_set (filter (\<lambda>s. s \<notin> set CONTROL_SCOPES) value)
      in if unknown \<noteq> [] then Inl unknown else Inr (sorted_set value))"

definition allows :: "actor \<Rightarrow> string \<Rightarrow> bool" where
  "allows a sc \<longleftrightarrow> ADMIN_SCOPE \<in> set (actor_scopes a) \<or> sc \<in> set (actor_scopes a)"

definition actor_json :: "actor \<Rightarrow> json" where
  "actor_json a = jobj
     [(''actor_id'', jstr (actor_id a)),
      (''auth_method'', jstr (case actor_method a of StaticAuth \<Rightarrow> ''static'' | OAuth \<Rightarrow> ''oauth'')),
      (''scopes'', JList (map jstr (actor_scopes a))), (''display_name'', jopt jstr (actor_display a)),
      (''issuer'', jopt jstr (actor_issuer a)), (''subject'', jopt jstr (actor_subject a)),
      (''client_id'', jopt jstr (actor_client a))]"

record control_fault =
  ctl_code :: control_code
  ctl_details :: "(string \<times> json) list"

type_synonym control_rejected = "control_fault list"

definition one_fault :: "control_code \<Rightarrow> (string \<times> json) list \<Rightarrow> control_rejected" where
  "one_fault c details = [\<lparr>ctl_code = c, ctl_details = details\<rparr>]"

datatype required_scope = OneScope string | AnyScope "string list"

definition scope_refusal :: "actor \<Rightarrow> required_scope \<Rightarrow> control_rejected option" where
  "scope_refusal a required =
     (case required of
        OneScope sc \<Rightarrow>
          if allows a sc then None else Some (one_fault AUTH_REQUIRED_SCOPE [(''required_scope'', jstr sc)])
      | AnyScope scs \<Rightarrow>
          if list_ex (allows a) scs then None
          else Some (one_fault AUTH_REQUIRED_SCOPE [(''required_scopes'', JList (map jstr (sorted_set scs)))]))"

definition channel_reach :: "actor \<Rightarrow> interaction list" where
  "channel_reach a = filter (\<lambda>i. allows a (interaction_scope i)) [Advice, Approval]"

definition channel_authority_holder :: "message \<Rightarrow> actor \<Rightarrow> bool" where
  "channel_authority_holder request a =
     (if \<not> allows a (interaction_scope (msg_interaction request)) then False
      else msg_recipient request = None \<or> msg_recipient request = Some (actor_id a))"

section \<open>Commands\<close>

datatype command_state = Prepared | CommittedCommand | RejectedCommand

text \<open>A clock reading: the instant, in microseconds, that leases compare, and the \<^verbatim>\<open>isoformat\<close> text that pages order by.\<close>

record stamp =
  instant :: int
  iso :: string

record command_claim =
  claim_id :: string
  claim_actor :: string
  claim_operation :: string
  claim_owner :: string
  claim_epoch :: nat
  claim_expires :: int

record command_record =
  cmd_id :: string
  cmd_actor :: actor
  cmd_operation :: string
  cmd_key :: string
  cmd_hash :: digest
  cmd_request :: json
  cmd_state :: command_state
  cmd_plan :: json
  cmd_response :: json
  cmd_owner :: "string option"
  cmd_epoch :: nat
  cmd_lease :: "int option"
  cmd_created :: stamp
  cmd_updated :: stamp
  cmd_completed :: "stamp option"

definition command_visible_to :: "command_record \<Rightarrow> actor \<Rightarrow> bool" where
  "command_visible_to r a \<longleftrightarrow> actor_id (cmd_actor r) = actor_id a \<or> allows a ADMIN_SCOPE"

subsection \<open>Identities\<close>

definition command_id_for :: "(nat list \<Rightarrow> string) \<Rightarrow> string \<Rightarrow> string \<Rightarrow> string \<Rightarrow> string" where
  "command_id_for sha a operation key = ''cmd-'' @ drop (length ''sha256:'') (digest_of sha ''control-command'' 1
     (jobj [(''actor_id'', jstr a), (''operation'', jstr operation), (''idempotency_key'', jstr key)]))"

definition command_request_hash :: "(nat list \<Rightarrow> string) \<Rightarrow> json \<Rightarrow> digest" where
  "command_request_hash sha request = digest_of sha ''control-request'' 1 request"

definition run_id_for_command :: "(nat list \<Rightarrow> string) \<Rightarrow> string \<Rightarrow> string" where
  "run_id_for_command sha c = ''run-'' @ take 32 (drop (length ''sha256:'')
     (digest_of sha ''run-from-command'' 1 (jobj [(''command_id'', jstr c)])))"

definition approval_id_for_command :: "(nat list \<Rightarrow> string) \<Rightarrow> string \<Rightarrow> json \<Rightarrow> string" where
  "approval_id_for_command sha c subject = ''approval-'' @ take 32 (drop (length ''sha256:'')
     (digest_of sha ''approval-from-command'' 1 (jobj [(''command_id'', jstr c), (''subject'', subject)])))"

definition IDEMPOTENCY_KEY_MAX_LENGTH :: nat where "IDEMPOTENCY_KEY_MAX_LENGTH = 200"

definition validate_idempotency_key :: "string \<Rightarrow> exc + string" where
  "validate_idempotency_key value =
     (if value = '''' \<or> strip value \<noteq> value then Inl (Raised ''ValueError'' ''idempotency_key not canonical'')
      else if length value > IDEMPOTENCY_KEY_MAX_LENGTH then Inl (Raised ''ValueError'' ''idempotency_key too long'')
      else Inr value)"

section \<open>Reading a stored plan\<close>

text \<open>\<^verbatim>\<open>key in obj\<close>, \<^verbatim>\<open>obj.get(key)\<close> and \<^verbatim>\<open>value in names\<close>.\<close>

definition has_key :: "string \<Rightarrow> (ustr, json) dict \<Rightarrow> bool" where
  "has_key k d \<longleftrightarrow> map_of d (ustr_of k) \<noteq> None"

definition get_key :: "string \<Rightarrow> (ustr, json) dict \<Rightarrow> json" where
  "get_key k d = (case map_of d (ustr_of k) of None \<Rightarrow> JNull | Some j \<Rightarrow> j)"

definition in_names :: "json \<Rightarrow> string list \<Rightarrow> exc + bool" where
  "in_names v names =
     (case v of JList _ \<Rightarrow> Inl (Raised ''TypeError'' ''unhashable'') | JObj _ \<Rightarrow> Inl (Raised ''TypeError'' ''unhashable'')
      | JStr s \<Rightarrow> Inr (s \<in> set (map ustr_of names)) | _ \<Rightarrow> Inr False)"

definition REFUSAL_PLAN_KINDS :: "string list" where
  "REFUSAL_PLAN_KINDS = [''admission_reject'', ''control_reject'']"

definition plan_records_a_refusal :: "json \<Rightarrow> exc + bool" where
  "plan_records_a_refusal plan =
     (case plan of
        JObj d \<Rightarrow>
          if has_key ''rejection'' d then Inr True
          else (case get_key ''plan'' d of JObj p \<Rightarrow> in_names (get_key ''kind'' p) REFUSAL_PLAN_KINDS | _ \<Rightarrow> Inr False)
      | _ \<Rightarrow> Inr False)"

subsection \<open>Resume plans\<close>

record resume_command_plan =
  rp_run :: ustr
  rp_baseline :: nat
  rp_status :: run_status
  rp_exact :: bool

record legacy_resume_plan =
  lr_run :: ustr
  lr_baseline :: "nat option"

datatype resume_plan = ResumeCommandPlan resume_command_plan | LegacyResumeCommandPlan legacy_resume_plan

definition run_status_name :: "run_status \<Rightarrow> string" where
  "run_status_name s = (case s of Pending \<Rightarrow> ''pending'' | Running \<Rightarrow> ''running'' | Succeeded \<Rightarrow> ''succeeded''
     | Failed \<Rightarrow> ''failed'' | Cancelled \<Rightarrow> ''cancelled'' | Parked \<Rightarrow> ''parked'')"

definition run_status_of :: "ustr \<Rightarrow> run_status option" where
  "run_status_of u = find (\<lambda>s. ustr_of (run_status_name s) = u) [Pending, Running, Succeeded, Failed, Cancelled, Parked]"

text \<open>The dump of a plan inside its envelope; an absent optional field is popped, not rendered as null.\<close>

definition stored_resume_json :: "resume_plan \<Rightarrow> json" where
  "stored_resume_json p =
     (case p of
        ResumeCommandPlan r \<Rightarrow> jobj [(''schema_version'', JInt 1), (''plan'', jobj
          ([(''kind'', jstr ''resume''), (''policy'', jstr ''resume-v1''), (''run_id'', JStr (rp_run r)),
            (''baseline_event_seq'', JInt (int (rp_baseline r))), (''submitted_status'', jstr (run_status_name (rp_status r)))]
           @ (if rp_exact r then [(''terminal_rejection_policy'', jstr ''exact-v1'')] else [])))]
      | LegacyResumeCommandPlan l \<Rightarrow> jobj ((''run_id'', JStr (lr_run l)) #
          (case lr_baseline l of None \<Rightarrow> [] | Some n \<Rightarrow> [(''baseline_event_seq'', JInt (int n))])))"

text \<open>
  \<^verbatim>\<open>model_validate_json\<close> followed by the comparison of the dump with the stored bytes: the fields are read off
  the object, and the plan they make is accepted when it renders to the bytes that were stored.
\<close>

definition resume_candidate :: "(ustr, json) dict \<Rightarrow> resume_plan option" where
  "resume_candidate raw =
     (if has_key ''schema_version'' raw then
        (case get_key ''plan'' raw of
           JObj p \<Rightarrow>
             (case (get_key ''run_id'' p, get_key ''baseline_event_seq'' p, get_key ''submitted_status'' p) of
                (JStr run, JInt b, JStr st) \<Rightarrow>
                  if b < 0 then None
                  else map_option (\<lambda>s. ResumeCommandPlan \<lparr>rp_run = run, rp_baseline = nat b, rp_status = s,
                         rp_exact = has_key ''terminal_rejection_policy'' p\<rparr>) (run_status_of st)
              | _ \<Rightarrow> None)
         | _ \<Rightarrow> None)
      else
        (case get_key ''run_id'' raw of
           JStr run \<Rightarrow>
             if has_key ''baseline_event_seq'' raw then
               (case get_key ''baseline_event_seq'' raw of
                  JInt b \<Rightarrow> if b < 0 then None else Some (LegacyResumeCommandPlan \<lparr>lr_run = run, lr_baseline = Some (nat b)\<rparr>)
                | _ \<Rightarrow> None)
             else Some (LegacyResumeCommandPlan \<lparr>lr_run = run, lr_baseline = None\<rparr>)
         | _ \<Rightarrow> None))"

definition plan_run :: "resume_plan \<Rightarrow> ustr" where
  "plan_run p = (case p of ResumeCommandPlan r \<Rightarrow> rp_run r | LegacyResumeCommandPlan l \<Rightarrow> lr_run l)"

definition plan_baseline :: "resume_plan \<Rightarrow> nat option" where
  "plan_baseline p = (case p of ResumeCommandPlan r \<Rightarrow> Some (rp_baseline r) | LegacyResumeCommandPlan l \<Rightarrow> lr_baseline l)"

definition validated_resume_command_plan :: "command_record \<Rightarrow> exc + resume_plan" where
  "validated_resume_command_plan r =
     (if cmd_operation r \<noteq> ''runs_resume'' then Inl (JournalDamaged ''not a resume command'')
      else case cmd_plan r of
        JObj raw \<Rightarrow>
          (case resume_candidate raw of
             None \<Rightarrow> Inl (JournalDamaged ''invalid or non-lossless attempt plan'')
           | Some p \<Rightarrow>
               if canonical_json (JObj raw) \<noteq> canonical_json (stored_resume_json p)
               then Inl (JournalDamaged ''invalid or non-lossless attempt plan'')
               else (case cmd_request r of
                       JObj q \<Rightarrow>
                         if canonical_json (JObj q) \<noteq> canonical_json (jobj [(''run_id'', JStr (plan_run p))])
                         then Inl (JournalDamaged ''request and plan target different runs'') else Inr p
                     | _ \<Rightarrow> Inl (JournalDamaged ''request and plan target different runs'')))
      | _ \<Rightarrow> Inl (JournalDamaged ''no object plan''))"

definition resume_domain_plan :: "command_record \<Rightarrow> exc + resume_plan option" where
  "resume_domain_plan r =
     (if cmd_operation r \<noteq> ''runs_resume'' then Inr None
      else case cmd_plan r of
        JObj raw \<Rightarrow>
          if has_key ''schema_version'' raw then
            (case get_key ''plan'' raw of
               JObj p \<Rightarrow> if get_key ''kind'' p \<noteq> jstr ''resume'' then Inr None
                          else rbind (validated_resume_command_plan r) (\<lambda>q. Inr (Some q))
             | _ \<Rightarrow> Inr None)
          else if \<not> has_key ''run_id'' raw then Inr None
          else rbind (validated_resume_command_plan r) (\<lambda>q. Inr (Some q))
      | _ \<Rightarrow> Inr None)"

definition resume_plan_requires_historical_evidence :: "command_record \<Rightarrow> exc + bool" where
  "resume_plan_requires_historical_evidence r =
     (if cmd_operation r \<noteq> ''runs_resume'' \<or> cmd_plan r = JNull then Inr False
      else case cmd_plan r of
        JObj raw \<Rightarrow>
          if \<not> has_key ''schema_version'' raw then Inr True
          else rbind (resume_domain_plan r) (\<lambda>p.
            Inr (case p of Some (ResumeCommandPlan q) \<Rightarrow> \<not> rp_exact q | _ \<Rightarrow> False))
      | _ \<Rightarrow> Inr True)"

definition validated_new_resume_command_plan :: "command_record \<Rightarrow> exc + resume_command_plan option" where
  "validated_new_resume_command_plan r =
     rbind (resume_plan_requires_historical_evidence r) (\<lambda>old.
       if old then Inl (JournalDamaged ''cannot mint a historical plan era'')
       else rbind (resume_domain_plan r) (\<lambda>p.
         Inr (case p of Some (ResumeCommandPlan q) \<Rightarrow> Some q | _ \<Rightarrow> None)))"

subsection \<open>The fence of a resume attempt\<close>

definition resume_attempt_kind :: "run_status \<Rightarrow> exc + string" where
  "resume_attempt_kind s =
     (case s of Pending \<Rightarrow> Inr ''RunStarted'' | Running \<Rightarrow> Inr ''RunReclaimed'' | Failed \<Rightarrow> Inr ''RunResumed''
      | Parked \<Rightarrow> Inr ''RunResumed'' | _ \<Rightarrow> Inl (Raised ''ValueError'' ''not resumable''))"

definition RESUMABLE_RUN_STATUSES :: "run_status list" where
  "RESUMABLE_RUN_STATUSES = [Pending, Running, Failed, Parked]"

definition terminal_event_status :: "string \<Rightarrow> run_status option" where
  "terminal_event_status k = map_of [(''RunSucceeded'', Succeeded), (''RunFailed'', Failed), (''RunParked'', Parked),
     (''RunCancelled'', Cancelled)] k"

definition resume_status_at_fence :: "nat \<Rightarrow> string option \<Rightarrow> exc + run_status" where
  "resume_status_at_fence baseline k =
     (if baseline = 0 then (if k \<noteq> None then Inl (Raised ''ValueError'' ''zero fence names an event'') else Inr Pending)
      else case k of
        None \<Rightarrow> Inl (Raised ''ValueError'' ''positive fence has no event'')
      | Some ev \<Rightarrow>
          (case terminal_event_status ev of
             None \<Rightarrow> Inr Running
           | Some s \<Rightarrow> if s \<in> set RESUMABLE_RUN_STATUSES then Inr s
                       else Inl (Raised ''ValueError'' ''terminal success or cancellation'')))"

definition validated_resume_status_at_fence :: "resume_plan \<Rightarrow> string option \<Rightarrow> exc + run_status" where
  "validated_resume_status_at_fence p k =
     (case plan_baseline p of
        None \<Rightarrow> Inl (Raised ''ValueError'' ''no attempt fence'')
      | Some b \<Rightarrow> rbind (resume_status_at_fence b k) (\<lambda>s.
          case p of
            ResumeCommandPlan r \<Rightarrow> if rp_status r \<noteq> s then Inl (Raised ''ValueError'' ''status contradicts its fence'') else Inr s
          | LegacyResumeCommandPlan _ \<Rightarrow> Inr s))"

definition validated_resume_attempt_command ::
  "command_record \<Rightarrow> string \<Rightarrow> nat \<Rightarrow> string \<Rightarrow> string option \<Rightarrow> exc + resume_plan" where
  "validated_resume_attempt_command r run seq ev base_kind =
     (if cmd_state r = RejectedCommand then Inl (JournalDamaged ''cannot authorize a resume attempt'')
      else rbind (validated_resume_command_plan r) (\<lambda>p.
        if plan_run p \<noteq> ustr_of run then Inl (JournalDamaged ''plan targets another run'')
        else case plan_baseline p of
          None \<Rightarrow> Inl (JournalDamaged ''no attempt fence'')
        | Some b \<Rightarrow>
            if seq \<noteq> b + 1 then Inl (JournalDamaged ''receipt is not at its attempt fence'')
            else (case validated_resume_status_at_fence p base_kind of
                    Inl _ \<Rightarrow> Inl (JournalDamaged ''no lawful baseline status'')
                  | Inr s \<Rightarrow> rbind (resume_attempt_kind s) (\<lambda>k.
                      if k \<noteq> ev then Inl (JournalDamaged ''receipt contradicts its baseline'') else Inr p))))"

subsection \<open>The era of a domain plan\<close>

definition DOMAIN_PLAN_ERA_OPERATIONS :: "string list" where
  "DOMAIN_PLAN_ERA_OPERATIONS = [''registry_promote_initial'', ''registry_promote'', ''registry_rollback'', ''runs_cancel'']"

definition TERMINAL_STATUS_VALUES :: "string list" where
  "TERMINAL_STATUS_VALUES = map run_status_name [Succeeded, Failed, Cancelled, Parked]"

definition domain_plan_requires_historical_evidence :: "command_record \<Rightarrow> exc + bool" where
  "domain_plan_requires_historical_evidence r =
     (if cmd_operation r \<notin> set DOMAIN_PLAN_ERA_OPERATIONS \<or> cmd_plan r = JNull then Inr False
      else rbind (plan_records_a_refusal (cmd_plan r)) (\<lambda>refused.
        if refused then Inr False
        else case cmd_plan r of
          JObj raw \<Rightarrow>
            if \<not> has_key ''schema_version'' raw then Inr (cmd_operation r \<in> {''registry_promote'', ''registry_rollback''})
            else (case get_key ''plan'' raw of
              JObj p \<Rightarrow>
                if cmd_operation r = ''runs_cancel'' then
                  (if get_key ''kind'' p = jstr ''cancel'' \<and> get_key ''outcome'' p = jstr ''already_terminal''
                      \<and> get_key ''observed_event_seq'' p = JNull
                   then rbind (in_names (get_key ''observed_status'' p) TERMINAL_STATUS_VALUES) (\<lambda>b.
                          Inr (b \<and> get_key ''response_status'' p = get_key ''observed_status'' p))
                   else Inr False)
                else rbind (in_names (get_key ''kind'' p) [''initial_promotion'', ''promotion'', ''rollback'']) (\<lambda>b.
                       Inr (b \<and> get_key ''terminal_rejection_policy'' p = JNull))
            | _ \<Rightarrow> Inr False)
        | _ \<Rightarrow> Inr False))"

definition validated_new_domain_command_plan :: "command_record \<Rightarrow> exc + unit" where
  "validated_new_domain_command_plan r =
     rbind (domain_plan_requires_historical_evidence r) (\<lambda>old.
       if old then Inl (JournalDamaged ''cannot mint a historical domain plan era'') else Inr ())"

section \<open>Authority over a channel request\<close>

text \<open>
  C28. The authority law is exactly as wide as the domain. For a well-formed request and an actor that holds the scope of its interaction, the predicate that the surfaces ask
  before they claim and plan a reply holds if and only if \<^verbatim>\<open>message_for_reply\<close> accepts that actor's reply, whatever payload it carries. So no admitted
  reply is refused after its command was claimed, and no actor that the domain would accept is turned away.
\<close>

theorem authority_is_leave_to_reply:
  assumes "message_check q = Inr q" "msg_kind q = Request" "allows a (interaction_scope (msg_interaction q))"
    and "actor_id_is_canonical (actor_id a)" "normal_payload v = Inr j"
  shows "channel_authority_holder q a \<longleftrightarrow> \<not> isl (message_for_reply sha q (actor_id a) v now)"
proof -
  obtain rc port where rq: "reply_contract q = Some rc" "reply_port q = Some port"
    using assms(1,2) by (auto simp: message_check_def split: if_splits)
  show ?thesis
    using assms rq by (auto simp: channel_authority_holder_def message_for_reply_def message_check_def canonical_actor_def)
qed

definition sample_actor :: actor where
  "sample_actor = \<lparr>actor_id = ''user:ada'', actor_method = StaticAuth, actor_scopes = [ADVISE_SCOPE], actor_display = None, actor_issuer = None,
     actor_subject = None, actor_client = None\<rparr>"

definition sample_request :: "string option \<Rightarrow> message" where
  "sample_request who = \<lparr>message_id = ''m'', msg_channel = ''c'', msg_lane = ''l'', msg_interaction = Advice, msg_kind = Request,
     reply_to = None, msg_recipient = who, msg_sender = None, msg_contract = ADVICE_REQUEST_CONTRACT,
     reply_contract = Some ADVICE_REPLY_CONTRACT, reply_port = Some ''answer'',
     msg_envelope = \<lparr>env_run = ''r'', env_path = \<lparr>path_scope = [], iterations = []\<rparr>, env_port = ''ask'', created_at = ''t'', provenance = [], payload = JNull\<rparr>\<rparr>"

theorem authority_is_leave_to_reply_witness:
  "\<not> isl (message_for_reply (\<lambda>_. ''x'') (sample_request None) ''user:ada'' PNone ''now'')
   \<and> isl (message_for_reply (\<lambda>_. ''x'') (sample_request (Some ''user:bob'')) ''user:ada'' PNone ''now'')"
proof -
  have m: "message_check (sample_request None) = Inr (sample_request None)"
    "message_check (sample_request (Some ''user:bob'')) = Inr (sample_request (Some ''user:bob''))" by code_simp+
  have k: "msg_kind (sample_request x) = Request" "allows sample_actor (interaction_scope (msg_interaction (sample_request x)))" for x
    by (simp_all add: sample_request_def sample_actor_def allows_def interaction_scope_def)
  have c: "actor_id_is_canonical (actor_id sample_actor)" "normal_payload PNone = Inr JNull" by code_simp+
  have h: "channel_authority_holder (sample_request None) sample_actor" "\<not> channel_authority_holder (sample_request (Some ''user:bob'')) sample_actor"
    by code_simp+
  show ?thesis
    using authority_is_leave_to_reply [OF m(1) k c, of "\<lambda>_. ''x''" "''now''"] authority_is_leave_to_reply [OF m(2) k c, of "\<lambda>_. ''x''" "''now''"] h
    by (simp add: sample_actor_def)
qed

end
