(* ===== verification/Command_Ledger.thy ===== *)
theory Command_Ledger
  imports Control "HOL-Library.Product_Lexorder"
begin

text \<open>
  The command ledger: \<^verbatim>\<open>InMemoryControlStore\<close> of \<^verbatim>\<open>substrate/control.py\<close>, which every mutation of the control
  plane is claimed, planned and concluded in, and the law of \<^verbatim>\<open>core/human.py\<close> that binds a human approval to the
  command that wrote it. Every operation runs under the store's lock, so it returns the new store or raises and
  leaves the old one; the clock reading it takes is its argument.

  An approval plan is decoded by Pydantic and compared with its dump and with the approval; here the plan is
  rebuilt from the stored object and the approval, and accepted when it renders to the bytes that were stored.
  All these refusals are \<^verbatim>\<open>JournalDamaged\<close> and carry one label. The time of an approval is its rendering in the dump.
\<close>

section \<open>Approvals\<close>

datatype decision = ApprovedDecision | RejectedDecision

record approval =
  appr_id :: string
  appr_subject :: proof_subject
  appr_decision :: decision
  appr_reason :: "string option"
  appr_actor :: actor
  appr_run :: string
  appr_created :: string

definition decision_json :: "decision \<Rightarrow> json" where
  "decision_json d = jstr (case d of ApprovedDecision \<Rightarrow> ''approved'' | RejectedDecision \<Rightarrow> ''rejected'')"

definition approval_json :: "approval \<Rightarrow> json" where
  "approval_json a = jobj
     [(''approval_id'', jstr (appr_id a)), (''subject'', subject_json (appr_subject a)),
      (''decision'', decision_json (appr_decision a)), (''reason'', jopt jstr (appr_reason a)),
      (''actor'', actor_json (appr_actor a)), (''run_id'', jstr (appr_run a)), (''created_at'', jstr (appr_created a))]"

definition approval_decision_payload :: "approval \<Rightarrow> json" where
  "approval_decision_payload a = jobj [(''schema_version'', JInt 1), (''approval'', approval_json a)]"

record channel_approval_plan =
  ca_approval :: approval
  ca_channel :: ustr
  ca_request :: ustr
  ca_reply :: ustr
  ca_port :: ustr
  ca_payload :: json
  ca_actor :: ustr
  ca_run :: ustr
  ca_parked :: nat

datatype approval_plan = ApprovalPlan approval | ChannelApprovalPlan channel_approval_plan

definition approval_plan_json :: "approval_plan \<Rightarrow> json" where
  "approval_plan_json p =
     (case p of
        ApprovalPlan a \<Rightarrow> jobj [(''kind'', jstr ''approval''), (''approval'', approval_json a)]
      | ChannelApprovalPlan c \<Rightarrow> jobj
          [(''kind'', jstr ''channel_approval''), (''approval'', approval_json (ca_approval c)),
           (''channel_id'', JStr (ca_channel c)), (''request_id'', JStr (ca_request c)), (''reply_id'', JStr (ca_reply c)),
           (''reply_port'', JStr (ca_port c)), (''payload'', ca_payload c), (''ack_actor_id'', JStr (ca_actor c)),
           (''run_id'', JStr (ca_run c)), (''parked_event_seq'', JInt (int (ca_parked c)))])"

definition digest_text :: "ustr \<Rightarrow> bool" where
  "digest_text u = (list_all (\<lambda>c. c < 256) u \<and> \<not> isl (digest_well_formed (map char_of u)))"

text \<open>The typed plan an object describes, with \<open>a\<close> as the approval inside it.\<close>

definition approval_candidate :: "(ustr, json) dict \<Rightarrow> approval \<Rightarrow> approval_plan option" where
  "approval_candidate raw a =
     (if has_key ''schema_version'' raw then
        (case get_key ''plan'' raw of
           JObj p \<Rightarrow>
             if get_key ''kind'' p = jstr ''approval'' then Some (ApprovalPlan a)
             else if get_key ''kind'' p = jstr ''channel_approval'' then
               (case (get_key ''channel_id'' p, get_key ''request_id'' p, get_key ''reply_id'' p, get_key ''reply_port'' p,
                      get_key ''ack_actor_id'' p, get_key ''run_id'' p, get_key ''parked_event_seq'' p) of
                  (JStr ch, JStr rq, JStr rp, JStr port, JStr who, JStr run, JInt n) \<Rightarrow>
                    if n < 0 \<or> \<not> digest_text rq \<or> \<not> digest_text rp then None
                    else Some (ChannelApprovalPlan \<lparr>ca_approval = a, ca_channel = ch, ca_request = rq, ca_reply = rp,
                           ca_port = port, ca_payload = get_key ''payload'' p, ca_actor = who, ca_run = run, ca_parked = nat n\<rparr>)
                | _ \<Rightarrow> None)
             else None
         | _ \<Rightarrow> None)
      else Some (ApprovalPlan a))"

definition approval_plan_for :: "command_record \<Rightarrow> approval \<Rightarrow> exc + approval_plan" where
  "approval_plan_for r a =
     (case cmd_plan r of
        JObj raw \<Rightarrow>
          (case approval_candidate raw a of
             None \<Rightarrow> Inl (JournalDamaged ''contradicts its immutable command plan'')
           | Some p \<Rightarrow>
               if canonical_json (JObj raw) \<noteq> canonical_json
                    (if has_key ''schema_version'' raw then jobj [(''schema_version'', JInt 1), (''plan'', approval_plan_json p)]
                     else jobj [(''approval'', approval_json a)])
               then Inl (JournalDamaged ''contradicts its immutable command plan'') else Inr p)
      | _ \<Rightarrow> Inl (JournalDamaged ''belongs to a planless command''))"

definition validated_approval_identity :: "(nat list \<Rightarrow> string) \<Rightarrow> string \<Rightarrow> approval \<Rightarrow> exc + approval" where
  "validated_approval_identity sha c a =
     (if appr_id a \<noteq> approval_id_for_command sha c (subject_json (appr_subject a))
      then Inl (JournalDamaged ''not minted by its command'') else Inr a)"

definition approval_request_keys :: "ustr list" where
  "approval_request_keys = map ustr_of [''run_id'', ''subject'', ''decision'', ''reason'']"

definition validated_command_approval_plan :: "(nat list \<Rightarrow> string) \<Rightarrow> command_record \<Rightarrow> approval \<Rightarrow> exc + approval_plan" where
  "validated_command_approval_plan sha r a =
     rbind (validated_approval_identity sha (cmd_id r) a) (\<lambda>_.
     if cmd_operation r \<noteq> ''runs_approve'' then Inl (JournalDamaged ''other than runs_approve'')
     else if cmd_actor r \<noteq> appr_actor a then Inl (JournalDamaged ''actor contradicts its command'')
     else case cmd_request r of
       JObj q \<Rightarrow>
         if \<not> (set (dict_keys q) = set approval_request_keys
                \<or> set (dict_keys q) = set (ustr_of ''request_message_id'' # approval_request_keys))
         then Inl (JournalDamaged ''contradicts its canonical request'')
         else if get_key ''run_id'' q \<noteq> jstr (appr_run a)
           \<or> canonical_json (get_key ''subject'' q) \<noteq> canonical_json (subject_json (appr_subject a))
           \<or> get_key ''decision'' q \<noteq> decision_json (appr_decision a)
           \<or> get_key ''reason'' q \<noteq> jopt jstr (appr_reason a)
         then Inl (JournalDamaged ''contradicts its canonical request'')
         else rbind (approval_plan_for r a) (\<lambda>p.
           rbind (if \<not> has_key ''request_message_id'' q then
                    (case p of ApprovalPlan _ \<Rightarrow> Inr () | _ \<Rightarrow> Inl (JournalDamaged ''request-bound plan of a standalone command''))
                  else
                    (case (get_key ''request_message_id'' q, p) of
                       (JStr rq, ChannelApprovalPlan c) \<Rightarrow>
                         if rq \<noteq> ca_request c \<or> ca_run c \<noteq> ustr_of (appr_run a) \<or> ca_actor c \<noteq> ustr_of (actor_id (appr_actor a))
                            \<or> ca_reply c \<noteq> ustr_of (digest_of sha ''channel-reply'' 1
                                 (jobj [(''request_id'', JStr (ca_request c)), (''port'', JStr (ca_port c))]))
                            \<or> canonical_json (ca_payload c) \<noteq> canonical_json (approval_decision_payload a)
                         then Inl (JournalDamaged ''contradicts its request-bound plan'') else Inr ()
                     | _ \<Rightarrow> Inl (JournalDamaged ''contradicts its request-bound plan'')))
             (\<lambda>_. if cmd_state r = RejectedCommand then Inl (JournalDamaged ''belongs to a rejected command'') else Inr p))
     | _ \<Rightarrow> Inl (JournalDamaged ''contradicts its canonical request''))"

definition validated_command_approval :: "(nat list \<Rightarrow> string) \<Rightarrow> command_record \<Rightarrow> approval \<Rightarrow> exc + approval" where
  "validated_command_approval sha r a = rbind (validated_command_approval_plan sha r a) (\<lambda>_. Inr a)"

definition validated_standalone_command_approval :: "(nat list \<Rightarrow> string) \<Rightarrow> command_record \<Rightarrow> approval \<Rightarrow> exc + approval" where
  "validated_standalone_command_approval sha r a = rbind (validated_command_approval_plan sha r a) (\<lambda>p.
     case p of ApprovalPlan _ \<Rightarrow> Inr a | _ \<Rightarrow> Inl (JournalDamaged ''must be written as one channel exchange''))"

section \<open>The store\<close>

record control_store =
  commands :: "(string, command_record) dict"
  approvals :: "(string, string \<times> approval) dict"
  approval_id_by_command :: "(string, string) dict"

definition empty_store :: control_store where
  "empty_store = \<lparr>commands = [], approvals = [], approval_id_by_command = []\<rparr>"

datatype claim_status = Claimed | Replayed | InProgress | ConflictingClaim

record claim_result =
  result_status :: claim_status
  result_claim :: "command_claim option"
  result_record :: "command_record option"

text \<open>The value \<^verbatim>\<open>_durable_json\<close> keeps is what its canonical bytes parse to.\<close>

definition durable_json :: "json \<Rightarrow> json" where
  "durable_json v = json_norm v"

definition concluded :: "command_record \<Rightarrow> bool" where
  "concluded r \<longleftrightarrow> cmd_state r = CommittedCommand \<or> cmd_state r = RejectedCommand"

definition detached_command :: "command_record \<Rightarrow> exc + command_record" where
  "detached_command r =
     (if concluded r \<and> cmd_plan r = JNull then Inl (JournalDamaged ''terminal command has no plan'') else Inr r)"

definition put_command :: "string \<Rightarrow> command_record \<Rightarrow> control_store \<Rightarrow> control_store" where
  "put_command c r s = s\<lparr>commands := dict_set c r (commands s)\<rparr>"

subsection \<open>Claims\<close>

definition claim_on :: "string \<Rightarrow> actor \<Rightarrow> string \<Rightarrow> string \<Rightarrow> nat \<Rightarrow> int \<Rightarrow> command_claim" where
  "claim_on c a operation owner epoch expires = \<lparr>claim_id = c, claim_actor = actor_id a, claim_operation = operation,
     claim_owner = owner, claim_epoch = epoch, claim_expires = expires\<rparr>"

definition other_request :: "command_record \<Rightarrow> actor \<Rightarrow> string \<Rightarrow> string \<Rightarrow> digest \<Rightarrow> json \<Rightarrow> bool" where
  "other_request r a operation key hash request \<longleftrightarrow>
     actor_id (cmd_actor r) \<noteq> actor_id a \<or> cmd_operation r \<noteq> operation \<or> cmd_key r \<noteq> key \<or> cmd_hash r \<noteq> hash
     \<or> canonical_json (cmd_request r) \<noteq> canonical_json request"

definition claim_existing ::
  "string \<Rightarrow> command_record \<Rightarrow> actor \<Rightarrow> string \<Rightarrow> string \<Rightarrow> digest \<Rightarrow> json \<Rightarrow> string \<Rightarrow> int \<Rightarrow> stamp \<Rightarrow> control_store
     \<Rightarrow> exc + (claim_result \<times> control_store)" where
  "claim_existing c r a operation key hash request owner ttl now s =
     (if other_request r a operation key hash request then
        rbind (detached_command r) (\<lambda>d. Inr (\<lparr>result_status = ConflictingClaim, result_claim = None, result_record = Some d\<rparr>, s))
      else if concluded r then
        rbind (detached_command r) (\<lambda>d. Inr (\<lparr>result_status = Replayed, result_claim = None, result_record = Some d\<rparr>, s))
      else if (case cmd_lease r of Some t \<Rightarrow> t > instant now | None \<Rightarrow> False) then
        rbind (detached_command r) (\<lambda>d. Inr (\<lparr>result_status = InProgress, result_claim = None, result_record = Some d\<rparr>, s))
      else
        (let expires = instant now + ttl;
             u = r\<lparr>cmd_owner := Some owner, cmd_epoch := cmd_epoch r + 1, cmd_lease := Some expires, cmd_updated := now\<rparr>
         in rbind (detached_command u) (\<lambda>d.
              Inr (\<lparr>result_status = Claimed,
                    result_claim = Some (claim_on c a operation owner (cmd_epoch r + 1) expires),
                    result_record = Some d\<rparr>, put_command c u s))))"

definition new_command ::
  "string \<Rightarrow> actor \<Rightarrow> string \<Rightarrow> string \<Rightarrow> digest \<Rightarrow> json \<Rightarrow> string \<Rightarrow> int \<Rightarrow> stamp \<Rightarrow> command_record" where
  "new_command c a operation key hash request owner ttl now =
     \<lparr>cmd_id = c, cmd_actor = a, cmd_operation = operation, cmd_key = key, cmd_hash = hash, cmd_request = durable_json request,
      cmd_state = Prepared, cmd_plan = JNull, cmd_response = JNull, cmd_owner = Some owner, cmd_epoch = 1,
      cmd_lease = Some (instant now + ttl), cmd_created = now, cmd_updated = now, cmd_completed = None\<rparr>"

definition claim_command ::
  "(nat list \<Rightarrow> string) \<Rightarrow> actor \<Rightarrow> string \<Rightarrow> string \<Rightarrow> digest \<Rightarrow> json \<Rightarrow> string \<Rightarrow> int \<Rightarrow> stamp \<Rightarrow> control_store
     \<Rightarrow> exc + (claim_result \<times> control_store)" where
  "claim_command sha a operation key hash request owner ttl now s =
     rbind (validate_idempotency_key key) (\<lambda>_.
     if hash \<noteq> command_request_hash sha request then Inl (Raised ''ValueError'' ''request_hash does not match'')
     else let c = command_id_for sha (actor_id a) operation key in
       case dict_get (commands s) c of
         Some r \<Rightarrow> claim_existing c r a operation key hash request owner ttl now s
       | None \<Rightarrow>
           (let r = new_command c a operation key hash request owner ttl now
            in rbind (detached_command r) (\<lambda>d.
                 Inr (\<lparr>result_status = Claimed, result_claim = Some (claim_on c a operation owner 1 (instant now + ttl)),
                       result_record = Some d\<rparr>, put_command c r s))))"

subsection \<open>The fence, plans and terminal responses\<close>

definition fenced :: "control_store \<Rightarrow> command_claim \<Rightarrow> exc + command_record" where
  "fenced s k =
     (case dict_get (commands s) (claim_id k) of
        None \<Rightarrow> Inl (JournalDamaged ''unknown command'')
      | Some r \<Rightarrow>
          if actor_id (cmd_actor r) \<noteq> claim_actor k \<or> cmd_operation r \<noteq> claim_operation k
          then Inl (JournalDamaged ''claim contradicts its durable identity'')
          else if cmd_state r \<noteq> Prepared \<or> cmd_owner r \<noteq> Some (claim_owner k) \<or> cmd_epoch r \<noteq> claim_epoch k
          then Inl (OwnershipLost ''command is no longer owned'')
          else Inr r)"

definition store_command_plan :: "command_claim \<Rightarrow> json \<Rightarrow> stamp \<Rightarrow> control_store \<Rightarrow> exc + control_store" where
  "store_command_plan k plan now s =
     (if plan = JNull then Inl (Raised ''ValueError'' ''cannot be planned with no plan'')
      else rbind (fenced s k) (\<lambda>r.
        if cmd_plan r = JNull then
          (let planned = r\<lparr>cmd_plan := durable_json plan, cmd_updated := now\<rparr>
           in rbind (validated_new_resume_command_plan planned) (\<lambda>_.
              rbind (validated_new_domain_command_plan planned) (\<lambda>_. Inr (put_command (claim_id k) planned s))))
        else if canonical_json (cmd_plan r) \<noteq> canonical_json plan then Inl (JournalDamaged ''already carries a different plan'')
        else Inr s))"

definition terminal ::
  "command_claim \<Rightarrow> json \<Rightarrow> command_state \<Rightarrow> stamp \<Rightarrow> control_store \<Rightarrow> exc + (command_record \<times> control_store)" where
  "terminal k response st now s =
     (if response = JNull then Inl (Raised ''ValueError'' ''cannot become terminal with no response'')
      else case dict_get (commands s) (claim_id k) of
        None \<Rightarrow> Inl (JournalDamaged ''unknown command'')
      | Some r \<Rightarrow>
          if st = RejectedCommand \<and> dict_get (approval_id_by_command s) (claim_id k) \<noteq> None
          then Inl (JournalDamaged ''cannot be rejected after writing an approval'')
          else if concluded r then
            (if cmd_state r = st \<and> canonical_json (cmd_response r) = canonical_json response
             then rbind (detached_command r) (\<lambda>d. Inr (d, s))
             else Inl (JournalDamaged ''contradictory terminal response''))
          else rbind (fenced s k) (\<lambda>r.
            if cmd_plan r = JNull then Inl (JournalDamaged ''terminal without an immutable plan'')
            else (let u = r\<lparr>cmd_state := st, cmd_response := durable_json response, cmd_owner := None, cmd_lease := None,
                            cmd_updated := now, cmd_completed := Some now\<rparr>
                  in rbind (detached_command u) (\<lambda>d. Inr (d, put_command (claim_id k) u s)))))"

definition complete_command :: "command_claim \<Rightarrow> json \<Rightarrow> stamp \<Rightarrow> control_store \<Rightarrow> exc + (command_record \<times> control_store)" where
  "complete_command k response now s = terminal k response CommittedCommand now s"

definition reject_command :: "command_claim \<Rightarrow> json \<Rightarrow> stamp \<Rightarrow> control_store \<Rightarrow> exc + (command_record \<times> control_store)" where
  "reject_command k response now s = terminal k response RejectedCommand now s"

subsection \<open>Approvals\<close>

definition approval_fenced :: "(nat list \<Rightarrow> string) \<Rightarrow> control_store \<Rightarrow> command_claim \<Rightarrow> approval \<Rightarrow> exc + command_record" where
  "approval_fenced sha s k a = rbind (fenced s k) (\<lambda>r. rbind (validated_standalone_command_approval sha r a) (\<lambda>_. Inr r))"

definition store_approval ::
  "(nat list \<Rightarrow> string) \<Rightarrow> command_claim \<Rightarrow> approval \<Rightarrow> control_store \<Rightarrow> exc + (approval \<times> control_store)" where
  "store_approval sha k a s =
     rbind (approval_fenced sha s k a) (\<lambda>_.
     case dict_get (approvals s) (appr_id a) of
       None \<Rightarrow>
         if dict_get (approval_id_by_command s) (claim_id k) \<noteq> None
         then Inl (JournalDamaged ''already wrote a different approval'')
         else Inr (a, s\<lparr>approvals := dict_set (appr_id a) (claim_id k, a) (approvals s),
                        approval_id_by_command := dict_set (claim_id k) (appr_id a) (approval_id_by_command s)\<rparr>)
     | Some (c, existing) \<Rightarrow>
         if existing \<noteq> a \<or> c \<noteq> claim_id k then Inl (JournalDamaged ''rewritten contradictorily'') else Inr (existing, s))"

text \<open>A lookup that both callers guard: the approval is stored.\<close>

definition project_approval :: "(nat list \<Rightarrow> string) \<Rightarrow> control_store \<Rightarrow> string \<Rightarrow> exc + approval" where
  "project_approval sha s i =
     (case dict_get (approvals s) i of
        None \<Rightarrow> Inl (Raised ''KeyError'' i)
      | Some (c, a) \<Rightarrow>
          (case dict_get (commands s) c of
             None \<Rightarrow> Inl (JournalDamaged ''names missing command'')
           | Some r \<Rightarrow> validated_command_approval sha r a))"

definition approval_for_command :: "(nat list \<Rightarrow> string) \<Rightarrow> control_store \<Rightarrow> string \<Rightarrow> exc + approval option" where
  "approval_for_command sha s c =
     (case dict_get (approval_id_by_command s) c of
        None \<Rightarrow> Inr None
      | Some i \<Rightarrow> rbind (project_approval sha s i) (\<lambda>a. Inr (Some a)))"

definition approval_by_id :: "(nat list \<Rightarrow> string) \<Rightarrow> control_store \<Rightarrow> string \<Rightarrow> exc + approval option" where
  "approval_by_id sha s i =
     (if dict_get (approvals s) i = None then Inr None else rbind (project_approval sha s i) (\<lambda>a. Inr (Some a)))"

subsection \<open>Reading and paging\<close>

definition command :: "control_store \<Rightarrow> string \<Rightarrow> exc + command_record option" where
  "command s c = (case dict_get (commands s) c of None \<Rightarrow> Inr None | Some r \<Rightarrow> rbind (detached_command r) (\<lambda>d. Inr (Some d)))"

type_synonym command_key = "string \<times> string"

definition command_key :: "command_record \<Rightarrow> command_key" where
  "command_key r = (iso (cmd_created r), cmd_id r)"

definition latest_command_key :: "control_store \<Rightarrow> string \<Rightarrow> command_key option" where
  "latest_command_key s operation =
     (let keys = map command_key (filter (\<lambda>r. cmd_operation r = operation) (dict_values (commands s)))
      in if keys = [] then None else Some (fold max (tl keys) (hd keys)))"

definition in_cut :: "command_key option \<Rightarrow> command_key \<Rightarrow> command_record \<Rightarrow> bool" where
  "in_cut after through r \<longleftrightarrow>
     command_key r \<le> through \<and> (case after of None \<Rightarrow> True | Some k \<Rightarrow> command_key r > k)"

primrec detached_all :: "command_record list \<Rightarrow> exc + command_record list" where
  "detached_all [] = Inr []"
| "detached_all (r # rs) = rbind (detached_command r) (\<lambda>d. rbind (detached_all rs) (\<lambda>ds. Inr (d # ds)))"

definition page ::
  "(command_record \<Rightarrow> bool) \<Rightarrow> control_store \<Rightarrow> command_key option \<Rightarrow> command_key \<Rightarrow> int \<Rightarrow> exc + command_record list" where
  "page keep s after through limit =
     (if limit \<le> 0 then Inl (Raised ''ValueError'' ''limit must be positive'')
      else detached_all (take (nat limit)
             (sort_key command_key (filter (\<lambda>r. keep r \<and> in_cut after through r) (dict_values (commands s))))))"

definition committed_commands ::
  "control_store \<Rightarrow> string \<Rightarrow> command_key option \<Rightarrow> command_key \<Rightarrow> int \<Rightarrow> exc + command_record list" where
  "committed_commands s operation after through limit =
     page (\<lambda>r. cmd_operation r = operation \<and> cmd_state r = CommittedCommand \<and> cmd_completed r \<noteq> None) s after through limit"

definition command_records ::
  "control_store \<Rightarrow> string \<Rightarrow> command_key option \<Rightarrow> command_key \<Rightarrow> int \<Rightarrow> exc + command_record list" where
  "command_records s operation after through limit = page (\<lambda>r. cmd_operation r = operation) s after through limit"

end
