(* ===== verification/Ledger_Laws.thy ===== *)
theory Ledger_Laws
  imports Command_Ledger
begin

text \<open>
  Laws of the command ledger. \<open>ledger_step\<close> is the step relation of the store, one rule per operation that
  returns; an operation that raises leaves the store, so it is no step. \<open>row_change\<close> lists the four things a step can do to
  one command: create it, hand it to a new owner, plan it, conclude it. Everything that outlives a step is
  read off that list: the identity of a command, the monotone epoch, the immutable plan and the final response.
\<close>

section \<open>Stored JSON\<close>

lemma sort_key_map_fst:
  "sort_key fst (map (\<lambda>(k, v). (k, f v)) kvs) = map (\<lambda>(k, v). (k, f v)) (sort_key fst kvs)"
  by (simp add: sort_key_map case_prod_unfold comp_def)

lemma json_norm_idem [simp]: "json_norm (json_norm j) = json_norm j"
proof (induction j rule: json_norm.induct)
  case (2 kvs)
  let ?m = "map (\<lambda>(k, v). (k, json_norm v)) kvs"
  have "map (\<lambda>(k, v). (k, json_norm v)) ?m = ?m"
    using 2 by (auto simp: case_prod_unfold)
  then have "map (\<lambda>(k, v). (k, json_norm v)) (sort_key fst ?m) = sort_key fst ?m"
    by (metis sort_key_map_fst)
  then show ?case by (simp only: json_norm.simps) (simp add: sort_key_id_if_sorted)
qed simp_all

lemma canonical_json_durable [simp]: "canonical_json (durable_json j) = canonical_json j"
  by (simp add: durable_json_def canonical_json_enc)

lemma durable_null [simp]: "durable_json j = JNull \<longleftrightarrow> j = JNull" "JNull = durable_json j \<longleftrightarrow> j = JNull"
  by (cases j; simp add: durable_json_def)+

lemma request_hash_durable [simp]: "command_request_hash sha (durable_json j) = command_request_hash sha j"
  unfolding command_request_hash_def durable_json_def by (rule digest_of_cong) simp

section \<open>Steps\<close>

inductive ledger_step :: "(nat list \<Rightarrow> string) \<Rightarrow> control_store \<Rightarrow> control_store \<Rightarrow> bool" for sha where
  claim: "claim_command sha a operation key hash request owner ttl now s = Inr (res, t) \<Longrightarrow> ledger_step sha s t"
| plan: "store_command_plan k p now s = Inr t \<Longrightarrow> ledger_step sha s t"
| complete: "complete_command k resp now s = Inr (r, t) \<Longrightarrow> ledger_step sha s t"
| reject: "reject_command k resp now s = Inr (r, t) \<Longrightarrow> ledger_step sha s t"
| approve: "store_approval sha k a s = Inr (b, t) \<Longrightarrow> ledger_step sha s t"

abbreviation ledger_trace :: "(nat list \<Rightarrow> string) \<Rightarrow> control_store \<Rightarrow> control_store \<Rightarrow> bool" where
  "ledger_trace sha \<equiv> (ledger_step sha)\<^sup>*\<^sup>*"

text \<open>What a step does to the command \<open>c\<close>: the row it had, if any, and the row it gets.\<close>

definition lease_over :: "command_record \<Rightarrow> stamp \<Rightarrow> bool" where
  "lease_over r now = (case cmd_lease r of Some t \<Rightarrow> t \<le> instant now | None \<Rightarrow> True)"

inductive row_change :: "(nat list \<Rightarrow> string) \<Rightarrow> string \<Rightarrow> command_record option \<Rightarrow> command_record \<Rightarrow> bool" for sha c where
  created: "validate_idempotency_key key = Inr key \<Longrightarrow> hash = command_request_hash sha request
      \<Longrightarrow> c = command_id_for sha (actor_id a) operation key
      \<Longrightarrow> row_change sha c None (new_command c a operation key hash request owner ttl now)"
| reclaimed: "\<not> concluded r \<Longrightarrow> lease_over r now
      \<Longrightarrow> row_change sha c (Some r) (r\<lparr>cmd_owner := Some owner, cmd_epoch := cmd_epoch r + 1, cmd_lease := Some t, cmd_updated := now\<rparr>)"
| planned: "\<not> concluded r \<Longrightarrow> cmd_plan r = JNull \<Longrightarrow> p \<noteq> JNull \<Longrightarrow> r' = r\<lparr>cmd_plan := durable_json p, cmd_updated := now\<rparr>
      \<Longrightarrow> validated_new_resume_command_plan r' = Inr q \<Longrightarrow> validated_new_domain_command_plan r' = Inr ()
      \<Longrightarrow> row_change sha c (Some r) r'"
| concludes: "\<not> concluded r \<Longrightarrow> cmd_plan r \<noteq> JNull \<Longrightarrow> resp \<noteq> JNull \<Longrightarrow> st = CommittedCommand \<or> st = RejectedCommand
      \<Longrightarrow> row_change sha c (Some r) (r\<lparr>cmd_state := st, cmd_response := durable_json resp, cmd_owner := None, cmd_lease := None,
                                    cmd_updated := now, cmd_completed := Some now\<rparr>)"

lemma concluded_simps [simp]:
  "cmd_state r = Prepared \<Longrightarrow> \<not> concluded r"
  "concluded (r\<lparr>cmd_owner := x1\<rparr>) = concluded r" "concluded (r\<lparr>cmd_epoch := x2\<rparr>) = concluded r"
  "concluded (r\<lparr>cmd_lease := x3\<rparr>) = concluded r" "concluded (r\<lparr>cmd_updated := x4\<rparr>) = concluded r"
  "concluded (r\<lparr>cmd_plan := x5\<rparr>) = concluded r" "concluded (r\<lparr>cmd_response := x6\<rparr>) = concluded r"
  "concluded (r\<lparr>cmd_completed := x7\<rparr>) = concluded r"
  "concluded (r\<lparr>cmd_state := st\<rparr>) \<longleftrightarrow> st \<noteq> Prepared"
  by (simp_all add: concluded_def) (cases st; simp)

lemma not_concluded: "\<not> concluded r \<longleftrightarrow> cmd_state r = Prepared"
  by (cases "cmd_state r") (simp_all add: concluded_def)

lemma detached_Inr [simp]: "detached_command r = Inr d \<longleftrightarrow> d = r \<and> (concluded r \<longrightarrow> cmd_plan r \<noteq> JNull)"
  by (auto simp: detached_command_def)

lemma new_command_fields [simp]:
  "cmd_state (new_command c a op key hash req owner ttl now) = Prepared"
  "cmd_plan (new_command c a op key hash req owner ttl now) = JNull"
  "cmd_response (new_command c a op key hash req owner ttl now) = JNull"
  "cmd_id (new_command c a op key hash req owner ttl now) = c"
  "cmd_actor (new_command c a op key hash req owner ttl now) = a"
  "cmd_operation (new_command c a op key hash req owner ttl now) = op"
  "cmd_key (new_command c a op key hash req owner ttl now) = key"
  "cmd_hash (new_command c a op key hash req owner ttl now) = hash"
  "cmd_request (new_command c a op key hash req owner ttl now) = durable_json req"
  "cmd_owner (new_command c a op key hash req owner ttl now) = Some owner"
  "cmd_epoch (new_command c a op key hash req owner ttl now) = 1"
  "cmd_lease (new_command c a op key hash req owner ttl now) = Some (instant now + ttl)"
  "cmd_created (new_command c a op key hash req owner ttl now) = now"
  "cmd_completed (new_command c a op key hash req owner ttl now) = None"
  by (simp_all add: new_command_def)

lemma put_command_fields [simp]:
  "commands (put_command c r s) = dict_set c r (commands s)"
  "approvals (put_command c r s) = approvals s"
  "approval_id_by_command (put_command c r s) = approval_id_by_command s"
  by (simp_all add: put_command_def)

lemma fenced_Inr:
  "fenced s k = Inr r \<longleftrightarrow> dict_get (commands s) (claim_id k) = Some r \<and> actor_id (cmd_actor r) = claim_actor k
     \<and> cmd_operation r = claim_operation k \<and> cmd_state r = Prepared \<and> cmd_owner r = Some (claim_owner k)
     \<and> cmd_epoch r = claim_epoch k"
  by (auto simp: fenced_def split: option.splits if_splits)

lemma key_valid_self: "validate_idempotency_key key = Inr v \<Longrightarrow> v = key"
  by (auto simp: validate_idempotency_key_def split: if_splits)


subsection \<open>What each operation does\<close>

lemma claim_command_effect:
  assumes "claim_command sha a operation key hash request owner ttl now s = Inr (res, t)"
  obtains (kept) "t = s" "result_status res \<noteq> Claimed"
    | (granted) c r' where "c = command_id_for sha (actor_id a) operation key" "result_status res = Claimed"
        "row_change sha c (dict_get (commands s) c) r'" "t = put_command c r' s"
        "result_claim res = Some (claim_on c a operation owner (cmd_epoch r') (instant now + ttl))" "result_record res = Some r'"
        "cmd_owner r' = Some owner" "actor_id (cmd_actor r') = actor_id a" "cmd_operation r' = operation" "cmd_key r' = key" "cmd_state r' = Prepared"
        "\<forall>r. dict_get (commands s) c = Some r \<longrightarrow> cmd_epoch r < cmd_epoch r'"
proof (cases "dict_get (commands s) (command_id_for sha (actor_id a) operation key)")
  case None
  with assms have v: "validate_idempotency_key key = Inr key" "hash = command_request_hash sha request"
    by (auto simp: claim_command_def rbind_eq_Inr Let_def dest: key_valid_self split: if_splits)
  show ?thesis
    using assms None
    by (intro granted [OF refl _ _, of "new_command (command_id_for sha (actor_id a) operation key) a operation key hash request owner ttl now"])
      (auto simp: claim_command_def rbind_eq_Inr Let_def v(1) split: if_splits intro: row_change.created [OF v(1) refl refl])
next
  case (Some r)
  have e: "claim_existing (command_id_for sha (actor_id a) operation key) r a operation key hash request owner ttl now s = Inr (res, t)"
    using assms Some by (auto simp: claim_command_def rbind_eq_Inr Let_def split: if_splits)
  show ?thesis
  proof (cases "other_request r a operation key hash request \<or> concluded r
      \<or> (case cmd_lease r of Some x \<Rightarrow> x > instant now | None \<Rightarrow> False)")
    case True
    then show ?thesis using e by (intro kept) (auto simp: claim_existing_def rbind_eq_Inr split: if_splits)
  next
    case False
    then have o: "\<not> other_request r a operation key hash request" "\<not> concluded r" "lease_over r now"
      by (auto simp: lease_over_def split: option.splits)
    show ?thesis
      using e False Some
      by (intro granted [OF refl _ _, of "r\<lparr>cmd_owner := Some owner, cmd_epoch := cmd_epoch r + 1,
            cmd_lease := Some (instant now + ttl), cmd_updated := now\<rparr>"])
        (auto simp: claim_existing_def rbind_eq_Inr Let_def other_request_def not_concluded intro: row_change.reclaimed [OF o(2,3), simplified])
  qed
qed

lemma plan_effect:
  assumes "store_command_plan k p now s = Inr t"
  obtains (kept) r where "t = s" "fenced s k = Inr r" "cmd_plan r \<noteq> JNull" "canonical_json (cmd_plan r) = canonical_json p"
    | (stored) r r' where "fenced s k = Inr r" "row_change sha (claim_id k) (Some r) r'" "t = put_command (claim_id k) r' s"
        "cmd_state r' = Prepared" "cmd_plan r' = durable_json p" "r' = r\<lparr>cmd_plan := durable_json p, cmd_updated := now\<rparr>"
proof -
  obtain r where f: "fenced s k = Inr r" and n: "p \<noteq> JNull"
    using assms by (auto simp: store_command_plan_def rbind_eq_Inr split: if_splits)
  have nc: "\<not> concluded r" using f by (simp add: fenced_Inr)
  show ?thesis
  proof (cases "cmd_plan r = JNull")
    case True
    let ?r = "r\<lparr>cmd_plan := durable_json p, cmd_updated := now\<rparr>"
    obtain q where q: "validated_new_resume_command_plan ?r = Inr q" "validated_new_domain_command_plan ?r = Inr ()"
      and t: "t = put_command (claim_id k) ?r s"
      using assms True f n by (auto simp: store_command_plan_def rbind_eq_Inr Let_def)
    show ?thesis
      using f by (intro stored [OF f row_change.planned [OF nc True n refl q] t]) (simp_all add: fenced_Inr)
  next
    case False
    then show ?thesis using assms f n by (intro kept [OF _ f]) (auto simp: store_command_plan_def split: if_splits)
  qed
qed

lemma terminal_effect:
  assumes "terminal k resp st now s = Inr (r', t)" "st \<noteq> Prepared"
  obtains (kept) "t = s" "dict_get (commands s) (claim_id k) = Some r'" "concluded r'" "cmd_state r' = st"
        "canonical_json (cmd_response r') = canonical_json resp"
    | (stored) r where "fenced s k = Inr r" "row_change sha (claim_id k) (Some r) r'" "t = put_command (claim_id k) r' s"
        "cmd_state r' = st" "cmd_response r' = durable_json resp" "st = RejectedCommand \<longrightarrow> dict_get (approval_id_by_command s) (claim_id k) = None"
proof -
  have st: "st = CommittedCommand \<or> st = RejectedCommand" using assms(2) by (cases st) auto
  obtain r where r: "dict_get (commands s) (claim_id k) = Some r"
    and g: "\<not> (st = RejectedCommand \<and> dict_get (approval_id_by_command s) (claim_id k) \<noteq> None)" and n: "resp \<noteq> JNull"
    using assms(1) unfolding terminal_def by (auto split: if_splits option.splits)
  show ?thesis
  proof (cases "concluded r")
    case True
    then show ?thesis using assms(1) r g n by (intro kept) (auto simp: terminal_def rbind_eq_Inr split: if_splits)
  next
    case False
    then have f: "fenced s k = Inr r" using assms(1) r g n
      by (auto simp: terminal_def rbind_eq_Inr fenced_Inr split: if_splits)
    with False have p: "cmd_plan r \<noteq> JNull" using assms(1) r g n by (auto simp: terminal_def split: if_splits)
    show ?thesis
      using assms(1) r g n False f p st
      by (intro stored [OF f]) (auto simp: terminal_def rbind_eq_Inr Let_def intro!: row_change.concludes split: if_splits)
  qed
qed

lemma store_approval_effect:
  assumes "store_approval sha k a s = Inr (b, t)"
  obtains (kept) "t = s" "dict_get (approvals s) (appr_id a) = Some (claim_id k, a)"
    | (stored) r where "fenced s k = Inr r" "validated_standalone_command_approval sha r a = Inr a"
        "dict_get (approvals s) (appr_id a) = None" "dict_get (approval_id_by_command s) (claim_id k) = None"
        "t = s\<lparr>approvals := dict_set (appr_id a) (claim_id k, a) (approvals s),
               approval_id_by_command := dict_set (claim_id k) (appr_id a) (approval_id_by_command s)\<rparr>"
proof -
  have v: "x = a" if "validated_standalone_command_approval sha r a = Inr x" for r x
    using that unfolding validated_standalone_command_approval_def
    by (cases "validated_command_approval_plan sha r a") (auto split: approval_plan.splits)
  show ?thesis
    using assms kept stored v unfolding store_approval_def approval_fenced_def
    by (auto simp: rbind_eq_Inr split: option.splits if_splits)
qed
lemma ledger_step_effect:
  assumes "ledger_step sha s t"
  obtains (kept) "t = s"
    | (row) c r' where "row_change sha c (dict_get (commands s) c) r'" "t = put_command c r' s"
        "cmd_state r' = RejectedCommand \<longrightarrow> dict_get (approval_id_by_command s) c = None"
    | (approved) k a r where "fenced s k = Inr r" "validated_standalone_command_approval sha r a = Inr a"
        "dict_get (approvals s) (appr_id a) = None" "dict_get (approval_id_by_command s) (claim_id k) = None"
        "t = s\<lparr>approvals := dict_set (appr_id a) (claim_id k, a) (approvals s),
               approval_id_by_command := dict_set (claim_id k) (appr_id a) (approval_id_by_command s)\<rparr>"
proof -
  have fenced_row: thesis
    if "fenced s k = Inr r" "row_change sha (claim_id k) (Some r) r'" "t = put_command (claim_id k) r' s"
      "cmd_state r' = RejectedCommand \<longrightarrow> dict_get (approval_id_by_command s) (claim_id k) = None" for k r r'
    using row [of "claim_id k" r'] that by (simp add: fenced_Inr)
  show ?thesis
    using assms
  proof (cases rule: ledger_step.cases)
    case (claim a operation key hash request owner ttl now res)
    then show ?thesis by (cases rule: claim_command_effect) (auto intro: kept row)
  next
    case (plan k p now)
    then show ?thesis
    proof (cases rule: plan_effect [where sha = sha])
      case (stored r r')
      then show ?thesis by (intro fenced_row [OF stored(1-3)]) simp
    qed (rule kept)
  next
    case (complete k resp now r)
    then have "terminal k resp CommittedCommand now s = Inr (r, t)" "CommittedCommand \<noteq> Prepared" by (simp_all add: complete_command_def)
    then show ?thesis by (cases rule: terminal_effect [where sha = sha]) (auto intro: kept fenced_row)
  next
    case (reject k resp now r)
    then have "terminal k resp RejectedCommand now s = Inr (r, t)" "RejectedCommand \<noteq> Prepared" by (simp_all add: reject_command_def)
    then show ?thesis by (cases rule: terminal_effect [where sha = sha]) (auto intro: kept fenced_row)
  next
    case (approve k a b)
    then show ?thesis by (cases rule: store_approval_effect) (auto intro: kept approved)
  qed
qed

section \<open>What outlives a step\<close>

definition advances :: "command_record \<Rightarrow> command_record \<Rightarrow> bool" where
  "advances r r' \<longleftrightarrow> cmd_id r' = cmd_id r \<and> cmd_actor r' = cmd_actor r \<and> cmd_operation r' = cmd_operation r \<and> cmd_key r' = cmd_key r
     \<and> cmd_hash r' = cmd_hash r \<and> cmd_request r' = cmd_request r \<and> cmd_created r' = cmd_created r \<and> cmd_epoch r \<le> cmd_epoch r'
     \<and> (cmd_plan r \<noteq> JNull \<longrightarrow> cmd_plan r' = cmd_plan r) \<and> (concluded r \<longrightarrow> r' = r)"

lemma advances_refl [simp]: "advances r r"
  by (simp add: advances_def)

lemma advances_trans: "advances r r' \<Longrightarrow> advances r' r'' \<Longrightarrow> advances r r''"
  by (auto simp: advances_def)

lemma row_change_advances: "row_change sha c (Some r) r' \<Longrightarrow> advances r r'"
  by (cases rule: row_change.cases) (auto simp: advances_def)

lemma step_advances:
  assumes "ledger_step sha s t" "dict_get (commands s) c = Some r"
  obtains r' where "dict_get (commands t) c = Some r'" "advances r r'"
  using assms(1)
proof (cases rule: ledger_step_effect)
  case (row c' r')
  then show ?thesis
    using assms(2) row_change_advances that by (cases "c = c'") auto
qed (use assms(2) that in auto)

lemma trace_advances:
  assumes "ledger_trace sha s t" "dict_get (commands s) c = Some r"
  shows "\<exists>r'. dict_get (commands t) c = Some r' \<and> advances r r'"
  using assms
proof (induction rule: rtranclp_induct)
  case base
  then show ?case by auto
next
  case (step t u)
  then obtain r' where "dict_get (commands t) c = Some r'" "advances r r'" by blast
  then show ?case using step_advances [OF step.hyps(2)] advances_trans by metis
qed

section \<open>The invariant\<close>

definition record_ok :: "(nat list \<Rightarrow> string) \<Rightarrow> string \<Rightarrow> command_record \<Rightarrow> bool" where
  "record_ok sha c r \<longleftrightarrow> cmd_id r = c \<and> c = command_id_for sha (actor_id (cmd_actor r)) (cmd_operation r) (cmd_key r)
     \<and> validate_idempotency_key (cmd_key r) = Inr (cmd_key r) \<and> cmd_hash r = command_request_hash sha (cmd_request r) \<and> 1 \<le> cmd_epoch r
     \<and> (if concluded r then cmd_plan r \<noteq> JNull \<and> cmd_response r \<noteq> JNull \<and> cmd_owner r = None \<and> cmd_lease r = None \<and> cmd_completed r \<noteq> None
        else cmd_response r = JNull \<and> cmd_owner r \<noteq> None \<and> cmd_lease r \<noteq> None \<and> cmd_completed r = None)
     \<and> resume_plan_requires_historical_evidence r = Inr False \<and> domain_plan_requires_historical_evidence r = Inr False"

definition approvals_ok :: "(nat list \<Rightarrow> string) \<Rightarrow> control_store \<Rightarrow> bool" where
  "approvals_ok sha s \<longleftrightarrow>
     (\<forall>i c a. dict_get (approvals s) i = Some (c, a) \<longrightarrow> appr_id a = i \<and> dict_get (approval_id_by_command s) c = Some i
        \<and> (\<exists>r. dict_get (commands s) c = Some r \<and> validated_standalone_command_approval sha r a = Inr a))
     \<and> (\<forall>c i. dict_get (approval_id_by_command s) c = Some i \<longrightarrow> (\<exists>a. dict_get (approvals s) i = Some (c, a)))"

definition ledger_ok :: "(nat list \<Rightarrow> string) \<Rightarrow> control_store \<Rightarrow> bool" where
  "ledger_ok sha s \<longleftrightarrow> distinct (dict_keys (commands s)) \<and> (\<forall>c r. dict_get (commands s) c = Some r \<longrightarrow> record_ok sha c r) \<and> approvals_ok sha s"

lemma resume_evidence_cong:
  assumes "cmd_operation r' = cmd_operation r" "cmd_plan r' = cmd_plan r" "cmd_request r' = cmd_request r"
  shows "resume_plan_requires_historical_evidence r' = resume_plan_requires_historical_evidence r"
  unfolding resume_plan_requires_historical_evidence_def resume_domain_plan_def validated_resume_command_plan_def assms ..

lemma domain_evidence_cong:
  assumes "cmd_operation r' = cmd_operation r" "cmd_plan r' = cmd_plan r"
  shows "domain_plan_requires_historical_evidence r' = domain_plan_requires_historical_evidence r"
  unfolding domain_plan_requires_historical_evidence_def assms ..

lemma no_plan_no_evidence:
  "cmd_plan r = JNull \<Longrightarrow> resume_plan_requires_historical_evidence r = Inr False"
  "cmd_plan r = JNull \<Longrightarrow> domain_plan_requires_historical_evidence r = Inr False"
  by (simp_all add: resume_plan_requires_historical_evidence_def domain_plan_requires_historical_evidence_def)

lemma new_plan_no_evidence:
  "validated_new_resume_command_plan r = Inr q \<Longrightarrow> resume_plan_requires_historical_evidence r = Inr False"
  "validated_new_domain_command_plan r = Inr u \<Longrightarrow> domain_plan_requires_historical_evidence r = Inr False"
  by (auto simp: validated_new_resume_command_plan_def validated_new_domain_command_plan_def rbind_eq_Inr split: if_splits)

lemma row_change_ok:
  assumes "row_change sha c old r'" "\<forall>r. old = Some r \<longrightarrow> record_ok sha c r"
  shows "record_ok sha c r'"
  using assms(1)
proof (cases rule: row_change.cases)
  case (created key hash request a operation owner ttl now)
  then show ?thesis by (simp add: record_ok_def no_plan_no_evidence)
next
  case (reclaimed r now owner t)
  then show ?thesis
    using assms(2) resume_evidence_cong [of r' r] domain_evidence_cong [of r' r] by (simp add: record_ok_def)
next
  case (planned r p now q)
  then show ?thesis using assms(2) new_plan_no_evidence [of r'] by (simp add: record_ok_def)
next
  case (concludes r resp st now)
  then show ?thesis
    using assms(2) resume_evidence_cong [of r' r] domain_evidence_cong [of r' r] by (auto simp: record_ok_def)
qed

lemma standalone_keeps:
  assumes "validated_standalone_command_approval sha r a = Inr a" "advances r r'" "cmd_state r' \<noteq> RejectedCommand"
  shows "validated_standalone_command_approval sha r' a = Inr a"
proof -
  obtain p where p: "validated_command_approval_plan sha r a = Inr p"
    using assms(1) by (auto simp: validated_standalone_command_approval_def rbind_eq_Inr)
  then have "cmd_plan r \<noteq> JNull"
    by (auto simp: validated_command_approval_plan_def approval_plan_for_def rbind_eq_Inr split: json.splits if_splits)
  then have same: "cmd_plan r' = cmd_plan r" "cmd_id r' = cmd_id r" "cmd_actor r' = cmd_actor r"
    "cmd_operation r' = cmd_operation r" "cmd_request r' = cmd_request r"
    using assms(2) by (simp_all add: advances_def)
  have "cmd_state r \<noteq> RejectedCommand"
    using assms(2,3) by (auto simp: advances_def concluded_def)
  then have st: "(cmd_state r' = RejectedCommand) = (cmd_state r = RejectedCommand)" using assms(3) by simp
  have "validated_command_approval_plan sha r' a = validated_command_approval_plan sha r a"
    unfolding validated_command_approval_plan_def approval_plan_for_def same st ..
  then show ?thesis using assms(1) by (simp add: validated_standalone_command_approval_def)
qed

lemma approvals_okD:
  assumes "approvals_ok sha s"
  shows "dict_get (approvals s) i = Some (c, a) \<Longrightarrow> appr_id a = i"
    and "dict_get (approvals s) i = Some (c, a) \<Longrightarrow> dict_get (approval_id_by_command s) c = Some i"
    and "dict_get (approvals s) i = Some (c, a) \<Longrightarrow>
      \<exists>r. dict_get (commands s) c = Some r \<and> validated_standalone_command_approval sha r a = Inr a"
    and "dict_get (approval_id_by_command s) c = Some i \<Longrightarrow> \<exists>a. dict_get (approvals s) i = Some (c, a)"
  using assms unfolding approvals_ok_def by blast+

lemma approvals_ok_row:
  assumes "approvals_ok sha s" "row_change sha c (dict_get (commands s) c) r'"
    and "cmd_state r' = RejectedCommand \<longrightarrow> dict_get (approval_id_by_command s) c = None"
  shows "approvals_ok sha (put_command c r' s)"
proof -
  have keep: "\<exists>r. dict_get (commands (put_command c r' s)) c' = Some r \<and> validated_standalone_command_approval sha r a = Inr a"
    if at: "dict_get (approvals s) i = Some (c', a)" for i c' a
  proof -
    obtain r where r: "dict_get (commands s) c' = Some r" "validated_standalone_command_approval sha r a = Inr a"
      and i: "dict_get (approval_id_by_command s) c' = Some i"
      using approvals_okD(2,3) [OF assms(1) at] by blast
    show ?thesis
    proof (cases "c' = c")
      case True
      then have "advances r r'" "cmd_state r' \<noteq> RejectedCommand"
        using assms(2,3) r(1) i row_change_advances by auto
      then show ?thesis using True standalone_keeps [OF r(2)] by simp
    qed (use r in simp)
  qed
  then show ?thesis using assms(1) unfolding approvals_ok_def put_command_fields(2,3) by blast
qed

lemma approvals_ok_approved:
  assumes "approvals_ok sha s" "fenced s k = Inr r" "validated_standalone_command_approval sha r a = Inr a"
    and "dict_get (approvals s) (appr_id a) = None" "dict_get (approval_id_by_command s) (claim_id k) = None"
  shows "approvals_ok sha (s\<lparr>approvals := dict_set (appr_id a) (claim_id k, a) (approvals s),
           approval_id_by_command := dict_set (claim_id k) (appr_id a) (approval_id_by_command s)\<rparr>)"
proof -
  let ?t = "s\<lparr>approvals := dict_set (appr_id a) (claim_id k, a) (approvals s),
           approval_id_by_command := dict_set (claim_id k) (appr_id a) (approval_id_by_command s)\<rparr>"
  have r: "dict_get (commands s) (claim_id k) = Some r" using assms(2) by (simp add: fenced_Inr)
  have "appr_id b = i \<and> dict_get (approval_id_by_command ?t) c = Some i
      \<and> (\<exists>r. dict_get (commands ?t) c = Some r \<and> validated_standalone_command_approval sha r b = Inr b)"
    if at: "dict_get (approvals ?t) i = Some (c, b)" for i c b
  proof (cases "i = appr_id a")
    case True
    then show ?thesis using at r assms(3) by simp
  next
    case False
    then have s: "dict_get (approvals s) i = Some (c, b)" using at by simp
    then have "c \<noteq> claim_id k" using approvals_okD(2) [OF assms(1) s] assms(5) by auto
    then show ?thesis using approvals_okD(1-3) [OF assms(1) s] by simp
  qed
  moreover have "\<exists>b. dict_get (approvals ?t) i = Some (c, b)" if "dict_get (approval_id_by_command ?t) c = Some i" for c i
    using that assms(4) approvals_okD(4) [OF assms(1), of c i] by (auto split: if_splits)
  ultimately show ?thesis unfolding approvals_ok_def by blast
qed

lemma ledger_step_ok:
  assumes "ledger_step sha s t" "ledger_ok sha s"
  shows "ledger_ok sha t"
  using assms(1)
proof (cases rule: ledger_step_effect)
  case (row c r')
  then have "record_ok sha c r'" using row_change_ok [OF row(1)] assms(2) by (simp add: ledger_ok_def)
  then show ?thesis using assms(2) row approvals_ok_row [OF _ row(1,3)] by (auto simp: ledger_ok_def distinct_update)
next
  case (approved k a r)
  then show ?thesis using approvals_ok_approved [OF _ approved(1-4)] assms(2) by (simp add: ledger_ok_def)
qed (use assms(2) in simp)

definition reachable_store :: "(nat list \<Rightarrow> string) \<Rightarrow> control_store \<Rightarrow> bool" where
  "reachable_store sha s \<longleftrightarrow> ledger_trace sha empty_store s"

lemma empty_store_ok: "ledger_ok sha empty_store"
  by (simp add: ledger_ok_def approvals_ok_def empty_store_def)

lemma trace_ok: "ledger_trace sha s t \<Longrightarrow> ledger_ok sha s \<Longrightarrow> ledger_ok sha t"
  by (induction rule: rtranclp_induct) (auto intro: ledger_step_ok)

lemma ledger_reachable_ok: "reachable_store sha s \<Longrightarrow> ledger_ok sha s"
  using trace_ok empty_store_ok unfolding reachable_store_def by blast

lemma reachable_empty: "reachable_store sha empty_store"
  by (simp add: reachable_store_def)

lemma reachable_step: "reachable_store sha s \<Longrightarrow> ledger_step sha s t \<Longrightarrow> reachable_store sha t"
  unfolding reachable_store_def by (rule rtranclp.rtrancl_into_rtrancl)

lemma reachable_trace: "reachable_store sha s \<Longrightarrow> ledger_trace sha s t \<Longrightarrow> reachable_store sha t"
  unfolding reachable_store_def by (rule rtranclp_trans)

lemma reachable_record:
  assumes "reachable_store sha s" "dict_get (commands s) c = Some r"
  shows "record_ok sha c r"
  using ledger_reachable_ok [OF assms(1)] assms(2) by (simp add: ledger_ok_def)

section \<open>A command is answered once\<close>

text \<open>A second claim of a concluded command under its own key: the same request is replayed, any other conflicts.\<close>

lemma claim_concluded:
  assumes "record_ok sha c r" "dict_get (commands s) c = Some r" "concluded r"
    and "actor_id a = actor_id (cmd_actor r)"
  shows "claim_command sha a (cmd_operation r) (cmd_key r) (command_request_hash sha request) request owner ttl now s =
    Inr (\<lparr>result_status = if canonical_json request = canonical_json (cmd_request r) then Replayed else ConflictingClaim,
          result_claim = None, result_record = Some r\<rparr>, s)"
proof -
  have k: "validate_idempotency_key (cmd_key r) = Inr (cmd_key r)" "dict_get (commands s) (command_id_for sha (actor_id a) (cmd_operation r) (cmd_key r)) = Some r"
    and p: "cmd_plan r \<noteq> JNull"
    using assms by (auto simp: record_ok_def)
  have h: "cmd_hash r = command_request_hash sha request" if "canonical_json request = canonical_json (cmd_request r)"
    using assms(1) that by (simp add: record_ok_def command_request_hash_def digest_of_def material_def)
  show ?thesis
  proof (cases "canonical_json request = canonical_json (cmd_request r)")
    case True
    then have "\<not> other_request r a (cmd_operation r) (cmd_key r) (command_request_hash sha request) request"
      using h assms(4) by (simp add: other_request_def)
    then show ?thesis using True k p assms(3) by (simp add: claim_command_def claim_existing_def detached_command_def Let_def)
  next
    case False
    then have "other_request r a (cmd_operation r) (cmd_key r) (command_request_hash sha request) request"
      by (auto simp: other_request_def)
    then show ?thesis using False k p by (simp add: claim_command_def claim_existing_def detached_command_def Let_def)
  qed
qed

lemma concluded_stays:
  assumes "ledger_trace sha s t" "dict_get (commands s) c = Some r" "concluded r"
  shows "dict_get (commands t) c = Some r"
  using trace_advances [OF assms(1,2)] assms(3) by (auto simp: advances_def)

lemma terminal_concludes:
  assumes "terminal k resp st now s = Inr (r, t)" "st \<noteq> Prepared"
  shows "dict_get (commands t) (claim_id k) = Some r \<and> concluded r \<and> cmd_state r = st
    \<and> canonical_json (cmd_response r) = canonical_json resp"
  using assms
proof (cases rule: terminal_effect [where sha = "\<lambda>_. []"])
  case (stored r')
  then have "concluded r" using not_concluded [of r] assms(2) by auto
  then show ?thesis using stored by simp
qed simp

text \<open>
  C16. A command is answered once. When an owner concludes a command, with a committed or a rejected response,
  then after any further sequence of claims, plans, responses and approvals by anyone, the same actor
  claiming the same operation, key and request is not handed the command again: it is replayed the record that was
  concluded, with the response that was stored, and the ledger does not change.
\<close>

theorem concluded_command_is_replayed:
  assumes "reachable_store sha s"
    and "complete_command k resp now s = Inr (r, t) \<or> reject_command k resp now s = Inr (r, t)"
    and "ledger_trace sha t u"
    and "actor_id a = actor_id (cmd_actor r)" "canonical_json request = canonical_json (cmd_request r)"
  shows "claim_command sha a (cmd_operation r) (cmd_key r) (command_request_hash sha request) request owner ttl now' u
      = Inr (\<lparr>result_status = Replayed, result_claim = None, result_record = Some r\<rparr>, u)
    \<and> canonical_json (cmd_response r) = canonical_json resp"
proof -
  have r: "dict_get (commands t) (claim_id k) = Some r" "concluded r" "canonical_json (cmd_response r) = canonical_json resp"
    using assms(2) terminal_concludes unfolding complete_command_def reject_command_def by blast+
  have "ledger_step sha s t" using assms(2) ledger_step.complete ledger_step.reject by blast
  then have ok: "record_ok sha (claim_id k) r"
    using reachable_record [OF reachable_step [OF assms(1)] r(1)] by blast
  show ?thesis
    using claim_concluded [OF ok concluded_stays [OF assms(3) r(1,2)] r(2) assms(4)] assms(5) r(3) by simp
qed


lemma granted_epoch:
  assumes "claim_command sha a operation key hash request owner ttl now s = Inr (res, t)" "result_claim res = Some k"
  obtains r where "dict_get (commands t) (claim_id k) = Some r" "cmd_epoch r = claim_epoch k"
    "\<forall>r0. dict_get (commands s) (claim_id k) = Some r0 \<longrightarrow> cmd_epoch r0 < claim_epoch k"
  using assms(1)
proof (cases rule: claim_command_effect)
  case kept
  have "result_claim res = None \<or> result_status res = Claimed"
    using assms(1) by (auto simp: claim_command_def claim_existing_def rbind_eq_Inr Let_def split: if_splits option.splits)
  then show ?thesis using kept assms(2) by simp
next
  case (granted c r')
  then show ?thesis using assms(2) by (intro that [of r']) (auto simp: claim_on_def)
qed

lemma stale_fenced:
  assumes "dict_get (commands s) (claim_id k) = Some r" "claim_epoch k < cmd_epoch r"
  shows "isl (fenced s k)"
  using assms by (simp add: fenced_def)

lemma stale_terminal:
  assumes "isl (fenced s k)" "terminal k resp st now s = Inr (r, t)" "st \<noteq> Prepared"
  shows "t = s"
  using assms(2,3) by (cases rule: terminal_effect [where sha = "\<lambda>_. []"]) (use assms(1) in auto)

text \<open>
  C17. A superseded claim is fenced. When a second claim of a command has been granted after a first, the second
  carries a larger epoch, and from then on, whatever else happens, the holder of the first can change nothing: it can store no
  plan and no approval, and a response it submits is refused or is the one the ledger already holds.
\<close>

theorem superseded_claim_is_fenced:
  assumes "claim_command sha a operation key hash request owner ttl now s = Inr (res, t)" "result_claim res = Some k"
    and "ledger_trace sha t t'"
    and "claim_command sha a' operation' key' hash' request' owner' ttl' now' t' = Inr (res', u)" "result_claim res' = Some k'"
    and "claim_id k' = claim_id k" "ledger_trace sha u v"
  shows "claim_epoch k < claim_epoch k'
    \<and> isl (store_command_plan k p now\<^sub>1 v) \<and> isl (store_approval sha k appr v)
    \<and> complete_command k resp now\<^sub>1 v \<in> {Inr (r, v) | r. dict_get (commands v) (claim_id k) = Some r} \<union> range Inl
    \<and> reject_command k resp now\<^sub>1 v \<in> {Inr (r, v) | r. dict_get (commands v) (claim_id k) = Some r} \<union> range Inl"
proof -
  obtain r0 where r0: "dict_get (commands t) (claim_id k) = Some r0" "cmd_epoch r0 = claim_epoch k"
    using granted_epoch [OF assms(1,2)] by blast
  obtain r1 where r1: "dict_get (commands t') (claim_id k) = Some r1" "claim_epoch k \<le> cmd_epoch r1"
    using trace_advances [OF assms(3) r0(1)] r0(2) by (auto simp: advances_def)
  obtain r2 where r2: "dict_get (commands u) (claim_id k) = Some r2" "cmd_epoch r2 = claim_epoch k'" "cmd_epoch r1 < claim_epoch k'"
    using granted_epoch [OF assms(4,5)] r1(1) assms(6) by metis
  obtain r3 where r3: "dict_get (commands v) (claim_id k) = Some r3" "claim_epoch k' \<le> cmd_epoch r3"
    using trace_advances [OF assms(7) r2(1)] r2(2) by (auto simp: advances_def)
  have f: "isl (fenced v k)" using stale_fenced [OF r3(1)] r3(2) r2(3) r1(2) by simp
  then obtain e where e: "fenced v k = Inl e" by (cases "fenced v k") auto
  have "terminal k resp st now\<^sub>1 v \<in> {Inr (r, v) | r. dict_get (commands v) (claim_id k) = Some r} \<union> range Inl" if "st \<noteq> Prepared" for st
  proof (cases "terminal k resp st now\<^sub>1 v")
    case (Inr rt)
    then show ?thesis
      using stale_terminal [OF f, of resp st now\<^sub>1] terminal_concludes [of k resp st now\<^sub>1 v] that by (cases rt) auto
  qed simp
  then show ?thesis
    using e r1(2) r2(3) by (simp add: store_command_plan_def store_approval_def approval_fenced_def complete_command_def reject_command_def)
qed

section \<open>Approvals are their command's decision\<close>

lemma standalone_facts:
  assumes "validated_standalone_command_approval sha r a = Inr a"
  shows "cmd_operation r = ''runs_approve''" "cmd_actor r = appr_actor a" "cmd_state r \<noteq> RejectedCommand"
    "appr_id a = approval_id_for_command sha (cmd_id r) (subject_json (appr_subject a))"
    "\<exists>q. cmd_request r = JObj q \<and> get_key ''decision'' q = decision_json (appr_decision a) \<and> get_key ''run_id'' q = jstr (appr_run a)
       \<and> canonical_json (get_key ''subject'' q) = canonical_json (subject_json (appr_subject a))"
    "validated_command_approval sha r a = Inr a"
  using assms
  unfolding validated_standalone_command_approval_def validated_command_approval_plan_def validated_approval_identity_def validated_command_approval_def
  by (auto simp: rbind_eq_Inr simp del: list.set split: if_splits json.splits)

text \<open>
  C19. An approval is the decision of its command. In every store the operations can reach, looking up the approval
  of a command succeeds; the approval found was decided by the actor the command authenticated, its run and decision are the
  ones the command's request names, its subject is the request's (they have the same canonical JSON), its identity is the one
  that command mints for that subject, and the command was not rejected.
\<close>

theorem approval_is_its_commands_decision:
  assumes "reachable_store sha s"
  shows "\<exists>found. approval_for_command sha s c = Inr found
    \<and> (case found of None \<Rightarrow> dict_get (approval_id_by_command s) c = None
       | Some a \<Rightarrow> \<exists>r q. dict_get (commands s) c = Some r \<and> cmd_operation r = ''runs_approve'' \<and> cmd_state r \<noteq> RejectedCommand
           \<and> cmd_actor r = appr_actor a \<and> appr_id a = approval_id_for_command sha c (subject_json (appr_subject a))
           \<and> cmd_request r = JObj q \<and> get_key ''decision'' q = decision_json (appr_decision a)
           \<and> get_key ''run_id'' q = jstr (appr_run a)
           \<and> canonical_json (get_key ''subject'' q) = canonical_json (subject_json (appr_subject a)))"
proof (cases "dict_get (approval_id_by_command s) c")
  case None
  then show ?thesis by (simp add: approval_for_command_def)
next
  case (Some i)
  have ok: "approvals_ok sha s" using ledger_reachable_ok [OF assms] by (simp add: ledger_ok_def)
  obtain a where a: "dict_get (approvals s) i = Some (c, a)" using approvals_okD(4) [OF ok Some] by blast
  obtain r where r: "dict_get (commands s) c = Some r" "validated_standalone_command_approval sha r a = Inr a"
    using approvals_okD(3) [OF ok a] by blast
  note facts = standalone_facts [OF r(2)]
  have "cmd_id r = c" using reachable_record [OF assms r(1)] by (simp add: record_ok_def)
  then show ?thesis
    using Some a r(1) facts by (auto simp: approval_for_command_def project_approval_def)
qed

section \<open>No plan of a past era\<close>

text \<open>
  The ledger never needs a migration's witness. In every store the operations can reach, no stored plan, of a resume, a promotion, a rollback or a cancellation, has a
  shape that only a plan from before the present laws may have: both classifiers answer, and answer no. This is what lets the store's two readers of historical evidence always find none.
\<close>

theorem no_plan_needs_historical_evidence:
  assumes "reachable_store sha s" "dict_get (commands s) c = Some r"
  shows "resume_plan_requires_historical_evidence r = Inr False \<and> domain_plan_requires_historical_evidence r = Inr False"
  using reachable_record [OF assms] by (simp add: record_ok_def)

section \<open>No command is stranded\<close>

text \<open>
  C18. No command is stranded. A prepared command whose lease has run out is granted to whoever repeats the request, whatever
  the previous owner did; the new owner finds the plan that was stored, and when there is one its
  response concludes the command.
\<close>

theorem abandoned_command_can_be_concluded:
  assumes "reachable_store sha s" "dict_get (commands s) c = Some r" "cmd_state r = Prepared"
    and "lease_over r now" "actor_id a = actor_id (cmd_actor r)" "canonical_json request = canonical_json (cmd_request r)"
  shows "\<exists>res k t r'. claim_command sha a (cmd_operation r) (cmd_key r) (command_request_hash sha request) request owner ttl now s = Inr (res, t)
    \<and> result_claim res = Some k \<and> claim_epoch k = cmd_epoch r + 1 \<and> result_record res = Some r' \<and> cmd_plan r' = cmd_plan r
    \<and> (cmd_plan r = JNull \<or> resp = JNull
       \<or> (\<exists>d u. complete_command k resp now' t = Inr (d, u) \<and> cmd_state d = CommittedCommand \<and> cmd_response d = durable_json resp
            \<and> dict_get (commands u) c = Some d))"
proof -
  note ok = reachable_record [OF assms(1,2)]
  have c: "command_id_for sha (actor_id a) (cmd_operation r) (cmd_key r) = c" "validate_idempotency_key (cmd_key r) = Inr (cmd_key r)"
    using ok assms(5) by (simp_all add: record_ok_def)
  have same: "\<not> other_request r a (cmd_operation r) (cmd_key r) (command_request_hash sha request) request"
    using ok assms(5,6) by (simp add: other_request_def record_ok_def command_request_hash_def digest_of_def material_def)
  have over: "\<not> (case cmd_lease r of Some t \<Rightarrow> t > instant now | None \<Rightarrow> False)"
    using assms(4) by (auto simp: lease_over_def split: option.splits)
  let ?r = "r\<lparr>cmd_owner := Some owner, cmd_epoch := cmd_epoch r + 1, cmd_lease := Some (instant now + ttl), cmd_updated := now\<rparr>"
  let ?k = "claim_on c a (cmd_operation r) owner (cmd_epoch r + 1) (instant now + ttl)"
  let ?d = "?r\<lparr>cmd_state := CommittedCommand, cmd_response := durable_json resp, cmd_owner := None, cmd_lease := None,
               cmd_updated := now', cmd_completed := Some now'\<rparr>"
  have granted: "claim_command sha a (cmd_operation r) (cmd_key r) (command_request_hash sha request) request owner ttl now s =
      Inr (\<lparr>result_status = Claimed, result_claim = Some ?k, result_record = Some ?r\<rparr>, put_command c ?r s)"
    using c assms(2,3) same over by (simp add: claim_command_def claim_existing_def Let_def detached_command_def)
  have concludes: "cmd_plan r = JNull \<or> resp = JNull \<or> (\<exists>d u. complete_command ?k resp now' (put_command c ?r s) = Inr (d, u)
      \<and> cmd_state d = CommittedCommand \<and> cmd_response d = durable_json resp \<and> dict_get (commands u) c = Some d)"
  proof (cases "cmd_plan r = JNull \<or> resp = JNull")
    case False
    then have "complete_command ?k resp now' (put_command c ?r s) = Inr (?d, put_command c ?d (put_command c ?r s))"
      using assms(3,5) by (simp add: complete_command_def terminal_def fenced_def claim_on_def detached_command_def Let_def)
    then show ?thesis by (intro disjI2 exI conjI) (assumption, simp_all)
  qed blast
  show ?thesis
    by (rule exI [of _ "\<lparr>result_status = Claimed, result_claim = Some ?k, result_record = Some ?r\<rparr>"], rule exI [of _ ?k],
        rule exI [of _ "put_command c ?r s"], rule exI [of _ ?r], intro conjI granted concludes) (simp_all add: claim_on_def)
qed

section \<open>One row, one command\<close>

text \<open>
  C20. One row, one command. When the actor, operation and key of a claim address a row of the ledger, they are the
  row's own, or the two identities are an explicit collision of SHA-256; and then the claim is refused as a
  conflict and the row is untouched.
\<close>

theorem row_belongs_to_its_claim:
  assumes "reachable_store sha s" "dict_get (commands s) (command_id_for sha (actor_id a) operation key) = Some r"
    and "validate_idempotency_key key = Inr key"
  shows "(actor_id (cmd_actor r) = actor_id a \<and> cmd_operation r = operation \<and> cmd_key r = key)
    \<or> (collision sha
         (material ''control-command'' 1 (jobj [(''actor_id'', jstr (actor_id a)), (''operation'', jstr operation), (''idempotency_key'', jstr key)]))
         (material ''control-command'' 1 (jobj [(''actor_id'', jstr (actor_id (cmd_actor r))), (''operation'', jstr (cmd_operation r)),
            (''idempotency_key'', jstr (cmd_key r))]))
       \<and> claim_command sha a operation key (command_request_hash sha request) request owner ttl now s
           = Inr (\<lparr>result_status = ConflictingClaim, result_claim = None, result_record = Some r\<rparr>, s))"
proof (cases "actor_id (cmd_actor r) = actor_id a \<and> cmd_operation r = operation \<and> cmd_key r = key")
  case False
  let ?p = "\<lambda>x y z. jobj [(''actor_id'', jstr x), (''operation'', jstr y), (''idempotency_key'', jstr z)]"
  note ok = reachable_record [OF assms(1,2)]
  have w: "wire (?p x y z)" for x y z by (simp add: jobj_def ustr_of_def)
  have n: "nul_free ''control-command''" by (simp add: nul_free_def)
  have "digest_of sha ''control-command'' 1 (?p (actor_id a) operation key)
      = digest_of sha ''control-command'' 1 (?p (actor_id (cmd_actor r)) (cmd_operation r) (cmd_key r))"
    using ok by (simp add: record_ok_def command_id_for_def digest_of_def)
  from digest_of_inj [OF this n n w w] have "collision sha (material ''control-command'' 1 (?p (actor_id a) operation key))
      (material ''control-command'' 1 (?p (actor_id (cmd_actor r)) (cmd_operation r) (cmd_key r)))"
    using False by (subst (asm) jobj_norm_eq) (auto simp: ustr_of_inj)
  moreover have "other_request r a operation key (command_request_hash sha request) request" using False by (auto simp: other_request_def)
  moreover have "detached_command r = Inr r" using ok by (auto simp: record_ok_def split: if_splits)
  ultimately show ?thesis using assms(2,3) by (auto simp: claim_command_def claim_existing_def Let_def detached_command_def)
qed simp

section \<open>Sample ledgers\<close>

text \<open>A command that is claimed, planned and concluded, under a hash that collides on every input.\<close>

definition sample_sha :: "nat list \<Rightarrow> string" where
  "sample_sha bytes = ''x''"

definition sample_now :: "int \<Rightarrow> stamp" where
  "sample_now t = \<lparr>instant = t, iso = ''t''\<rparr>"

definition sample_claim :: "string \<Rightarrow> json \<Rightarrow> string \<Rightarrow> string \<Rightarrow> int \<Rightarrow> control_store \<Rightarrow> exc + (claim_result \<times> control_store)" where
  "sample_claim operation request key owner t s =
     claim_command sample_sha sample_actor operation key (command_request_hash sample_sha request) request owner 10 (sample_now t) s"

definition sample_claimed :: "string \<Rightarrow> json \<Rightarrow> command_claim \<times> control_store" where
  "sample_claimed operation request = (case projr (sample_claim operation request ''key'' ''w1'' 0 empty_store) of (res, s) \<Rightarrow> (the (result_claim res), s))"

definition sample_planned :: "string \<Rightarrow> json \<Rightarrow> json \<Rightarrow> control_store" where
  "sample_planned operation request plan =
     projr (store_command_plan (fst (sample_claimed operation request)) plan (sample_now 1) (snd (sample_claimed operation request)))"

definition sample_done :: "string \<Rightarrow> json \<Rightarrow> json \<Rightarrow> json \<Rightarrow> command_record \<times> control_store" where
  "sample_done operation request plan resp =
     projr (complete_command (fst (sample_claimed operation request)) resp (sample_now 2) (sample_planned operation request plan))"

lemma sample_claim_granted:
  "\<exists>res. sample_claim operation request ''key'' ''w1'' 0 empty_store = Inr (res, snd (sample_claimed operation request))
     \<and> result_claim res = Some (fst (sample_claimed operation request))"
proof -
  have v: "validate_idempotency_key ''key'' = Inr ''key''" by code_simp
  show ?thesis
    by (simp add: sample_claimed_def sample_claim_def claim_command_def v empty_store_def Let_def detached_command_def)
qed

lemma sample_claimed_reachable: "reachable_store sample_sha (snd (sample_claimed operation request))"
  using sample_claim_granted [of operation request] unfolding sample_claim_def
  by (auto intro: reachable_step [OF reachable_empty] ledger_step.claim)

lemma sample_planned_reachable:
  assumes "\<not> isl (store_command_plan (fst (sample_claimed operation request)) plan (sample_now 1) (snd (sample_claimed operation request)))"
  shows "reachable_store sample_sha (sample_planned operation request plan)"
  unfolding sample_planned_def
  by (rule reachable_step [OF sample_claimed_reachable ledger_step.plan]) (rule sum.collapse(2) [OF assms, symmetric])

lemma sample_done_complete:
  assumes "\<not> isl (complete_command (fst (sample_claimed operation request)) resp (sample_now 2) (sample_planned operation request plan))"
  shows "complete_command (fst (sample_claimed operation request)) resp (sample_now 2) (sample_planned operation request plan)
    = Inr (fst (sample_done operation request plan resp), snd (sample_done operation request plan resp))"
  using sum.collapse(2) [OF assms] by (simp add: sample_done_def)

definition start_plan :: json where
  "start_plan = jobj [(''k'', JInt 1)]"

lemma sample_start_ok:
  "\<not> isl (store_command_plan (fst (sample_claimed ''runs_start'' JNull)) start_plan (sample_now 1) (snd (sample_claimed ''runs_start'' JNull)))"
  "\<not> isl (complete_command (fst (sample_claimed ''runs_start'' JNull)) (JBool True) (sample_now 2) (sample_planned ''runs_start'' JNull start_plan))"
  by code_simp+

theorem concluded_command_is_replayed_witness:
  "result_status (fst (projr (sample_claim ''runs_start'' JNull ''key'' ''w2'' 99 (snd (sample_done ''runs_start'' JNull start_plan (JBool True)))))) = Replayed"
proof -
  let ?r = "fst (sample_done ''runs_start'' JNull start_plan (JBool True))"
  have f: "actor_id sample_actor = actor_id (cmd_actor ?r)" "canonical_json JNull = canonical_json (cmd_request ?r)"
    "cmd_operation ?r = ''runs_start''" "cmd_key ?r = ''key''" by code_simp+
  show ?thesis
    using concluded_command_is_replayed [OF sample_planned_reachable [OF sample_start_ok(1)] disjI1 [OF sample_done_complete [OF sample_start_ok(2)]]
        rtranclp.rtrancl_refl f(1,2), of "''w2''" 10 "sample_now 99"] f(3,4) by (simp add: sample_claim_def)
qed

theorem superseded_claim_is_fenced_witness:
  "isl (store_command_plan (fst (sample_claimed ''runs_start'' JNull)) start_plan (sample_now 60)
     (snd (projr (sample_claim ''runs_start'' JNull ''key'' ''w2'' 50 (snd (sample_claimed ''runs_start'' JNull))))))"
proof -
  let ?s = "snd (sample_claimed ''runs_start'' JNull)"
  let ?c = "sample_claim ''runs_start'' JNull ''key'' ''w2'' 50 ?s"
  obtain res where g: "sample_claim ''runs_start'' JNull ''key'' ''w1'' 0 empty_store = Inr (res, ?s)"
    "result_claim res = Some (fst (sample_claimed ''runs_start'' JNull))"
    using sample_claim_granted by blast
  have n: "\<not> isl ?c" "result_claim (fst (projr ?c)) \<noteq> None" "claim_id (the (result_claim (fst (projr ?c)))) = claim_id (fst (sample_claimed ''runs_start'' JNull))"
    by code_simp+
  have second: "?c = Inr (fst (projr ?c), snd (projr ?c))" using sum.collapse(2) [OF n(1)] by simp
  have k: "result_claim (fst (projr ?c)) = Some (the (result_claim (fst (projr ?c))))" using n(2) by auto
  show ?thesis
    using superseded_claim_is_fenced [OF g(1) [unfolded sample_claim_def] g(2) rtranclp.rtrancl_refl second [unfolded sample_claim_def]
        k [unfolded sample_claim_def] n(3) [unfolded sample_claim_def] rtranclp.rtrancl_refl]
    by (simp add: sample_claim_def)
qed

theorem abandoned_command_can_be_concluded_witness:
  "\<exists>res k t r'. sample_claim ''runs_start'' JNull ''key'' ''w2'' 50 (sample_planned ''runs_start'' JNull start_plan) = Inr (res, t)
     \<and> result_claim res = Some k \<and> claim_epoch k = 2 \<and> result_record res = Some r' \<and> cmd_plan r' \<noteq> JNull"
proof -
  let ?s = "sample_planned ''runs_start'' JNull start_plan"
  let ?r = "the (dict_get (commands ?s) ''cmd-x'')"
  have f: "dict_get (commands ?s) ''cmd-x'' = Some ?r" "cmd_state ?r = Prepared" "lease_over ?r (sample_now 50)"
    "actor_id sample_actor = actor_id (cmd_actor ?r)" "canonical_json JNull = canonical_json (cmd_request ?r)"
    "cmd_operation ?r = ''runs_start''" "cmd_key ?r = ''key''" "cmd_epoch ?r = 1" "cmd_plan ?r \<noteq> JNull" by code_simp+
  show ?thesis
    using abandoned_command_can_be_concluded [OF sample_planned_reachable [OF sample_start_ok(1)] f(1-5), of "''w2''" 10 "JNull" "sample_now 60"] f(6-9)
    by (auto simp: sample_claim_def)
qed

theorem row_belongs_to_its_claim_witness:
  "sample_claim ''runs_start'' JNull ''other'' ''w2'' 50 (snd (sample_claimed ''runs_start'' JNull))
     = Inr (\<lparr>result_status = ConflictingClaim, result_claim = None,
             result_record = dict_get (commands (snd (sample_claimed ''runs_start'' JNull))) ''cmd-x''\<rparr>, snd (sample_claimed ''runs_start'' JNull))"
proof -
  let ?s = "snd (sample_claimed ''runs_start'' JNull)"
  let ?r = "the (dict_get (commands ?s) ''cmd-x'')"
  have f: "dict_get (commands ?s) (command_id_for sample_sha (actor_id sample_actor) ''runs_start'' ''other'') = Some ?r"
    "validate_idempotency_key ''other'' = Inr ''other''" "dict_get (commands ?s) ''cmd-x'' = Some ?r" "cmd_key ?r \<noteq> ''other''" by code_simp+
  show ?thesis
    using row_belongs_to_its_claim [OF sample_claimed_reachable f(1,2), of JNull "''w2''" 10 "sample_now 50"] f(3,4) by (simp add: sample_claim_def)
qed

definition sample_subject :: proof_subject where
  "sample_subject = ComponentProof \<lparr>subject_component = ''c'', subject_version = ''v'', subject_baseline = None\<rparr>"

definition sample_approval :: approval where
  "sample_approval = \<lparr>appr_id = approval_id_for_command sample_sha ''cmd-x'' (subject_json sample_subject), appr_subject = sample_subject,
     appr_decision = ApprovedDecision, appr_reason = None, appr_actor = sample_actor, appr_run = ''r'', appr_created = ''t''\<rparr>"

text \<open>The request and the plan that a standalone approval is written under, and that the law accepts them.\<close>

definition approve_request :: "approval \<Rightarrow> json" where
  "approve_request a = jobj [(''run_id'', jstr (appr_run a)), (''subject'', subject_json (appr_subject a)),
     (''decision'', decision_json (appr_decision a)), (''reason'', jopt jstr (appr_reason a))]"

definition approve_plan :: "approval \<Rightarrow> json" where
  "approve_plan a = jobj [(''schema_version'', JInt 1), (''plan'', approval_plan_json (ApprovalPlan a))]"

lemma map_of_sort_key: "distinct (map fst xs) \<Longrightarrow> map_of (sort_key fst xs) = map_of xs"
  by (intro map_of_inject_set [THEN iffD2]) (simp_all add: distinct_map)

lemma durable_object:
  assumes "distinct (map fst kvs)"
  obtains d where "durable_json (jobj kvs) = JObj d" "set (dict_keys d) = ustr_of ` fst ` set kvs"
    "\<And>k. has_key k d \<longleftrightarrow> map_of kvs k \<noteq> None" "\<And>k. get_key k d = (case map_of kvs k of None \<Rightarrow> JNull | Some v \<Rightarrow> json_norm v)"
proof -
  let ?m = "map (\<lambda>(k, v). (ustr_of k, json_norm v)) kvs"
  have dm: "distinct (map fst ?m)"
    using assms by (auto simp: distinct_map inj_on_def ustr_of_inj case_prod_unfold)
  have look: "map_of ?m (ustr_of k) = map_option json_norm (map_of kvs k)" for k
    by (induction kvs) (auto simp: ustr_of_inj)
  show ?thesis
    using dm look that [of "sort_key fst ?m"]
    by (force simp: durable_json_def json_norm_jobj has_key_def get_key_def map_of_sort_key case_prod_unfold image_image split: option.splits)
qed

lemma standalone_plan_validates:
  assumes "cmd_operation r = ''runs_approve''" "cmd_actor r = appr_actor a" "cmd_state r \<noteq> RejectedCommand"
    and "cmd_request r = durable_json (approve_request a)" "cmd_plan r = durable_json (approve_plan a)"
    and "appr_id a = approval_id_for_command sha (cmd_id r) (subject_json (appr_subject a))"
  shows "validated_standalone_command_approval sha r a = Inr a"
proof -
  let ?kvs = "[(''run_id'', jstr (appr_run a)), (''subject'', subject_json (appr_subject a)),
      (''decision'', decision_json (appr_decision a)), (''reason'', jopt jstr (appr_reason a))]"
  have "distinct (map fst ?kvs)" by simp
  then obtain q where d: "durable_json (jobj ?kvs) = JObj q" "set (dict_keys q) = ustr_of ` fst ` set ?kvs"
    "\<And>k. has_key k q \<longleftrightarrow> map_of ?kvs k \<noteq> None"
    "\<And>k. get_key k q = (case map_of ?kvs k of None \<Rightarrow> JNull | Some v \<Rightarrow> json_norm v)"
    by (rule durable_object) (rule that)
  have q: "cmd_request r = JObj q" "set (dict_keys q) = set approval_request_keys" "\<not> has_key ''request_message_id'' q"
    "get_key ''run_id'' q = jstr (appr_run a)" "get_key ''subject'' q = json_norm (subject_json (appr_subject a))"
    "get_key ''decision'' q = decision_json (appr_decision a)" "get_key ''reason'' q = jopt jstr (appr_reason a)"
    using assms(4) d by (simp_all add: approve_request_def approval_request_keys_def decision_json_def jopt_def split: option.splits)
  obtain raw where raw: "cmd_plan r = JObj raw" "has_key ''schema_version'' raw"
    "get_key ''plan'' raw = durable_json (jobj [(''kind'', jstr ''approval''), (''approval'', approval_json a)])"
    by (rule durable_object [of "[(''schema_version'', JInt 1), (''plan'', approval_plan_json (ApprovalPlan a))]"])
      (use assms(5) in \<open>simp_all add: approve_plan_def approval_plan_json_def durable_json_def\<close>)
  obtain p where p: "get_key ''plan'' raw = JObj p" "get_key ''kind'' p = jstr ''approval''"
    by (rule durable_object [of "[(''kind'', jstr ''approval''), (''approval'', approval_json a)]"]) (use raw(3) in simp_all)
  have c: "approval_candidate raw a = Some (ApprovalPlan a)" using raw(2) p by (simp add: approval_candidate_def)
  have "canonical_json (JObj raw) = canonical_json (approve_plan a)" using raw(1) assms(5) by (metis canonical_json_durable)
  then have "approval_plan_for r a = Inr (ApprovalPlan a)" using raw(1,2) c by (simp add: approval_plan_for_def approve_plan_def)
  moreover have "canonical_json (json_norm (subject_json (appr_subject a))) = canonical_json (subject_json (appr_subject a))"
    using canonical_json_durable by (simp add: durable_json_def)
  ultimately have "validated_command_approval_plan sha r a = Inr (ApprovalPlan a)"
    unfolding validated_command_approval_plan_def validated_approval_identity_def using q assms(1-3,6) by simp
  then show ?thesis by (simp add: validated_standalone_command_approval_def)
qed

definition sample_approved :: "approval \<times> control_store" where
  "sample_approved = projr (store_approval sample_sha (fst (sample_claimed ''runs_approve'' (approve_request sample_approval))) sample_approval
     (sample_planned ''runs_approve'' (approve_request sample_approval) (approve_plan sample_approval)))"

lemma sample_command_id: "command_id_for sample_sha a operation key = ''cmd-x''"
  by (simp add: command_id_for_def digest_of_def sample_sha_def)

lemma sample_approval_stored:
  "\<not> isl (store_command_plan (fst (sample_claimed ''runs_approve'' (approve_request sample_approval))) (approve_plan sample_approval) (sample_now 1)
       (snd (sample_claimed ''runs_approve'' (approve_request sample_approval))))"
  "\<not> isl (store_approval sample_sha (fst (sample_claimed ''runs_approve'' (approve_request sample_approval))) sample_approval
       (sample_planned ''runs_approve'' (approve_request sample_approval) (approve_plan sample_approval)))"
  "dict_get (approval_id_by_command (snd sample_approved)) ''cmd-x'' \<noteq> None"
proof -
  let ?rq = "approve_request sample_approval"
  let ?p = "approve_plan sample_approval"
  let ?new = "new_command ''cmd-x'' sample_actor ''runs_approve'' ''key'' (command_request_hash sample_sha ?rq) ?rq ''w1'' 10 (sample_now 0)"
  let ?r = "?new\<lparr>cmd_plan := durable_json ?p, cmd_updated := sample_now 1\<rparr>"
  have v: "validate_idempotency_key ''key'' = Inr ''key''" by code_simp
  have c: "sample_claimed ''runs_approve'' ?rq
      = (claim_on ''cmd-x'' sample_actor ''runs_approve'' ''w1'' 1 (instant (sample_now 0) + 10), put_command ''cmd-x'' ?new empty_store)"
    by (simp add: sample_claimed_def sample_claim_def claim_command_def v sample_command_id empty_store_def Let_def detached_command_def)
  have n: "?p \<noteq> JNull" by (simp add: approve_plan_def jobj_def)
  have era: "validated_new_resume_command_plan ?r = Inr None" "validated_new_domain_command_plan ?r = Inr ()"
    by (simp_all add: validated_new_resume_command_plan_def resume_plan_requires_historical_evidence_def resume_domain_plan_def
        validated_new_domain_command_plan_def domain_plan_requires_historical_evidence_def DOMAIN_PLAN_ERA_OPERATIONS_def)
  have plan: "store_command_plan (fst (sample_claimed ''runs_approve'' ?rq)) ?p (sample_now 1) (snd (sample_claimed ''runs_approve'' ?rq))
      = Inr (put_command ''cmd-x'' ?r (put_command ''cmd-x'' ?new empty_store))"
    using n era by (simp add: c store_command_plan_def fenced_def claim_on_def Let_def)
  then show "\<not> isl (store_command_plan (fst (sample_claimed ''runs_approve'' ?rq)) ?p (sample_now 1) (snd (sample_claimed ''runs_approve'' ?rq)))"
    by simp
  have s: "sample_planned ''runs_approve'' ?rq ?p = put_command ''cmd-x'' ?r (put_command ''cmd-x'' ?new empty_store)"
    using plan by (simp add: sample_planned_def)
  have "validated_standalone_command_approval sample_sha ?r sample_approval = Inr sample_approval"
    by (rule standalone_plan_validates) (simp_all add: sample_approval_def)
  then have a: "store_approval sample_sha (fst (sample_claimed ''runs_approve'' ?rq)) sample_approval (sample_planned ''runs_approve'' ?rq ?p)
      = Inr (sample_approval, (sample_planned ''runs_approve'' ?rq ?p)\<lparr>approvals := [(appr_id sample_approval, ''cmd-x'', sample_approval)],
          approval_id_by_command := [(''cmd-x'', appr_id sample_approval)]\<rparr>)"
    by (simp add: s c store_approval_def approval_fenced_def fenced_def claim_on_def empty_store_def)
  then show "\<not> isl (store_approval sample_sha (fst (sample_claimed ''runs_approve'' ?rq)) sample_approval (sample_planned ''runs_approve'' ?rq ?p))"
    by simp
  show "dict_get (approval_id_by_command (snd sample_approved)) ''cmd-x'' \<noteq> None" by (simp add: sample_approved_def a)
qed

theorem approval_is_its_commands_decision_witness:
  "\<exists>a r. approval_for_command sample_sha (snd sample_approved) ''cmd-x'' = Inr (Some a)
     \<and> dict_get (commands (snd sample_approved)) ''cmd-x'' = Some r \<and> cmd_actor r = appr_actor a"
proof -
  have "store_approval sample_sha (fst (sample_claimed ''runs_approve'' (approve_request sample_approval))) sample_approval
      (sample_planned ''runs_approve'' (approve_request sample_approval) (approve_plan sample_approval)) = Inr (fst sample_approved, snd sample_approved)"
    using sum.collapse(2) [OF sample_approval_stored(2)] by (simp add: sample_approved_def)
  then have "reachable_store sample_sha (snd sample_approved)"
    by (rule reachable_step [OF sample_planned_reachable [OF sample_approval_stored(1)] ledger_step.approve])
  from approval_is_its_commands_decision [OF this, of "''cmd-x''"] obtain found where
    f: "approval_for_command sample_sha (snd sample_approved) ''cmd-x'' = Inr found" and
    c: "case found of None \<Rightarrow> dict_get (approval_id_by_command (snd sample_approved)) ''cmd-x'' = None
       | Some a \<Rightarrow> \<exists>r q. dict_get (commands (snd sample_approved)) ''cmd-x'' = Some r \<and> cmd_operation r = ''runs_approve'' \<and> cmd_state r \<noteq> RejectedCommand
           \<and> cmd_actor r = appr_actor a \<and> appr_id a = approval_id_for_command sample_sha ''cmd-x'' (subject_json (appr_subject a))
           \<and> cmd_request r = JObj q \<and> get_key ''decision'' q = decision_json (appr_decision a) \<and> get_key ''run_id'' q = jstr (appr_run a)
           \<and> canonical_json (get_key ''subject'' q) = canonical_json (subject_json (appr_subject a))"
    by (elim exE conjE)
  show ?thesis
  proof (cases found)
    case None
    then show ?thesis using c sample_approval_stored(3) by simp
  next
    case (Some a)
    with c obtain r where "dict_get (commands (snd sample_approved)) ''cmd-x'' = Some r" "cmd_actor r = appr_actor a"
      unfolding Some option.case by (elim exE conjE)
    then show ?thesis using f unfolding Some by (intro exI conjI)
  qed
qed

theorem no_plan_needs_historical_evidence_witness:
  "domain_plan_requires_historical_evidence (fst (sample_done ''runs_start'' JNull start_plan (JBool True))) = Inr False"
proof -
  have g: "dict_get (commands (snd (sample_done ''runs_start'' JNull start_plan (JBool True)))) ''cmd-x''
      = Some (fst (sample_done ''runs_start'' JNull start_plan (JBool True)))" by code_simp
  have "reachable_store sample_sha (snd (sample_done ''runs_start'' JNull start_plan (JBool True)))"
    by (rule reachable_step [OF sample_planned_reachable [OF sample_start_ok(1)] ledger_step.complete [OF sample_done_complete [OF sample_start_ok(2)]]])
  from no_plan_needs_historical_evidence [OF this g] show ?thesis ..
qed

end
