(* ===== verification/Run_Host.thy ===== *)
theory Run_Host
  imports Ledger_Laws
begin

text \<open>
  The run host (\<^verbatim>\<open>api/run_host.py\<close>): which durable runs currently have a coroutine in this process. \<open>run_host\<close> holds the process-local
  state; the journal is read through the rows its queries project (\<open>run_view\<close>), the ledger through its pages. A coroutine is a worker
  with a number: \<open>h_tasks\<close> is the worker recorded for a run, \<open>h_workers\<close> every worker that was created and has not been
  ended, which is what the process really runs. One pump tick is the three scans in the order \<^verbatim>\<open>_pump\<close> calls them; waiting, waking and
  reporting are left to the event loop. Clock readings and delays are microseconds.
\<close>

section \<open>Launch intents\<close>

datatype attempt_cause = ResumeCommandCause string | ChannelReplyCause string

record launch_intent =
  expected_event_seq :: "nat option"
  allowed_statuses :: "run_status set"
  intent_cause :: "attempt_cause option"

definition supersedes :: "launch_intent \<Rightarrow> launch_intent \<Rightarrow> bool" where
  "supersedes incoming existing =
     (if incoming = existing then False
      else case (expected_event_seq incoming, expected_event_seq existing) of
        (None, e) \<Rightarrow> e = None \<and> allowed_statuses existing \<subset> allowed_statuses incoming
      | (Some _, None) \<Rightarrow> True
      | (Some i, Some e) \<Rightarrow>
          if i \<noteq> e then e < i
          else if intent_cause incoming \<noteq> intent_cause existing then intent_cause incoming \<noteq> None \<and> intent_cause existing = None
          else allowed_statuses existing \<subset> allowed_statuses incoming)"

section \<open>State\<close>

datatype worker_end = Returned | AttemptGone | LostOwnership | WorkerFailed | WorkerCancelled | HardDeath

record host_config =
  max_concurrency :: nat
  recovery_page_size :: int
  resume_pages_per_tick :: nat
  resume_retry :: int
  claim_retry :: int

record run_host =
  h_tasks :: "(string, nat) dict"
  h_workers :: "(nat, string) dict"
  h_callbacks :: "(nat \<times> string \<times> worker_end) list"
  h_next :: nat
  h_requested :: "(string, launch_intent) dict"
  h_explicit :: "(string, launch_intent) dict"
  h_retry_at :: "(string, int) dict"
  h_deferred :: "string list"
  h_closed :: bool
  h_resume_through :: "command_key option"
  h_resume_after :: "command_key option"
  h_wait_through :: "command_key option"
  h_wait_after :: "command_key option"

definition dict_pop :: "'k \<Rightarrow> ('k, 'v) dict \<Rightarrow> ('k, 'v) dict" where
  "dict_pop k d = filter (\<lambda>(k', v). k' \<noteq> k) d"

definition new_host :: run_host where
  "new_host = \<lparr>h_tasks = [], h_workers = [], h_callbacks = [], h_next = 0, h_requested = [], h_explicit = [], h_retry_at = [], h_deferred = [],
     h_closed = False, h_resume_through = None, h_resume_after = None, h_wait_through = None, h_wait_after = None\<rparr>"

definition host_check :: "int \<Rightarrow> int \<Rightarrow> int \<Rightarrow> int \<Rightarrow> int \<Rightarrow> exc + host_config" where
  "host_check concurrency psize pages resume_delay claim_delay =
     (if concurrency \<le> 0 then Inl (Raised ''ValueError'' ''max_concurrency'')
      else if psize \<le> 0 then Inl (Raised ''ValueError'' ''recovery_page_size'')
      else if claim_delay \<le> 0 then Inl (Raised ''ValueError'' ''claim_retry_s'')
      else if pages \<le> 0 then Inl (Raised ''ValueError'' ''resume_pages_per_tick'')
      else if resume_delay \<le> 0 then Inl (Raised ''ValueError'' ''resume_retry_s'')
      else Inr \<lparr>max_concurrency = nat concurrency, recovery_page_size = psize, resume_pages_per_tick = nat pages,
                resume_retry = resume_delay, claim_retry = claim_delay\<rparr>)"

text \<open>A recorded task is done once the event loop has no worker for it.\<close>

definition live_task :: "run_host \<Rightarrow> string \<Rightarrow> bool" where
  "live_task h run = (case dict_get (h_tasks h) run of None \<Rightarrow> False | Some w \<Rightarrow> dict_get (h_workers h) w \<noteq> None)"

section \<open>Launching\<close>

datatype disposition = QueuedLaunch | CoalescedExact | SupersededLaunch

definition accept :: "string \<Rightarrow> launch_intent \<Rightarrow> run_host \<Rightarrow> run_host" where
  "accept run i h = h\<lparr>h_requested := dict_set run i (h_requested h), h_deferred := removeAll run (h_deferred h),
     h_retry_at := dict_pop run (h_retry_at h)\<rparr>"

definition launch :: "string \<Rightarrow> launch_intent \<Rightarrow> run_host \<Rightarrow> exc + (disposition \<times> run_host)" where
  "launch run i h =
     (if h_closed h then Inl (Raised ''RuntimeError'' ''RunHost is closed'')
      else case dict_get (h_requested h) run of
        Some queued \<Rightarrow>
          Inr (if queued = i then (CoalescedExact, h)
               else if supersedes i queued then (QueuedLaunch, accept run i h) else (SupersededLaunch, h))
      | None \<Rightarrow>
          Inr (if live_task h run then
                 (if dict_get (h_explicit h) run = Some i then (CoalescedExact, h)
                  else if (case dict_get (h_explicit h) run of None \<Rightarrow> True | Some x \<Rightarrow> supersedes i x)
                  then (QueuedLaunch, accept run i h) else (SupersededLaunch, h))
               else (QueuedLaunch, accept run i h)))"

definition start_worker :: "string \<Rightarrow> launch_intent \<Rightarrow> bool \<Rightarrow> run_host \<Rightarrow> run_host" where
  "start_worker run i explicit h = h\<lparr>h_tasks := dict_set run (h_next h) (h_tasks h), h_workers := dict_set (h_next h) run (h_workers h),
     h_next := h_next h + 1, h_requested := dict_pop run (h_requested h),
     h_explicit := (if explicit then dict_set run i (h_explicit h) else h_explicit h)\<rparr>"

section \<open>The end of a worker\<close>

text \<open>What \<^verbatim>\<open>_run\<close> does with the way its attempt ended.\<close>

definition run_outcome :: "host_config \<Rightarrow> string \<Rightarrow> worker_end \<Rightarrow> int \<Rightarrow> run_host \<Rightarrow> run_host" where
  "run_outcome cfg run e now h =
     (case e of
        LostOwnership \<Rightarrow>
          (let h = h\<lparr>h_retry_at := dict_set run (now + claim_retry cfg) (h_retry_at h)\<rparr> in
           if h_closed h then h
           else case dict_get (h_explicit h) run of
             None \<Rightarrow> h
           | Some x \<Rightarrow>
               (case dict_get (h_requested h) run of
                  None \<Rightarrow> h\<lparr>h_requested := dict_set run x (h_requested h)\<rparr>
                | Some queued \<Rightarrow> if supersedes x queued then h\<lparr>h_requested := dict_set run x (h_requested h)\<rparr> else h))
      | WorkerFailed \<Rightarrow> h\<lparr>h_deferred := List.insert run (h_deferred h)\<rparr>
      | _ \<Rightarrow> h)"

text \<open>The coroutine ends: from here its task is done, and the event loop owes the host one call of \<^verbatim>\<open>_finished\<close>.\<close>

definition worker_done :: "host_config \<Rightarrow> nat \<Rightarrow> worker_end \<Rightarrow> int \<Rightarrow> run_host \<Rightarrow> run_host" where
  "worker_done cfg w e now h =
     (case dict_get (h_workers h) w of
        None \<Rightarrow> h
      | Some run \<Rightarrow>
          (let h = run_outcome cfg run e now h
           in h\<lparr>h_workers := dict_pop w (h_workers h), h_callbacks := h_callbacks h @ [(w, run, e)]\<rparr>))"

definition finished :: "nat \<Rightarrow> string \<Rightarrow> worker_end \<Rightarrow> run_host \<Rightarrow> run_host" where
  "finished w run e h =
     (let h = (if dict_get (h_tasks h) run = Some w
               then h\<lparr>h_tasks := dict_pop run (h_tasks h), h_explicit := dict_pop run (h_explicit h)\<rparr> else h)
      in if e = HardDeath then h\<lparr>h_deferred := List.insert run (h_deferred h)\<rparr> else h)"

definition run_callback :: "run_host \<Rightarrow> run_host" where
  "run_callback h = (case h_callbacks h of [] \<Rightarrow> h | (w, run, e) # rest \<Rightarrow> finished w run e (h\<lparr>h_callbacks := rest\<rparr>))"

section \<open>What the host reads of the journal\<close>

text \<open>
  A row as the queries project it, with the latest event of the run and, for a parked run, the requests its parking event waits on. The
  clauses of the queries that bring damaged rows to the front, and the checks that then refuse them, are left out: the rows are the ones the journal's own operations wrote.
\<close>

record run_view =
  rv_id :: string
  rv_created :: string
  rv_status :: run_status
  rv_owner :: "string option"
  rv_lease :: "int option"
  rv_seq :: nat
  rv_requests :: "digest list"

definition run_key :: "run_view \<Rightarrow> command_key" where
  "run_key v = (rv_created v, rv_id v)"

definition run_record :: "run_view list \<Rightarrow> string \<Rightarrow> run_view option" where
  "run_record vs run = find (\<lambda>v. rv_id v = run) vs"

definition max_event_seq :: "run_view list \<Rightarrow> string \<Rightarrow> nat" where
  "max_event_seq vs run = (case run_record vs run of None \<Rightarrow> 0 | Some v \<Rightarrow> rv_seq v)"

definition latest_run_key :: "run_view list \<Rightarrow> run_status list \<Rightarrow> command_key option" where
  "latest_run_key vs statuses =
     (let keys = map run_key (filter (\<lambda>v. rv_status v \<in> set statuses) vs)
      in if keys = [] then None else Some (fold max (tl keys) (hd keys)))"

definition run_in_cut :: "command_key option \<Rightarrow> command_key \<Rightarrow> run_view \<Rightarrow> bool" where
  "run_in_cut after through v \<longleftrightarrow> run_key v \<le> through \<and> (case after of None \<Rightarrow> True | Some k \<Rightarrow> k < run_key v)"

definition run_records ::
  "run_view list \<Rightarrow> run_status list \<Rightarrow> command_key option \<Rightarrow> command_key \<Rightarrow> int \<Rightarrow> run_view list" where
  "run_records vs statuses after through limit =
     take (nat limit) (sort_key run_key (filter (\<lambda>v. rv_status v \<in> set statuses \<and> run_in_cut after through v) vs))"

text \<open>
  \<^verbatim>\<open>parked_waits\<close> reads a page of parked runs in one snapshot and then keeps those that a second snapshot still
  finds parked at the same event.
\<close>

definition parked_waits ::
  "run_view list \<Rightarrow> run_view list \<Rightarrow> command_key option \<Rightarrow> command_key \<Rightarrow> int \<Rightarrow> exc + run_view list" where
  "parked_waits vs current after through limit =
     (if limit \<le> 0 then Inl (Raised ''ValueError'' ''limit must be positive'')
      else let waits = take (nat limit) (sort_key run_key (filter (\<lambda>v. rv_status v = Parked \<and> run_in_cut after through v) vs)) in
        if list_ex (\<lambda>v. run_record current (rv_id v) = None) waits then Inl (JournalDamaged ''PARKED runs disappeared'')
        else Inr (filter (\<lambda>v. case run_record current (rv_id v) of None \<Rightarrow> False
                          | Some c \<Rightarrow> rv_status c = Parked \<and> rv_seq c = rv_seq v) waits))"

section \<open>Filling capacity\<close>

definition earlier :: "int option \<Rightarrow> int option \<Rightarrow> int option" where
  "earlier l r = (case (l, r) of (_, None) \<Rightarrow> l | (None, Some y) \<Rightarrow> Some y | (Some x, Some y) \<Rightarrow> if y < x then Some y else Some x)"

definition ready_at :: "(string, int) dict \<Rightarrow> run_view \<Rightarrow> int \<Rightarrow> int option" where
  "ready_at retry v now =
     (let deadlines = filter (\<lambda>d. now < d)
            ((case dict_get retry (rv_id v) of None \<Rightarrow> [] | Some d \<Rightarrow> [d])
             @ (case (rv_owner v, rv_lease v) of (Some _, Some d) \<Rightarrow> [d] | _ \<Rightarrow> []))
      in if deadlines = [] then None else Some (fold max (tl deadlines) (hd deadlines)))"

definition RECOVERY_STATUSES :: "run_status list" where
  "RECOVERY_STATUSES = [Pending, Running]"

text \<open>The loop over explicit requests; the last component says that capacity ran out and the method returned.\<close>

fun fill_requested ::
  "run_view list \<Rightarrow> int \<Rightarrow> (string \<times> launch_intent) list \<Rightarrow> nat \<Rightarrow> int option \<Rightarrow> run_host \<Rightarrow> run_host \<times> nat \<times> int option \<times> bool" where
  "fill_requested vs now [] capacity expiry h = (h, capacity, expiry, False)"
| "fill_requested vs now ((run, i) # rest) capacity expiry h =
     (let drop_it = h\<lparr>h_requested := dict_pop run (h_requested h), h_retry_at := dict_pop run (h_retry_at h)\<rparr> in
      case run_record vs run of
        None \<Rightarrow> fill_requested vs now rest capacity expiry drop_it
      | Some v \<Rightarrow>
          if rv_status v \<notin> allowed_statuses i then fill_requested vs now rest capacity expiry drop_it
          else if (case expected_event_seq i of None \<Rightarrow> False | Some n \<Rightarrow> max_event_seq vs run \<noteq> n)
          then fill_requested vs now rest capacity expiry drop_it
          else case ready_at (h_retry_at h) v now of
            Some d \<Rightarrow> fill_requested vs now rest capacity (earlier expiry (Some d)) h
          | None \<Rightarrow>
              (let h = start_worker run i True (h\<lparr>h_retry_at := dict_pop run (h_retry_at h)\<rparr>)
               in if capacity - 1 = 0 then (h, 0, expiry, True) else fill_requested vs now rest (capacity - 1) expiry h))"

type_synonym selection = "(string \<times> launch_intent) list"

fun batch_page ::
  "run_view list \<Rightarrow> int \<Rightarrow> nat \<Rightarrow> run_view list \<Rightarrow> command_key option \<Rightarrow> selection \<Rightarrow> int option \<Rightarrow> run_host
     \<Rightarrow> command_key option \<times> selection \<times> int option \<times> run_host" where
  "batch_page vs now limit [] after selected expiry h = (after, selected, expiry, h)"
| "batch_page vs now limit (v # rest) after selected expiry h =
     (if dict_get (h_tasks h) (rv_id v) \<noteq> None \<or> dict_get (h_requested h) (rv_id v) \<noteq> None \<or> rv_id v \<in> set (h_deferred h)
      then batch_page vs now limit rest (Some (run_key v)) selected expiry h
      else case ready_at (h_retry_at h) v now of
        Some d \<Rightarrow> batch_page vs now limit rest (Some (run_key v)) selected (earlier expiry (Some d)) h
      | None \<Rightarrow>
          (let h = h\<lparr>h_retry_at := dict_pop (rv_id v) (h_retry_at h)\<rparr>;
               selected = selected @ [(rv_id v, \<lparr>expected_event_seq = Some (max_event_seq vs (rv_id v)),
                            allowed_statuses = set RECOVERY_STATUSES, intent_cause = None\<rparr>)]
           in if length selected = limit then (Some (run_key v), selected, expiry, h)
              else batch_page vs now limit rest (Some (run_key v)) selected expiry h))"

lemma batch_page_after:
  "rows \<noteq> [] \<Longrightarrow> \<exists>v \<in> set rows. fst (batch_page vs now limit rows after selected expiry h) = Some (run_key v)"
proof (induction rows arbitrary: after selected expiry h)
  case (Cons v rest)
  have step: "\<exists>x \<in> set (v # rest). fst (batch_page vs now limit rest (Some (run_key v)) selected' expiry' h') = Some (run_key x)"
    for selected' expiry' h'
    using Cons.IH [of "Some (run_key v)" selected' expiry' h'] by (cases rest) auto
  show ?case using step by (simp add: Let_def split: option.splits)
qed simp

lemma run_records_in_cut: "v \<in> set (run_records vs statuses after through n) \<Longrightarrow> v \<in> set vs \<and> rv_status v \<in> set statuses \<and> run_in_cut after through v"
  unfolding run_records_def by (auto dest: in_set_takeD)

text \<open>
  \<^verbatim>\<open>_recoverable_batch\<close>: pages until capacity is filled or the snapshot is exhausted. Every page moves the cut forward. The code reads the last key, each page and each
  event sequence in a transaction of its own; here one list of rows stands for all of them, so what another host does to the journal inside one batch is not modelled.
\<close>

function recover_pages ::
  "host_config \<Rightarrow> run_view list \<Rightarrow> int \<Rightarrow> nat \<Rightarrow> command_key \<Rightarrow> command_key option \<Rightarrow> selection \<Rightarrow> int option \<Rightarrow> run_host
     \<Rightarrow> selection \<times> int option \<times> run_host" where
  "recover_pages cfg vs now limit through after selected expiry h =
     (if limit \<le> length selected then (selected, expiry, h)
      else let records = run_records vs RECOVERY_STATUSES after through (recovery_page_size cfg) in
        if records = [] then (selected, expiry, h)
        else case batch_page vs now limit records after selected expiry h of (after', selected', expiry', h') \<Rightarrow>
          if int (length records) < recovery_page_size cfg then (selected', expiry', h')
          else recover_pages cfg vs now limit through after' selected' expiry' h')"
  by pat_completeness auto
termination
proof (relation "measure (\<lambda>(cfg, vs, now, limit, through, after, selected, expiry, h). length (filter (run_in_cut after through) vs))")
  fix cfg :: host_config and vs now limit through after selected expiry h records after' y selected' z expiry' h'
  assume r: "records = run_records vs RECOVERY_STATUSES after through (recovery_page_size cfg)" "records \<noteq> []"
    and p: "(after', y) = batch_page vs now limit records after selected expiry h" "(selected', z) = y" "(expiry', h') = z"
  obtain v where v: "v \<in> set records" "after' = Some (run_key v)"
    using batch_page_after [OF r(2), of vs now limit after selected expiry h] p by (metis fst_conv)
  have v': "v \<in> set vs" "run_in_cut after through v" using run_records_in_cut v(1) r(1) by blast+
  have "run_in_cut after' through w \<Longrightarrow> run_in_cut after through w" for w
    using v'(2) by (auto simp: run_in_cut_def v(2) split: option.splits)
  then have "filter (run_in_cut after' through) vs = filter (run_in_cut after' through) (filter (run_in_cut after through) vs)"
    by (auto intro!: filter_cong)
  also have "length \<dots> < length (filter (run_in_cut after through) vs)"
    by (rule length_filter_less [of v]) (use v' in \<open>auto simp: run_in_cut_def v(2)\<close>)
  finally show "((cfg, vs, now, limit, through, after', selected', expiry', h'), cfg, vs, now, limit, through, after, selected, expiry, h)
      \<in> measure (\<lambda>(cfg, vs, now, limit, through, after, selected, expiry, h). length (filter (run_in_cut after through) vs))" by simp
qed simp

declare recover_pages.simps [simp del]

definition recoverable_batch :: "host_config \<Rightarrow> run_view list \<Rightarrow> nat \<Rightarrow> int \<Rightarrow> run_host \<Rightarrow> selection \<times> int option \<times> run_host" where
  "recoverable_batch cfg vs limit now h =
     (if limit = 0 then ([], None, h)
      else case latest_run_key vs RECOVERY_STATUSES of
        None \<Rightarrow> ([], None, h)
      | Some through \<Rightarrow> recover_pages cfg vs now limit through None [] None h)"

definition start_recovered :: "selection \<Rightarrow> run_host \<Rightarrow> run_host" where
  "start_recovered sel h = fold (\<lambda>(run, i) h. start_worker run i False h) sel h"

definition fill_capacity :: "host_config \<Rightarrow> run_view list \<Rightarrow> int \<Rightarrow> run_host \<Rightarrow> run_host \<times> int option" where
  "fill_capacity cfg vs now h =
     (let capacity = max_concurrency cfg - length (h_tasks h) in
      if capacity = 0 then (h, None)
      else case fill_requested vs now (sort_key fst (h_requested h)) capacity None h of (h1, cap, expiry, returned) \<Rightarrow>
        if returned then (h1, expiry)
        else case recoverable_batch cfg vs cap now h1 of (sel, expiry', h2) \<Rightarrow>
          (start_recovered sel h2, earlier expiry expiry'))"

section \<open>The scans\<close>

type_synonym resume_decoder = "command_record \<Rightarrow> exc + (string \<times> nat \<times> string) option"

text \<open>
  A scan returns what it raised, if anything, and the host it leaves, which keeps what happened before the raise. The
  records it handed to the decoder are returned beside it.
\<close>

fun visit_resumes :: "resume_decoder \<Rightarrow> command_record list \<Rightarrow> run_host \<Rightarrow> exc option \<times> run_host \<times> command_record list" where
  "visit_resumes decoder [] h = (None, h, [])"
| "visit_resumes decoder (r # rs) h =
     (let h = h\<lparr>h_resume_after := Some (command_key r)\<rparr> in
      if cmd_state r = Prepared then visit_resumes decoder rs h
      else case decoder r of
        Inl e \<Rightarrow> (Some e, h, [r])
      | Inr None \<Rightarrow> (case visit_resumes decoder rs h of (e, h, seen) \<Rightarrow> (e, h, r # seen))
      | Inr (Some (run, baseline, c)) \<Rightarrow>
          (case launch run \<lparr>expected_event_seq = Some baseline, allowed_statuses = set RESUMABLE_RUN_STATUSES,
                            intent_cause = Some (ResumeCommandCause c)\<rparr> h of
             Inl e \<Rightarrow> (Some e, h, [r])
           | Inr (_, h) \<Rightarrow> (case visit_resumes decoder rs h of (e, h, seen) \<Rightarrow> (e, h, r # seen))))"

definition resume_reset :: "run_host \<Rightarrow> run_host" where
  "resume_reset h = h\<lparr>h_resume_through := None, h_resume_after := None\<rparr>"

primrec scan_resume_pages ::
  "nat \<Rightarrow> host_config \<Rightarrow> control_store \<Rightarrow> resume_decoder \<Rightarrow> command_key \<Rightarrow> run_host \<Rightarrow> exc option \<times> run_host \<times> command_record list" where
  "scan_resume_pages 0 cfg s decoder through h = (None, h, [])"
| "scan_resume_pages (Suc n) cfg s decoder through h =
     (case command_records s ''runs_resume'' (h_resume_after h) through (recovery_page_size cfg) of
        Inl e \<Rightarrow> (Some e, h, [])
      | Inr records \<Rightarrow>
          if records = [] then (None, resume_reset h, [])
          else case visit_resumes decoder records h of
            (Some e, h, seen) \<Rightarrow> (Some e, h, seen)
          | (None, h, seen) \<Rightarrow>
              if int (length records) < recovery_page_size cfg \<or> (case h_resume_after h of None \<Rightarrow> False | Some k \<Rightarrow> through \<le> k)
              then (None, resume_reset h, seen)
              else case scan_resume_pages n cfg s decoder through h of (e, h, later) \<Rightarrow> (e, h, seen @ later))"

definition scan_committed_resumes ::
  "host_config \<Rightarrow> control_store \<Rightarrow> resume_decoder \<Rightarrow> run_host \<Rightarrow> exc option \<times> run_host \<times> command_record list" where
  "scan_committed_resumes cfg s decoder h =
     (let h = (case h_resume_through h of
                 None \<Rightarrow> h\<lparr>h_resume_through := latest_command_key s ''runs_resume'', h_resume_after := None\<rparr>
               | Some _ \<Rightarrow> h)
      in case h_resume_through h of
           None \<Rightarrow> (None, h, [])
         | Some through \<Rightarrow> scan_resume_pages (resume_pages_per_tick cfg) cfg s decoder through h)"

text \<open>Stored replies are a map from the requests that have one; a wait wakes at the first of its requests that does.\<close>

fun visit_waits :: "(digest \<Rightarrow> digest option) \<Rightarrow> run_view list \<Rightarrow> run_host \<Rightarrow> exc option \<times> run_host \<times> run_view list" where
  "visit_waits answered [] h = (None, h, [])"
| "visit_waits answered (v # vs) h =
     (let h = h\<lparr>h_wait_after := Some (run_key v)\<rparr> in
      case List.map_filter answered (rv_requests v) of
        [] \<Rightarrow> (case visit_waits answered vs h of (e, h, seen) \<Rightarrow> (e, h, v # seen))
      | reply # _ \<Rightarrow>
          (case launch (rv_id v) \<lparr>expected_event_seq = Some (rv_seq v), allowed_statuses = {Parked},
                                  intent_cause = Some (ChannelReplyCause reply)\<rparr> h of
             Inl e \<Rightarrow> (Some e, h, [v])
           | Inr (_, h) \<Rightarrow> (case visit_waits answered vs h of (e, h, seen) \<Rightarrow> (e, h, v # seen))))"

definition wait_reset :: "run_host \<Rightarrow> run_host" where
  "wait_reset h = h\<lparr>h_wait_through := None, h_wait_after := None\<rparr>"

primrec scan_wait_pages ::
  "nat \<Rightarrow> host_config \<Rightarrow> run_view list \<Rightarrow> run_view list \<Rightarrow> (digest \<Rightarrow> digest option) \<Rightarrow> command_key \<Rightarrow> run_host
     \<Rightarrow> exc option \<times> run_host \<times> run_view list" where
  "scan_wait_pages 0 cfg vs current answered through h = (None, h, [])"
| "scan_wait_pages (Suc n) cfg vs current answered through h =
     (case parked_waits vs current (h_wait_after h) through (recovery_page_size cfg) of
        Inl e \<Rightarrow> (Some e, h, [])
      | Inr waits \<Rightarrow>
          if waits = [] then (None, wait_reset h, [])
          else case visit_waits answered waits h of
            (Some e, h, seen) \<Rightarrow> (Some e, h, seen)
          | (None, h, seen) \<Rightarrow>
              if int (length waits) < recovery_page_size cfg \<or> (case h_wait_after h of None \<Rightarrow> False | Some k \<Rightarrow> through \<le> k)
              then (None, wait_reset h, seen)
              else case scan_wait_pages n cfg vs current answered through h of (e, h, later) \<Rightarrow> (e, h, seen @ later))"

definition scan_answered_waits ::
  "host_config \<Rightarrow> run_view list \<Rightarrow> run_view list \<Rightarrow> (digest \<Rightarrow> digest option) \<Rightarrow> run_host \<Rightarrow> exc option \<times> run_host \<times> run_view list" where
  "scan_answered_waits cfg vs current answered h =
     (let h = (case h_wait_through h of
                 None \<Rightarrow> h\<lparr>h_wait_through := latest_run_key vs [Parked], h_wait_after := None\<rparr>
               | Some _ \<Rightarrow> h)
      in case h_wait_through h of
           None \<Rightarrow> (None, h, [])
         | Some through \<Rightarrow> scan_wait_pages (resume_pages_per_tick cfg) cfg vs current answered through h)"

section \<open>The pump\<close>

record host_world =
  w_store :: control_store
  w_decoder :: resume_decoder
  w_runs :: "run_view list"
  w_current :: "run_view list"
  w_answered :: "digest \<Rightarrow> digest option"

text \<open>One turn of \<^verbatim>\<open>_pump\<close>: a scan that raises stops the pump, and what it did before stays done.\<close>

definition pump_tick :: "host_config \<Rightarrow> host_world \<Rightarrow> int \<Rightarrow> run_host \<Rightarrow> exc option \<times> run_host" where
  "pump_tick cfg w now h =
     (if h_closed h then (None, h)
      else case scan_committed_resumes cfg (w_store w) (w_decoder w) h of
        (Some e, h, _) \<Rightarrow> (Some e, h)
      | (None, h, _) \<Rightarrow>
          (case scan_answered_waits cfg (w_runs w) (w_current w) (w_answered w) h of
             (Some e, h, _) \<Rightarrow> (Some e, h)
           | (None, h, _) \<Rightarrow> (None, fst (fill_capacity cfg (w_runs w) now h))))"

text \<open>
  \<^verbatim>\<open>_abandon_local_state\<close> cancels every worker it records and forgets the local state; \<^verbatim>\<open>shutdown\<close> also closes the host. The
  cancelled workers are awaited, so their callbacks have run.
\<close>

definition abandon_local_state :: "run_host \<Rightarrow> run_host" where
  "abandon_local_state h = h\<lparr>h_workers := filter (\<lambda>(w, run). w \<notin> set (dict_values (h_tasks h))) (h_workers h),
     h_tasks := [], h_requested := [], h_explicit := [], h_retry_at := [], h_deferred := [],
     h_resume_through := None, h_resume_after := None, h_wait_through := None, h_wait_after := None\<rparr>"

definition shutdown :: "run_host \<Rightarrow> run_host" where
  "shutdown h = abandon_local_state (h\<lparr>h_closed := True\<rparr>)"

definition abort_startup :: "run_host \<Rightarrow> exc + run_host" where
  "abort_startup h = (if h_closed h then Inl (Raised ''RuntimeError'' ''RunHost is closed'') else Inr (abandon_local_state h))"

end
