(* ===== verification/Paging.thy ===== *)
theory Paging
  imports Prelude
begin

text \<open>
  Keyset pages. A paged read takes the last key already seen, the last key of the snapshot and a limit, and
  returns the first rows in between in key order. \<open>paged\<close> is the contract of such a read; what a client needs of it,
  that following the last key of a page continues exactly where the page ended and that a short page is the last one, is proved once here.
\<close>

locale paged =
  fixes ok :: "'s \<Rightarrow> bool"
    and rows :: "'s \<Rightarrow> 'r list"
    and key :: "'r \<Rightarrow> 'k :: linorder"
    and page :: "'s \<Rightarrow> 'k option \<Rightarrow> 'k \<Rightarrow> int \<Rightarrow> 'e + 'r list"
  assumes rows_sorted: "ok s \<Longrightarrow> sorted (map key (rows s))"
    and rows_distinct: "ok s \<Longrightarrow> distinct (map key (rows s))"
    and page_cut: "ok s \<Longrightarrow> 0 < n \<Longrightarrow> page s after through n =
      Inr (take (nat n) (filter (\<lambda>r. key r \<le> through \<and> (case after of None \<Rightarrow> True | Some k \<Rightarrow> k < key r)) (rows s)))"
begin

definition left :: "'s \<Rightarrow> 'k option \<Rightarrow> 'k \<Rightarrow> 'r list" where
  "left s after through = filter (\<lambda>r. key r \<le> through \<and> (case after of None \<Rightarrow> True | Some k \<Rightarrow> k < key r)) (rows s)"

lemma page_left: "ok s \<Longrightarrow> 0 < n \<Longrightarrow> page s after through n = Inr (take (nat n) (left s after through))"
  using page_cut by (simp add: left_def)

lemma left_sorted: "ok s \<Longrightarrow> sorted (map key (left s after through)) \<and> distinct (map key (left s after through))"
  using rows_sorted rows_distinct unfolding left_def by (simp add: sorted_filter distinct_map_filter)

lemma left_from:
  assumes "ok s" "r \<in> set (left s after through)"
  shows "left s (Some (key r)) through = filter (\<lambda>x. key r < key x) (left s after through)"
proof -
  have "case after of None \<Rightarrow> True | Some k \<Rightarrow> k < key r" using assms(2) by (simp add: left_def)
  then show ?thesis unfolding left_def filter_filter
    by (intro filter_cong refl) (auto split: option.splits dest: less_trans)
qed

lemma sorted_filter_above:
  assumes "sorted (map key xs)" "distinct (map key xs)" "0 < n" "n \<le> length xs"
  shows "filter (\<lambda>x. key (xs ! (n - 1)) < key x) xs = drop n xs"
proof -
  let ?k = "key (xs ! (n - 1))"
  have sd: "sorted_wrt (<) (map key xs)" using assms(1,2) by (simp add: strict_sorted_iff)
  have below: "filter (\<lambda>x. ?k < key x) (take n xs) = []"
  proof (rule filter_False, rule ballI)
    fix x assume "x \<in> set (take n xs)"
    then obtain i where i: "i < n" "x = xs ! i" using assms(4) by (auto simp: in_set_conv_nth)
    have "map key xs ! i \<le> map key xs ! (n - 1)"
      by (rule sorted_nth_mono [OF assms(1)]) (use i assms(3,4) in auto)
    then show "\<not> ?k < key x" using i assms(4) by simp
  qed
  have above: "filter (\<lambda>x. ?k < key x) (drop n xs) = drop n xs"
  proof (rule filter_True, rule ballI)
    fix x assume "x \<in> set (drop n xs)"
    then obtain i where i: "n \<le> i" "i < length xs" "x = xs ! i"
      by (auto simp: in_set_conv_nth) (metis le_add1 add.commute less_diff_conv)
    have "map key xs ! (n - 1) < map key xs ! i"
      by (rule sorted_wrt_nth_less [OF sd]) (use i assms(3) in auto)
    then show "?k < key x" using i assms(3) by simp
  qed
  have "filter (\<lambda>x. ?k < key x) xs = filter (\<lambda>x. ?k < key x) (take n xs @ drop n xs)" by simp
  also have "\<dots> = drop n xs" unfolding filter_append below above by simp
  finally show ?thesis .
qed

text \<open>The page after the last key of a page is the continuation.\<close>

lemma left_next:
  assumes "ok s" "0 < n" "take n (left s after through) \<noteq> []"
  shows "left s (Some (key (last (take n (left s after through))))) through = drop n (left s after through)"
proof -
  let ?l = "left s after through"
  let ?m = "min n (length ?l)"
  have m: "0 < ?m" "?m \<le> length ?l" "take n ?l = take ?m ?l" "drop n ?l = drop ?m ?l" using assms(2,3) by (auto simp: min_def)
  have last: "last (take n ?l) = ?l ! (?m - 1)" using assms(2,3) by (subst last_conv_nth) (auto simp: min_def)
  have "?l ! (?m - 1) \<in> set ?l" by (rule nth_mem) (use m(1,2) in linarith)
  then have "left s (Some (key (last (take n ?l)))) through = filter (\<lambda>x. key (?l ! (?m - 1)) < key x) ?l"
    using left_from [OF assms(1)] last by simp
  also have "\<dots> = drop ?m ?l"
    using left_sorted [OF assms(1)] by (intro sorted_filter_above m) auto
  finally show ?thesis using m(4) by simp
qed

lemma short_page: "ok s \<Longrightarrow> length (take n (left s after through)) < n \<Longrightarrow> take n (left s after through) = left s after through"
  by simp

text \<open>When the last key of a page reaches the end of the cut, nothing is left.\<close>

lemma left_done: "ok s \<Longrightarrow> through \<le> k \<Longrightarrow> left s (Some k) through = []"
  unfolding left_def by (auto simp: filter_empty_conv)

end

end
