(* ===== verification/Host_Laws.thy ===== *)
theory Host_Laws
  imports Run_Host Paging
begin

text \<open>
  Laws of the run host. Its two paged sources, the ledger's command records and the journal's run records, are
  interpretations of \<open>paged\<close>; from them follow that the recovery batch does not depend on the page size, and that a
  resume scan that comes to its end, over however many ticks and whatever the ledger did meanwhile, has examined
  every command that was concluded when it began. The state machine of the host is \<open>host_step\<close>.
\<close>

section \<open>Supersession\<close>

lemma supersedes_irrefl [simp]: "\<not> supersedes i i"
  by (simp add: supersedes_def)

lemma supersedes_trans: "supersedes a b \<Longrightarrow> supersedes b c \<Longrightarrow> supersedes a c"
  by (cases "expected_event_seq a"; cases "expected_event_seq b"; cases "expected_event_seq c")
     (auto simp: supersedes_def split: if_splits)

lemma supersedes_asym: "supersedes a b \<Longrightarrow> \<not> supersedes b a"
  using supersedes_trans supersedes_irrefl by blast

section \<open>The ledger as a paged source\<close>

definition ledger_rows :: "string \<Rightarrow> control_store \<Rightarrow> command_record list" where
  "ledger_rows operation s = sort_key command_key (filter (\<lambda>r. cmd_operation r = operation) (dict_values (commands s)))"

lemma ok_row:
  assumes "ledger_ok sha s" "r \<in> set (dict_values (commands s))"
  shows "dict_get (commands s) (cmd_id r) = Some r \<and> record_ok sha (cmd_id r) r"
proof -
  obtain c where c: "(c, r) \<in> set (commands s)" using assms(2) by auto
  then have "dict_get (commands s) c = Some r" using assms(1) by (simp add: ledger_ok_def)
  then show ?thesis using assms(1) by (auto simp: ledger_ok_def record_ok_def)
qed

lemma detached_all_ok:
  assumes "\<And>r. r \<in> set rs \<Longrightarrow> concluded r \<longrightarrow> cmd_plan r \<noteq> JNull"
  shows "detached_all rs = Inr rs"
  using assms by (induction rs) (auto simp: detached_command_def)

lemma ledger_values_ids:
  assumes "ledger_ok sha s"
  shows "map cmd_id (dict_values (commands s)) = dict_keys (commands s)"
proof -
  have "cmd_id r = c" if "(c, r) \<in> set (commands s)" for c r
    using that assms by (auto simp: ledger_ok_def record_ok_def)
  then show ?thesis by auto
qed

lemma distinct_command_keys:
  assumes "ledger_ok sha s"
  shows "distinct (map command_key (dict_values (commands s)))"
proof -
  have "map snd (map command_key (dict_values (commands s))) = dict_keys (commands s)"
    using ledger_values_ids [OF assms] by (simp add: command_key_def comp_def)
  then show ?thesis using assms by (metis distinct_map ledger_ok_def)
qed

interpretation ledger_pages: paged "ledger_ok sha" "ledger_rows operation" command_key "\<lambda>s. command_records s operation" for sha operation
proof
  fix s n after through
  assume ok: "ledger_ok sha s"
  show "sorted (map command_key (ledger_rows operation s))" by (simp add: ledger_rows_def)
  have "distinct (map command_key (filter (\<lambda>r. cmd_operation r = operation) (dict_values (commands s))))"
    using distinct_command_keys [OF ok] by (rule distinct_map_filter)
  then show "distinct (map command_key (ledger_rows operation s))"
    by (simp add: ledger_rows_def distinct_map)
  assume n: "(0 :: int) < n"
  have plan: "concluded r \<longrightarrow> cmd_plan r \<noteq> JNull" if "r \<in> set (dict_values (commands s))" for r
    using ok_row [OF ok that] unfolding record_ok_def by metis
  have all: "detached_all (take (nat n) xs) = Inr (take (nat n) xs)" if "set xs \<subseteq> set (dict_values (commands s))" for xs
    by (rule detached_all_ok) (meson that plan in_set_takeD subsetD)
  show "command_records s operation after through n = Inr (take (nat n)
      (filter (\<lambda>r. command_key r \<le> through \<and> (case after of None \<Rightarrow> True | Some k \<Rightarrow> k < command_key r)) (ledger_rows operation s)))"
    unfolding ledger_rows_def filter_sort filter_filter
    using n by (simp add: command_records_def page_def in_cut_def all)
qed

section \<open>A completed scan misses no concluded resume\<close>

lemma visit_resumes_done:
  assumes "visit_resumes decoder rs h = (None, h', seen)"
  shows "h_resume_through h' = h_resume_through h"
    and "h_resume_after h' = (if rs = [] then h_resume_after h else Some (command_key (last rs)))"
    and "\<forall>r \<in> set rs. cmd_state r \<noteq> Prepared \<longrightarrow> r \<in> set seen"
proof -
  have cut: "h_resume_through h' = h_resume_through h \<and> h_resume_after h' = h_resume_after h" if "launch run i h = Inr (d, h')" for run i h d h'
    using that by (auto simp: launch_def accept_def split: if_splits option.splits)
  have "h_resume_through h' = h_resume_through h
      \<and> h_resume_after h' = (if rs = [] then h_resume_after h else Some (command_key (last rs)))
      \<and> (\<forall>r \<in> set rs. cmd_state r \<noteq> Prepared \<longrightarrow> r \<in> set seen)"
    using assms
  proof (induction decoder rs h arbitrary: h' seen rule: visit_resumes.induct)
    case (2 decoder r rs h)
    let ?h = "h\<lparr>h_resume_after := Some (command_key r)\<rparr>"
    show ?case
    proof (cases "cmd_state r = Prepared")
      case True
      then show ?thesis using 2(1) [OF refl True] 2(4) by (auto split: if_splits)
    next
      case False
      note IH = 2(2,3) [OF refl False]
      show ?thesis
      proof (cases "decoder r")
        case (Inl e)
        then show ?thesis using 2(4) False by simp
      next
        case (Inr x)
        show ?thesis
        proof (cases x)
          case None
          obtain seen2 where v: "visit_resumes decoder rs ?h = (None, h', seen2)" "seen = r # seen2"
            using 2(4) False Inr None by (auto split: prod.splits)
          show ?thesis using IH(1) [OF Inr None v(1)] v(2) by (auto split: if_splits)
        next
          case (Some y)
          obtain run b c where y: "y = (run, b, c)" by (cases y)
          let ?i = "\<lparr>expected_event_seq = Some b, allowed_statuses = set RESUMABLE_RUN_STATUSES, intent_cause = Some (ResumeCommandCause c)\<rparr>"
          show ?thesis
          proof (cases "launch run ?i ?h")
            case (Inl e)
            then show ?thesis using 2(4) False Inr Some y by simp
          next
            case (Inr z)
            obtain d h2 where z: "z = (d, h2)" by (cases z)
            obtain seen2 where v: "visit_resumes decoder rs h2 = (None, h', seen2)" "seen = r # seen2"
              using 2(4) False \<open>decoder r = Inr x\<close> Some y Inr z by (auto split: prod.splits)
            show ?thesis
              using IH(2) [OF \<open>decoder r = Inr x\<close> Some y [symmetric] refl Inr z [symmetric] v(1)] cut [OF Inr [unfolded z]] v(2)
              by (auto split: if_splits)
          qed
        qed
      qed
    qed
  qed simp
  then show "h_resume_through h' = h_resume_through h"
    "h_resume_after h' = (if rs = [] then h_resume_after h else Some (command_key (last rs)))"
    "\<forall>r \<in> set rs. cmd_state r \<noteq> Prepared \<longrightarrow> r \<in> set seen" by blast+
qed

abbreviation resumes_left :: "control_store \<Rightarrow> command_key option \<Rightarrow> command_key \<Rightarrow> command_record list" where
  "resumes_left \<equiv> paged.left (ledger_rows ''runs_resume'') command_key"

lemma resumes_left_mem:
  "r \<in> set (resumes_left s after through) \<longleftrightarrow> r \<in> set (ledger_rows ''runs_resume'' s) \<and> command_key r \<le> through
     \<and> (case after of None \<Rightarrow> True | Some k \<Rightarrow> k < command_key r)"
  by (auto simp: ledger_pages.left_def)

text \<open>
  One tick's pages: a concluded record of the cut that is still to come is examined, or still to come when the tick ends.
\<close>

lemma scan_pages_examine:
  assumes "ledger_ok sha s" "0 < recovery_page_size cfg" "h_resume_through h = Some through"
    and "scan_resume_pages n cfg s decoder through h = (None, h', seen)"
    and "r \<in> set (resumes_left s (h_resume_after h) through)" "cmd_state r \<noteq> Prepared"
  shows "r \<in> set seen \<or> (h_resume_through h' = Some through \<and> r \<in> set (resumes_left s (h_resume_after h') through))"
  using assms(3-6)
proof (induction n arbitrary: h seen)
  case (Suc n)
  let ?l = "resumes_left s (h_resume_after h) through"
  let ?n = "nat (recovery_page_size cfg)"
  have page: "command_records s ''runs_resume'' (h_resume_after h) through (recovery_page_size cfg) = Inr (take ?n ?l)"
    using ledger_pages.page_left [OF assms(1,2)] by simp
  have ne: "take ?n ?l \<noteq> []" using Suc.prems(3) assms(2) by auto
  obtain h1 seen1 where v: "visit_resumes decoder (take ?n ?l) h = (None, h1, seen1)"
    using Suc.prems(2) page ne by (auto split: prod.splits option.splits)
  note vd = visit_resumes_done [OF v]
  have after1: "h_resume_after h1 = Some (command_key (last (take ?n ?l)))" using vd(2) ne by simp
  have left1: "resumes_left s (h_resume_after h1) through = drop ?n ?l"
    unfolding after1 by (rule ledger_pages.left_next [OF assms(1) _ ne]) (use assms(2) in simp)
  let ?last = "int (length (take ?n ?l)) < recovery_page_size cfg \<or> (case h_resume_after h1 of None \<Rightarrow> False | Some k \<Rightarrow> through \<le> k)"
  show ?case
  proof (cases "r \<in> set (take ?n ?l)")
    case True
    then have "r \<in> set seen1" using vd(3) Suc.prems(4) by blast
    moreover have "set seen1 \<subseteq> set seen"
      using Suc.prems(2) page ne v by (auto split: prod.splits if_splits)
    ultimately show ?thesis by blast
  next
    case False
    then have d: "r \<in> set (drop ?n ?l)" using Suc.prems(3) by (metis append_take_drop_id in_set_conv_decomp set_append Un_iff)
    have "\<not> ?last"
    proof
      assume ?last
      then consider "int (length (take ?n ?l)) < recovery_page_size cfg" | "through \<le> command_key (last (take ?n ?l))"
        using after1 by auto
      then have "drop ?n ?l = []"
      proof cases
        case 2
        from ledger_pages.left_done [OF assms(1) this] show ?thesis using left1 after1 by metis
      qed (use assms(2) in auto)
      then show False using d by simp
    qed
    then obtain h2 later where s2: "scan_resume_pages n cfg s decoder through h1 = (None, h', later)" "seen = seen1 @ later"
      using Suc.prems(2) page ne v by (auto split: prod.splits)
    have "r \<in> set later \<or> (h_resume_through h' = Some through \<and> r \<in> set (resumes_left s (h_resume_after h') through))"
      by (rule Suc.IH [OF _ s2(1)]) (use vd(1) Suc.prems(1,4) left1 d in simp_all)
    then show ?thesis using s2(2) by auto
  qed
qed simp

text \<open>The cut of a scan ends at the last command of the operation.\<close>

lemma fold_max_ge: "x \<in> set (k # ks) \<Longrightarrow> x \<le> fold max ks (k :: 'a :: linorder)"
  by (metis List.finite_set Max.set_eq_fold Max_ge)

lemma latest_covers:
  assumes "r \<in> set (ledger_rows operation s)"
  shows "\<exists>k. latest_command_key s operation = Some k \<and> command_key r \<le> k"
proof -
  let ?ks = "map command_key (filter (\<lambda>r. cmd_operation r = operation) (dict_values (commands s)))"
  have "command_key r \<in> set ?ks" using assms by (auto simp: ledger_rows_def)
  moreover from this obtain k ks where "?ks = k # ks" by (cases ?ks) auto
  ultimately show ?thesis using fold_max_ge [of "command_key r" k ks] by (simp add: latest_command_key_def)
qed

lemma ledger_row_mem:
  assumes "ledger_ok sha s"
  shows "r \<in> set (ledger_rows operation s) \<longleftrightarrow> dict_get (commands s) (cmd_id r) = Some r \<and> cmd_operation r = operation"
  using ok_row [OF assms, of r] by (auto simp: ledger_rows_def dest: map_of_SomeD intro: rev_image_eqI)

text \<open>A concluded command stays in the ledger's rows.\<close>

lemma concluded_row_stays:
  assumes "ledger_trace sha s t" "ledger_ok sha s" "r \<in> set (ledger_rows operation s)" "cmd_state r \<noteq> Prepared"
  shows "r \<in> set (ledger_rows operation t)"
  using assms concluded_stays [OF assms(1), of "cmd_id r" r] trace_ok [OF assms(1,2)]
  by (metis ledger_row_mem not_concluded)

text \<open>
  A scan over several ticks. It begins with a tick that finds no cut, goes on while a cut is kept, and between its ticks the ledger
  runs on and the host does whatever leaves the cut alone; \<open>seen\<close> is what its ticks have handed to the decoder.
\<close>

inductive resume_scan ::
  "(nat list \<Rightarrow> string) \<Rightarrow> host_config \<Rightarrow> resume_decoder \<Rightarrow> control_store \<Rightarrow> control_store \<Rightarrow> run_host \<Rightarrow> command_record list \<Rightarrow> bool"
  for sha cfg decoder s\<^sub>0 where
  begins: "h_resume_through h = None \<Longrightarrow> scan_committed_resumes cfg s\<^sub>0 decoder h = (None, h', seen)
      \<Longrightarrow> resume_scan sha cfg decoder s\<^sub>0 s\<^sub>0 h' seen"
| ticks: "resume_scan sha cfg decoder s\<^sub>0 s h seen \<Longrightarrow> h_resume_through h \<noteq> None
      \<Longrightarrow> scan_committed_resumes cfg s decoder h = (None, h', later) \<Longrightarrow> resume_scan sha cfg decoder s\<^sub>0 s h' (seen @ later)"
| ledger_moves: "resume_scan sha cfg decoder s\<^sub>0 s h seen \<Longrightarrow> ledger_step sha s t \<Longrightarrow> resume_scan sha cfg decoder s\<^sub>0 t h seen"
| host_moves: "resume_scan sha cfg decoder s\<^sub>0 s h seen \<Longrightarrow> h_resume_through h' = h_resume_through h \<Longrightarrow> h_resume_after h' = h_resume_after h
      \<Longrightarrow> resume_scan sha cfg decoder s\<^sub>0 s h' seen"

lemma resume_scan_progress:
  assumes "resume_scan sha cfg decoder s\<^sub>0 s h seen" "ledger_ok sha s\<^sub>0" "0 < recovery_page_size cfg"
    and "r \<in> set (ledger_rows ''runs_resume'' s\<^sub>0)" "cmd_state r \<noteq> Prepared"
  shows "ledger_trace sha s\<^sub>0 s \<and> (r \<in> set seen \<or> (\<exists>through. h_resume_through h = Some through
      \<and> r \<in> set (resumes_left s (h_resume_after h) through)))"
  using assms(1)
proof induction
  case (begins h h' seen)
  obtain k where k: "latest_command_key s\<^sub>0 ''runs_resume'' = Some k" "command_key r \<le> k" using latest_covers [OF assms(4)] by blast
  let ?h = "h\<lparr>h_resume_through := Some k, h_resume_after := None\<rparr>"
  have "scan_resume_pages (resume_pages_per_tick cfg) cfg s\<^sub>0 decoder k ?h = (None, h', seen)"
    using begins k(1) by (simp add: scan_committed_resumes_def)
  moreover have "r \<in> set (resumes_left s\<^sub>0 (h_resume_after ?h) k)" using k(2) assms(4) by (simp add: resumes_left_mem)
  ultimately have "r \<in> set seen \<or> (h_resume_through h' = Some k \<and> r \<in> set (resumes_left s\<^sub>0 (h_resume_after h') k))"
    using scan_pages_examine [OF assms(2,3), of ?h k "resume_pages_per_tick cfg" decoder h' seen r] assms(5) by simp
  then show ?case by blast
next
  case (ticks s h seen h' later)
  then obtain k where k: "h_resume_through h = Some k" by blast
  then have "scan_resume_pages (resume_pages_per_tick cfg) cfg s decoder k h = (None, h', later)"
    using ticks by (simp add: scan_committed_resumes_def)
  then have "r \<in> set later \<or> (h_resume_through h' = Some k \<and> r \<in> set (resumes_left s (h_resume_after h') k))"
    if "r \<in> set (resumes_left s (h_resume_after h) k)"
    using scan_pages_examine [OF trace_ok [OF conjunct1 [OF ticks.IH] assms(2)] assms(3) k _ that assms(5)] by blast
  then show ?case using ticks.IH k by (cases k) auto
next
  case (ledger_moves s h seen t)
  have t: "ledger_trace sha s\<^sub>0 t" using ledger_moves by (meson rtranclp.rtrancl_into_rtrancl)
  have "r \<in> set (ledger_rows ''runs_resume'' t)" by (rule concluded_row_stays [OF t assms(2,4,5)])
  then show ?case using t ledger_moves.IH by (auto simp: resumes_left_mem)
next
  case (host_moves s h seen h')
  then show ?case by simp
qed

text \<open>
  C21. A resume scan that comes to its end has missed nothing. Whatever the page size and the number of pages a tick may read, over
  however many ticks the scan stretched, and whatever commands were claimed, planned and concluded meanwhile, when the host lets go of the cut every resume command
  that was concluded when the scan began has been handed to the decoder.
\<close>

theorem completed_scan_examined_every_resume:
  assumes "reachable_store sha s\<^sub>0" "0 < recovery_page_size cfg" "resume_scan sha cfg decoder s\<^sub>0 s h seen" "h_resume_through h = None"
    and "dict_get (commands s\<^sub>0) c = Some r" "cmd_operation r = ''runs_resume''" "cmd_state r \<noteq> Prepared"
  shows "r \<in> set seen"
proof -
  have ok: "ledger_ok sha s\<^sub>0" using ledger_reachable_ok [OF assms(1)] .
  have "r \<in> set (ledger_rows ''runs_resume'' s\<^sub>0)"
    using ledger_row_mem [OF ok] reachable_record [OF assms(1,5)] assms(5,6) by (simp add: record_ok_def)
  from resume_scan_progress [OF assms(3) ok assms(2) this assms(7)] show ?thesis using assms(4) by simp
qed

subsection \<open>And every scan comes to its end\<close>

lemma launch_open: "\<not> h_closed h \<Longrightarrow> \<exists>d h'. launch run i h = Inr (d, h') \<and> \<not> h_closed h'"
  by (auto simp: launch_def accept_def split: option.splits)

lemma visit_resumes_total:
  assumes "\<forall>r. \<not> isl (decoder r)" "\<not> h_closed h"
  shows "\<exists>h' seen. visit_resumes decoder rs h = (None, h', seen) \<and> \<not> h_closed h'"
  using assms(2)
proof (induction rs arbitrary: h)
  case (Cons r rs)
  let ?h = "h\<lparr>h_resume_after := Some (command_key r)\<rparr>"
  have open': "\<not> h_closed ?h" using Cons.prems by simp
  obtain x where x: "decoder r = Inr x" using assms(1) by (cases "decoder r") (auto dest: spec [of _ r])
  show ?case
  proof (cases "cmd_state r = Prepared \<or> x = None")
    case True
    obtain h' seen where "visit_resumes decoder rs ?h = (None, h', seen)" "\<not> h_closed h'" using Cons.IH [OF open'] by blast
    then show ?thesis using True x by (auto simp: Let_def)
  next
    case False
    then obtain run b c where y: "x = Some (run, b, c)" by (metis option.exhaust prod_cases3)
    obtain d h1 where l: "launch run \<lparr>expected_event_seq = Some b, allowed_statuses = set RESUMABLE_RUN_STATUSES,
        intent_cause = Some (ResumeCommandCause c)\<rparr> ?h = Inr (d, h1)" "\<not> h_closed h1" using launch_open [OF open'] by blast
    obtain h' seen where "visit_resumes decoder rs h1 = (None, h', seen)" "\<not> h_closed h'" using Cons.IH [OF l(2)] by blast
    then show ?thesis using False x y l(1) by simp
  qed
qed simp

lemma scan_pages_progress:
  assumes "ledger_ok sha s" "0 < recovery_page_size cfg" "\<forall>r. \<not> isl (decoder r)"
    and "h_resume_through h = Some through" "\<not> h_closed h"
  shows "\<exists>h' seen. scan_resume_pages n cfg s decoder through h = (None, h', seen) \<and> \<not> h_closed h'
    \<and> (h_resume_through h' = None \<or> (h_resume_through h' = Some through
        \<and> length (resumes_left s (h_resume_after h') through) + (if n = 0 then 0 else 1) \<le> length (resumes_left s (h_resume_after h) through)))"
  using assms(4,5)
proof (induction n arbitrary: h)
  case (Suc n)
  let ?l = "resumes_left s (h_resume_after h) through"
  let ?n = "nat (recovery_page_size cfg)"
  have page: "command_records s ''runs_resume'' (h_resume_after h) through (recovery_page_size cfg) = Inr (take ?n ?l)"
    using ledger_pages.page_left [OF assms(1,2)] by simp
  show ?case
  proof (cases "take ?n ?l = []")
    case True
    then show ?thesis using page Suc.prems by (simp add: resume_reset_def)
  next
    case False
    obtain h1 seen1 where v: "visit_resumes decoder (take ?n ?l) h = (None, h1, seen1)" "\<not> h_closed h1"
      using visit_resumes_total [OF assms(3) Suc.prems(2)] by blast
    note vd = visit_resumes_done [OF v(1)]
    have left1: "resumes_left s (h_resume_after h1) through = drop ?n ?l"
      using vd(2) False ledger_pages.left_next [OF assms(1) _ False] assms(2) by simp
    then have shorter: "length (resumes_left s (h_resume_after h1) through) < length ?l" using False assms(2) by auto
    let ?last = "int (length (take ?n ?l)) < recovery_page_size cfg \<or> (case h_resume_after h1 of None \<Rightarrow> False | Some k \<Rightarrow> through \<le> k)"
    show ?thesis
    proof (cases ?last)
      case True
      then show ?thesis using page False v by (simp add: resume_reset_def)
    next
      case more: False
      have "h_resume_through h1 = Some through" using vd(1) Suc.prems(1) by simp
      from Suc.IH [OF this v(2)] obtain h' later where r: "scan_resume_pages n cfg s decoder through h1 = (None, h', later)" "\<not> h_closed h'"
        "h_resume_through h' = None \<or> (h_resume_through h' = Some through
          \<and> length (resumes_left s (h_resume_after h') through) \<le> length (resumes_left s (h_resume_after h1) through))"
        by (auto split: if_splits)
      have "scan_resume_pages (Suc n) cfg s decoder through h = (None, h', seen1 @ later)"
        using page False v more r(1) by simp
      then show ?thesis using r(2,3) shorter by auto
    qed
  qed
qed simp

text \<open>
  What a scan still has before it: everything when it has no cut, otherwise the commands of the cut after the last one examined. Each tick of an open host makes it shorter
  or lets go of the cut, and loses no concluded command on the way.
\<close>

definition scan_left :: "control_store \<Rightarrow> run_host \<Rightarrow> command_record list" where
  "scan_left s h = (case h_resume_through h of None \<Rightarrow> ledger_rows ''runs_resume'' s
     | Some through \<Rightarrow> resumes_left s (h_resume_after h) through)"

lemma scan_left_cong: "h_resume_through h' = h_resume_through h \<Longrightarrow> h_resume_after h' = h_resume_after h \<Longrightarrow> scan_left s h' = scan_left s h"
  by (simp only: scan_left_def)

lemma scan_left_bounded: "length (scan_left s h) \<le> length (ledger_rows ''runs_resume'' s)"
  by (auto simp: scan_left_def ledger_pages.left_def split: option.split)

lemma cut_tick:
  assumes "ledger_ok sha s" "0 < recovery_page_size cfg" "0 < resume_pages_per_tick cfg" "\<forall>r. \<not> isl (decoder r)"
    and "\<not> h_closed h" "h_resume_through h = Some through"
  shows "\<exists>h' seen. scan_resume_pages (resume_pages_per_tick cfg) cfg s decoder through h = (None, h', seen) \<and> \<not> h_closed h'
    \<and> (h_resume_through h' \<noteq> None \<longrightarrow> length (scan_left s h') < length (scan_left s h))
    \<and> (\<forall>r \<in> set (scan_left s h). cmd_state r \<noteq> Prepared \<longrightarrow> r \<in> set seen \<or> h_resume_through h' \<noteq> None \<and> r \<in> set (scan_left s h'))"
proof -
  obtain h' seen where r: "scan_resume_pages (resume_pages_per_tick cfg) cfg s decoder through h = (None, h', seen)" "\<not> h_closed h'"
    "h_resume_through h' = None \<or> (h_resume_through h' = Some through
       \<and> length (resumes_left s (h_resume_after h') through) < length (resumes_left s (h_resume_after h) through))"
    using scan_pages_progress [OF assms(1,2,4,6,5), of "resume_pages_per_tick cfg"] assms(3) by fastforce
  have "r \<in> set seen \<or> h_resume_through h' \<noteq> None \<and> r \<in> set (scan_left s h')" if "r \<in> set (scan_left s h)" "cmd_state r \<noteq> Prepared" for r
    using scan_pages_examine [OF assms(1,2,6) r(1), of r] that assms(6) by (auto simp: scan_left_def)
  then show ?thesis using r assms(6) by (auto simp: scan_left_def)
qed

lemma scan_tick:
  assumes "ledger_ok sha s" "0 < recovery_page_size cfg" "0 < resume_pages_per_tick cfg" "\<forall>r. \<not> isl (decoder r)" "\<not> h_closed h"
  shows "\<exists>h' seen. scan_committed_resumes cfg s decoder h = (None, h', seen) \<and> \<not> h_closed h'
    \<and> (h_resume_through h' \<noteq> None \<longrightarrow> length (scan_left s h') < length (scan_left s h))
    \<and> (\<forall>r \<in> set (scan_left s h). cmd_state r \<noteq> Prepared \<longrightarrow> r \<in> set seen \<or> h_resume_through h' \<noteq> None \<and> r \<in> set (scan_left s h'))"
proof (cases "h_resume_through h")
  case (Some through)
  from cut_tick [OF assms Some] show ?thesis by (simp add: scan_committed_resumes_def Some)
next
  case None
  show ?thesis
  proof (cases "latest_command_key s ''runs_resume''")
    case fresh: None
    then have "ledger_rows ''runs_resume'' s = []" using latest_covers by (metis all_not_in_conv option.distinct(1) set_empty)
    then show ?thesis using None fresh assms(5) by (simp add: scan_committed_resumes_def scan_left_def)
  next
    case (Some through)
    let ?h = "h\<lparr>h_resume_through := Some through, h_resume_after := None\<rparr>"
    have "resumes_left s None through = ledger_rows ''runs_resume'' s"
      using latest_covers Some by (fastforce simp: ledger_pages.left_def filter_id_conv)
    then have "scan_left s ?h = scan_left s h" using None by (simp add: scan_left_def)
    then show ?thesis
      using cut_tick [OF assms(1-4), of ?h through] assms(5) None Some by (simp add: scan_committed_resumes_def)
  qed
qed

text \<open>
  The resume scans of a pump that turns until the cut is let go, at most \<open>n\<close> times. Before its k-th turn the host does \<open>others k\<close>:
  it launches, its workers end, it fills its capacity.
\<close>

primrec scan_ticks :: "nat \<Rightarrow> (nat \<Rightarrow> run_host \<Rightarrow> run_host) \<Rightarrow> host_config \<Rightarrow> control_store \<Rightarrow> resume_decoder \<Rightarrow> run_host
    \<Rightarrow> exc option \<times> run_host \<times> command_record list" where
  "scan_ticks 0 others cfg s decoder h = (None, h, [])"
| "scan_ticks (Suc n) others cfg s decoder h =
     (case scan_committed_resumes cfg s decoder (others n h) of
        (Some e, h, seen) \<Rightarrow> (Some e, h, seen)
      | (None, h, seen) \<Rightarrow>
          if h_resume_through h = None then (None, h, seen)
          else case scan_ticks n others cfg s decoder h of (e, h, later) \<Rightarrow> (e, h, seen @ later))"

lemma scan_ticks_done:
  assumes "ledger_ok sha s" "0 < recovery_page_size cfg" "0 < resume_pages_per_tick cfg" "\<forall>r. \<not> isl (decoder r)" "\<not> h_closed h"
    and "\<forall>k h. h_resume_through (others k h) = h_resume_through h \<and> h_resume_after (others k h) = h_resume_after h \<and> h_closed (others k h) = h_closed h"
    and "length (scan_left s h) < n"
  shows "\<exists>h' seen. scan_ticks n others cfg s decoder h = (None, h', seen) \<and> \<not> h_closed h' \<and> h_resume_through h' = None
    \<and> (\<forall>r \<in> set (scan_left s h). cmd_state r \<noteq> Prepared \<longrightarrow> r \<in> set seen)"
  using assms(5,7)
proof (induction n arbitrary: h)
  case (Suc n)
  have o: "\<not> h_closed (others n h)" "scan_left s (others n h) = scan_left s h"
    using assms(6) Suc.prems(1) scan_left_cong [of "others n h" h s] by simp_all
  obtain h1 seen1 where t: "scan_committed_resumes cfg s decoder (others n h) = (None, h1, seen1)" "\<not> h_closed h1"
    "h_resume_through h1 \<noteq> None \<longrightarrow> length (scan_left s h1) < length (scan_left s h)"
    "\<forall>r \<in> set (scan_left s h). cmd_state r \<noteq> Prepared \<longrightarrow> r \<in> set seen1 \<or> h_resume_through h1 \<noteq> None \<and> r \<in> set (scan_left s h1)"
    using scan_tick [OF assms(1-4) o(1)] unfolding o(2) by blast
  show ?case
  proof (cases "h_resume_through h1 = None")
    case True
    then show ?thesis using t by simp
  next
    case False
    then have "length (scan_left s h1) < n" using t(3) Suc.prems(2) by simp
    from Suc.IH [OF t(2) this] obtain h' seen where h': "scan_ticks n others cfg s decoder h1 = (None, h', seen)" "\<not> h_closed h'"
      "h_resume_through h' = None" and rest: "\<forall>r \<in> set (scan_left s h1). cmd_state r \<noteq> Prepared \<longrightarrow> r \<in> set seen" by blast
    have "scan_ticks (Suc n) others cfg s decoder h = (None, h', seen1 @ seen)" using h'(1) t(1) False by auto
    moreover have "r \<in> set (seen1 @ seen)" if "r \<in> set (scan_left s h)" "cmd_state r \<noteq> Prepared" for r
      using t(4) that rest by auto
    ultimately show ?thesis using h' by blast
  qed
qed simp

text \<open>
  C22. A resume scan comes to its end. Over a ledger that stands still, an open host lets go of its cut within one tick more than the ledger has resume commands, whatever the page size and however few pages a tick may
  read, whether it starts a scan or goes on with one that has begun, and whatever else it does between its ticks that leaves the cut alone and the host open, provided the decoder raises
  on no record. The ticks raise nothing, and every concluded resume command that the scan had before it when they started has been examined.
\<close>

theorem resume_scan_completes:
  assumes "reachable_store sha s" "0 < recovery_page_size cfg" "0 < resume_pages_per_tick cfg" "\<forall>r. \<not> isl (decoder r)" "\<not> h_closed h"
    and "\<forall>k h. h_resume_through (others k h) = h_resume_through h \<and> h_resume_after (others k h) = h_resume_after h \<and> h_closed (others k h) = h_closed h"
    and "length (filter (\<lambda>r. cmd_operation r = ''runs_resume'') (dict_values (commands s))) < n"
  shows "\<exists>h' seen. scan_ticks n others cfg s decoder h = (None, h', seen) \<and> \<not> h_closed h' \<and> h_resume_through h' = None
    \<and> (\<forall>r \<in> set (dict_values (commands s)). cmd_operation r = ''runs_resume'' \<and> concluded r
        \<and> (case h_resume_through h of None \<Rightarrow> True | Some through \<Rightarrow> command_key r \<le> through
            \<and> (case h_resume_after h of None \<Rightarrow> True | Some k \<Rightarrow> k < command_key r)) \<longrightarrow> r \<in> set seen)"
proof -
  have "length (ledger_rows ''runs_resume'' s) < n" using assms(7) by (simp add: ledger_rows_def)
  then have "length (scan_left s h) < n" using scan_left_bounded le_less_trans by blast
  from scan_ticks_done [OF ledger_reachable_ok [OF assms(1)] assms(2-6) this]
  obtain h' seen where e: "scan_ticks n others cfg s decoder h = (None, h', seen)" "\<not> h_closed h'" "h_resume_through h' = None"
    "\<forall>r \<in> set (scan_left s h). cmd_state r \<noteq> Prepared \<longrightarrow> r \<in> set seen" by blast
  have "r \<in> set seen" if "r \<in> set (dict_values (commands s))" "cmd_operation r = ''runs_resume''" "concluded r"
    "case h_resume_through h of None \<Rightarrow> True | Some through \<Rightarrow> command_key r \<le> through
       \<and> (case h_resume_after h of None \<Rightarrow> True | Some k \<Rightarrow> k < command_key r)" for r
  proof -
    have "r \<in> set (ledger_rows ''runs_resume'' s)" using that(1,2) by (simp add: ledger_rows_def)
    then have "r \<in> set (scan_left s h)"
      unfolding scan_left_def using that(4) by (cases "h_resume_through h") (simp_all add: resumes_left_mem)
    then show ?thesis using e(4) that(3) not_concluded [of r] by auto
  qed
  then show ?thesis using e(1-3) by blast
qed

section \<open>The recovery batch\<close>

definition recoverable :: "int \<Rightarrow> run_host \<Rightarrow> run_view \<Rightarrow> bool" where
  "recoverable now h v \<longleftrightarrow> dict_get (h_tasks h) (rv_id v) = None \<and> dict_get (h_requested h) (rv_id v) = None
     \<and> rv_id v \<notin> set (h_deferred h) \<and> ready_at (h_retry_at h) v now = None"

definition recovery_intent :: "run_view list \<Rightarrow> run_view \<Rightarrow> string \<times> launch_intent" where
  "recovery_intent vs v = (rv_id v, \<lparr>expected_event_seq = Some (max_event_seq vs (rv_id v)),
     allowed_statuses = set RECOVERY_STATUSES, intent_cause = None\<rparr>)"

text \<open>What the batch is for: the first runs, in creation order, that nobody else is looking after and that may be claimed now.\<close>

definition recovery_rows :: "run_view list \<Rightarrow> run_view list" where
  "recovery_rows vs = sort_key run_key (filter (\<lambda>v. rv_status v \<in> set RECOVERY_STATUSES) vs)"

definition recovery_selection :: "run_view list \<Rightarrow> nat \<Rightarrow> int \<Rightarrow> run_host \<Rightarrow> selection" where
  "recovery_selection vs limit now h = take limit (map (recovery_intent vs) (filter (recoverable now h) (recovery_rows vs)))"

interpretation run_pages: paged "\<lambda>vs. distinct (map rv_id vs)" recovery_rows run_key
  "\<lambda>vs after through n. Inr (run_records vs RECOVERY_STATUSES after through n) :: exc + run_view list"
proof
  fix vs :: "run_view list" and n :: int and after through
  assume d: "distinct (map rv_id vs)"
  show "sorted (map run_key (recovery_rows vs))" by (simp add: recovery_rows_def)
  have "distinct (map snd (map run_key vs))" using d by (simp add: run_key_def comp_def)
  then have "distinct (map run_key vs)" by (metis distinct_map)
  then have "distinct (map run_key (filter (\<lambda>v. rv_status v \<in> set RECOVERY_STATUSES) vs))" by (rule distinct_map_filter)
  then show "distinct (map run_key (recovery_rows vs))" by (simp add: recovery_rows_def distinct_map)
  show "(Inr (run_records vs RECOVERY_STATUSES after through n) :: exc + run_view list) = Inr (take (nat n)
      (filter (\<lambda>r. run_key r \<le> through \<and> (case after of None \<Rightarrow> True | Some k \<Rightarrow> k < run_key r)) (recovery_rows vs)))"
    unfolding recovery_rows_def filter_sort filter_filter by (simp add: run_records_def run_in_cut_def)
qed

lemma dict_get_pop [simp]: "dict_get (dict_pop k d) k' = (if k' = k then None else dict_get d k')"
  unfolding dict_pop_def by (induction d) auto

lemma recoverable_pop:
  "rv_id v \<noteq> k \<Longrightarrow> recoverable now (h\<lparr>h_retry_at := dict_pop k (h_retry_at h)\<rparr>) v = recoverable now h v"
  by (simp add: recoverable_def ready_at_def)

lemma batch_page_selects:
  assumes "distinct (map rv_id rows)" "length selected < limit"
    and "batch_page vs now limit rows after selected expiry h = (after', selected', expiry', h')"
  shows "selected' = take limit (selected @ map (recovery_intent vs) (filter (recoverable now h) rows))"
    and "length selected' < limit \<Longrightarrow> after' = (if rows = [] then after else Some (run_key (last rows)))"
    and "\<forall>v. rv_id v \<notin> rv_id ` set rows \<longrightarrow> recoverable now h' v = recoverable now h v"
proof -
  have "selected' = take limit (selected @ map (recovery_intent vs) (filter (recoverable now h) rows))
      \<and> (length selected' < limit \<longrightarrow> after' = (if rows = [] then after else Some (run_key (last rows))))
      \<and> (\<forall>v. rv_id v \<notin> rv_id ` set rows \<longrightarrow> recoverable now h' v = recoverable now h v)"
    using assms
  proof (induction rows arbitrary: after selected expiry h)
    case (Cons v rest)
    let ?h = "h\<lparr>h_retry_at := dict_pop (rv_id v) (h_retry_at h)\<rparr>"
    have same: "filter (recoverable now ?h) rest = filter (recoverable now h) rest"
      using Cons.prems(1) by (intro filter_cong refl recoverable_pop) (auto simp: rev_image_eqI)
    show ?case
    proof (cases "recoverable now h v")
      case True
      let ?sel = "selected @ [recovery_intent vs v]"
      show ?thesis
      proof (cases "length ?sel = limit")
        case full: True
        then show ?thesis
          using Cons.prems(3) True by (auto simp: recoverable_def [of now h v] recovery_intent_def Let_def recoverable_pop)
      next
        case False
        then have b: "batch_page vs now limit rest (Some (run_key v)) ?sel expiry ?h = (after', selected', expiry', h')"
          using Cons.prems(3) True by (simp add: recoverable_def [of now h v] recovery_intent_def Let_def)
        have "length ?sel < limit" using False Cons.prems(2) by simp
        from Cons.IH [OF _ this b] show ?thesis
          using Cons.prems(1) True by (auto simp: same recoverable_pop)
      qed
    next
      case False
      then obtain expiry2 where b: "batch_page vs now limit rest (Some (run_key v)) selected expiry2 h = (after', selected', expiry', h')"
        using Cons.prems(3) by (auto simp: recoverable_def split: if_splits option.splits)
      from Cons.IH [OF _ Cons.prems(2) b] show ?thesis using Cons.prems(1) False by auto
    qed
  qed simp
  then show "selected' = take limit (selected @ map (recovery_intent vs) (filter (recoverable now h) rows))"
    "length selected' < limit \<Longrightarrow> after' = (if rows = [] then after else Some (run_key (last rows)))"
    "\<forall>v. rv_id v \<notin> rv_id ` set rows \<longrightarrow> recoverable now h' v = recoverable now h v" by blast+
qed

lemma recover_pages_select:
  assumes "distinct (map rv_id vs)" "0 < recovery_page_size cfg"
    and "length selected \<le> limit"
  shows "fst (recover_pages cfg vs now limit through after selected expiry h)
    = take limit (selected @ map (recovery_intent vs) (filter (recoverable now h) (run_pages.left vs after through)))"
  using assms
proof (induction cfg vs now limit through after selected expiry h rule: recover_pages.induct)
  case (1 cfg vs now limit through after selected expiry h)
  let ?l = "run_pages.left vs after through"
  let ?n = "nat (recovery_page_size cfg)"
  let ?p = "take ?n ?l"
  let ?f = "recovery_intent vs"
  have page: "run_records vs RECOVERY_STATUSES after through (recovery_page_size cfg) = ?p"
    using run_pages.page_left [OF "1.prems"(1,2)] by simp
  have ids: "distinct (map rv_id ?l)"
    using "1.prems"(1) by (auto simp: run_pages.left_def recovery_rows_def filter_sort distinct_map inj_on_def)
  show ?case
  proof (cases "limit \<le> length selected \<or> ?p = []")
    case True
    then show ?thesis using "1.prems" page by (subst recover_pages.simps) (auto simp: Let_def)
  next
    case False
    obtain after' selected' expiry' h' where b: "batch_page vs now limit ?p after selected expiry h = (after', selected', expiry', h')"
      by (metis prod_cases4)
    have lim: "length selected < limit" and ne: "?p \<noteq> []" using False by auto
    have d: "distinct (map rv_id ?p)" using ids by (metis distinct_take take_map)
    note sel = batch_page_selects [OF d lim b]
    have split: "filter (recoverable now h) ?l = filter (recoverable now h) ?p @ filter (recoverable now h) (drop ?n ?l)"
      by (metis append_take_drop_id filter_append)
    show ?thesis
    proof (cases "int (length ?p) < recovery_page_size cfg")
      case True
      then have short: "int (length ?l) < recovery_page_size cfg" using "1.prems"(2) by (auto simp: min_def split: if_splits)
      then have "?p = ?l" by simp
      moreover have "recover_pages cfg vs now limit through after selected expiry h = (selected', expiry', h')"
        using False short page b by (subst recover_pages.simps) (simp add: Let_def)
      ultimately show ?thesis using sel(1) by simp
    next
      case long: False
      have rec: "recover_pages cfg vs now limit through after selected expiry h = recover_pages cfg vs now limit through after' selected' expiry' h'"
        using False long page b by (subst recover_pages.simps) (simp add: Let_def)
      have "length selected' \<le> limit" using sel(1) by simp
      then have IH: "fst (recover_pages cfg vs now limit through after' selected' expiry' h')
          = take limit (selected' @ map ?f (filter (recoverable now h') (run_pages.left vs after' through)))"
        using "1.IH" [OF _ page [symmetric] ne b [symmetric] refl refl long] lim "1.prems"(1,2) by simp
      show ?thesis
      proof (cases "length selected' < limit")
        case True
        then have "after' = Some (run_key (last ?p))" using sel(2) ne by simp
        then have left: "run_pages.left vs after' through = drop ?n ?l"
          using run_pages.left_next [OF "1.prems"(1) _ ne] "1.prems"(2) by simp
        have "rv_id v \<notin> rv_id ` set ?p" if "v \<in> set (drop ?n ?l)" for v
          using ids that by (metis append_take_drop_id disjoint_iff distinct_append imageI map_append set_map)
        then have "filter (recoverable now h') (drop ?n ?l) = filter (recoverable now h) (drop ?n ?l)"
          using sel(3) by (intro filter_cong) auto
        then show ?thesis using rec IH left sel(1) True by (simp add: split)
      next
        case False
        then show ?thesis using rec IH sel(1) by (simp add: split min_absorb1 [OF less_imp_le [OF lim]])
      qed
    qed
  qed
qed

text \<open>
  C23. The recovery batch does not depend on paging. Reading the journal in pages of any size, the host selects exactly the first
  runs, in creation order and up to its free capacity, that are pending or running, that it is not running,
  was not asked to run and has not deferred, and whose lease and retry delay have passed; each with the event sequence
  it was read at as the fence of the attempt.
\<close>

theorem recovery_batch_exact:
  assumes "distinct (map rv_id vs)" "0 < recovery_page_size cfg"
  shows "fst (recoverable_batch cfg vs limit now h) = recovery_selection vs limit now h"
proof -
  let ?ks = "map run_key (filter (\<lambda>v. rv_status v \<in> set RECOVERY_STATUSES) vs)"
  show ?thesis
  proof (cases ?ks)
    case Nil
    then have "recovery_rows vs = []" by (simp add: recovery_rows_def)
    then show ?thesis using Nil by (simp add: recoverable_batch_def latest_run_key_def recovery_selection_def)
  next
    case (Cons k ks)
    let ?through = "fold max ks k"
    have "run_key v \<le> ?through" if "v \<in> set (recovery_rows vs)" for v
      using that fold_max_ge [of "run_key v" k ks] unfolding Cons [symmetric] by (auto simp: recovery_rows_def)
    then have "run_pages.left vs None ?through = recovery_rows vs" by (simp add: run_pages.left_def)
    moreover have "latest_run_key vs RECOVERY_STATUSES = Some ?through" using Cons by (simp add: latest_run_key_def)
    ultimately show ?thesis
      using recover_pages_select [OF assms, of "[]" limit now ?through None None h]
      by (auto simp: recoverable_batch_def recovery_selection_def)
  qed
qed

section \<open>The bound on recorded workers\<close>

inductive host_step :: "host_config \<Rightarrow> run_host \<Rightarrow> run_host \<Rightarrow> bool" for cfg where
  launches: "launch run i h = Inr (d, h') \<Longrightarrow> host_step cfg h h'"
| worker_ends: "host_step cfg h (worker_done cfg w e now h)"
| callback: "host_step cfg h (run_callback h)"
| tick: "pump_tick cfg wd now h = (e, h') \<Longrightarrow> host_step cfg h h'"
| aborts: "abort_startup h = Inr h' \<Longrightarrow> host_step cfg h h'"
| shuts: "host_step cfg h (shutdown h)"

definition host_reachable :: "host_config \<Rightarrow> run_host \<Rightarrow> bool" where
  "host_reachable cfg h \<longleftrightarrow> (host_step cfg)\<^sup>*\<^sup>* new_host h"

lemma length_pop: "length (dict_pop k d) \<le> length d"
  by (simp add: dict_pop_def)

lemma length_set: "length (dict_set k v d) \<le> Suc (length d)"
  by (induction d) auto

lemma launch_tasks: "launch run i h = Inr (d, h') \<Longrightarrow> h_tasks h' = h_tasks h"
  by (auto simp: launch_def accept_def split: if_splits option.splits)

lemma visit_resumes_tasks: "h_tasks (fst (snd (visit_resumes decoder rs h))) = h_tasks h"
proof (induction rs arbitrary: h)
  case (Cons r rs)
  have IH: "visit_resumes decoder rs k = (e, k', seen) \<Longrightarrow> h_tasks k' = h_tasks k" for k e k' seen
    using Cons [of k] by simp
  have L: "launch run i (h\<lparr>h_resume_after := x\<rparr>) = Inr (d, k) \<Longrightarrow> h_tasks k = h_tasks h" for run i x d k
    using launch_tasks [of run i "h\<lparr>h_resume_after := x\<rparr>"] by simp
  show ?case by (auto simp: Let_def dest: IH split: sum.splits option.splits prod.splits) (metis IH L)+
qed simp

lemma scan_resume_tasks: "h_tasks (fst (snd (scan_resume_pages n cfg s decoder through h))) = h_tasks h"
proof (induction n arbitrary: h)
  case (Suc n)
  show ?case
    using Suc visit_resumes_tasks
    by (auto simp: resume_reset_def split: sum.splits option.splits prod.splits) (metis fst_conv snd_conv)+
qed simp

lemma visit_waits_tasks: "h_tasks (fst (snd (visit_waits answered vs h))) = h_tasks h"
proof (induction vs arbitrary: h)
  case (Cons v vs)
  have IH: "visit_waits answered vs k = (e, k', seen) \<Longrightarrow> h_tasks k' = h_tasks k" for k e k' seen
    using Cons [of k] by simp
  have L: "launch run i (h\<lparr>h_wait_after := x\<rparr>) = Inr (d, k) \<Longrightarrow> h_tasks k = h_tasks h" for run i x d k
    using launch_tasks [of run i "h\<lparr>h_wait_after := x\<rparr>"] by simp
  show ?case by (auto simp: Let_def dest: IH split: sum.splits list.splits prod.splits) (metis IH L)+
qed simp

lemma scan_wait_tasks: "h_tasks (fst (snd (scan_wait_pages n cfg vs current answered through h))) = h_tasks h"
proof (induction n arbitrary: h)
  case (Suc n)
  show ?case
    using Suc visit_waits_tasks
    by (auto simp: wait_reset_def split: sum.splits option.splits prod.splits) (metis fst_conv snd_conv)+
qed simp

lemma scan_tasks:
  "h_tasks (fst (snd (scan_committed_resumes cfg s decoder h))) = h_tasks h"
  "h_tasks (fst (snd (scan_answered_waits cfg vs current answered h))) = h_tasks h"
  using scan_resume_tasks scan_wait_tasks
  by (simp_all add: scan_committed_resumes_def scan_answered_waits_def Let_def split: option.splits)

lemma start_worker_tasks: "length (h_tasks (start_worker run i ex h)) \<le> Suc (length (h_tasks h))"
  using length_set by (simp add: start_worker_def)

lemma fill_requested_tasks:
  assumes "fill_requested vs now xs cap expiry h = (h', cap', expiry', ret)" "0 < cap"
  shows "length (h_tasks h') + cap' \<le> length (h_tasks h) + cap"
  using assms
proof (induction xs arbitrary: cap expiry h)
  case (Cons x xs)
  obtain run i where x: "x = (run, i)" by (cases x)
  let ?s = "start_worker run i True (h\<lparr>h_retry_at := dict_pop run (h_retry_at h)\<rparr>)"
  have started: "length (h_tasks ?s) \<le> Suc (length (h_tasks h))"
    using start_worker_tasks [of run i True "h\<lparr>h_retry_at := dict_pop run (h_retry_at h)\<rparr>"] by simp
  consider (skip) h1 expiry1 where "fill_requested vs now xs cap expiry1 h1 = (h', cap', expiry', ret)" "h_tasks h1 = h_tasks h"
    | (stop) "h' = ?s" "cap' = 0"
    | (start) "fill_requested vs now xs (cap - 1) expiry ?s = (h', cap', expiry', ret)" "0 < cap - 1"
    using Cons.prems(1) by (auto simp: x Let_def split: option.splits if_splits)
  then show ?case
  proof cases
    case skip
    then show ?thesis using Cons.IH [OF skip(1) Cons.prems(2)] by simp
  next
    case stop
    then show ?thesis using started Cons.prems(2) by simp
  next
    case start
    then show ?thesis using Cons.IH [OF start] started by simp
  qed
qed simp

lemma start_recovered_tasks: "length (h_tasks (start_recovered sel h)) \<le> length (h_tasks h) + length sel"
proof (induction sel arbitrary: h)
  case (Cons x sel)
  obtain run i where x: "x = (run, i)" by (cases x)
  show ?case using Cons [of "start_worker run i False h"] start_worker_tasks [of run i False h] by (simp add: start_recovered_def x)
qed (simp add: start_recovered_def)

lemma batch_page_tasks: "h_tasks (snd (snd (snd (batch_page vs now limit rows after selected expiry h)))) = h_tasks h"
  by (induction rows arbitrary: after selected expiry h) (auto simp: Let_def split: option.splits)

lemma recover_pages_tasks: "h_tasks (snd (snd (recover_pages cfg vs now limit through after selected expiry h))) = h_tasks h"
proof (induction cfg vs now limit through after selected expiry h rule: recover_pages.induct)
  case (1 cfg vs now limit through after selected expiry h)
  obtain after' selected' expiry' h' where b:
    "batch_page vs now limit (run_records vs RECOVERY_STATUSES after through (recovery_page_size cfg)) after selected expiry h
       = (after', selected', expiry', h')"
    by (metis prod_cases4)
  have t: "h_tasks h' = h_tasks h" using b batch_page_tasks by (metis snd_conv)
  show ?case
    using "1.IH" [OF _ refl _ b [symmetric] refl refl] t
    by (subst recover_pages.simps) (simp add: Let_def b)
qed

lemma batch_page_length:
  "length selected < limit \<Longrightarrow> length (fst (snd (batch_page vs now limit rows after selected expiry h))) \<le> limit"
  by (induction rows arbitrary: after selected expiry h) (auto simp: Let_def split: option.splits)

lemma recover_pages_length:
  "length selected \<le> limit \<Longrightarrow> length (fst (recover_pages cfg vs now limit through after selected expiry h)) \<le> limit"
proof (induction cfg vs now limit through after selected expiry h rule: recover_pages.induct)
  case (1 cfg vs now limit through after selected expiry h)
  obtain after' selected' expiry' h' where b:
    "batch_page vs now limit (run_records vs RECOVERY_STATUSES after through (recovery_page_size cfg)) after selected expiry h
       = (after', selected', expiry', h')"
    by (metis prod_cases4)
  have t: "length selected < limit \<Longrightarrow> length selected' \<le> limit" using b batch_page_length by (metis fst_conv snd_conv)
  show ?case
    using "1.IH" [OF _ refl _ b [symmetric] refl refl] t "1.prems"
    by (subst recover_pages.simps) (auto simp: Let_def b)
qed

lemma fill_capacity_tasks:
  assumes "length (h_tasks h) \<le> max_concurrency cfg"
  shows "length (h_tasks (fst (fill_capacity cfg vs now h))) \<le> max_concurrency cfg"
proof -
  let ?cap = "max_concurrency cfg - length (h_tasks h)"
  obtain h1 cap expiry ret where f: "fill_requested vs now (sort_key fst (h_requested h)) ?cap None h = (h1, cap, expiry, ret)"
    by (metis prod_cases4)
  obtain sel expiry' h2 where r: "recoverable_batch cfg vs cap now h1 = (sel, expiry', h2)" by (metis prod_cases3)
  have sel: "length sel \<le> cap" "h_tasks h2 = h_tasks h1"
    using r recover_pages_length [of "[]" cap] recover_pages_tasks
    by (auto simp: recoverable_batch_def split: if_splits option.splits) (metis fst_conv list.size(3) le0, metis snd_conv)
  show ?thesis
  proof (cases "?cap = 0")
    case False
    then have b: "length (h_tasks h1) + cap \<le> max_concurrency cfg" using fill_requested_tasks [OF f] assms by simp
    show ?thesis
      using False f r b sel start_recovered_tasks [of sel h2] by (auto simp: fill_capacity_def Let_def)
  qed (use assms in \<open>simp add: fill_capacity_def Let_def\<close>)
qed

lemma pump_tick_tasks:
  assumes "length (h_tasks h) \<le> max_concurrency cfg" "pump_tick cfg w now h = (e, h')"
  shows "length (h_tasks h') \<le> max_concurrency cfg"
proof -
  obtain e1 h1 seen1 where s1: "scan_committed_resumes cfg (w_store w) (w_decoder w) h = (e1, h1, seen1)" by (metis prod_cases3)
  obtain e2 h2 seen2 where s2: "scan_answered_waits cfg (w_runs w) (w_current w) (w_answered w) h1 = (e2, h2, seen2)" by (metis prod_cases3)
  have t: "h_tasks h1 = h_tasks h" "h_tasks h2 = h_tasks h"
    using scan_tasks(1) [of cfg "w_store w" "w_decoder w" h] scan_tasks(2) [of cfg "w_runs w" "w_current w" "w_answered w" h1] s1 s2 by simp_all
  then show ?thesis
    using assms s1 s2 fill_capacity_tasks [of h2 cfg "w_runs w" now] by (auto simp: pump_tick_def split: if_splits option.splits)
qed

lemma host_step_tasks:
  assumes "host_step cfg h h'" "length (h_tasks h) \<le> max_concurrency cfg"
  shows "length (h_tasks h') \<le> max_concurrency cfg"
  using assms(1)
proof cases
  case (launches run i d)
  then show ?thesis using launch_tasks assms(2) by simp
next
  case (worker_ends w e now)
  have "h_tasks (run_outcome cfg run e now h) = h_tasks h" for run
    by (auto simp: run_outcome_def Let_def split: worker_end.splits option.splits)
  then show ?thesis using worker_ends assms(2) by (simp add: worker_done_def Let_def split: option.splits)
next
  case callback
  have "length (dict_pop k (h_tasks h)) \<le> max_concurrency cfg" for k
    by (rule le_trans [OF length_pop assms(2)])
  then show ?thesis
    unfolding callback run_callback_def finished_def Let_def using assms(2) by (simp split: list.split prod.split)
next
  case (tick wd now e)
  then show ?thesis using pump_tick_tasks assms(2) by blast
qed (use assms(2) in \<open>auto simp: abort_startup_def shutdown_def abandon_local_state_def split: if_splits\<close>)

text \<open>
  C24. The host records at most \<^verbatim>\<open>max_concurrency\<close> workers, through every sequence of launches, endings of workers in any order and with any
  outcome, pump ticks over any journal and ledger, aborted startups and shutdowns.
\<close>

theorem recorded_workers_bounded:
  assumes "host_reachable cfg h"
  shows "length (h_tasks h) \<le> max_concurrency cfg"
  using assms unfolding host_reachable_def
  by (induction rule: rtranclp_induct) (auto simp: new_host_def intro: host_step_tasks)

section \<open>Intents are never weakened\<close>

text \<open>The intent a run has on this host: the one that is queued, or else the one its live worker was launched with.\<close>

definition standing_intent :: "run_host \<Rightarrow> string \<Rightarrow> launch_intent option" where
  "standing_intent h run = (case dict_get (h_requested h) run of Some q \<Rightarrow> Some q
     | None \<Rightarrow> if live_task h run then dict_get (h_explicit h) run else None)"

lemma supersedes_later: "expected_event_seq i = Some m \<Longrightarrow> expected_event_seq j = Some n \<Longrightarrow> m \<noteq> n \<Longrightarrow> supersedes i j \<longleftrightarrow> n < m"
  by (auto simp: supersedes_def)

lemma supersedes_unfenced: "expected_event_seq i = None \<Longrightarrow> expected_event_seq j = Some n \<Longrightarrow> \<not> supersedes i j \<and> supersedes j i"
  by (auto simp: supersedes_def)

lemma launch_standing:
  assumes "launch run i h = Inr (d, h')" "standing_intent h run = Some j"
  shows "(d, h') = (if j = i then (CoalescedExact, h) else if supersedes i j then (QueuedLaunch, accept run i h) else (SupersededLaunch, h))"
  using assms by (auto simp: launch_def standing_intent_def split: if_splits option.splits)

lemma launch_free: "launch run i h = Inr (d, h') \<Longrightarrow> standing_intent h run = None \<Longrightarrow> (d, h') = (QueuedLaunch, accept run i h)"
  by (auto simp: launch_def standing_intent_def split: if_splits option.splits)

lemma standing_accept: "standing_intent (accept run i h) run = Some i"
  by (simp add: standing_intent_def accept_def)

text \<open>
  C25. A launch never weakens the intent a run has, queued or executed by its live worker. Supersession is irreflexive and transitive. After every launch the run's intent is
  the launched one, which superseded what was there, or the one that was there, which the launched one does not supersede and which then stays as it was with the whole host. Between two intents that
  name different attempts the later attempt decides: a delivery for an earlier attempt is called superseded and changes nothing, one for a later attempt is queued, and
  so a late delivery can never undo a newer one; a launch that names no attempt never displaces one that does.
\<close>

theorem launch_keeps_the_strongest_intent:
  assumes "launch run i h = Inr (d, h')"
  shows "(\<forall>a. \<not> supersedes a a) \<and> (\<forall>a b c. supersedes a b \<and> supersedes b c \<longrightarrow> supersedes a c)
    \<and> (case standing_intent h run of
         None \<Rightarrow> d = QueuedLaunch \<and> standing_intent h' run = Some i
       | Some j \<Rightarrow>
           (if supersedes i j then d = QueuedLaunch \<and> standing_intent h' run = Some i else h' = h)
         \<and> (\<forall>n. expected_event_seq j = Some n \<longrightarrow>
              (case expected_event_seq i of
                 None \<Rightarrow> d = SupersededLaunch \<and> h' = h
               | Some m \<Rightarrow> (m < n \<longrightarrow> d = SupersededLaunch \<and> h' = h)
                         \<and> (n < m \<longrightarrow> d = QueuedLaunch \<and> dict_get (h_requested h') run = Some i))))"
proof (cases "standing_intent h run")
  case None
  then show ?thesis using launch_free [OF assms] supersedes_trans standing_accept by simp blast
next
  case (Some j)
  have e: "(d, h') = (if j = i then (CoalescedExact, h) else if supersedes i j then (QueuedLaunch, accept run i h) else (SupersededLaunch, h))"
    by (rule launch_standing [OF assms Some])
  have q: "dict_get (h_requested (accept run i h)) run = Some i" by (simp add: accept_def)
  have later: "(m < n \<longrightarrow> d = SupersededLaunch \<and> h' = h) \<and> (n < m \<longrightarrow> d = QueuedLaunch \<and> dict_get (h_requested h') run = Some i)"
    if "expected_event_seq j = Some n" "expected_event_seq i = Some m" for m n
    using e q that supersedes_later [OF that(2,1)] by (auto split: if_splits)
  have unfenced: "d = SupersededLaunch \<and> h' = h" if "expected_event_seq j = Some n" "expected_event_seq i = None" for n
    using e that supersedes_unfenced [OF that(2,1)] by (auto split: if_splits)
  have "if supersedes i j then d = QueuedLaunch \<and> standing_intent h' run = Some i else h' = h"
    using e standing_accept [of run i h] by (auto split: if_splits)
  then show ?thesis using later unfenced supersedes_trans by (auto simp: Some split: option.split)
qed

section \<open>Where the host falls short of its comments\<close>

definition sample_cfg :: host_config where
  "sample_cfg = \<lparr>max_concurrency = 2, recovery_page_size = 1, resume_pages_per_tick = 1, resume_retry = 1, claim_retry = 1\<rparr>"

definition sample_view :: "string \<Rightarrow> run_status \<Rightarrow> nat \<Rightarrow> digest list \<Rightarrow> run_view" where
  "sample_view run st n reqs = \<lparr>rv_id = run, rv_created = ''t'' @ run, rv_status = st, rv_owner = None, rv_lease = None, rv_seq = n,
     rv_requests = reqs\<rparr>"

definition sample_host_world :: "run_view list \<Rightarrow> host_world" where
  "sample_host_world vs = \<lparr>w_store = empty_store, w_decoder = \<lambda>_. Inr None, w_runs = vs, w_current = vs, w_answered = \<lambda>_. None\<rparr>"

definition sample_intent :: launch_intent where
  "sample_intent = \<lparr>expected_event_seq = Some 1, allowed_statuses = set RESUMABLE_RUN_STATUSES, intent_cause = Some (ResumeCommandCause ''c'')\<rparr>"

text \<open>
  The three ticks of the counterexample: a run is recovered; while its worker is unwinding after a failure it is resumed, and the next tick starts the
  second worker beside the first; the tick after that starts a third.
\<close>

definition resumed_host :: run_host where
  "resumed_host =
     (let tick = (\<lambda>vs h. snd (pump_tick sample_cfg (sample_host_world vs) 0 h));
          h1 = tick [sample_view ''a'' Pending 0 []] new_host;
          h2 = (case launch ''a'' sample_intent h1 of Inr (_, h) \<Rightarrow> h | Inl _ \<Rightarrow> h1);
          h3 = tick [sample_view ''a'' Failed 1 []] h2
      in tick [sample_view ''a'' Running 2 [], sample_view ''b'' Pending 0 []] h3)"

lemma resumed_host_reachable: "host_reachable sample_cfg resumed_host"
proof -
  have tick: "(host_step cfg)\<^sup>*\<^sup>* new_host (snd (pump_tick cfg w now h))" if "(host_step cfg)\<^sup>*\<^sup>* new_host h" for cfg w now h
    using that host_step.tick [of cfg w now h "fst (pump_tick cfg w now h)"] by (auto intro: rtranclp.rtrancl_into_rtrancl)
  have launched: "(host_step cfg)\<^sup>*\<^sup>* new_host (case launch run i h of Inr (_, h) \<Rightarrow> h | Inl _ \<Rightarrow> h)" if "(host_step cfg)\<^sup>*\<^sup>* new_host h" for cfg run i h
    using that host_step.launches [of run i h] by (auto intro: rtranclp.rtrancl_into_rtrancl split: sum.splits)
  show ?thesis
    unfolding host_reachable_def resumed_host_def Let_def by (intro tick launched rtranclp.rtrancl_refl)
qed

text \<open>
  C26. The bound is on the workers the host records, not on the coroutines it runs. \<^verbatim>\<open>_fill_capacity\<close> does not look at the worker a requested run still has, and
  \<^verbatim>\<open>_start\<close> replaces it in the table: with \<^verbatim>\<open>max_concurrency\<close> 2 a run that is resumed while its failed worker unwinds has two live
  workers, one of them unrecorded, and the process runs three. The comment in \<^verbatim>\<open>launch\<close> says that the newer attempt is kept behind the unwinding worker until
  its callback frees capacity.
\<close>

theorem live_workers_exceed_the_bound:
  "host_reachable sample_cfg resumed_host \<and> max_concurrency sample_cfg = 2
   \<and> dict_values (h_workers resumed_host) = [''a'', ''a'', ''b''] \<and> length (h_tasks resumed_host) = 2"
proof (intro conjI resumed_host_reachable)
  show "max_concurrency sample_cfg = 2" by (simp add: sample_cfg_def)
  show "dict_values (h_workers resumed_host) = [''a'', ''a'', ''b'']" by code_simp
  show "length (h_tasks resumed_host) = 2" by code_simp
qed

definition parked_sample :: "run_view list" where
  "parked_sample = [sample_view ''a'' Parked 1 [''q1''], sample_view ''b'' Parked 1 [''q2''], sample_view ''c'' Parked 1 [''q3'']]"

definition raced_sample :: "run_view list" where
  "raced_sample = sample_view ''a'' Running 2 [] # tl parked_sample"

text \<open>The page of parked runs that the first of the two reads of \<^verbatim>\<open>parked_waits\<close> returns, and which of them the second read still finds as they were.\<close>

definition wait_page :: "host_config \<Rightarrow> run_view list \<Rightarrow> run_host \<Rightarrow> command_key \<Rightarrow> run_view list" where
  "wait_page cfg vs h through = take (nat (recovery_page_size cfg))
     (sort_key run_key (filter (\<lambda>v. rv_status v = Parked \<and> run_in_cut (h_wait_after h) through v) vs))"

definition still_parked :: "run_view list \<Rightarrow> run_view \<Rightarrow> bool" where
  "still_parked current v = (case run_record current (rv_id v) of None \<Rightarrow> False | Some c \<Rightarrow> rv_status c = Parked \<and> rv_seq c = rv_seq v)"

lemma visit_waits_total:
  "\<not> h_closed h \<Longrightarrow> \<exists>h'. visit_waits answered vs h = (None, h', vs) \<and> \<not> h_closed h'"
proof (induction vs arbitrary: h)
  case (Cons v vs)
  let ?h = "h\<lparr>h_wait_after := Some (run_key v)\<rparr>"
  have o: "\<not> h_closed ?h" using Cons.prems by simp
  show ?case
  proof (cases "List.map_filter answered (rv_requests v)")
    case Nil
    then show ?thesis using Cons.IH [OF o] by auto
  next
    case (Cons reply rest)
    obtain d h1 where l: "launch (rv_id v) \<lparr>expected_event_seq = Some (rv_seq v), allowed_statuses = {Parked},
        intent_cause = Some (ChannelReplyCause reply)\<rparr> ?h = Inr (d, h1)" "\<not> h_closed h1" using launch_open [OF o] by blast
    show ?thesis using Cons.IH [OF l(2)] l(1) Cons by auto
  qed
qed simp

lemma wait_reset_cut: "h_wait_through (wait_reset h) = None" "h_wait_after (wait_reset h) = None"
  by (simp_all add: wait_reset_def)

lemma parked_waits_page:
  assumes "0 < recovery_page_size cfg" "\<forall>v \<in> set (wait_page cfg vs h through). run_record current (rv_id v) \<noteq> None"
  shows "parked_waits vs current (h_wait_after h) through (recovery_page_size cfg) = Inr (filter (still_parked current) (wait_page cfg vs h through))"
  using assms unfolding parked_waits_def wait_page_def [symmetric] Let_def
  by (auto simp: list_ex_iff still_parked_def [abs_def])

lemma raced_page_short:
  assumes "0 < recovery_page_size cfg" "v \<in> set (wait_page cfg vs h through)" "\<not> still_parked current v"
  shows "int (length (filter (still_parked current) (wait_page cfg vs h through))) < recovery_page_size cfg"
proof -
  have "length (filter (still_parked current) (wait_page cfg vs h through)) < length (wait_page cfg vs h through)"
    by (rule length_filter_less) (use assms(2,3) in blast)+
  also have "\<dots> \<le> nat (recovery_page_size cfg)" by (simp add: wait_page_def)
  finally show ?thesis using assms(1) by simp
qed

text \<open>
  C27. A page that lost a row to a race ends the scan of answered waits. \<^verbatim>\<open>parked_waits\<close> drops the runs that another host advanced between its two reads, and the scan
  takes the shorter page for the last one: whenever an open host that keeps a cut reads a page of which one run or more was advanced meanwhile, the tick raises nothing, examines what is left of that one page and lets go of the
  cut. However many pages the tick may read, no parked run beyond the page is examined, answered or not. The comment on the scan says that the cut persists so that no wait lies beyond it.
\<close>

theorem raced_page_ends_the_wait_scan:
  assumes "\<not> h_closed h" "h_wait_through h = Some through" "0 < recovery_page_size cfg" "0 < resume_pages_per_tick cfg"
    and "\<forall>v \<in> set (wait_page cfg vs h through). run_record current (rv_id v) \<noteq> None"
    and "\<exists>v \<in> set (wait_page cfg vs h through). \<not> still_parked current v"
  shows "\<exists>h'. scan_answered_waits cfg vs current answered h = (None, h', filter (still_parked current) (wait_page cfg vs h through))
    \<and> h_wait_through h' = None \<and> h_wait_after h' = None
    \<and> (\<forall>v \<in> set vs. v \<notin> set (wait_page cfg vs h through)
         \<longrightarrow> v \<notin> set (snd (snd (scan_answered_waits cfg vs current answered h))))"
proof -
  let ?w = "filter (still_parked current) (wait_page cfg vs h through)"
  obtain n where n: "resume_pages_per_tick cfg = Suc n" using assms(4) gr0_conv_Suc by blast
  note page = parked_waits_page [OF assms(3,5)]
  have short: "int (length ?w) < recovery_page_size cfg" using assms(6) raced_page_short [OF assms(3)] by blast
  obtain h1 where v: "visit_waits answered ?w h = (None, h1, ?w)" using visit_waits_total [OF assms(1)] by blast
  have "\<exists>h'. scan_wait_pages (Suc n) cfg vs current answered through h = (None, h', ?w) \<and> h_wait_through h' = None \<and> h_wait_after h' = None"
    using short v by (cases "?w = []") (simp_all only: scan_wait_pages.simps page sum.case option.case prod.case wait_reset_cut if_True if_False simp_thms
        prod.inject ex_simps)
  then obtain h' where e: "scan_answered_waits cfg vs current answered h = (None, h', ?w)" "h_wait_through h' = None" "h_wait_after h' = None"
    using assms(2) by (auto simp: scan_answered_waits_def n)
  then show ?thesis by auto
qed

section \<open>Witnesses\<close>

definition refusal_plan :: json where
  "refusal_plan = jobj [(''schema_version'', JInt 1), (''plan'', jobj [(''kind'', jstr ''control_reject'')])]"

definition resumed_store :: control_store where
  "resumed_store = snd (sample_done ''runs_resume'' JNull refusal_plan (JBool True))"

definition quiet_decoder :: resume_decoder where
  "quiet_decoder r = Inr None"

lemma resumed_store_reachable: "reachable_store sample_sha resumed_store"
proof -
  have n: "\<not> isl (store_command_plan (fst (sample_claimed ''runs_resume'' JNull)) refusal_plan (sample_now 1) (snd (sample_claimed ''runs_resume'' JNull)))"
    "\<not> isl (complete_command (fst (sample_claimed ''runs_resume'' JNull)) (JBool True) (sample_now 2) (sample_planned ''runs_resume'' JNull refusal_plan))"
    by code_simp+
  show ?thesis
    unfolding resumed_store_def
    by (rule reachable_step [OF sample_planned_reachable [OF n(1)] ledger_step.complete [OF sample_done_complete [OF n(2)]]])
qed

theorem completed_scan_examined_every_resume_witness:
  "the (dict_get (commands resumed_store) ''cmd-x'') \<in> set (snd (snd (scan_committed_resumes sample_cfg resumed_store quiet_decoder new_host)))"
proof -
  let ?scan = "scan_committed_resumes sample_cfg resumed_store quiet_decoder new_host"
  let ?r = "the (dict_get (commands resumed_store) ''cmd-x'')"
  have f: "fst ?scan = None" "h_resume_through (fst (snd ?scan)) = None" "h_resume_through new_host = None" "0 < recovery_page_size sample_cfg"
    "dict_get (commands resumed_store) ''cmd-x'' \<noteq> None" "cmd_operation ?r = ''runs_resume''" "cmd_state ?r \<noteq> Prepared" by code_simp+
  have "?scan = (None, fst (snd ?scan), snd (snd ?scan))" using f(1) by (metis prod.collapse)
  from resume_scan.begins [OF f(3) this]
  have s: "resume_scan sample_sha sample_cfg quiet_decoder resumed_store resumed_store (fst (snd ?scan)) (snd (snd ?scan))" .
  have "dict_get (commands resumed_store) ''cmd-x'' = Some ?r" using f(5) by auto
  then show ?thesis by (rule completed_scan_examined_every_resume [OF resumed_store_reachable f(4) s f(2) _ f(6,7)])
qed

theorem resume_scan_completes_witness:
  "h_resume_through (fst (snd (scan_ticks 2 (\<lambda>_. run_callback) sample_cfg resumed_store quiet_decoder new_host))) = None
     \<and> the (dict_get (commands resumed_store) ''cmd-x'') \<in> set (snd (snd (scan_ticks 2 (\<lambda>_. run_callback) sample_cfg resumed_store quiet_decoder new_host)))"
proof -
  let ?r = "the (dict_get (commands resumed_store) ''cmd-x'')"
  have f: "0 < recovery_page_size sample_cfg" "0 < resume_pages_per_tick sample_cfg" "\<not> h_closed new_host"
    "length (filter (\<lambda>r. cmd_operation r = ''runs_resume'') (dict_values (commands resumed_store))) < 2" "h_resume_through new_host = None"
    by code_simp+
  have d: "\<forall>r. \<not> isl (quiet_decoder r)" by (simp add: quiet_decoder_def)
  have o: "\<forall>k h. h_resume_through (run_callback h) = h_resume_through h \<and> h_resume_after (run_callback h) = h_resume_after h
      \<and> h_closed (run_callback h) = h_closed h"
    by (simp add: run_callback_def finished_def Let_def split: list.split)
  have r: "?r \<in> set (dict_values (commands resumed_store))" "cmd_operation ?r = ''runs_resume''" "concluded ?r" by code_simp+
  from resume_scan_completes [OF resumed_store_reachable f(1,2) d f(3) o f(4)] r f(5) show ?thesis by auto
qed

theorem recovery_batch_exact_witness:
  "map fst (fst (recoverable_batch sample_cfg [sample_view ''b'' Pending 0 [], sample_view ''c'' Failed 0 [], sample_view ''a'' Running 3 []] 2 0 new_host))
     = [''a'', ''b'']"
proof -
  let ?vs = "[sample_view ''b'' Pending 0 [], sample_view ''c'' Failed 0 [], sample_view ''a'' Running 3 []]"
  have f: "distinct (map rv_id ?vs)" "0 < recovery_page_size sample_cfg" "map fst (recovery_selection ?vs 2 0 new_host) = [''a'', ''b'']" by code_simp+
  show ?thesis using recovery_batch_exact [OF f(1,2), of 2 0 new_host] f(3) by simp
qed

theorem recorded_workers_bounded_witness: "length (h_tasks resumed_host) \<le> max_concurrency sample_cfg"
  by (rule recorded_workers_bounded [OF resumed_host_reachable])

theorem launch_keeps_the_strongest_intent_witness:
  "launch ''a'' (sample_intent\<lparr>expected_event_seq := Some 0\<rparr>) (accept ''a'' sample_intent new_host) = Inr (SupersededLaunch, accept ''a'' sample_intent new_host)"
proof -
  let ?i = "sample_intent\<lparr>expected_event_seq := Some 0\<rparr>"
  let ?h = "accept ''a'' sample_intent new_host"
  have st: "standing_intent ?h ''a'' = Some sample_intent" by (rule standing_accept)
  have "\<not> h_closed ?h" by (simp add: accept_def new_host_def)
  then obtain d h' where l: "launch ''a'' ?i ?h = Inr (d, h')" using launch_open by blast
  from launch_keeps_the_strongest_intent [OF l] have "d = SupersededLaunch \<and> h' = ?h" unfolding st by (simp add: sample_intent_def)
  then show ?thesis using l by simp
qed

theorem raced_page_ends_the_wait_scan_witness:
  "(let cfg = sample_cfg\<lparr>recovery_page_size := 2, resume_pages_per_tick := 4\<rparr>;
        h = new_host\<lparr>h_wait_through := latest_run_key parked_sample [Parked]\<rparr>;
        answered = (\<lambda>q. if q = ''q3'' then Some ''reply'' else None);
        raced = scan_answered_waits cfg parked_sample raced_sample answered h;
        quiet = scan_answered_waits cfg parked_sample parked_sample answered h
    in map rv_id (snd (snd raced)) = [''b''] \<and> h_wait_through (fst (snd raced)) = None
       \<and> h_requested (fst (snd raced)) = [] \<and> dict_keys (h_requested (fst (snd quiet))) = [''c''])"
proof -
  let ?cfg = "sample_cfg\<lparr>recovery_page_size := 2, resume_pages_per_tick := 4\<rparr>"
  let ?h = "new_host\<lparr>h_wait_through := latest_run_key parked_sample [Parked]\<rparr>"
  let ?k = "the (latest_run_key parked_sample [Parked])"
  let ?answered = "\<lambda>q. if q = ''q3'' then Some ''reply'' else None"
  have "latest_run_key parked_sample [Parked] \<noteq> None" by code_simp
  then have k: "h_wait_through ?h = Some ?k" by auto
  have f: "\<not> h_closed ?h" "0 < recovery_page_size ?cfg" "0 < resume_pages_per_tick ?cfg"
    "\<forall>v \<in> set (wait_page ?cfg parked_sample ?h ?k). run_record raced_sample (rv_id v) \<noteq> None"
    "\<exists>v \<in> set (wait_page ?cfg parked_sample ?h ?k). \<not> still_parked raced_sample v"
    "map rv_id (filter (still_parked raced_sample) (wait_page ?cfg parked_sample ?h ?k)) = [''b'']" by code_simp+
  from raced_page_ends_the_wait_scan [OF f(1) k f(2-5), of ?answered]
  have "map rv_id (snd (snd (scan_answered_waits ?cfg parked_sample raced_sample ?answered ?h))) = [''b'']
      \<and> h_wait_through (fst (snd (scan_answered_waits ?cfg parked_sample raced_sample ?answered ?h))) = None"
    using f(6) by auto
  moreover have "h_requested (fst (snd (scan_answered_waits ?cfg parked_sample raced_sample ?answered ?h))) = []"
    "dict_keys (h_requested (fst (snd (scan_answered_waits ?cfg parked_sample parked_sample ?answered ?h)))) = [''c'']" by code_simp+
  ultimately show ?thesis by (simp only: Let_def)
qed

end
