(* ===== verification/Spec2Isabelle.thy ===== *)
theory Spec2Isabelle
  imports Compiler_Depth Panel Channel_Laws Journal_Laws Walker_Laws Blocking Effect_Laws Activation Authoring Host_Laws
begin

text \<open>
  \<^bold>\<open>Constructicon: a verification of its core.\<close> Constructicon (Python, under \<^verbatim>\<open>src/src/constructicon\<close>)
  is a system in which authored graphs of components are admitted against an immutable snapshot of a
  component registry, sealed as an execution manifest, activated on a host and executed by a walker over a durable journal.
  Commands of authenticated actors are recorded in a command ledger, and a run host keeps the coroutines that execute runs.
  The development models that path: the registry, the admission compiler and the manifest it seals, activation, the walker with
  effects and channels, the journal's tables, the ledger, and the state machine of the run host.

  \<^bold>\<open>Parts and theories.\<close>
  \<^item> \<open>Prelude\<close>: results of fallible code (\<open>rbind\<close>, \<open>rfold\<close>), Python dictionaries as association lists,
    \<^verbatim>\<open>sorted(set(..))\<close>, string helpers.
  \<^item> \<open>Identity\<close> (\<^verbatim>\<open>core/identity.py\<close>): wire values, canonical JSON, domain-separated digests, actor ids.
    The hash function is a parameter \<open>sha\<close>; identity theorems end in an explicit \<open>collision\<close> of it.
  \<^item> \<open>Grants\<close> (\<^verbatim>\<open>core/grants.py\<close>, the policies of \<^verbatim>\<open>core/executor.py\<close> and \<^verbatim>\<open>core/native_operator.py\<close>,
    \<^verbatim>\<open>_compile_grants\<close>): authority, its narrowing, and what an executor profile enforces.
  \<^item> \<open>Graph_IR\<close> (\<^verbatim>\<open>core/address.py\<close>, \<^verbatim>\<open>core/ports.py\<close>, \<^verbatim>\<open>core/graph.py\<close>): scopes, execution paths, ports,
    the recursive graph, and their dumps.
  \<^item> \<open>Faults\<close>, \<open>Topology\<close>, \<open>Port_Binding\<close>, \<open>Admission\<close> (\<^verbatim>\<open>runtime/validator.py\<close>): the admission compiler.
    \<open>Topology\<close> orders one graph level, \<open>Port_Binding\<close> chooses the sources of a port, \<open>Admission\<close> is the
    compiler itself with its state \<open>compilation\<close>.
  \<^item> \<open>Exchange\<close> (\<^verbatim>\<open>core/channel.py\<close>, \<^verbatim>\<open>core/human.py\<close>): which exchanges a channel binding may seal.
  \<^item> \<open>Component\<close>, \<open>Registry\<close>, \<open>Capability\<close> (\<^verbatim>\<open>core/component.py\<close>, \<^verbatim>\<open>core/registry.py\<close>, \<^verbatim>\<open>runtime/registry.py\<close>,
    \<^verbatim>\<open>runtime/_resolution.py\<close>): definitions and their identity, the store with its snapshots and promotions,
    the capability catalogue.
  \<^item> \<open>Attestation\<close> (\<^verbatim>\<open>core/effect.py\<close>): proofs, their identities, and what a promotion and a send need of one.
  \<^item> \<open>Promotions\<close> (\<^verbatim>\<open>runtime/registry.py\<close>): promotion by a minted proof, the bootstrap and rollback policies, reverse
    dependencies. \<open>Activation\<close> (same file): binding of stored versions to installed code and of capabilities to the catalog;
    the host's imports, attributes and source text are the fields of \<open>host\<close>.
  \<^item> \<open>Manifest\<close> (\<^verbatim>\<open>core/manifest.py\<close>): the sealed program and its identity.
  \<^item> \<open>Admission_Laws\<close>, \<open>Admitted\<close>, \<open>Compiler_Depth\<close>: the laws of the compiler.
  \<^item> \<open>Authoring\<close> (\<^verbatim>\<open>runtime/authoring.py\<close>, \<^verbatim>\<open>core/admission.py\<close>): preflight of a proposal against the limits and the declared
    capability requirements, classification and bound of the reported faults, and admission behind them. Preflight recurses
    through retained composites too; its termination proof counts the levels left under the nesting limit.
  \<^item> \<open>Panel\<close> (\<^verbatim>\<open>core/panel.py\<close>): votes, their placement on a manifest's members, and the sealed result.
  \<^item> \<open>Channel_Message\<close>, \<open>In_Process\<close>, \<open>Channel_Laws\<close> (\<^verbatim>\<open>core/channel.py\<close> and the in-process channel):
    messages and their identities, the channel's state and operations, and its laws as a step relation.
  \<^item> \<open>Run_Journal\<close> (\<^verbatim>\<open>core/run.py\<close>, \<^verbatim>\<open>core/journal.py\<close>, \<^verbatim>\<open>substrate/journal/_sqlite_execution.py\<close>): the execution journal as a
    record of tables, one definition per transaction: runs and their ownership by epoch, events, completions, effects,
    attestations and capability leases. \<open>Journal_Laws\<close>: the operations as a step relation \<open>journal_op\<close> over the statuses
    callers may expect, \<open>journal_step\<close> for the calls the walker makes, and the invariants.
  \<^item> \<open>Walk_Structure\<close>, \<open>Invocation\<close>, \<open>Walker\<close> (\<^verbatim>\<open>runtime/walker.py\<close>, \<^verbatim>\<open>runtime/context.py\<close>): the units of a manifest, their order and
    the values between them; one invocation of a component with its effects, channel exchanges and leased capabilities; the
    walk, its loops, the restoration from checkpoints, and the entry points.
  \<^item> \<open>Walk_Laws\<close>, \<open>Replay\<close>, \<open>Walker_Laws\<close>, \<open>Blocking\<close>, \<open>Effect_Laws\<close>: the laws of the walk.
  \<^item> \<open>Control\<close> (\<^verbatim>\<open>core/control.py\<close>): actors and scopes, command ids, the record of a command, and the laws that read a
    stored plan. \<open>Command_Ledger\<close> (\<^verbatim>\<open>substrate/control.py\<close>, the approval law of \<^verbatim>\<open>core/human.py\<close>): the ledger as a record
    \<open>control_store\<close>, one definition per locked operation: claim, renewal, plan, conclusion, refusal, approval, and the reads.
    \<open>Ledger_Laws\<close>: the step relation \<open>ledger_step\<close>, the four changes of a row it allows, and the invariant of the store.
  \<^item> \<open>Run_Host\<close> (\<^verbatim>\<open>api/run_host.py\<close>): the tasks, intents and scan cursors of the process as a record \<open>run_host\<close>; launching,
    finishing and replacing a coroutine, the recovery batch, and the scans of one pump tick. It reads the ledger through its
    pages and the journal through the rows of its queries. \<open>Paging\<close>: keyset pages. \<open>Host_Laws\<close>: the laws of the host.

  \<^bold>\<open>How a run is modelled.\<close> Component code is a program tree: it returns, raises, or asks for an effect, a channel or a
  capability and goes on with the answer. A \<open>world\<close> holds what the walker does not own: component code, adapters, injected
  objects, the clock, the heartbeat, and what other connections do to the journal between two operations, each indexed by a tick
  that every operation advances. So an interleaving with other workers is a function of the world, and a theorem over all
  worlds, or over all that keep to other leases (\<open>quiet_world\<close>) or to the journal's steps (\<open>stepping_world\<close>), is one over all
  interleavings of whole transactions.

  \<^bold>\<open>What is shown.\<close> Digests, canonical JSON, definitions, graphs and manifests identify their content up to
  a hash collision. A level's cycle search decides acyclicity and placement respects every connection.
  Port binding is sound and independent of source order. The registry's snapshots never change,
  promotions are compare-and-swap and carry a passing proof of exactly their edge, a rollback undoes the last move once, and
  activation accepts a manifest exactly when the recorded and sealed code and capabilities are there, and otherwise reports every fault.
  An admitted manifest holds no authority beyond the root grants, seals
  every instance and loop completely, and passes the checks its readers make. The compiler's result does
  not depend on its stack, it needs no more than an explicit number of frames on a ranked library, a composite
  that refers to itself exhausts every stack, and so does a chain of nodes that is as long as the stack. A panel concludes only from the votes of all its members and
  its result carries what a reader needs to recompute it. A channel reachable from the empty one is never damaged, retains one reply per request, and answers an inbox page at a cut the same way for ever. In the journal a superseded
  owner's writes are refused, completions and receipts never change, and a run stays succeeded or cancelled as long as no caller of
  \<^verbatim>\<open>transition_run\<close> expects those statuses, as none in the repository does. A walk, whatever it does and
  however it ends, takes journal steps only; a successful run is replayed exactly from its checkpoints, whatever happens to
  registry, journal and code in between; what is blocked waits for something that failed, parked or was blocked before it; and
  an effect with a terminal receipt is not performed again, while one recorded as unknown can never be settled. A command that was concluded is answered with its stored response for ever,
  a claimant whose lease was taken over writes nothing, an abandoned command can be taken over and concluded, and an approval is
  the decision of the command that wrote it. The host's recovery batch is the first claimable runs whatever the page size,
  a resume scan that comes to its end has examined every command concluded when it began, and it ends within one tick more than the ledger
  has resume commands; a launch never displaces a later attempt, and the tasks the host has recorded stay within its bound. Two theorems record where the host does less than its comments say: workers that
  are being replaced are not counted, and a raced page ends a scan of waiting runs early.

  \<^bold>\<open>Interfaces.\<close> \<open>narrowing\<close> (a preorder of authority and its compiler), \<open>scheduler\<close> (a level's order),
  \<open>registry_store\<close> (what the registry relies on in a store), \<open>compile_law\<close> (an induction principle for
  the compiler), \<open>answering\<close> (what a requester relies on in a channel), \<open>paged\<close> (what a client relies on in
  a keyset page), and \<open>node_law\<close> with its extension \<open>walk_law\<close> (what a law of
  the journal's operations gives for a node and for a whole walk) are locales, each interpreted on the model's own definitions;
  \<open>paged\<close> on the ledger's and on the journal's pages, the last two five times, once for each law of the walk.

  \<^bold>\<open>Fuel.\<close> Only the admission compiler takes fuel: the number of stack frames it may use. A frame is one call of the mutually recursive
  \<^verbatim>\<open>_compile_graph\<close>, \<^verbatim>\<open>_compile_node\<close> and \<^verbatim>\<open>_compile_loop\<close>, of \<^verbatim>\<open>_upstream_closure\<close> and its \<^verbatim>\<open>visit\<close>, or of \<^verbatim>\<open>_ordered_nodes\<close> and its \<^verbatim>\<open>place\<close>; the
  recursion goes through stored composites, which the registry does not bound, and along the connections of a level. Running out is the
  model's \<^verbatim>\<open>RecursionError\<close>. \<open>admission_depth_bound\<close> gives a sufficient number, \<open>authored_admission_bounded\<close> one in terms of the authoring
  limits, \<open>admission_depth_irrelevant\<close> shows that more never changes the verdict, and \<open>long_chain_exhausts_the_stack\<close> that a chain within
  the limits needs as many frames as it has nodes. Loops of the walker are bounded by the manifest's
  \<open>loop_max\<close>; program trees are finite. The host's loop over pages ends because every page moves its cut forward.

  \<^bold>\<open>Not modelled.\<close> Drivers of external processes (\<^verbatim>\<open>substrate/executors\<close>, \<^verbatim>\<open>substrate/git\<close>), the text of the SQL statements,
  schema migrations and seals of the SQLite journal, the HTTP and MCP surface and the operational scripts are I/O. Cancellation
  of the asyncio task between two awaits and the death of the process inside a transaction are outside the walk's model.
  Of the control plane, the command handlers of \<^verbatim>\<open>api/_control_commands.py\<close> and the SQLite ledger behind the same contract are not
  modelled, nor is the event loop under the run host: waiting, waking, cancelling and reporting. The transactions of one recovery batch of the
  host read one state of the journal. The mailbox channel and
  metering are not modelled.
\<close>

section \<open>Properties that span components\<close>

lemma version_persists:
  "store_steps s t \<Longrightarrow> map_of (dict_get_or [] (st_versions s) n) k = Some v \<Longrightarrow> map_of (dict_get_or [] (st_versions t) n) k = Some v"
proof (induction rule: store_steps.induct)
  case (Step s t u)
  from Step.hyps(2) show ?case
  proof (cases rule: store_step.cases)
    case (Register w)
    then show ?thesis using Step by (cases rule: store_version_cases) (auto simp: dict_get_or_update)
  next
    case (Promote p p')
    then show ?thesis using Step by (cases rule: store_promotion_cases) auto
  qed
qed simp

lemma materialization_instances_cong:
  "(\<And>r. r \<in> set rs \<Longrightarrow> get_version later_snap (res_component r) (resolved_version r) = get_version first_snap (res_component r) (resolved_version r)) \<Longrightarrow>
   materialization_instances later_snap rs = materialization_instances first_snap rs"
  by (induction rs) (auto split: option.splits comp_body.splits)

lemma run_prepared_snapshot:
  assumes "map_of (runs j) run = Some row" "map_of (manifests j) (run_manifest row) = Some m"
    and "\<And>r. r \<in> set (resolved_components m) \<Longrightarrow>
      get_version later_snap (res_component r) (resolved_version r) = get_version first_snap (res_component r) (resolved_version r)"
  shows "run_prepared w bound later_snap run owner seq statuses cause j = run_prepared w bound first_snap run owner seq statuses cause j"
  using materialization_instances_cong [OF assms(3)] by (simp add: run_prepared_def materialize_run_def assms(1,2))

text \<open>
  C1. A successful run is replayed exactly, across registry, activation, walker and journal. When a manifest was activated on a
  registry and a call that runs or resumes its run succeeds, then after whatever other work on the journal and whatever further
  registrations, promotions and rollbacks, any later call for that run that names neither an expected event nor expected statuses,
  on any worker, with any component code, adapters and capabilities, returns the same result from the checkpoints alone; a later call
  that names one, as the run host's do, is refused as superseded or as having nothing to claim. Either way the journal is left as it is. A loop is assumed to have
  members, and other connections to work under other leases.
\<close>

theorem activated_run_replays:
  assumes "reachable s" "store_snapshot s None = Inr first_snap" "activate sha h s impls assembly m = Inr (Inr bs)"
    and "run_prepared w (bound_in bs) first_snap run owner seq statuses cause j = Inr (r, j1)" "res_status r = Succeeded"
    and "map_of (runs j) run = Some row" "map_of (manifests j) (run_manifest row) = Some m"
    and "\<And>e. quiet_world w \<lparr>lease_of = run, lease_owner = owner, lease_epoch = e\<rparr>" "inhabited_loops m"
    and "journal_steps (w_sha w) j1 j2" "w_sha w' = w_sha w" "store_steps s t" "store_snapshot t None = Inr later_snap"
  shows "run_prepared w' bound' later_snap run owner' None None cause' j2 = Inr (r, j2)
    \<and> (\<forall>seq' statuses'. seq' \<noteq> None \<or> statuses' \<noteq> None \<longrightarrow>
         (\<exists>e \<in> {RunAttemptSuperseded run, ContractViolation ''nothing to claim''}.
            run_prepared w' bound' later_snap run owner' seq' statuses' cause' j2 = Inl (e, j2)))"
proof -
  have a: "activated first_snap (bound_in bs) m" using activation_bound [OF assms(3,2)] .
  have again: "run_prepared w' bound' first_snap run owner' None None cause' j2 = Inr (r, j2)"
    and row2: "\<exists>row2. map_of (runs j2) run = Some row2 \<and> map_of (manifests j2) (run_manifest row2) = Some m \<and> run_status row2 = Succeeded"
    using finished_run_replays [OF assms(4-8) a assms(9-11)] by blast+
  then obtain row2 where row2: "map_of (runs j2) run = Some row2" "map_of (manifests j2) (run_manifest row2) = Some m"
    and finished: "run_status row2 = Succeeded" by blast
  have ok: "store_ok s" "store_ok t" using assms(1,12) reachable_ok store_ok_steps by blast+
  have look: "get_version first_snap n k = map_of (dict_get_or [] (st_versions s) n) k" "get_version later_snap n k = map_of (dict_get_or [] (st_versions t) n) k" for n k
    using snapshot_total [OF ok(1)] snapshot_total [OF ok(2)] assms(2,13) by auto
  have "get_version later_snap (res_component r) (resolved_version r) = get_version first_snap (res_component r) (resolved_version r)"
    if "r \<in> set (resolved_components m)" for r
    using a that version_persists [OF assms(12)] by (auto simp: activated_def Let_def look)
  from run_prepared_snapshot [OF row2 this] again have "run_prepared w' bound' later_snap run owner' None None cause' j2 = Inr (r, j2)" by simp
  then show ?thesis using finished_run_refuses [OF row2(1) finished row2(2)] by blast
qed

theorem activated_run_replays_witness:
  "case run_prepared sample_world (bound_in sample_bindings) sample_snapshot ''r'' ''w1'' None None None one_node_journal of
     Inl _ \<Rightarrow> False
   | Inr (r, j) \<Rightarrow> res_outputs r = [(''o'', JInt 7)] \<and>
       run_prepared (sample_world\<lparr>w_code := \<lambda>c v ctx ins. Throw CancelRequested\<rparr>) sample_bound sample_snapshot ''r'' ''w2'' None None None j = Inr (r, j)
       \<and> (\<exists>e. run_prepared (sample_world\<lparr>w_code := \<lambda>c v ctx ins. Throw CancelRequested\<rparr>) sample_bound sample_snapshot ''r'' ''w2'' (Some 1) None None j = Inl (e, j))"
proof -
  let ?run = "run_prepared sample_world (bound_in sample_bindings) sample_snapshot ''r'' ''w1'' None None None one_node_journal"
  have "case ?run of Inl _ \<Rightarrow> False | Inr (r, j) \<Rightarrow> res_status r = Succeeded \<and> res_outputs r = [(''o'', JInt 7)]"
    by code_simp
  then obtain r j where r: "?run = Inr (r, j)" "res_status r = Succeeded" "res_outputs r = [(''o'', JInt 7)]"
    by (auto split: sum.splits)
  have s: "reachable walk_store"
    unfolding reachable_def by (rule store_steps.Step [OF store_steps.Refl]) (rule store_step.Register [of _ Walker_Laws.sample_version], code_simp)
  have row: "map_of (runs one_node_journal) ''r'' = Some sample_run" "map_of (manifests one_node_journal) (run_manifest sample_run) = Some one_node"
    "inhabited_loops one_node"
    by (simp_all add: one_node_journal_def sample_run_def inhabited_loops_def one_node_def)
  have w: "w_sha (sample_world\<lparr>w_code := \<lambda>c v ctx ins. Throw CancelRequested\<rparr>) = w_sha sample_world" by simp
  note again = activated_run_replays [OF s sample_activation r(1,2) row(1,2) sample_worlds(1) row(3) rtranclp.rtrancl_refl w store_steps.Refl sample_activation(1),
      of sample_bound "''w2''" None]
  have "\<exists>e. run_prepared (sample_world\<lparr>w_code := \<lambda>c v ctx ins. Throw CancelRequested\<rparr>) sample_bound sample_snapshot ''r'' ''w2'' (Some 1) None None j = Inl (e, j)"
    using again by blast
  then show ?thesis using r conjunct1 [OF again] by simp
qed

end
